(* ===== verification/Prelude.thy ===== *)
theory Prelude
  imports Main "HOL-Library.Word" "HOL-Library.AList" "HOL-Library.Monad_Syntax"
    "HOL-Library.Sublist"
begin

unbundle bit_operations_syntax

text \<open>
  Shared vocabulary of the development.

  A MongoDB process aborts when an \<^verbatim>\<open>invariant(...)\<close> of the source is false.  The
  models keep every such check: an operation returns an option, and \<^term>\<open>None\<close> is the
  aborted process.  \<open>invariant\<close> is the check itself, and operations are
  written with the \<open>do\<close> blocks of the option monad.

  The rest of the theory holds the generic lemmas on lists, counts, bit masks and association
  lists that the component theories share.
\<close>

named_theorems fail_simps \<open>unfolding of checks in the option monad\<close>
named_theorems mask_simps \<open>bit masks built from counts\<close>

definition invariant :: "bool \<Rightarrow> unit option" where
  "invariant b = (if b then Some () else None)"

lemma invariant_True [simp, fail_simps]: "b \<Longrightarrow> invariant b = Some ()"
  by (simp add: invariant_def)

lemma invariant_eq_Some [simp]: "invariant b = Some u \<longleftrightarrow> b"
  by (simp add: invariant_def)

lemma invariant_eq_None [simp]: "invariant b = None \<longleftrightarrow> \<not> b"
  by (simp add: invariant_def)

lemma bind_invariant [fail_simps]: "(invariant b \<bind> f) = (if b then f () else None)"
  by (simp add: invariant_def)

lemma bind_invariant_eq_Some [simp]: "(invariant b \<bind> f) = Some x \<longleftrightarrow> b \<and> f () = Some x"
  by (simp add: invariant_def)

section \<open>Totals over lists\<close>

text \<open>
  The counters of the source (granted modes, conversions, votes, open connections) are sums of a
  contribution of each element of a list.  \<open>tally\<close> is that sum; the lemmas say how it changes when
  an element joins, leaves or is updated in the store it lives in.
\<close>

definition tally :: "('a \<Rightarrow> nat) \<Rightarrow> 'a list \<Rightarrow> nat" where
  "tally f xs = sum_list (map f xs)"

definition ind :: "bool \<Rightarrow> nat" where
  "ind b = (if b then 1 else 0)"

lemma ind_simps [simp]: "ind True = 1" "ind False = 0"
  by (simp_all add: ind_def)

lemma ind_pos [simp]: "0 < ind b \<longleftrightarrow> b" and ind_eq_0 [simp]: "ind b = 0 \<longleftrightarrow> \<not> b"
  by (simp_all add: ind_def)

lemma ind_le_1: "ind b \<le> 1"
  by (simp add: ind_def)

lemma tally_Nil [simp]: "tally f [] = 0"
  by (simp add: tally_def)

lemma tally_Cons [simp]: "tally f (x # xs) = f x + tally f xs"
  by (simp add: tally_def)

lemma tally_append [simp]: "tally f (xs @ ys) = tally f xs + tally f ys"
  by (simp add: tally_def)

lemma tally_cong: "(\<And>x. x \<in> set xs \<Longrightarrow> f x = g x) \<Longrightarrow> tally f xs = tally g xs"
  by (simp add: tally_def cong: map_cong)

lemma tally_pos: "0 < tally f xs \<longleftrightarrow> (\<exists>x \<in> set xs. 0 < f x)"
  by (induction xs) auto

lemma tally_zero: "tally f xs = 0 \<longleftrightarrow> (\<forall>x \<in> set xs. f x = 0)"
  by (induction xs) auto

lemma tally_remove1: "x \<in> set xs \<Longrightarrow> tally f xs = f x + tally f (remove1 x xs)"
  by (induction xs) auto

lemma tally_ge_member: "x \<in> set xs \<Longrightarrow> f x \<le> tally f xs"
  by (simp add: tally_remove1)

lemma tally_le_length: "(\<And>x. x \<in> set xs \<Longrightarrow> f x \<le> 1) \<Longrightarrow> tally f xs \<le> length xs"
  by (induction xs) force+

lemma tally_ind_eq_filter: "tally (\<lambda>x. ind (P x)) xs = length (filter P xs)"
  by (induction xs) auto

text \<open>The tally of the objects that a list of addresses denotes in a store.\<close>

definition tallyOn :: "('o \<Rightarrow> nat) \<Rightarrow> ('a \<Rightarrow> 'o) \<Rightarrow> 'a list \<Rightarrow> nat" where
  "tallyOn g hp xs = tally (\<lambda>r. g (hp r)) xs"

lemma tallyOn_simps [simp]:
  "tallyOn g hp [] = 0" "tallyOn g hp (r # rs) = g (hp r) + tallyOn g hp rs"
  "tallyOn g hp (xs @ ys) = tallyOn g hp xs + tallyOn g hp ys"
  by (simp_all add: tallyOn_def)

lemma tallyOn_pos: "0 < tallyOn g hp xs \<longleftrightarrow> (\<exists>r \<in> set xs. 0 < g (hp r))"
  by (simp add: tallyOn_def tally_pos)

lemma tallyOn_zero: "tallyOn g hp xs = 0 \<longleftrightarrow> (\<forall>r \<in> set xs. g (hp r) = 0)"
  by (simp add: tallyOn_def tally_zero)

lemma tallyOn_ge: "r \<in> set xs \<Longrightarrow> g (hp r) \<le> tallyOn g hp xs"
  unfolding tallyOn_def by (rule tally_ge_member)

lemma tallyOn_remove1: "r \<in> set xs \<Longrightarrow> tallyOn g hp (remove1 r xs) = tallyOn g hp xs - g (hp r)"
  unfolding tallyOn_def by (simp add: tally_remove1 [of r xs])

lemma tallyOn_split: "r \<in> set xs \<Longrightarrow> tallyOn g hp xs = g (hp r) + tallyOn g hp (remove1 r xs)"
  unfolding tallyOn_def by (rule tally_remove1)

lemma tallyOn_ge2:
  assumes "r \<in> set xs" "s \<in> set xs" "r \<noteq> s"
  shows "g (hp r) + g (hp s) \<le> tallyOn g hp xs"
proof -
  have "s \<in> set (remove1 r xs)" using assms by (simp add: in_set_remove1)
  then have "g (hp s) \<le> tallyOn g hp (remove1 r xs)" by (rule tallyOn_ge)
  then show ?thesis using tallyOn_split [OF assms(1), of g hp] by simp
qed

lemma tallyOn_upd_notin [simp]: "r \<notin> set xs \<Longrightarrow> tallyOn g (hp(r := q)) xs = tallyOn g hp xs"
  unfolding tallyOn_def by (rule tally_cong) auto

lemma tallyOn_cong:
  "(\<And>r. r \<in> set xs \<Longrightarrow> g (hp r) = g' (hp' r)) \<Longrightarrow> tallyOn g hp xs = tallyOn g' hp' xs"
  unfolding tallyOn_def by (rule tally_cong)

lemma tallyOn_upd:
  assumes "distinct xs" "r \<in> set xs"
  shows "tallyOn g (hp(r := q)) xs = tallyOn g hp xs - g (hp r) + g q"
proof -
  have "r \<notin> set (remove1 r xs)" using assms by simp
  then show ?thesis
    using tallyOn_split [OF assms(2), of g hp] tallyOn_split [OF assms(2), of g "hp(r := q)"] by simp
qed

section \<open>Subsequences\<close>

lemma subseq_set: "subseq xs ys \<Longrightarrow> set xs \<subseteq> set ys"
  by (induction rule: list_emb.induct) auto

lemma subseq_distinct: "subseq xs ys \<Longrightarrow> distinct ys \<Longrightarrow> distinct xs"
  by (induction rule: list_emb.induct) (use subseq_set in force)+

end
