(* ===== verification/Lock_Modes.thy ===== *)
theory Lock_Modes
  imports Prelude
begin

text \<open>
  Lock modes, the conflict table and resource identifiers
  (\<^verbatim>\<open>src/mongo/db/concurrency/lock_manager_defs.h\<close> and the tables and helper calls of
  \<^verbatim>\<open>lock_manager.cpp\<close>).  Mode masks are 32-bit words, resource hashes 64-bit words.
  The lemmas relate the bit tables to the compatibility matrix documented beside the enum and
  characterise \<open>isModeCovered\<close> and the packing of a resource type into a hash.
\<close>

section \<open>Definitions\<close>

datatype LockMode = MODE_NONE | MODE_IS | MODE_IX | MODE_S | MODE_X

fun lockModeIndex :: "LockMode \<Rightarrow> nat" where
  "lockModeIndex MODE_NONE = 0"
| "lockModeIndex MODE_IS = 1"
| "lockModeIndex MODE_IX = 2"
| "lockModeIndex MODE_S = 3"
| "lockModeIndex MODE_X = 4"

definition allLockModes :: "LockMode list" where
  "allLockModes = [MODE_NONE, MODE_IS, MODE_IX, MODE_S, MODE_X]"

definition modeMask :: "LockMode \<Rightarrow> 32 word" where
  "modeMask m = push_bit (lockModeIndex m) 1"

fun LockConflictsTable :: "LockMode \<Rightarrow> 32 word" where
  "LockConflictsTable MODE_NONE = 0"
| "LockConflictsTable MODE_IS = modeMask MODE_X"
| "LockConflictsTable MODE_IX = modeMask MODE_S OR modeMask MODE_X"
| "LockConflictsTable MODE_S = modeMask MODE_IX OR modeMask MODE_X"
| "LockConflictsTable MODE_X =
     modeMask MODE_S OR modeMask MODE_X OR modeMask MODE_IS OR modeMask MODE_IX"

definition intentModes :: "32 word" where
  "intentModes = modeMask MODE_IS OR modeMask MODE_IX"

definition conflicts :: "LockMode \<Rightarrow> 32 word \<Rightarrow> bool" where
  "conflicts newMode existingModesMask \<longleftrightarrow> LockConflictsTable newMode AND existingModesMask \<noteq> 0"

definition isModeCovered :: "LockMode \<Rightarrow> LockMode \<Rightarrow> bool" where
  "isModeCovered mode coveringMode \<longleftrightarrow>
     LockConflictsTable coveringMode OR LockConflictsTable mode = LockConflictsTable coveringMode"

definition isSharedLockMode :: "LockMode \<Rightarrow> bool" where
  "isSharedLockMode mode \<longleftrightarrow> mode = MODE_IS \<or> mode = MODE_S"

fun modeName :: "LockMode \<Rightarrow> string" where
  "modeName MODE_NONE = ''NONE''"
| "modeName MODE_IS = ''IS''"
| "modeName MODE_IX = ''IX''"
| "modeName MODE_S = ''S''"
| "modeName MODE_X = ''X''"

fun legacyModeName :: "LockMode \<Rightarrow> string" where
  "legacyModeName MODE_NONE = ''''"
| "legacyModeName MODE_IS = ''r''"
| "legacyModeName MODE_IX = ''w''"
| "legacyModeName MODE_S = ''R''"
| "legacyModeName MODE_X = ''W''"

datatype LockResult = LOCK_OK | LOCK_WAITING | LOCK_TIMEOUT | LOCK_DEADLOCK | LOCK_INVALID

datatype ResourceType =
  RESOURCE_INVALID | RESOURCE_GLOBAL | RESOURCE_MMAPV1_FLUSH | RESOURCE_DATABASE
| RESOURCE_COLLECTION | RESOURCE_METADATA | RESOURCE_MUTEX

fun resourceTypeIndex :: "ResourceType \<Rightarrow> nat" where
  "resourceTypeIndex RESOURCE_INVALID = 0"
| "resourceTypeIndex RESOURCE_GLOBAL = 1"
| "resourceTypeIndex RESOURCE_MMAPV1_FLUSH = 2"
| "resourceTypeIndex RESOURCE_DATABASE = 3"
| "resourceTypeIndex RESOURCE_COLLECTION = 4"
| "resourceTypeIndex RESOURCE_METADATA = 5"
| "resourceTypeIndex RESOURCE_MUTEX = 6"

fun resourceTypeName :: "ResourceType \<Rightarrow> string" where
  "resourceTypeName RESOURCE_INVALID = ''Invalid''"
| "resourceTypeName RESOURCE_GLOBAL = ''Global''"
| "resourceTypeName RESOURCE_MMAPV1_FLUSH = ''MMAPV1Journal''"
| "resourceTypeName RESOURCE_DATABASE = ''Database''"
| "resourceTypeName RESOURCE_COLLECTION = ''Collection''"
| "resourceTypeName RESOURCE_METADATA = ''Metadata''"
| "resourceTypeName RESOURCE_MUTEX = ''Mutex''"

type_synonym ResourceId = "64 word"
type_synonym LockerId = "64 word"

definition resourceTypeBits :: nat where
  "resourceTypeBits = 3"

text \<open>The constructor's packing: the type in the top three bits, the hash below them.\<close>

definition fullHash :: "ResourceType \<Rightarrow> 64 word \<Rightarrow> ResourceId" where
  "fullHash type hashId =
     push_bit (64 - resourceTypeBits) (of_nat (resourceTypeIndex type)) +
     (hashId AND drop_bit resourceTypeBits (- 1))"

text \<open>\<open>getType\<close> casts the top bits to the enum; a pattern no enumerator has is \<^term>\<open>None\<close>.\<close>

definition getTypeIndex :: "ResourceId \<Rightarrow> nat" where
  "getTypeIndex fh = unat (drop_bit (64 - resourceTypeBits) fh)"

fun resourceTypeOf :: "nat \<Rightarrow> ResourceType option" where
  "resourceTypeOf i =
     (if i = 0 then Some RESOURCE_INVALID else if i = 1 then Some RESOURCE_GLOBAL
      else if i = 2 then Some RESOURCE_MMAPV1_FLUSH else if i = 3 then Some RESOURCE_DATABASE
      else if i = 4 then Some RESOURCE_COLLECTION else if i = 5 then Some RESOURCE_METADATA
      else if i = 6 then Some RESOURCE_MUTEX else None)"

definition getType :: "ResourceId \<Rightarrow> ResourceType option" where
  "getType fh = resourceTypeOf (getTypeIndex fh)"

definition getHashId :: "ResourceId \<Rightarrow> 64 word" where
  "getHashId fh = fh AND drop_bit resourceTypeBits (- 1)"

definition isValidResource :: "ResourceId \<Rightarrow> bool" where
  "isValidResource fh \<longleftrightarrow> getType fh \<noteq> Some RESOURCE_INVALID"

text \<open>The documented compatibility matrix, as a relation between a requested and a granted mode.\<close>

fun compatible :: "LockMode \<Rightarrow> LockMode \<Rightarrow> bool" where
  "compatible MODE_NONE _ = True"
| "compatible _ MODE_NONE = True"
| "compatible MODE_IS m = (m \<noteq> MODE_X)"
| "compatible MODE_IX m = (m = MODE_IS \<or> m = MODE_IX)"
| "compatible MODE_S m = (m = MODE_IS \<or> m = MODE_S)"
| "compatible MODE_X m = False"

text \<open>The mask kept in lock-step with an array of counters.\<close>

definition maskOf :: "(LockMode \<Rightarrow> nat) \<Rightarrow> 32 word" where
  "maskOf c = fold (\<lambda>m acc. acc OR (if 0 < c m then modeMask m else 0)) allLockModes 0"

section \<open>Conflicts and masks\<close>

lemma lockMode_UNIV: "(UNIV :: LockMode set) = set allLockModes"
  by (auto simp: allLockModes_def intro: LockMode.exhaust)

lemma lockModeIndex_inj [simp]: "lockModeIndex a = lockModeIndex b \<longleftrightarrow> a = b"
  by (cases a; cases b) simp_all

lemma lockModeIndex_less: "lockModeIndex m < 5"
  by (cases m) simp_all

lemma bit_modeMask [simp]: "bit (modeMask m) n \<longleftrightarrow> n = lockModeIndex m"
  using lockModeIndex_less [of m] by (auto simp: modeMask_def bit_simps)

lemma modeMask_nonzero [simp]: "modeMask m \<noteq> 0"
  using bit_modeMask [of m "lockModeIndex m"] by fastforce

lemma bit_LockConflictsTable:
  "bit (LockConflictsTable n) i \<longleftrightarrow> (\<exists>m. i = lockModeIndex m \<and> \<not> compatible n m)"
proof -
  have "(\<exists>m. i = lockModeIndex m \<and> \<not> compatible n m) \<longleftrightarrow>
        (\<exists>m \<in> set allLockModes. i = lockModeIndex m \<and> \<not> compatible n m)"
    using lockMode_UNIV by auto
  then show ?thesis
    by (cases n) (auto simp: allLockModes_def bit_or_iff)
qed

lemma word_and_nonzero_iff: "(a :: 32 word) AND b \<noteq> 0 \<longleftrightarrow> (\<exists>i. bit a i \<and> bit b i)"
proof -
  have "a AND b = 0 \<longleftrightarrow> (\<forall>i. \<not> (bit a i \<and> bit b i))"
  proof
    assume "a AND b = 0"
    then show "\<forall>i. \<not> (bit a i \<and> bit b i)" by (metis bit_and_iff bit_0_eq bot_apply bot_bool_def)
  qed (auto intro!: bit_word_eqI simp: bit_and_iff)
  then show ?thesis by blast
qed

lemma conflicts_iff:
  "conflicts n msk \<longleftrightarrow> (\<exists>m. bit msk (lockModeIndex m) \<and> \<not> compatible n m)"
  by (auto simp: conflicts_def word_and_nonzero_iff bit_LockConflictsTable)

lemma conflicts_modeMask [simp]: "conflicts n (modeMask m) \<longleftrightarrow> \<not> compatible n m"
  by (auto simp: conflicts_iff)

lemma conflicts_zero [simp]: "\<not> conflicts n 0"
  by (simp add: conflicts_def)

lemma conflicts_or: "conflicts n (a OR b) \<longleftrightarrow> conflicts n a \<or> conflicts n b"
  by (auto simp: conflicts_iff bit_or_iff)

lemma compatible_sym: "compatible a b \<longleftrightarrow> compatible b a"
  by (cases a; cases b) simp_all

lemma compatible_NONE_right [simp]: "compatible a MODE_NONE"
  by (cases a) simp_all

lemma isModeCovered_iff: "isModeCovered a b \<longleftrightarrow> (\<forall>m. compatible b m \<longrightarrow> compatible a m)"
proof -
  have "isModeCovered a b \<longleftrightarrow> (\<forall>i. bit (LockConflictsTable a) i \<longrightarrow> bit (LockConflictsTable b) i)"
  proof
    assume "isModeCovered a b"
    then show "\<forall>i. bit (LockConflictsTable a) i \<longrightarrow> bit (LockConflictsTable b) i"
      unfolding isModeCovered_def using bit_or_iff [of "LockConflictsTable b" "LockConflictsTable a"]
      by metis
  qed (auto simp: isModeCovered_def bit_or_iff intro!: bit_word_eqI)
  also have "\<dots> \<longleftrightarrow> (\<forall>m. \<not> compatible a m \<longrightarrow> \<not> compatible b m)"
    by (auto simp: bit_LockConflictsTable)
  finally show ?thesis by blast
qed

lemma isModeCovered_cases:
  "isModeCovered a b \<longleftrightarrow> a = MODE_NONE \<or> a = b \<or> b = MODE_X \<or> (a = MODE_IS \<and> b \<noteq> MODE_NONE)"
proof -
  have "(\<forall>m. compatible b m \<longrightarrow> compatible a m) \<longleftrightarrow>
        (\<forall>m \<in> set allLockModes. compatible b m \<longrightarrow> compatible a m)"
    using lockMode_UNIV by auto
  then show ?thesis
    unfolding isModeCovered_iff by (cases a; cases b) (auto simp: allLockModes_def)
qed

lemma bit_if_modeMask: "bit (if b then modeMask m else 0) i \<longleftrightarrow> b \<and> i = lockModeIndex m"
  by simp

lemma bit_maskOf: "bit (maskOf c) i \<longleftrightarrow> (\<exists>m. i = lockModeIndex m \<and> 0 < c m)"
proof -
  have "(\<exists>m. i = lockModeIndex m \<and> 0 < c m) \<longleftrightarrow>
        (\<exists>m \<in> set allLockModes. i = lockModeIndex m \<and> 0 < c m)"
    using lockMode_UNIV by auto
  then show ?thesis
    by (simp add: maskOf_def allLockModes_def bit_or_iff bit_if_modeMask) blast
qed

lemma conflicts_maskOf: "conflicts n (maskOf c) \<longleftrightarrow> (\<exists>m. 0 < c m \<and> \<not> compatible n m)"
  by (auto simp: conflicts_iff bit_maskOf)

lemma maskOf_eq_0: "maskOf c = 0 \<longleftrightarrow> (\<forall>m. c m = 0)"
proof
  assume "maskOf c = 0"
  then have "\<not> bit (maskOf c) (lockModeIndex m)" for m by simp
  then show "\<forall>m. c m = 0" by (simp add: bit_maskOf)
next
  assume "\<forall>m. c m = 0"
  then show "maskOf c = 0" by (simp add: maskOf_def allLockModes_def)
qed

lemma maskOf_inc: "maskOf (c(m := Suc (c m))) = maskOf c OR modeMask m"
  by (rule bit_word_eqI) (auto simp: bit_maskOf bit_or_iff)

lemma maskOf_inc_pos: "0 < c m \<Longrightarrow> maskOf (c(m := Suc (c m))) = maskOf c"
  by (rule bit_word_eqI) (auto simp: bit_maskOf)

lemma maskOf_dec_pos: "1 < c m \<Longrightarrow> maskOf (c(m := c m - 1)) = maskOf c"
  by (rule bit_word_eqI) (auto simp: bit_maskOf)

lemma maskOf_dec_zero: "c m = 1 \<Longrightarrow> maskOf (c(m := 0)) = maskOf c AND NOT (modeMask m)"
  by (rule bit_word_eqI) (auto simp: bit_maskOf bit_simps)

lemma maskOf_and_mode: "maskOf c AND modeMask m = (if 0 < c m then modeMask m else 0)"
  by (rule bit_word_eqI) (auto simp: bit_maskOf bit_simps)

lemma maskOf_intent:
  "maskOf c AND NOT intentModes = 0 \<longleftrightarrow> (\<forall>m. 0 < c m \<longrightarrow> m = MODE_IS \<or> m = MODE_IX)"
proof -
  have "maskOf c AND NOT intentModes = 0 \<longleftrightarrow>
        (\<forall>i. \<not> (bit (maskOf c) i \<and> bit (NOT intentModes) i))"
    using word_and_nonzero_iff by blast
  also have "\<dots> \<longleftrightarrow> (\<forall>m. 0 < c m \<longrightarrow> m = MODE_IS \<or> m = MODE_IX)"
  proof -
    have "bit (NOT intentModes) (lockModeIndex m) \<longleftrightarrow> m \<noteq> MODE_IS \<and> m \<noteq> MODE_IX" for m
      using lockModeIndex_less [of m]
      by (cases m) (auto simp: intentModes_def bit_simps)
    then show ?thesis unfolding bit_maskOf by metis
  qed
  finally show ?thesis .
qed

lemma compatible_intent:
  "m = MODE_IS \<or> m = MODE_IX \<Longrightarrow> n = MODE_IS \<or> n = MODE_IX \<Longrightarrow> compatible m n"
  by auto

lemma compatible_X_iff: "compatible MODE_X m \<longleftrightarrow> m = MODE_NONE"
  by (cases m) simp_all

section \<open>Resource identifiers\<close>

lemma hashMask: "(hashId :: 64 word) AND drop_bit resourceTypeBits (- 1) = take_bit 61 hashId"
proof -
  have "drop_bit resourceTypeBits (- 1 :: 64 word) = mask 61"
    by (rule bit_word_eqI) (auto simp: resourceTypeBits_def bit_simps)
  then show ?thesis by (simp add: take_bit_eq_mask)
qed

lemma resourceTypeIndex_less: "resourceTypeIndex t < 7"
  by (cases t) simp_all

lemma unat_fullHash:
  "unat (fullHash t h) = resourceTypeIndex t * 2 ^ 61 + unat h mod 2 ^ 61"
proof -
  have t: "unat (of_nat (resourceTypeIndex t) :: 64 word) = resourceTypeIndex t"
    using resourceTypeIndex_less [of t] by (simp add: unat_of_nat)
  have 1: "unat (push_bit 61 (of_nat (resourceTypeIndex t)) :: 64 word) = resourceTypeIndex t * 2 ^ 61"
    using resourceTypeIndex_less [of t]
    by (cases t) simp_all
  have 2: "unat (take_bit 61 h) = unat h mod 2 ^ 61"
    unfolding unsigned_take_bit_eq by (rule take_bit_eq_mod)
  have "unat h mod 2 ^ 61 < 2 ^ 61" by simp
  moreover have "resourceTypeIndex t * 2 ^ 61 \<le> 6 * 2 ^ 61"
    using resourceTypeIndex_less [of t] by (intro mult_le_mono1) simp
  ultimately have "resourceTypeIndex t * 2 ^ 61 + unat h mod 2 ^ 61 < 2 ^ 64"
    by simp
  then show ?thesis
    unfolding fullHash_def hashMask by (simp add: resourceTypeBits_def unat_word_ariths 1 2)
qed

lemma getTypeIndex_fullHash: "getTypeIndex (fullHash t h) = resourceTypeIndex t"
proof -
  have "unat (drop_bit 61 (fullHash t h)) = unat (fullHash t h) div 2 ^ 61"
    unfolding unat_drop_bit_eq by (rule drop_bit_eq_div)
  then show ?thesis by (simp add: getTypeIndex_def resourceTypeBits_def unat_fullHash)
qed

lemma resourceTypeOf_index: "resourceTypeOf (resourceTypeIndex t) = Some t"
  by (cases t) simp_all

lemma getType_fullHash: "getType (fullHash t h) = Some t"
  by (simp only: getType_def getTypeIndex_fullHash resourceTypeOf_index)

lemma getHashId_fullHash: "getHashId (fullHash t h) = getHashId h"
proof -
  have "unat (take_bit 61 (fullHash t h)) = unat (take_bit 61 h)"
    unfolding unsigned_take_bit_eq unat_fullHash by (simp add: take_bit_eq_mod)
  then show ?thesis unfolding getHashId_def hashMask by (simp only: word_unat_eq_iff)
qed

lemma fullHash_less_type:
  "resourceTypeIndex t < resourceTypeIndex u \<Longrightarrow> fullHash t h < fullHash u k"
proof -
  assume "resourceTypeIndex t < resourceTypeIndex u"
  then have "resourceTypeIndex t * 2 ^ 61 + 2 ^ 61 \<le> resourceTypeIndex u * 2 ^ 61"
    using mult_le_mono1 [of "Suc (resourceTypeIndex t)" "resourceTypeIndex u" "2 ^ 61"] by simp
  moreover have "unat h mod 2 ^ 61 < 2 ^ 61" by simp
  ultimately show ?thesis
    unfolding word_less_nat_alt unat_fullHash by linarith
qed
end
