(* ===== verification/Lock_Request_List.thy ===== *)
theory Lock_Request_List
  imports Prelude
begin

text \<open>
  The intrusive doubly linked list of \<^verbatim>\<open>src/mongo/db/concurrency/lock_request_list.h\<close>.
  Requests are addresses; the \<open>prev\<close> and \<open>next\<close> fields of all requests are one store, shared
  by every list, and a list is its two end pointers.  The theory states what a queue of
  requests promises as the locale \<open>request_queue\<close>, proves in it that every legal sequence of
  operations acts on the represented sequence as the list operations do, and discharges the
  contract for the pointer code.  The lock manager's model works on the represented sequences.
\<close>

section \<open>Definitions\<close>

type_synonym ReqPtr = nat

record links =
  prev :: "ReqPtr \<Rightarrow> ReqPtr option"
  nxt :: "ReqPtr \<Rightarrow> ReqPtr option"

record LockRequestList =
  frontP :: "ReqPtr option"
  backP :: "ReqPtr option"

type_synonym list_state = "links \<times> LockRequestList"

definition setPrev :: "ReqPtr \<Rightarrow> ReqPtr option \<Rightarrow> links \<Rightarrow> links" where
  "setPrev r v s = s\<lparr>prev := (prev s)(r := v)\<rparr>"

definition setNext :: "ReqPtr \<Rightarrow> ReqPtr option \<Rightarrow> links \<Rightarrow> links" where
  "setNext r v s = s\<lparr>nxt := (nxt s)(r := v)\<rparr>"

definition push_front :: "ReqPtr \<Rightarrow> list_state \<Rightarrow> list_state option" where
  "push_front request = (\<lambda>(s, l). do {
     invariant (nxt s request = None);
     invariant (prev s request = None);
     Some (case frontP l of
        None \<Rightarrow> (s, l\<lparr>frontP := Some request, backP := Some request\<rparr>)
      | Some f \<Rightarrow>
          (setPrev f (Some request) (setNext request (frontP l) s), l\<lparr>frontP := Some request\<rparr>))
   })"

definition push_back :: "ReqPtr \<Rightarrow> list_state \<Rightarrow> list_state option" where
  "push_back request = (\<lambda>(s, l). do {
     invariant (nxt s request = None);
     invariant (prev s request = None);
     (case frontP l of
        None \<Rightarrow> Some (s, l\<lparr>frontP := Some request, backP := Some request\<rparr>)
      | Some _ \<Rightarrow> do {
          b \<leftarrow> backP l;
          Some (setNext b (Some request) (setPrev request (backP l) s), l\<lparr>backP := Some request\<rparr>)
        })
   })"

definition remove :: "ReqPtr \<Rightarrow> list_state \<Rightarrow> list_state" where
  "remove request = (\<lambda>(s, l).
     let (s1, l1) = (case prev s request of
           Some p \<Rightarrow> (setNext p (nxt s request) s, l)
         | None \<Rightarrow> (s, l\<lparr>frontP := nxt s request\<rparr>));
         (s2, l2) = (case nxt s1 request of
           Some n \<Rightarrow> (setPrev n (prev s1 request) s1, l1)
         | None \<Rightarrow> (s1, l1\<lparr>backP := prev s1 request\<rparr>))
     in (setNext request None (setPrev request None s2), l2))"

definition reset :: "list_state \<Rightarrow> list_state" where
  "reset = (\<lambda>(s, l). (s, l\<lparr>frontP := None, backP := None\<rparr>))"

definition list_empty :: "list_state \<Rightarrow> bool" where
  "list_empty = (\<lambda>(s, l). frontP l = None)"

text \<open>
  The lock manager's transfer of a waiting request to the granted list: the links are reused, so
  the request leaves one list before it joins the other.
\<close>

definition moveRequest ::
  "ReqPtr \<Rightarrow> links \<times> LockRequestList \<times> LockRequestList \<Rightarrow>
   (links \<times> LockRequestList \<times> LockRequestList) option" where
  "moveRequest request = (\<lambda>(s, conflictL, grantedL). do {
     let (s1, conflictL') = remove request (s, conflictL);
     (s2, grantedL') \<leftarrow> push_back request (s1, grantedL);
     Some (s2, conflictL', grantedL')
   })"

text \<open>The sequence a pair of end pointers represents, as a chain of links.\<close>

fun hdOpt :: "'a list \<Rightarrow> 'a option" where
  "hdOpt [] = None"
| "hdOpt (x # xs) = Some x"

definition lastOpt :: "'a list \<Rightarrow> 'a option" where
  "lastOpt xs = hdOpt (rev xs)"

fun seg :: "links \<Rightarrow> ReqPtr option \<Rightarrow> ReqPtr list \<Rightarrow> ReqPtr option \<Rightarrow> bool" where
  "seg s p [] n \<longleftrightarrow> True"
| "seg s p (x # xs) n \<longleftrightarrow>
     prev s x = p \<and> nxt s x = (if xs = [] then n else hdOpt xs) \<and> seg s (Some x) xs n"

definition represents :: "list_state \<Rightarrow> ReqPtr list \<Rightarrow> bool" where
  "represents = (\<lambda>(s, l) xs.
     distinct xs \<and> seg s None xs None \<and> frontP l = hdOpt xs \<and> backP l = lastOpt xs)"

text \<open>A request is unlinked when both of its links are null.\<close>

definition unlinked :: "list_state \<Rightarrow> ReqPtr \<Rightarrow> bool" where
  "unlinked = (\<lambda>(s, l) r. prev s r = None \<and> nxt s r = None)"

text \<open>Operations as data, and what each does to the represented sequence.\<close>

datatype 'a queue_op = PushFront 'a | PushBack 'a | Remove 'a

fun op_legal :: "'a list \<Rightarrow> 'a queue_op \<Rightarrow> bool" where
  "op_legal xs (PushFront r) \<longleftrightarrow> r \<notin> set xs"
| "op_legal xs (PushBack r) \<longleftrightarrow> r \<notin> set xs"
| "op_legal xs (Remove r) \<longleftrightarrow> r \<in> set xs"

fun op_spec :: "'a queue_op \<Rightarrow> 'a list \<Rightarrow> 'a list" where
  "op_spec (PushFront r) xs = r # xs"
| "op_spec (PushBack r) xs = xs @ [r]"
| "op_spec (Remove r) xs = remove1 r xs"

fun run_spec :: "'a queue_op list \<Rightarrow> 'a list \<Rightarrow> 'a list" where
  "run_spec [] xs = xs"
| "run_spec (a # as) xs = run_spec as (op_spec a xs)"

fun run_legal :: "'a list \<Rightarrow> 'a queue_op list \<Rightarrow> bool" where
  "run_legal xs [] \<longleftrightarrow> True"
| "run_legal xs (a # as) \<longleftrightarrow> op_legal xs a \<and> run_legal (op_spec a xs) as"

fun queue_step :: "ReqPtr queue_op \<Rightarrow> list_state \<Rightarrow> list_state option" where
  "queue_step (PushFront r) q = push_front r q"
| "queue_step (PushBack r) q = push_back r q"
| "queue_step (Remove r) q = Some (remove r q)"

fun queue_run :: "('a queue_op \<Rightarrow> 'q \<Rightarrow> 'q option) \<Rightarrow> 'a queue_op list \<Rightarrow> 'q \<Rightarrow> 'q option" where
  "queue_run step [] q = Some q"
| "queue_run step (a # as) q = do { q' \<leftarrow> step a q; queue_run step as q' }"

section \<open>The contract of a request queue\<close>

text \<open>
  \<open>repr q xs\<close>: the state \<open>q\<close> holds the sequence \<open>xs\<close>, and every request outside \<open>xs\<close> that is
  \<open>free\<close> in \<open>q\<close> may be inserted.
\<close>

locale request_queue =
  fixes repr :: "'q \<Rightarrow> 'a list \<Rightarrow> bool"
    and free :: "'q \<Rightarrow> 'a \<Rightarrow> bool"
    and step :: "'a queue_op \<Rightarrow> 'q \<Rightarrow> 'q option"
  assumes step_ok:
    "repr q xs \<Longrightarrow> op_legal xs a \<Longrightarrow> (\<And>r. r \<notin> set xs \<Longrightarrow> free q r) \<Longrightarrow>
     \<exists>q'. step a q = Some q' \<and> repr q' (op_spec a xs) \<and>
       (\<forall>r. r \<notin> set (op_spec a xs) \<longrightarrow> free q' r)"
    and repr_distinct: "repr q xs \<Longrightarrow> distinct xs"
    and repr_fun: "repr q xs \<Longrightarrow> repr q ys \<Longrightarrow> xs = ys"
begin

lemma run_refines:
  assumes "repr q xs" and "run_legal xs as" and "\<And>r. r \<notin> set xs \<Longrightarrow> free q r"
  shows "\<exists>q'. queue_run step as q = Some q' \<and> repr q' (run_spec as xs)"
  using assms
proof (induction as arbitrary: q xs)
  case Nil
  then show ?case by simp
next
  case (Cons a as)
  from Cons.prems(2) have "op_legal xs a" by simp
  with step_ok [OF Cons.prems(1) _ Cons.prems(3)] obtain q'
    where q': "step a q = Some q'" "repr q' (op_spec a xs)"
      "\<forall>r. r \<notin> set (op_spec a xs) \<longrightarrow> free q' r" by blast
  from Cons.prems(2) have "run_legal (op_spec a xs) as" by simp
  with Cons.IH [of q' "op_spec a xs"] q' show ?case by simp
qed

lemma run_distinct:
  assumes "repr q xs" and "run_legal xs as" and "\<And>r. r \<notin> set xs \<Longrightarrow> free q r"
  shows "distinct (run_spec as xs)"
  using run_refines [OF assms] repr_distinct by blast

end

section \<open>Chains of links\<close>

lemma setPrev_simps [simp]:
  "prev (setPrev r v s) = (prev s)(r := v)" "nxt (setPrev r v s) = nxt s"
  by (simp_all add: setPrev_def)

lemma setNext_simps [simp]:
  "nxt (setNext r v s) = (nxt s)(r := v)" "prev (setNext r v s) = prev s"
  by (simp_all add: setNext_def)

lemma lastOpt_simps [simp]:
  "lastOpt [] = None" "lastOpt (xs @ [x]) = Some x" "lastOpt [x] = Some x"
  by (simp_all add: lastOpt_def)

lemma lastOpt_append [simp]: "lastOpt (xs @ ys) = (if ys = [] then lastOpt xs else lastOpt ys)"
  by (cases ys rule: rev_cases) (auto simp: lastOpt_def hdOpt.simps)

lemma lastOpt_Cons: "lastOpt (x # xs) = (if xs = [] then Some x else lastOpt xs)"
  using lastOpt_append [of "[x]" xs] by simp

lemma hdOpt_append: "hdOpt (xs @ ys) = (if xs = [] then hdOpt ys else hdOpt xs)"
  by (cases xs) auto

lemma hdOpt_eq_None [simp]: "hdOpt xs = None \<longleftrightarrow> xs = []"
  by (cases xs) auto

lemma lastOpt_eq_None [simp]: "lastOpt xs = None \<longleftrightarrow> xs = []"
  by (simp add: lastOpt_def)

lemma seg_cong:
  assumes "\<And>x. x \<in> set xs \<Longrightarrow> prev s x = prev t x \<and> nxt s x = nxt t x"
  shows "seg s p xs n = seg t p xs n"
  using assms by (induction xs arbitrary: p) auto

lemma seg_append:
  "seg s p (xs @ ys) n \<longleftrightarrow>
     seg s p xs (if ys = [] then n else hdOpt ys) \<and> seg s (if xs = [] then p else lastOpt xs) ys n"
  by (induction xs arbitrary: p) (auto simp: lastOpt_Cons hdOpt_append)

lemma seg_change_next:
  assumes "seg s p (xs @ [z]) n" and "z \<notin> set xs"
  shows "seg (setNext z m s) p (xs @ [z]) m"
proof -
  have "seg (setNext z m s) p xs (Some z) = seg s p xs (Some z)"
    using assms(2) by (intro seg_cong) auto
  with assms(1) show ?thesis by (simp add: seg_append)
qed

lemma seg_change_prev:
  assumes "seg s p (y # ys) n" and "y \<notin> set ys"
  shows "seg (setPrev y q s) q (y # ys) n"
proof -
  have "seg (setPrev y q s) (Some y) ys n = seg s (Some y) ys n"
    using assms(2) by (intro seg_cong) auto
  with assms(1) show ?thesis by simp
qed

lemma seg_unaffected:
  assumes "r \<notin> set xs"
  shows "seg (setNext r v s) p xs n = seg s p xs n" "seg (setPrev r v s) p xs n = seg s p xs n"
  using assms by (auto intro!: seg_cong)

section \<open>The pointer code meets the contract\<close>

lemma push_front_ok:
  assumes "represents (s, l) xs" and "r \<notin> set xs" and "unlinked (s, l) r"
  shows "\<exists>s' l'. push_front r (s, l) = Some (s', l') \<and> represents (s', l') (r # xs) \<and>
    (\<forall>y. y \<notin> set (r # xs) \<longrightarrow> prev s' y = prev s y \<and> nxt s' y = nxt s y)"
proof (cases xs)
  case Nil
  with assms show ?thesis
    by (auto simp: push_front_def represents_def unlinked_def fail_simps)
next
  case (Cons f ys)
  let ?s1 = "setNext r (Some f) s" and ?s2 = "setPrev f (Some r) (setNext r (Some f) s)"
  from assms Cons have "seg ?s1 None (f # ys) None"
    by (simp add: represents_def seg_unaffected del: seg.simps)
  with assms Cons have "seg ?s2 (Some r) (f # ys) None"
    by (intro seg_change_prev) (auto simp: represents_def)
  moreover from assms Cons have "prev ?s2 r = None" "nxt ?s2 r = Some f"
    by (auto simp: unlinked_def)
  ultimately have "represents (?s2, l\<lparr>frontP := Some r\<rparr>) (r # xs)"
    using assms Cons
    by (auto simp: represents_def lastOpt_Cons simp del: setPrev_simps setNext_simps)
  moreover have "push_front r (s, l) = Some (?s2, l\<lparr>frontP := Some r\<rparr>)"
    using assms Cons by (auto simp: push_front_def represents_def unlinked_def fail_simps)
  moreover have "\<forall>y. y \<notin> set (r # xs) \<longrightarrow> prev ?s2 y = prev s y \<and> nxt ?s2 y = nxt s y"
    using Cons by simp
  ultimately show ?thesis by blast
qed

lemma push_back_ok:
  assumes "represents (s, l) xs" and "r \<notin> set xs" and "unlinked (s, l) r"
  shows "\<exists>s' l'. push_back r (s, l) = Some (s', l') \<and> represents (s', l') (xs @ [r]) \<and>
    (\<forall>y. y \<notin> set (xs @ [r]) \<longrightarrow> prev s' y = prev s y \<and> nxt s' y = nxt s y)"
proof (cases xs rule: rev_cases)
  case Nil
  with assms show ?thesis
    by (auto simp: push_back_def represents_def unlinked_def fail_simps)
next
  case (snoc ys b)
  let ?s1 = "setPrev r (Some b) s" and ?s2 = "setNext b (Some r) (setPrev r (Some b) s)"
  from assms snoc have "seg ?s1 None (ys @ [b]) None"
    by (simp add: represents_def seg_unaffected)
  with assms snoc have "seg ?s2 None (ys @ [b]) (Some r)"
    by (intro seg_change_next) (auto simp: represents_def)
  moreover from assms snoc have "prev ?s2 r = Some b" "nxt ?s2 r = None"
    by (auto simp: unlinked_def)
  ultimately have "represents (?s2, l\<lparr>backP := Some r\<rparr>) (xs @ [r])"
    using assms snoc
    by (auto simp: represents_def seg_append hdOpt_append lastOpt_Cons
             simp del: setPrev_simps setNext_simps)
  moreover have "push_back r (s, l) = Some (?s2, l\<lparr>backP := Some r\<rparr>)"
    using assms snoc
    by (auto simp: push_back_def represents_def unlinked_def fail_simps split: option.split)
  moreover have "\<forall>y. y \<notin> set (xs @ [r]) \<longrightarrow> prev ?s2 y = prev s y \<and> nxt ?s2 y = nxt s y"
    using snoc by simp
  ultimately show ?thesis by blast
qed

lemma seg_join:
  assumes "seg s None as (Some r)" and "seg s (Some r) bs None"
    and "prev s r = lastOpt as" and "nxt s r = hdOpt bs"
    and "distinct (as @ r # bs)"
    and s1: "s1 = (case lastOpt as of Some p \<Rightarrow> setNext p (hdOpt bs) s | None \<Rightarrow> s)"
    and s2: "s2 = (case hdOpt bs of Some n \<Rightarrow> setPrev n (lastOpt as) s1 | None \<Rightarrow> s1)"
  shows "seg s2 None (as @ bs) None"
proof -
  have "seg s1 None as (hdOpt bs) \<and> seg s1 (Some r) bs None"
  proof (cases as rule: rev_cases)
    case (snoc ys b)
    with assms show ?thesis
      by (auto simp: s1 seg_unaffected intro!: seg_change_next [of _ _ _ _ "Some r"])
  qed (use assms in simp)
  then have "seg s2 None as (hdOpt bs) \<and> seg s2 (lastOpt as) bs None"
  proof (cases bs)
    case (Cons n ns)
    with assms(5) \<open>seg s1 None as (hdOpt bs) \<and> seg s1 (Some r) bs None\<close> show ?thesis
      by (auto simp: s2 seg_unaffected simp del: seg.simps intro!: seg_change_prev [of _ "Some r"])
  qed (use s2 in simp)
  then show ?thesis by (auto simp: seg_append)
qed

lemma remove_unfold:
  assumes "represents (s, l) (as @ r # bs)"
    and "s1 = (case lastOpt as of Some p \<Rightarrow> setNext p (hdOpt bs) s | None \<Rightarrow> s)"
    and "s2 = (case hdOpt bs of Some n \<Rightarrow> setPrev n (lastOpt as) s1 | None \<Rightarrow> s1)"
  shows "remove r (s, l) =
    (setNext r None (setPrev r None s2), \<lparr>frontP = hdOpt (as @ bs), backP = lastOpt (as @ bs)\<rparr>)"
proof -
  have r: "prev s r = lastOpt as" "nxt s r = hdOpt bs" "r \<notin> set as" "r \<notin> set bs"
    using assms(1) by (auto simp: represents_def seg_append)
  have "Some r \<noteq> lastOpt as" using r(3) by (cases as rule: rev_cases) auto
  then have s1r: "nxt s1 r = hdOpt bs" "prev s1 r = lastOpt as"
    using r by (auto simp: assms(2) split: option.splits)
  have ends: "frontP l = (if as = [] then Some r else hdOpt as)"
    "backP l = (if bs = [] then Some r else lastOpt bs)"
    using assms(1) by (auto simp: represents_def hdOpt_append lastOpt_Cons)
  show ?thesis
    using s1r r ends
    by (cases l; cases "lastOpt as"; cases "hdOpt bs")
      (auto simp: remove_def assms(2,3) hdOpt_append split: if_splits)
qed

lemma remove_ok:
  assumes "represents (s, l) xs" and "r \<in> set xs" and rem: "remove r (s, l) = (s', l')"
  shows "represents (s', l') (remove1 r xs) \<and> unlinked (s', l') r \<and>
    (\<forall>y. y \<notin> set xs \<longrightarrow> prev s' y = prev s y \<and> nxt s' y = nxt s y)"
proof -
  obtain as bs where xs: "xs = as @ r # bs" and ras: "r \<notin> set as"
    using assms(2) by (meson split_list_first)
  define s1 where "s1 = (case lastOpt as of Some p \<Rightarrow> setNext p (hdOpt bs) s | None \<Rightarrow> s)"
  define s2 where "s2 = (case hdOpt bs of Some n \<Rightarrow> setPrev n (lastOpt as) s1 | None \<Rightarrow> s1)"
  have eq: "s' = setNext r None (setPrev r None s2)"
    "l' = \<lparr>frontP = hdOpt (as @ bs), backP = lastOpt (as @ bs)\<rparr>"
    using remove_unfold [OF assms(1) [unfolded xs] s1_def s2_def] rem by auto
  have d: "distinct (as @ r # bs)" and "seg s None (as @ r # bs) None"
    using assms(1) by (auto simp: represents_def xs)
  then have "seg s2 None (as @ bs) None"
    using seg_join [OF _ _ _ _ d s1_def s2_def] by (auto simp: seg_append split: if_splits)
  moreover have "r \<notin> set (as @ bs)" using d by simp
  ultimately have "seg s' None (as @ bs) None"
    unfolding eq(1) by (simp add: seg_unaffected)
  moreover have "remove1 r xs = as @ bs" using ras by (simp add: xs remove1_append)
  ultimately have "represents (s', l') (remove1 r xs)"
    using d by (simp add: represents_def eq(2))
  moreover have "\<forall>y. y \<notin> set xs \<longrightarrow> prev s' y = prev s y \<and> nxt s' y = nxt s y"
    unfolding eq(1) s2_def s1_def xs
    by (cases as rule: rev_cases; cases bs) auto
  ultimately show ?thesis by (simp add: unlinked_def eq(1))
qed

lemma represents_fun:
  assumes "represents (s, l) xs" and "represents (s, l) ys"
  shows "xs = ys"
proof -
  have "seg s p xs None \<Longrightarrow> seg s p ys None \<Longrightarrow> hdOpt xs = hdOpt ys \<Longrightarrow> xs = ys" for p xs ys
  proof (induction xs arbitrary: p ys)
    case (Cons x xs)
    then obtain zs where ys: "ys = x # zs" by (cases ys) auto
    from Cons.prems ys have "hdOpt xs = hdOpt zs"
      by (cases xs; cases zs) auto
    with Cons.prems ys show ?case by (auto intro: Cons.IH)
  next
    case Nil
    then show ?case by (cases ys) auto
  qed
  with assms show ?thesis by (auto simp: represents_def)
qed

interpretation dll: request_queue represents unlinked queue_step
proof
  fix q xs a
  assume rep: "represents q xs" and legal: "op_legal xs a"
    and free: "\<And>r. r \<notin> set xs \<Longrightarrow> unlinked q r"
  obtain s l where q: "q = (s, l)" by (cases q)
  show "\<exists>q'. queue_step a q = Some q' \<and> represents q' (op_spec a xs) \<and>
      (\<forall>r. r \<notin> set (op_spec a xs) \<longrightarrow> unlinked q' r)"
  proof (cases a)
    case (PushFront r)
    with legal have r: "r \<notin> set xs" by simp
    from push_front_ok [OF rep [unfolded q] r] free [OF r] free show ?thesis
      by (fastforce simp: q PushFront unlinked_def)
  next
    case (PushBack r)
    with legal have r: "r \<notin> set xs" by simp
    from push_back_ok [OF rep [unfolded q] r] free [OF r] free show ?thesis
      by (fastforce simp: q PushBack unlinked_def)
  next
    case (Remove r)
    with legal have r: "r \<in> set xs" by simp
    obtain s' l' where rm: "remove r (s, l) = (s', l')" by fastforce
    have d: "distinct xs" using rep by (auto simp: represents_def q)
    from remove_ok [OF rep [unfolded q] r rm] free d show ?thesis
      by (auto simp: q Remove rm unlinked_def)
  qed
next
  show "represents q xs \<Longrightarrow> distinct xs" for q xs by (auto simp: represents_def)
  show "represents q xs \<Longrightarrow> represents q ys \<Longrightarrow> xs = ys" for q xs ys
    by (cases q) (blast intro: represents_fun)
qed

section \<open>Properties\<close>

lemma represents_frame:
  assumes "represents (s, l) ys" and "\<forall>y \<in> set ys. prev s' y = prev s y \<and> nxt s' y = nxt s y"
  shows "represents (s', l) ys"
  using assms seg_cong [of ys s s' None None] by (auto simp: represents_def)

text \<open>
  C10:  Every legal sequence of insertions at either end and removals from the middle of the
  intrusive list returns (no reuse check fires) and leaves a list that represents exactly what the
  same operations make of the mathematical sequence.
\<close>

theorem request_list_refines:
  assumes "represents q xs" and "run_legal xs as" and "\<And>r. r \<notin> set xs \<Longrightarrow> unlinked q r"
  shows "\<exists>q'. queue_run queue_step as q = Some q' \<and> represents q' (run_spec as xs)"
  using dll.run_refines [OF assms] .

definition emptyState :: list_state where
  "emptyState = (\<lparr>prev = (\<lambda>_. None), nxt = (\<lambda>_. None)\<rparr>, \<lparr>frontP = None, backP = None\<rparr>)"

theorem request_list_refines_witness:
  "\<exists>q'. queue_run queue_step [PushBack 1, PushBack 2, PushFront 3, Remove 1] emptyState = Some q' \<and>
     represents q' [3, 2]"
  using request_list_refines [of emptyState "[]" "[PushBack 1, PushBack 2, PushFront 3, Remove 1]"]
  by (simp add: emptyState_def represents_def unlinked_def)

text \<open>
    Transferring a request between two lists that share the link fields: the request is gone
  from the first list, is last on the second, both lists keep their other elements in order, and
  no reuse check fires.
\<close>

theorem moveRequest_ok:
  assumes "represents (s, lc) cs" and "represents (s, lg) gs"
    and "set cs \<inter> set gs = {}" and "r \<in> set cs"
  shows "\<exists>s' lc' lg'. moveRequest r (s, lc, lg) = Some (s', lc', lg') \<and>
    represents (s', lc') (remove1 r cs) \<and> represents (s', lg') (gs @ [r])"
proof -
  obtain s1 lc' where rm: "remove r (s, lc) = (s1, lc')" by fastforce
  note rem = remove_ok [OF assms(1) assms(4) rm]
  have gs: "represents (s1, lg) gs"
    using assms(2) by (rule represents_frame) (use rem assms(3) in auto)
  have "r \<notin> set gs" using assms by auto
  moreover have "unlinked (s1, lg) r" using rem by (simp add: unlinked_def)
  ultimately obtain s2 lg' where pb: "push_back r (s1, lg) = Some (s2, lg')"
    "represents (s2, lg') (gs @ [r])"
    "\<forall>y. y \<notin> set (gs @ [r]) \<longrightarrow> prev s2 y = prev s1 y \<and> nxt s2 y = nxt s1 y"
    using push_back_ok [OF gs] by blast
  have "distinct cs" using assms(1) by (simp add: represents_def)
  then have "\<forall>y \<in> set (remove1 r cs). y \<notin> set (gs @ [r])"
    using assms(3) by (auto simp: set_remove1_eq)
  with pb(3) have "\<forall>y \<in> set (remove1 r cs). prev s2 y = prev s1 y \<and> nxt s2 y = nxt s1 y" by blast
  with rem have "represents (s2, lc') (remove1 r cs)" by (blast intro: represents_frame)
  with pb show ?thesis by (auto simp: moveRequest_def rm)
qed

definition exampleLists :: "links \<times> LockRequestList \<times> LockRequestList" where
  "exampleLists =
     (\<lparr>prev = (\<lambda>_. None)(2 := Some 1), nxt = (\<lambda>_. None)(1 := Some 2)\<rparr>,
      \<lparr>frontP = Some 1, backP = Some 2\<rparr>, \<lparr>frontP = Some 5, backP = Some 5\<rparr>)"

theorem moveRequest_ok_witness:
  "\<exists>s' lc' lg'. moveRequest 1 exampleLists = Some (s', lc', lg') \<and>
    represents (s', lc') [2] \<and> represents (s', lg') [5, 1]"
proof -
  obtain s lc lg where ex: "exampleLists = (s, lc, lg)" by (cases exampleLists)
  have "represents (s, lc) [1, 2]" "represents (s, lg) [5]"
    using ex by (auto simp: exampleLists_def represents_def lastOpt_def)
  from moveRequest_ok [OF this, of 1] show ?thesis by (simp add: ex)
qed

end
