(* ===== verification/Lock_Head.thy ===== *)
theory Lock_Head
  imports Lock_Modes Lock_Request_List
begin

text \<open>
  The queues of one resource: \<^verbatim>\<open>struct LockHead\<close>, \<^verbatim>\<open>struct LockRequest\<close> and
  \<^verbatim>\<open>LockManager::_onLockModeChanged\<close> of
  \<^verbatim>\<open>src/mongo/db/concurrency/lock_manager.cpp\<close>.

  Requests live in a store of addresses, because the granted list, the conflict list and the
  lockers share and mutate the same objects.  The intrusive lists are the sequences that
  \<open>Lock_Request_List\<close> shows them to represent, so \<open>iter->prev == nullptr\<close> reads: the element is
  first on its list.  Every \<^verbatim>\<open>invariant(...)\<close> of the source is a check of the model, and
  \<^term>\<open>None\<close> is the aborted process.  Counters are natural numbers: they never exceed the
  number of linked requests.

  \<open>head_ok\<close> is the well-formedness of a lock head; the theory proves that every operation keeps
  it and that none of the checks fires from a well-formed head.
\<close>

section \<open>Definitions\<close>

datatype Status = STATUS_NEW | STATUS_GRANTED | STATUS_WAITING | STATUS_CONVERTING

text \<open>
  \<open>lockP\<close> and \<open>partitionedLock\<close> are the back pointers.  A lock head is known by its resource, a
  partitioned lock head by its partition and resource.
\<close>

record LockRequest =
  lockerId :: LockerId
  enqueueAtFront :: bool
  compatibleFirst :: bool
  partitioned :: bool
  recursiveCount :: nat
  lockP :: "ResourceId option"
  partitionedLock :: "(nat \<times> ResourceId) option"
  status :: Status
  mode :: LockMode
  convertMode :: LockMode

definition LockRequest_initNew :: "LockerId \<Rightarrow> LockRequest" where
  "LockRequest_initNew locker =
     \<lparr>lockerId = locker, enqueueAtFront = False, compatibleFirst = False, partitioned = False,
      recursiveCount = 1, lockP = None, partitionedLock = None, status = STATUS_NEW,
      mode = MODE_NONE, convertMode = MODE_NONE\<rparr>"

record LockHead =
  resourceId :: ResourceId
  grantedList :: "ReqPtr list"
  grantedCounts :: "LockMode \<Rightarrow> nat"
  grantedModes :: "32 word"
  conflictList :: "ReqPtr list"
  conflictCounts :: "LockMode \<Rightarrow> nat"
  conflictModes :: "32 word"
  partitions :: "nat list"
  conversionsCount :: nat
  compatibleFirstCount :: nat

type_synonym request_heap = "ReqPtr \<Rightarrow> LockRequest"

definition LockHead_initNew :: "ResourceId \<Rightarrow> LockHead" where
  "LockHead_initNew resId =
     \<lparr>resourceId = resId, grantedList = [], grantedCounts = (\<lambda>_. 0), grantedModes = 0,
      conflictList = [], conflictCounts = (\<lambda>_. 0), conflictModes = 0, partitions = [],
      conversionsCount = 0, compatibleFirstCount = 0\<rparr>"

definition isPartitioned :: "LockHead \<Rightarrow> bool" where
  "isPartitioned h \<longleftrightarrow> partitions h \<noteq> []"

definition findRequest :: "LockerId \<Rightarrow> request_heap \<Rightarrow> LockHead \<Rightarrow> ReqPtr option" where
  "findRequest lid hp h =
     (case find (\<lambda>it. lockerId (hp it) = lid) (grantedList h) of
        Some it \<Rightarrow> Some it
      | None \<Rightarrow> find (\<lambda>it. lockerId (hp it) = lid) (conflictList h))"

definition incGrantedModeCount :: "LockMode \<Rightarrow> LockHead \<Rightarrow> LockHead option" where
  "incGrantedModeCount m h = do {
     invariant (grantedCounts h m \<ge> 0);
     let h1 = h\<lparr>grantedCounts := (grantedCounts h)(m := Suc (grantedCounts h m))\<rparr>;
     if grantedCounts h1 m = 1 then do {
       invariant (grantedModes h1 AND modeMask m = 0);
       Some (h1\<lparr>grantedModes := grantedModes h1 OR modeMask m\<rparr>)
     } else Some h1
   }"

definition decGrantedModeCount :: "LockMode \<Rightarrow> LockHead \<Rightarrow> LockHead option" where
  "decGrantedModeCount m h = do {
     invariant (grantedCounts h m \<ge> 1);
     let h1 = h\<lparr>grantedCounts := (grantedCounts h)(m := grantedCounts h m - 1)\<rparr>;
     if grantedCounts h1 m = 0 then do {
       invariant (grantedModes h1 AND modeMask m = modeMask m);
       Some (h1\<lparr>grantedModes := grantedModes h1 AND NOT (modeMask m)\<rparr>)
     } else Some h1
   }"

definition incConflictModeCount :: "LockMode \<Rightarrow> LockHead \<Rightarrow> LockHead option" where
  "incConflictModeCount m h = do {
     invariant (conflictCounts h m \<ge> 0);
     let h1 = h\<lparr>conflictCounts := (conflictCounts h)(m := Suc (conflictCounts h m))\<rparr>;
     if conflictCounts h1 m = 1 then do {
       invariant (conflictModes h1 AND modeMask m = 0);
       Some (h1\<lparr>conflictModes := conflictModes h1 OR modeMask m\<rparr>)
     } else Some h1
   }"

definition decConflictModeCount :: "LockMode \<Rightarrow> LockHead \<Rightarrow> LockHead option" where
  "decConflictModeCount m h = do {
     invariant (conflictCounts h m \<ge> 1);
     let h1 = h\<lparr>conflictCounts := (conflictCounts h)(m := conflictCounts h m - 1)\<rparr>;
     if conflictCounts h1 m = 0 then do {
       invariant (conflictModes h1 AND modeMask m = modeMask m);
       Some (h1\<lparr>conflictModes := conflictModes h1 AND NOT (modeMask m)\<rparr>)
     } else Some h1
   }"

definition newRequest ::
  "ReqPtr \<Rightarrow> request_heap \<times> LockHead \<Rightarrow> (LockResult \<times> request_heap \<times> LockHead) option" where
  "newRequest r = (\<lambda>(hp, h). do {
     invariant (partitionedLock (hp r) = None);
     let q = (hp r)\<lparr>lockP := Some (resourceId h)\<rparr>;
     if conflicts (mode q) (grantedModes h) \<or>
        (compatibleFirstCount h = 0 \<and> conflicts (mode q) (conflictModes h))
     then do {
       let h1 = (if enqueueAtFront q then h\<lparr>conflictList := r # conflictList h\<rparr>
                 else h\<lparr>conflictList := conflictList h @ [r]\<rparr>);
       h2 \<leftarrow> incConflictModeCount (mode q) h1;
       Some (LOCK_WAITING, hp(r := q\<lparr>status := STATUS_WAITING\<rparr>), h2)
     } else do {
       h1 \<leftarrow> incGrantedModeCount (mode q) (h\<lparr>grantedList := grantedList h @ [r]\<rparr>);
       let h2 = (if compatibleFirst q
                 then h1\<lparr>compatibleFirstCount := Suc (compatibleFirstCount h1)\<rparr> else h1);
       Some (LOCK_OK, hp(r := q\<lparr>status := STATUS_GRANTED\<rparr>), h2)
     }
   })"

text \<open>The mask of granted modes that are not accounted for by one request.\<close>

definition modesWithout :: "(LockMode \<Rightarrow> nat) \<Rightarrow> (LockMode \<Rightarrow> nat) \<Rightarrow> 32 word" where
  "modesWithout counts own =
     fold (\<lambda>i acc. if own i < counts i then acc OR modeMask i else acc)
       [MODE_IS, MODE_IX, MODE_S, MODE_X] 0"

definition holds :: "LockRequest \<Rightarrow> LockMode \<Rightarrow> nat" where
  "holds q i = (if mode q = i then 1 else 0)"

definition waits :: "LockRequest \<Rightarrow> LockMode \<Rightarrow> nat" where
  "waits q i = (if convertMode q = i then 1 else 0)"

fun grantConversions ::
  "ReqPtr list \<Rightarrow> request_heap \<times> LockHead \<Rightarrow> (request_heap \<times> LockHead \<times> ReqPtr list) option" where
  "grantConversions [] (hp, h) = Some (hp, h, [])"
| "grantConversions (iter # rest) (hp, h) =
     (if conversionsCount h = 0 then Some (hp, h, [])
      else if status (hp iter) \<noteq> STATUS_CONVERTING then grantConversions rest (hp, h)
      else do {
        invariant (convertMode (hp iter) \<noteq> MODE_NONE);
        invariant (\<forall>i \<in> set [MODE_IS, MODE_IX, MODE_S, MODE_X]. holds (hp iter) i + waits (hp iter) i \<le> 1);
        let others = modesWithout (grantedCounts h) (\<lambda>i. holds (hp iter) i + waits (hp iter) i);
        if conflicts (convertMode (hp iter)) others then grantConversions rest (hp, h)
        else do {
          h1 \<leftarrow> decGrantedModeCount (mode (hp iter)) (h\<lparr>conversionsCount := conversionsCount h - 1\<rparr>);
          let hp1 = hp(iter := (hp iter)\<lparr>status := STATUS_GRANTED,
                        mode := convertMode (hp iter), convertMode := MODE_NONE\<rparr>);
          (hp2, h2, ns) \<leftarrow> grantConversions rest (hp1, h1);
          Some (hp2, h2, iter # ns)
        }
      })"

fun grantWaiting ::
  "ReqPtr list \<Rightarrow> bool \<Rightarrow> request_heap \<times> LockHead \<Rightarrow>
   (request_heap \<times> LockHead \<times> ReqPtr list) option" where
  "grantWaiting [] newlyCompatibleFirst (hp, h) = Some (hp, h, [])"
| "grantWaiting (iter # rest) newlyCompatibleFirst (hp, h) = do {
     invariant (status (hp iter) = STATUS_WAITING);
     if conflicts (mode (hp iter)) (grantedModes h) then
       (if hdOpt (conflictList h) = Some iter \<and> \<not> newlyCompatibleFirst then Some (hp, h, [])
        else grantWaiting rest newlyCompatibleFirst (hp, h))
     else do {
       let hp1 = hp(iter := (hp iter)\<lparr>status := STATUS_GRANTED\<rparr>);
       h1 \<leftarrow> decConflictModeCount (mode (hp iter))
              (h\<lparr>conflictList := remove1 iter (conflictList h)\<rparr>);
       h2 \<leftarrow> incGrantedModeCount (mode (hp iter)) (h1\<lparr>grantedList := grantedList h1 @ [iter]\<rparr>);
       let newly = (newlyCompatibleFirst \<or>
                    (compatibleFirst (hp iter) \<and> compatibleFirstCount h2 = 0));
       let h3 = (if compatibleFirst (hp iter)
                 then h2\<lparr>compatibleFirstCount := Suc (compatibleFirstCount h2)\<rparr> else h2);
       if mode (hp iter) = MODE_X then Some (hp1, h3, [iter])
       else do {
         (hp2, h4, ns) \<leftarrow> grantWaiting rest newly (hp1, h3);
         Some (hp2, h4, iter # ns)
       }
     }
   }"

text \<open>The requests notified of \<^const>\<open>LOCK_OK\<close>, in order, are the last component.\<close>

definition onLockModeChanged ::
  "bool \<Rightarrow> request_heap \<times> LockHead \<Rightarrow> (request_heap \<times> LockHead \<times> ReqPtr list) option" where
  "onLockModeChanged checkConflictQueue = (\<lambda>(hp, h). do {
     (hp1, h1, ns1) \<leftarrow> grantConversions (grantedList h) (hp, h);
     (hp2, h2, ns2) \<leftarrow> (if checkConflictQueue then grantWaiting (conflictList h1) False (hp1, h1)
                         else Some (hp1, h1, []));
     invariant ((grantedModes h2 = 0) \<noteq> (grantedList h2 \<noteq> []));
     invariant ((conflictModes h2 = 0) \<noteq> (conflictList h2 \<noteq> []));
     Some (hp2, h2, ns1 @ ns2)
   })"

section \<open>Well-formed lock heads\<close>

text \<open>What one request on the granted list contributes to the counter of a mode.\<close>

definition own :: "LockRequest \<Rightarrow> LockMode \<Rightarrow> nat" where
  "own q m = ind (mode q = m) + ind (status q = STATUS_CONVERTING \<and> convertMode q = m)"

definition granted_ok :: "LockRequest \<Rightarrow> bool" where
  "granted_ok q \<longleftrightarrow> mode q \<noteq> MODE_NONE \<and>
     (status q = STATUS_GRANTED \<and> convertMode q = MODE_NONE \<or>
      status q = STATUS_CONVERTING \<and> convertMode q \<noteq> MODE_NONE \<and> convertMode q \<noteq> mode q \<and>
      isModeCovered (mode q) (convertMode q))"

definition waiting_ok :: "LockRequest \<Rightarrow> bool" where
  "waiting_ok q \<longleftrightarrow> mode q \<noteq> MODE_NONE \<and> status q = STATUS_WAITING \<and> convertMode q = MODE_NONE"

text \<open>Mutual compatibility of the granted modes: what a lock is for.\<close>

definition granted_compatible :: "request_heap \<Rightarrow> ReqPtr list \<Rightarrow> bool" where
  "granted_compatible hp xs \<longleftrightarrow>
     (\<forall>r \<in> set xs. \<forall>s \<in> set xs. r \<noteq> s \<longrightarrow> compatible (mode (hp r)) (mode (hp s)))"

text \<open>Counters and masks agree with the lists.\<close>

definition counts_ok :: "request_heap \<Rightarrow> LockHead \<Rightarrow> bool" where
  "counts_ok hp h \<longleftrightarrow>
     (\<forall>m. grantedCounts h m = tallyOn (\<lambda>q. own q m) hp (grantedList h)) \<and>
     grantedModes h = maskOf (grantedCounts h) \<and>
     (\<forall>m. conflictCounts h m = tallyOn (\<lambda>q. ind (mode q = m)) hp (conflictList h)) \<and>
     conflictModes h = maskOf (conflictCounts h) \<and>
     conversionsCount h = tallyOn (\<lambda>q. ind (status q = STATUS_CONVERTING)) hp (grantedList h) \<and>
     compatibleFirstCount h = tallyOn (\<lambda>q. ind (compatibleFirst q)) hp (grantedList h)"

definition head_ok :: "request_heap \<Rightarrow> LockHead \<Rightarrow> bool" where
  "head_ok hp h \<longleftrightarrow>
     distinct (grantedList h @ conflictList h) \<and>
     (\<forall>r \<in> set (grantedList h). granted_ok (hp r)) \<and>
     (\<forall>r \<in> set (conflictList h). waiting_ok (hp r)) \<and>
     counts_ok hp h \<and> granted_compatible hp (grantedList h)"

text \<open>When a new request is granted at once.\<close>

definition granting :: "LockRequest \<Rightarrow> LockHead \<Rightarrow> bool" where
  "granting q h \<longleftrightarrow> \<not> conflicts (mode q) (grantedModes h) \<and>
     (compatibleFirstCount h = 0 \<longrightarrow> \<not> conflicts (mode q) (conflictModes h))"

definition grantNow :: "LockRequest \<Rightarrow> LockRequest" where
  "grantNow q = (case status q of
      STATUS_CONVERTING \<Rightarrow> q\<lparr>status := STATUS_GRANTED, mode := convertMode q, convertMode := MODE_NONE\<rparr>
    | STATUS_WAITING \<Rightarrow> q\<lparr>status := STATUS_GRANTED\<rparr>
    | _ \<Rightarrow> q)"

definition grantAll :: "ReqPtr list \<Rightarrow> request_heap \<Rightarrow> request_heap" where
  "grantAll ns hp = (\<lambda>r. if r \<in> set ns then grantNow (hp r) else hp r)"

definition front_blocked :: "request_heap \<Rightarrow> LockHead \<Rightarrow> bool" where
  "front_blocked hp h \<longleftrightarrow>
     (case conflictList h of [] \<Rightarrow> True | f # _ \<Rightarrow> conflicts (mode (hp f)) (grantedModes h))"

text \<open>What the conversion pass leaves alone: the lists, and every conflict with a granted mode.\<close>

definition conv_frame :: "LockHead \<Rightarrow> LockHead \<Rightarrow> bool" where
  "conv_frame h h' \<longleftrightarrow> grantedList h' = grantedList h \<and> conflictList h' = conflictList h \<and>
     resourceId h' = resourceId h \<and> partitions h' = partitions h \<and>
     (\<forall>k. conflicts k (grantedModes h) \<longrightarrow> conflicts k (grantedModes h')) \<and>
     (\<forall>m. grantedCounts h' m \<le> grantedCounts h m)"

text \<open>The lock head after a waiting request moved to the granted list.\<close>

definition grantedHead :: "request_heap \<Rightarrow> ReqPtr \<Rightarrow> LockHead \<Rightarrow> LockHead" where
  "grantedHead hp r h =
     (let m = mode (hp r);
          cc = (conflictCounts h)(m := conflictCounts h m - 1);
          gc = (grantedCounts h)(m := Suc (grantedCounts h m));
          h1 = h\<lparr>conflictList := remove1 r (conflictList h), conflictCounts := cc,
                 conflictModes := maskOf cc, grantedList := grantedList h @ [r],
                 grantedCounts := gc, grantedModes := maskOf gc\<rparr>
      in if compatibleFirst (hp r)
         then h1\<lparr>compatibleFirstCount := Suc (compatibleFirstCount h)\<rparr> else h1)"

definition wait_frame :: "ReqPtr list \<Rightarrow> LockHead \<Rightarrow> LockHead \<Rightarrow> bool" where
  "wait_frame ns h h' \<longleftrightarrow> grantedList h' = grantedList h @ ns \<and>
     conflictList h' = filter (\<lambda>r. r \<notin> set ns) (conflictList h) \<and>
     resourceId h' = resourceId h \<and> partitions h' = partitions h \<and>
     (\<forall>k. conflicts k (grantedModes h) \<longrightarrow> conflicts k (grantedModes h'))"

definition change_frame :: "ReqPtr list \<Rightarrow> LockHead \<Rightarrow> LockHead \<Rightarrow> bool" where
  "change_frame ns h h' \<longleftrightarrow>
     grantedList h' = grantedList h @ filter (\<lambda>r. r \<in> set (conflictList h)) ns \<and>
     conflictList h' = filter (\<lambda>r. r \<notin> set ns) (conflictList h) \<and>
     resourceId h' = resourceId h \<and> partitions h' = partitions h \<and>
     (conflictList h = [] \<longrightarrow> (\<forall>m. grantedCounts h' m \<le> grantedCounts h m))"

section \<open>Counters and masks\<close>

lemma bit_modesWithout:
  "bit (modesWithout c d) i \<longleftrightarrow> (\<exists>m. i = lockModeIndex m \<and> m \<noteq> MODE_NONE \<and> d m < c m)"
proof -
  have "modesWithout c d = maskOf (\<lambda>m. if m = MODE_NONE then 0 else c m - d m)"
    by (simp add: modesWithout_def maskOf_def allLockModes_def)
  then show ?thesis by (auto simp: bit_maskOf)
qed

lemma conflicts_modesWithout:
  "conflicts n (modesWithout c d) \<longleftrightarrow> (\<exists>m. d m < c m \<and> \<not> compatible n m)"
  by (auto simp: conflicts_iff bit_modesWithout) (metis compatible_NONE_right)

lemma incGranted_eq:
  assumes "grantedModes h = maskOf (grantedCounts h)"
  shows "incGrantedModeCount m h =
    Some (h\<lparr>grantedCounts := (grantedCounts h)(m := Suc (grantedCounts h m)),
            grantedModes := maskOf ((grantedCounts h)(m := Suc (grantedCounts h m)))\<rparr>)"
proof (cases "grantedCounts h m = 0")
  case True
  then show ?thesis
    using maskOf_inc [of "grantedCounts h" m]
    by (simp add: incGrantedModeCount_def assms maskOf_and_mode)
next
  case False
  then show ?thesis
    using maskOf_inc_pos [of "grantedCounts h" m] assms
    by (cases h) (simp add: incGrantedModeCount_def)
qed

lemma decGranted_eq:
  assumes "grantedModes h = maskOf (grantedCounts h)" and "1 \<le> grantedCounts h m"
  shows "decGrantedModeCount m h =
    Some (h\<lparr>grantedCounts := (grantedCounts h)(m := grantedCounts h m - 1),
            grantedModes := maskOf ((grantedCounts h)(m := grantedCounts h m - 1))\<rparr>)"
proof (cases "grantedCounts h m = 1")
  case True
  then show ?thesis
    by (simp add: decGrantedModeCount_def assms maskOf_and_mode maskOf_dec_zero)
next
  case False
  then show ?thesis using assms maskOf_dec_pos [of "grantedCounts h" m]
    by (cases h) (simp add: decGrantedModeCount_def)
qed

lemma incConflict_eq:
  assumes "conflictModes h = maskOf (conflictCounts h)"
  shows "incConflictModeCount m h =
    Some (h\<lparr>conflictCounts := (conflictCounts h)(m := Suc (conflictCounts h m)),
            conflictModes := maskOf ((conflictCounts h)(m := Suc (conflictCounts h m)))\<rparr>)"
proof (cases "conflictCounts h m = 0")
  case True
  then show ?thesis
    using maskOf_inc [of "conflictCounts h" m]
    by (simp add: incConflictModeCount_def assms maskOf_and_mode)
next
  case False
  then show ?thesis
    using maskOf_inc_pos [of "conflictCounts h" m] assms
    by (cases h) (simp add: incConflictModeCount_def)
qed

lemma decConflict_eq:
  assumes "conflictModes h = maskOf (conflictCounts h)" and "1 \<le> conflictCounts h m"
  shows "decConflictModeCount m h =
    Some (h\<lparr>conflictCounts := (conflictCounts h)(m := conflictCounts h m - 1),
            conflictModes := maskOf ((conflictCounts h)(m := conflictCounts h m - 1))\<rparr>)"
proof (cases "conflictCounts h m = 1")
  case True
  then show ?thesis
    by (simp add: decConflictModeCount_def assms maskOf_and_mode maskOf_dec_zero)
next
  case False
  then show ?thesis using assms maskOf_dec_pos [of "conflictCounts h" m]
    by (cases h) (simp add: decConflictModeCount_def)
qed

lemma counts_okD:
  assumes "counts_ok hp h"
  shows "grantedModes h = maskOf (grantedCounts h)" "conflictModes h = maskOf (conflictCounts h)"
  using assms by (auto simp: counts_ok_def)

lemma own_ge_1: "1 \<le> own q (mode q)"
  by (simp add: own_def)

lemma own_granted: "status q \<noteq> STATUS_CONVERTING \<Longrightarrow> own q m = ind (mode q = m)"
  by (simp add: own_def)

lemma granted_mode_counted:
  assumes "counts_ok hp h" "r \<in> set (grantedList h)"
  shows "own (hp r) m \<le> grantedCounts h m"
  using assms tallyOn_ge [of r "grantedList h" "\<lambda>q. own q m" hp] by (simp add: counts_ok_def)

lemma conflict_mode_counted:
  assumes "counts_ok hp h" "r \<in> set (conflictList h)"
  shows "1 \<le> conflictCounts h (mode (hp r))"
  using assms tallyOn_ge [of r "conflictList h" "\<lambda>q. ind (mode q = mode (hp r))" hp]
  by (auto simp: counts_ok_def)

text \<open>A mode is compatible with the granted mask exactly if it is with each granted request.\<close>

lemma conflicts_granted_iff:
  assumes "counts_ok hp h"
  shows "conflicts n (grantedModes h) \<longleftrightarrow>
    (\<exists>r \<in> set (grantedList h). \<exists>m. 0 < own (hp r) m \<and> \<not> compatible n m)"
  using assms by (auto simp: counts_ok_def conflicts_maskOf tallyOn_pos)

lemma not_conflicts_granted:
  assumes "counts_ok hp h" "\<not> conflicts n (grantedModes h)" "r \<in> set (grantedList h)"
  shows "compatible n (mode (hp r))"
  using assms own_ge_1 [of "hp r"] unfolding conflicts_granted_iff [OF assms(1)]
  by (metis One_nat_def Suc_le_eq)

section \<open>Adding a request\<close>

lemma newRequest_granted:
  assumes ok: "head_ok hp h" and fresh: "r \<notin> set (grantedList h @ conflictList h)"
    and q: "mode (hp r) \<noteq> MODE_NONE" "convertMode (hp r) = MODE_NONE" "partitionedLock (hp r) = None"
    and g: "granting (hp r) h"
  shows "\<exists>h'. newRequest r (hp, h) =
      Some (LOCK_OK, hp(r := (hp r)\<lparr>lockP := Some (resourceId h), status := STATUS_GRANTED\<rparr>), h') \<and>
    head_ok (hp(r := (hp r)\<lparr>lockP := Some (resourceId h), status := STATUS_GRANTED\<rparr>)) h' \<and>
    grantedList h' = grantedList h @ [r] \<and> conflictList h' = conflictList h \<and>
    resourceId h' = resourceId h \<and> partitions h' = partitions h"
proof -
  let ?q = "(hp r)\<lparr>lockP := Some (resourceId h), status := STATUS_GRANTED\<rparr>"
  let ?hp = "hp(r := ?q)"
  have c: "counts_ok hp h" using ok by (simp add: head_ok_def)
  have own_q: "own ?q m = ind (mode (hp r) = m)" for m by (simp add: own_def)
  have nin: "r \<notin> set (grantedList h)" "r \<notin> set (conflictList h)" using fresh by auto
  define gc where "gc = (grantedCounts h)(mode (hp r) := Suc (grantedCounts h (mode (hp r))))"
  define h' where "h' = h\<lparr>grantedList := grantedList h @ [r], grantedCounts := gc,
      grantedModes := maskOf gc,
      compatibleFirstCount := compatibleFirstCount h + ind (compatibleFirst (hp r))\<rparr>"
  have "newRequest r (hp, h) = Some (LOCK_OK, ?hp, h')"
    using g q counts_okD [OF c]
    by (cases h) (auto simp: newRequest_def granting_def incGranted_eq h'_def gc_def Let_def ind_def)
  moreover have "counts_ok ?hp h'"
    using c by (auto simp: counts_ok_def h'_def gc_def nin own_q)
  moreover have "granted_compatible ?hp (grantedList h')"
  proof -
    have "compatible (mode (hp r)) (mode (hp s))" if "s \<in> set (grantedList h)" for s
      using g that by (intro not_conflicts_granted [OF c]) (auto simp: granting_def)
    moreover from this have "compatible (mode (hp s)) (mode (hp r))" if "s \<in> set (grantedList h)" for s
      using that compatible_sym by blast
    ultimately show ?thesis using ok nin
      by (auto simp: granted_compatible_def head_ok_def h'_def)
  qed
  ultimately show ?thesis
    using ok nin q by (auto simp: head_ok_def h'_def granted_ok_def)
qed

lemma newRequest_waiting:
  assumes ok: "head_ok hp h" and fresh: "r \<notin> set (grantedList h @ conflictList h)"
    and q: "mode (hp r) \<noteq> MODE_NONE" "convertMode (hp r) = MODE_NONE" "partitionedLock (hp r) = None"
    and g: "\<not> granting (hp r) h"
  shows "\<exists>h'. newRequest r (hp, h) =
      Some (LOCK_WAITING, hp(r := (hp r)\<lparr>lockP := Some (resourceId h), status := STATUS_WAITING\<rparr>), h') \<and>
    head_ok (hp(r := (hp r)\<lparr>lockP := Some (resourceId h), status := STATUS_WAITING\<rparr>)) h' \<and>
    grantedList h' = grantedList h \<and> grantedModes h' = grantedModes h \<and>
    conflictList h' = (if enqueueAtFront (hp r) then r # conflictList h else conflictList h @ [r]) \<and>
    resourceId h' = resourceId h \<and> partitions h' = partitions h"
proof -
  let ?q = "(hp r)\<lparr>lockP := Some (resourceId h), status := STATUS_WAITING\<rparr>"
  let ?hp = "hp(r := ?q)"
  have c: "counts_ok hp h" using ok by (simp add: head_ok_def)
  have nin: "r \<notin> set (grantedList h)" "r \<notin> set (conflictList h)" using fresh by auto
  define cc where "cc = (conflictCounts h)(mode (hp r) := Suc (conflictCounts h (mode (hp r))))"
  define h' where "h' = h\<lparr>conflictList := (if enqueueAtFront (hp r) then r # conflictList h
      else conflictList h @ [r]), conflictCounts := cc, conflictModes := maskOf cc\<rparr>"
  have "newRequest r (hp, h) = Some (LOCK_WAITING, ?hp, h')"
    using g q counts_okD [OF c]
    by (cases h) (auto simp: newRequest_def granting_def incConflict_eq h'_def cc_def Let_def)
  moreover have "counts_ok ?hp h'"
    using c by (auto simp: counts_ok_def h'_def cc_def nin)
  moreover have "granted_compatible ?hp (grantedList h')"
    using ok nin by (auto simp: granted_compatible_def head_ok_def h'_def)
  ultimately show ?thesis
    using ok nin q by (auto simp: head_ok_def h'_def waiting_ok_def)
qed

section \<open>Granting conversions and waiting requests\<close>

lemma conv_frame_refl [simp]: "conv_frame h h"
  by (simp add: conv_frame_def)

lemma conv_frame_trans: "conv_frame h1 h2 \<Longrightarrow> conv_frame h2 h3 \<Longrightarrow> conv_frame h1 h3"
  unfolding conv_frame_def by (metis (no_types, lifting) le_trans)

lemma grantAll_Nil [simp]: "grantAll [] hp = hp"
  by (simp add: grantAll_def)

lemma grantAll_Cons:
  "r \<notin> set ns \<Longrightarrow> grantAll ns (hp(r := grantNow (hp r))) = grantAll (r # ns) hp"
  by (auto simp: grantAll_def fun_eq_iff)

lemma own_converting:
  "status q = STATUS_CONVERTING \<Longrightarrow> own q m = holds q m + waits q m"
  by (simp add: own_def holds_def waits_def ind_def)

lemma convert_compatible:
  assumes "counts_ok hp h" "r \<in> set (grantedList h)" "s \<in> set (grantedList h)" "r \<noteq> s"
    and "\<not> conflicts n (modesWithout (grantedCounts h) (own (hp r)))"
  shows "compatible n (mode (hp s))"
proof -
  have "own (hp r) (mode (hp s)) + own (hp s) (mode (hp s)) \<le> grantedCounts h (mode (hp s))"
    using assms(1) tallyOn_ge2 [OF assms(2-4), of "\<lambda>q. own q (mode (hp s))" hp]
    by (simp add: counts_ok_def)
  then have "own (hp r) (mode (hp s)) < grantedCounts h (mode (hp s))"
    using own_ge_1 [of "hp s"] by linarith
  with assms(5) show ?thesis by (auto simp: conflicts_modesWithout)
qed

text \<open>Replacing a granted request by one that holds a single mode compatible with the others.\<close>

lemma replace_granted:
  assumes ok: "head_ok hp h" and r: "r \<in> set (grantedList h)"
    and q: "status q = STATUS_GRANTED" "convertMode q = MODE_NONE" "mode q \<noteq> MODE_NONE"
      "compatibleFirst q = compatibleFirst (hp r)"
    and compat: "\<And>s. s \<in> set (grantedList h) \<Longrightarrow> s \<noteq> r \<Longrightarrow> compatible (mode q) (mode (hp s))"
    and gc: "\<And>m. gc m = grantedCounts h m - own (hp r) m + ind (mode q = m)"
    and h': "h' = h\<lparr>grantedCounts := gc, grantedModes := maskOf gc,
        conversionsCount := conversionsCount h - ind (status (hp r) = STATUS_CONVERTING)\<rparr>"
  shows "head_ok (hp(r := q)) h'"
proof -
  have c: "counts_ok hp h" and d: "distinct (grantedList h)" and rn: "r \<notin> set (conflictList h)"
    using ok r by (auto simp: head_ok_def)
  have own_q: "own q m = ind (mode q = m)" for m using q by (simp add: own_def)
  have cf: "ind (compatibleFirst (hp r)) \<le> tallyOn (\<lambda>q. ind (compatibleFirst q)) hp (grantedList h)"
    using tallyOn_ge [OF r, of "\<lambda>q. ind (compatibleFirst q)" hp] by simp
  have "counts_ok (hp(r := q)) h'"
    using c q cf rn
    by (simp add: counts_ok_def h' gc tallyOn_upd [OF d r] own_q)
  moreover have "granted_compatible (hp(r := q)) (grantedList h')"
  proof -
    have "compatible (mode (hp s)) (mode q)" if "s \<in> set (grantedList h)" "s \<noteq> r" for s
      using compat that compatible_sym by blast
    with compat ok show ?thesis by (auto simp: granted_compatible_def head_ok_def h')
  qed
  ultimately show ?thesis
    using ok q r rn by (auto simp: head_ok_def h' granted_ok_def)
qed

lemma conflicts_replace:
  assumes c: "counts_ok hp h" and r: "r \<in> set (grantedList h)"
    and cov: "isModeCovered (mode (hp r)) n"
    and gc: "\<And>m. m \<noteq> mode (hp r) \<Longrightarrow> m \<noteq> n \<Longrightarrow> gc m = grantedCounts h m" "0 < gc n"
    and k: "conflicts k (grantedModes h)"
  shows "conflicts k (maskOf gc)"
proof -
  from k obtain m where m: "0 < grantedCounts h m" "\<not> compatible k m"
    using counts_okD(1) [OF c] by (auto simp: conflicts_maskOf)
  show ?thesis
  proof (cases "m = mode (hp r)")
    case True
    with m(2) cov have "\<not> compatible k n"
      unfolding isModeCovered_iff using compatible_sym by blast
    with gc(2) show ?thesis by (auto simp: conflicts_maskOf)
  next
    case False
    with m gc(1) [of m] gc(2) have "0 < gc m" by (cases "m = n") auto
    with m show ?thesis by (auto simp: conflicts_maskOf)
  qed
qed

lemma grantConversion_step:
  assumes ok: "head_ok hp h" and r: "r \<in> set (grantedList h)"
    and conv: "status (hp r) = STATUS_CONVERTING"
    and nc: "\<not> conflicts (convertMode (hp r)) (modesWithout (grantedCounts h) (own (hp r)))"
  shows "\<exists>h'. decGrantedModeCount (mode (hp r)) (h\<lparr>conversionsCount := conversionsCount h - 1\<rparr>) = Some h' \<and>
    head_ok (hp(r := grantNow (hp r))) h' \<and> conv_frame h h'"
proof -
  have c: "counts_ok hp h" using ok by (simp add: head_ok_def)
  have gok: "mode (hp r) \<noteq> MODE_NONE" "convertMode (hp r) \<noteq> MODE_NONE"
    "convertMode (hp r) \<noteq> mode (hp r)" "isModeCovered (mode (hp r)) (convertMode (hp r))"
    using ok r conv by (auto simp: head_ok_def granted_ok_def)
  let ?m = "mode (hp r)"
  have cnt: "own (hp r) m \<le> grantedCounts h m" for m by (rule granted_mode_counted [OF c r])
  define gc where "gc = (grantedCounts h)(?m := grantedCounts h ?m - 1)"
  define h' where "h' = h\<lparr>grantedCounts := gc, grantedModes := maskOf gc,
      conversionsCount := conversionsCount h - 1\<rparr>"
  have own: "own (hp r) m = ind (?m = m) + ind (convertMode (hp r) = m)" for m
    using conv by (simp add: own_def)
  have dec: "decGrantedModeCount ?m (h\<lparr>conversionsCount := conversionsCount h - 1\<rparr>) = Some h'"
    using counts_okD [OF c] cnt [of ?m] by (simp add: decGranted_eq own h'_def gc_def)
  have q: "grantNow (hp r) = (hp r)\<lparr>status := STATUS_GRANTED, mode := convertMode (hp r), convertMode := MODE_NONE\<rparr>"
    using conv by (simp add: grantNow_def)
  have gcm: "gc m = grantedCounts h m - own (hp r) m + ind (convertMode (hp r) = m)" for m
    using cnt [of m] gok by (auto simp: gc_def own ind_def)
  have "head_ok (hp(r := grantNow (hp r))) h'"
  proof (rule replace_granted [OF ok r])
    show "compatible (mode (grantNow (hp r))) (mode (hp s))"
      if "s \<in> set (grantedList h)" "s \<noteq> r" for s
      using convert_compatible [OF c r that(1) _ nc] that by (simp add: q)
    show "gc m = grantedCounts h m - own (hp r) m + ind (mode (grantNow (hp r)) = m)" for m
      by (simp add: gcm q)
    show "h' = h\<lparr>grantedCounts := gc, grantedModes := maskOf gc,
        conversionsCount := conversionsCount h - ind (status (hp r) = STATUS_CONVERTING)\<rparr>"
      by (simp add: h'_def conv)
  qed (simp_all add: q gok)
  moreover have "conflicts k (grantedModes h')" if "conflicts k (grantedModes h)" for k
  proof -
    have "0 < gc (convertMode (hp r))"
      using cnt [of "convertMode (hp r)"] gok by (simp add: gc_def own)
    then have "conflicts k (maskOf gc)"
      by (intro conflicts_replace [OF c r gok(4) _ _ that]) (auto simp: gc_def)
    then show ?thesis by (simp add: h'_def)
  qed
  ultimately show ?thesis
    using dec by (auto simp: conv_frame_def h'_def gc_def)
qed


lemma grantConversions_Cons:
  assumes "head_ok hp h" "r \<in> set (grantedList h)"
    and conv: "conversionsCount h \<noteq> 0" "status (hp r) = STATUS_CONVERTING"
  shows "grantConversions (r # rs) (hp, h) =
    (if conflicts (convertMode (hp r)) (modesWithout (grantedCounts h) (own (hp r)))
     then grantConversions rs (hp, h)
     else do {
       h1 \<leftarrow> decGrantedModeCount (mode (hp r)) (h\<lparr>conversionsCount := conversionsCount h - 1\<rparr>);
       (hp2, h2, ns) \<leftarrow> grantConversions rs (hp(r := grantNow (hp r)), h1);
       Some (hp2, h2, r # ns)
     })"
proof -
  have own: "(\<lambda>i. holds (hp r) i + waits (hp r) i) = own (hp r)"
    using conv by (simp add: own_converting fun_eq_iff)
  have "convertMode (hp r) \<noteq> MODE_NONE"
    "\<forall>i \<in> set [MODE_IS, MODE_IX, MODE_S, MODE_X]. holds (hp r) i + waits (hp r) i \<le> 1"
    using assms by (auto simp: head_ok_def granted_ok_def holds_def waits_def)
  moreover have "grantNow (hp r) =
      (hp r)\<lparr>status := STATUS_GRANTED, mode := convertMode (hp r), convertMode := MODE_NONE\<rparr>"
    using conv by (simp add: grantNow_def)
  ultimately show ?thesis using conv own by (simp add: fail_simps)
qed

lemma grantConversions_ok:
  assumes "head_ok hp h" and "set xs \<subseteq> set (grantedList h)" and "distinct xs"
  shows "\<exists>h' ns. grantConversions xs (hp, h) = Some (grantAll ns hp, h', ns) \<and>
    head_ok (grantAll ns hp) h' \<and> conv_frame h h' \<and> distinct ns \<and>
    set ns \<subseteq> {r \<in> set xs. status (hp r) = STATUS_CONVERTING}"
  using assms
proof (induction xs arbitrary: hp h)
  case Nil
  then show ?case by (intro exI [of _ h] exI [of _ "[]"]) simp
next
  case (Cons r rs)
  then have r: "r \<in> set (grantedList h)" "r \<notin> set rs" by auto
  let ?blocked = "conflicts (convertMode (hp r)) (modesWithout (grantedCounts h) (own (hp r)))"
  consider (none) "conversionsCount h = 0"
    | (other) "conversionsCount h \<noteq> 0" "status (hp r) \<noteq> STATUS_CONVERTING"
    | (conv) "conversionsCount h \<noteq> 0" "status (hp r) = STATUS_CONVERTING" by blast
  then show ?case
  proof cases
    case none
    with Cons.prems show ?thesis by (intro exI [of _ h] exI [of _ "[]"]) simp
  next
    case other
    with Cons.IH [of hp h] Cons.prems show ?thesis by fastforce
  next
    case conv
    have step: "grantConversions (r # rs) (hp, h) = (if ?blocked then grantConversions rs (hp, h)
      else do {
        h1 \<leftarrow> decGrantedModeCount (mode (hp r)) (h\<lparr>conversionsCount := conversionsCount h - 1\<rparr>);
        (hp2, h2, ns) \<leftarrow> grantConversions rs (hp(r := grantNow (hp r)), h1);
        Some (hp2, h2, r # ns)
      })" by (rule grantConversions_Cons [OF Cons.prems(1) r(1) conv])
    show ?thesis
    proof (cases ?blocked)
      case True
      with step Cons.IH [of hp h] Cons.prems show ?thesis by fastforce
    next
      case False
      from grantConversion_step [OF Cons.prems(1) r(1) conv(2) this] obtain h1 where h1:
        "decGrantedModeCount (mode (hp r)) (h\<lparr>conversionsCount := conversionsCount h - 1\<rparr>) = Some h1"
        "head_ok (hp(r := grantNow (hp r))) h1" "conv_frame h h1" by blast
      have sub: "set rs \<subseteq> set (grantedList h1)" "distinct rs"
        using Cons.prems h1(3) by (auto simp: conv_frame_def)
      from Cons.IH [OF h1(2) sub] obtain h2 ns where ih:
        "grantConversions rs (hp(r := grantNow (hp r)), h1) =
           Some (grantAll ns (hp(r := grantNow (hp r))), h2, ns)"
        "head_ok (grantAll ns (hp(r := grantNow (hp r)))) h2" "conv_frame h1 h2" "distinct ns"
        "set ns \<subseteq> {s \<in> set rs. status ((hp(r := grantNow (hp r))) s) = STATUS_CONVERTING}"
        by blast
      have rns: "r \<notin> set ns" using ih(5) r(2) by auto
      have "set (r # ns) \<subseteq> {s \<in> set (r # rs). status (hp s) = STATUS_CONVERTING}"
        using ih(5) conv r(2) by (auto split: if_splits)
      then show ?thesis
        using ih rns h1 False step conv_frame_trans [OF h1(3) ih(3)] grantAll_Cons [OF rns, of hp]
        by (intro exI [of _ h2] exI [of _ "r # ns"]) simp
    qed
  qed
qed


lemma wait_frame_refl [simp]: "wait_frame [] h h"
  by (simp add: wait_frame_def)

lemma wait_frame_Cons:
  "wait_frame [r] h h1 \<Longrightarrow> wait_frame ns h1 h2 \<Longrightarrow> wait_frame (r # ns) h h2"
  by (auto simp: wait_frame_def conj_commute intro: filter_cong)

lemma grantWaiting_Cons:
  assumes ok: "head_ok hp h" and r: "r \<in> set (conflictList h)"
  shows "grantWaiting (r # rs) nw (hp, h) =
    (if conflicts (mode (hp r)) (grantedModes h) then
       (if hdOpt (conflictList h) = Some r \<and> \<not> nw then Some (hp, h, []) else grantWaiting rs nw (hp, h))
     else if mode (hp r) = MODE_X then Some (hp(r := grantNow (hp r)), grantedHead hp r h, [r])
     else do {
       (hp2, h4, ns) \<leftarrow> grantWaiting rs
          (nw \<or> compatibleFirst (hp r) \<and> compatibleFirstCount h = 0)
          (hp(r := grantNow (hp r)), grantedHead hp r h);
       Some (hp2, h4, r # ns)
     })"
proof -
  have c: "counts_ok hp h" and w: "status (hp r) = STATUS_WAITING"
    using ok r by (auto simp: head_ok_def waiting_ok_def)
  have dec: "decConflictModeCount (mode (hp r)) (h\<lparr>conflictList := remove1 r (conflictList h)\<rparr>) =
      Some (h\<lparr>conflictList := remove1 r (conflictList h),
        conflictCounts := (conflictCounts h)(mode (hp r) := conflictCounts h (mode (hp r)) - 1),
        conflictModes := maskOf ((conflictCounts h)(mode (hp r) := conflictCounts h (mode (hp r)) - 1))\<rparr>)"
    using counts_okD [OF c] conflict_mode_counted [OF c r] by (simp add: decConflict_eq)
  have "grantNow (hp r) = (hp r)\<lparr>status := STATUS_GRANTED\<rparr>"
    using w by (simp add: grantNow_def)
  then show ?thesis
    using w counts_okD [OF c]
    by (simp add: fail_simps dec incGranted_eq grantedHead_def Let_def del: One_nat_def)
qed

lemma grantedHead_ok:
  assumes ok: "head_ok hp h" and r: "r \<in> set (conflictList h)"
    and nc: "\<not> conflicts (mode (hp r)) (grantedModes h)"
  shows "head_ok (hp(r := grantNow (hp r))) (grantedHead hp r h)"
    and "wait_frame [r] h (grantedHead hp r h)"
    and "conflicts k (grantedModes (grantedHead hp r h)) \<longleftrightarrow>
      conflicts k (grantedModes h) \<or> \<not> compatible k (mode (hp r))"
proof -
  let ?h = "grantedHead hp r h" and ?hp = "hp(r := grantNow (hp r))"
  have c: "counts_ok hp h" and w: "waiting_ok (hp r)" and d: "distinct (grantedList h @ conflictList h)"
    using ok r by (auto simp: head_ok_def)
  have q: "grantNow (hp r) = (hp r)\<lparr>status := STATUS_GRANTED\<rparr>"
    using w by (simp add: grantNow_def waiting_ok_def)
  have own: "own ((hp r)\<lparr>status := STATUS_GRANTED\<rparr>) m = ind (mode (hp r) = m)" for m
    by (simp add: own_def)
  have nin: "r \<notin> set (grantedList h)" "r \<notin> set (remove1 r (conflictList h))" using d r by auto
  have "counts_ok ?hp ?h"
    using c nin r by (auto simp: counts_ok_def grantedHead_def Let_def own q
        tallyOn_remove1 [OF r, of _ hp])
  moreover have "granted_compatible ?hp (grantedList ?h)"
  proof -
    have 1: "compatible (mode (hp r)) (mode (hp s))" if "s \<in> set (grantedList h)" for s
      using not_conflicts_granted [OF c nc that] .
    then have "compatible (mode (hp s)) (mode (hp r))" if "s \<in> set (grantedList h)" for s
      using that compatible_sym by blast
    with 1 ok nin show ?thesis
      by (auto simp: granted_compatible_def head_ok_def grantedHead_def Let_def q)
  qed
  ultimately show "head_ok ?hp ?h"
    using ok w d nin by (auto simp: head_ok_def grantedHead_def Let_def q granted_ok_def waiting_ok_def)
  show mono: "conflicts k (grantedModes ?h) \<longleftrightarrow>
      conflicts k (grantedModes h) \<or> \<not> compatible k (mode (hp r))" for k
    using counts_okD [OF c] by (simp add: grantedHead_def Let_def maskOf_inc conflicts_or)
  show "wait_frame [r] h ?h"
    using d mono by (auto simp: wait_frame_def grantedHead_def Let_def distinct_remove1_removeAll
        removeAll_filter_not_eq intro: filter_cong)
qed

lemma front_blockedI:
  "(\<And>s. s \<in> set (conflictList h) \<Longrightarrow> conflicts (mode (hp s)) (grantedModes h)) \<Longrightarrow> front_blocked hp h"
  by (simp add: front_blocked_def split: list.split)

lemma grantWaiting_ok:
  assumes "head_ok hp h" and "conflictList h = sk @ xs"
    and "\<And>s. s \<in> set sk \<Longrightarrow> conflicts (mode (hp s)) (grantedModes h)"
  shows "\<exists>h' ns. grantWaiting xs nw (hp, h) = Some (grantAll ns hp, h', ns) \<and>
    head_ok (grantAll ns hp) h' \<and> wait_frame ns h h' \<and> subseq ns xs \<and>
    front_blocked (grantAll ns hp) h'"
  using assms
proof (induction xs arbitrary: hp h sk nw)
  case Nil
  then show ?case by (intro exI [of _ h] exI [of _ "[]"]) (auto intro: front_blockedI)
next
  case (Cons r rs)
  have r: "r \<in> set (conflictList h)" "r \<notin> set sk" "r \<notin> set rs"
    using Cons.prems(1,2) by (auto simp: head_ok_def)
  note eq = grantWaiting_Cons [OF Cons.prems(1) r(1)]
  show ?case
  proof (cases "conflicts (mode (hp r)) (grantedModes h)")
    case True
    show ?thesis
    proof (cases "hdOpt (conflictList h) = Some r \<and> \<not> nw")
      case front: True
      then have "front_blocked hp h" using True by (auto simp: front_blocked_def split: list.splits)
      with front True Cons.prems(1) eq [of rs nw] show ?thesis
        by (intro exI [of _ h] exI [of _ "[]"]) simp
    next
      case False
      with True Cons.IH [OF Cons.prems(1), of "sk @ [r]" nw] Cons.prems(2,3) eq [of rs nw] show ?thesis
        by fastforce
    qed
  next
    case False
    note g = grantedHead_ok [OF Cons.prems(1) r(1) False]
    let ?hp = "hp(r := grantNow (hp r))" and ?h = "grantedHead hp r h"
    have cl: "conflictList ?h = sk @ rs"
      using Cons.prems(2) r by (simp add: grantedHead_def Let_def remove1_append)
    have one: "grantAll [r] hp = ?hp" by (auto simp: grantAll_def)
    show ?thesis
    proof (cases "mode (hp r) = MODE_X")
      case True
      have "conflicts (mode (?hp s)) (grantedModes ?h)" if "s \<in> set (conflictList ?h)" for s
      proof -
        have "s \<noteq> r" "mode (hp s) \<noteq> MODE_NONE"
          using that cl r Cons.prems(1,2) by (auto simp: head_ok_def waiting_ok_def)
        then show ?thesis
          using True g(3) compatible_X_iff compatible_sym [of "mode (hp s)" MODE_X] by simp
      qed
      then have "front_blocked ?hp ?h" by (rule front_blockedI)
      with g(1) have "head_ok (grantAll [r] hp) ?h" "front_blocked (grantAll [r] hp) ?h"
        unfolding one by simp_all
      moreover have "grantWaiting (r # rs) nw (hp, h) = Some (grantAll [r] hp, ?h, [r])"
        unfolding one using True False eq [of rs nw] by metis
      ultimately show ?thesis
        using g(2) by (intro exI [of _ ?h] exI [of _ "[r]"] conjI) simp_all
    next
      case notX: False
      have "conflicts (mode (?hp s)) (grantedModes ?h)" if "s \<in> set sk" for s
        using Cons.prems(3) [OF that] g(3) that r(2) by auto
      from Cons.IH [OF g(1) cl this] obtain h' ns where ih:
        "grantWaiting rs (nw \<or> compatibleFirst (hp r) \<and> compatibleFirstCount h = 0) (?hp, ?h) =
           Some (grantAll ns ?hp, h', ns)"
        "head_ok (grantAll ns ?hp) h'" "wait_frame ns ?h h'" "subseq ns rs"
        "front_blocked (grantAll ns ?hp) h'" by blast
      have "r \<notin> set ns" using ih(4) r(3) subseq_set by blast
      from ih wait_frame_Cons [OF g(2) ih(3)] notX False eq [of rs nw] grantAll_Cons [OF this, of hp]
      show ?thesis by (intro exI [of _ h'] exI [of _ "r # ns"]) simp
    qed
  qed
qed

text \<open>Unless a \<open>compatibleFirst\<close> request is granted, the queue is served in order.\<close>

lemma grantWaiting_prefix:
  assumes "head_ok hp h" and "conflictList h = xs" and "\<And>s. s \<in> set xs \<Longrightarrow> \<not> compatibleFirst (hp s)"
    and "grantWaiting xs False (hp, h) = Some (hp', h', ns)"
  shows "prefix ns xs"
  using assms
proof (induction xs arbitrary: hp h ns)
  case (Cons r rs)
  have r: "r \<in> set (conflictList h)" "r \<notin> set rs"
    using Cons.prems(1,2) by (auto simp: head_ok_def)
  note eq = grantWaiting_Cons [OF Cons.prems(1) r(1), of rs False]
  show ?case
  proof (cases "conflicts (mode (hp r)) (grantedModes h) \<or> mode (hp r) = MODE_X")
    case True
    with eq Cons.prems(2,4) show ?thesis by (auto split: if_splits)
  next
    case False
    let ?hp = "hp(r := grantNow (hp r))" and ?h = "grantedHead hp r h"
    from False have g: "head_ok ?hp ?h" by (intro grantedHead_ok [OF Cons.prems(1) r(1)]) simp
    have cl: "conflictList ?h = rs"
      using Cons.prems(2) by (simp add: grantedHead_def Let_def)
    have cf: "\<not> compatibleFirst (?hp s)" if "s \<in> set rs" for s
      using that r(2) Cons.prems(3) by auto
    from eq False Cons.prems(3,4) obtain ns' where ns:
      "grantWaiting rs False (?hp, ?h) = Some (hp', h', ns')" "ns = r # ns'"
      by (auto split: bind_splits)
    from Cons.IH [OF g cl cf ns(1)] ns(2) show ?thesis by simp
  qed
qed simp

lemma head_ok_sync:
  assumes "head_ok hp h"
  shows "grantedModes h = 0 \<longleftrightarrow> grantedList h = []" and "conflictModes h = 0 \<longleftrightarrow> conflictList h = []"
proof -
  have c: "counts_ok hp h" using assms by (simp add: head_ok_def)
  have "(\<exists>m. 0 < own (hp r) m)" for r using own_ge_1 [of "hp r"] by (metis One_nat_def Suc_le_eq)
  then show "grantedModes h = 0 \<longleftrightarrow> grantedList h = []"
    using c by (auto simp: counts_ok_def maskOf_eq_0 tallyOn_zero) (metis gr0I list.set_intros(1) list.exhaust not_gr0)
  show "conflictModes h = 0 \<longleftrightarrow> conflictList h = []"
    using c by (auto simp: counts_ok_def maskOf_eq_0 tallyOn_zero) (metis list.set_intros(1) list.exhaust)
qed

lemma grantAll_append:
  "set ns1 \<inter> set ns2 = {} \<Longrightarrow> grantAll ns2 (grantAll ns1 hp) = grantAll (ns1 @ ns2) hp"
  by (auto simp: grantAll_def fun_eq_iff)

lemma grantAll_notin [simp]: "r \<notin> set ns \<Longrightarrow> grantAll ns hp r = hp r"
  by (simp add: grantAll_def)

lemma front_blocked_conv:
  assumes "front_blocked hp h" "conv_frame h h'" "set (conflictList h) \<inter> set ns = {}"
  shows "front_blocked (grantAll ns hp) h'"
  using assms by (auto simp: front_blocked_def conv_frame_def split: list.splits)

lemma onLockModeChanged_ok:
  assumes ok: "head_ok hp h"
  shows "\<exists>h' ns. onLockModeChanged chk (hp, h) = Some (grantAll ns hp, h', ns) \<and>
    head_ok (grantAll ns hp) h' \<and> change_frame ns h h' \<and> distinct ns \<and>
    set ns \<subseteq> {r \<in> set (grantedList h). status (hp r) = STATUS_CONVERTING} \<union> set (conflictList h) \<and>
    (chk \<or> front_blocked hp h \<longrightarrow> front_blocked (grantAll ns hp) h') \<and>
    (chk \<or> set ns \<inter> set (conflictList h) = {}) \<and>
    ((\<forall>s \<in> set (conflictList h). \<not> compatibleFirst (hp s)) \<longrightarrow>
       prefix (filter (\<lambda>r. r \<in> set (conflictList h)) ns) (conflictList h))"
proof -
  have d: "distinct (grantedList h)" "set (grantedList h) \<inter> set (conflictList h) = {}"
    using ok by (auto simp: head_ok_def)
  from grantConversions_ok [OF ok subset_refl d(1)] obtain h1 ns1 where 1:
    "grantConversions (grantedList h) (hp, h) = Some (grantAll ns1 hp, h1, ns1)"
    "head_ok (grantAll ns1 hp) h1" "conv_frame h h1" "distinct ns1"
    "set ns1 \<subseteq> {r \<in> set (grantedList h). status (hp r) = STATUS_CONVERTING}" by blast
  obtain h2 ns2 where 2:
    "(if chk then grantWaiting (conflictList h1) False (grantAll ns1 hp, h1)
      else Some (grantAll ns1 hp, h1, [])) = Some (grantAll ns2 (grantAll ns1 hp), h2, ns2)"
    "head_ok (grantAll ns2 (grantAll ns1 hp)) h2" "wait_frame ns2 h1 h2" "subseq ns2 (conflictList h1)"
    "chk \<Longrightarrow> front_blocked (grantAll ns2 (grantAll ns1 hp)) h2" "\<not> chk \<Longrightarrow> ns2 = [] \<and> h2 = h1"
    using grantWaiting_ok [OF 1(2), of "[]" "conflictList h1" False] 1(2) by (cases chk) fastforce+
  have sub2: "set ns2 \<subseteq> set (conflictList h)"
    using subseq_set [OF 2(4)] 1(3) by (simp add: conv_frame_def)
  have disj: "set ns1 \<inter> set ns2 = {}" using 1(5) sub2 d(2) by blast
  have heap: "grantAll ns2 (grantAll ns1 hp) = grantAll (ns1 @ ns2) hp"
    by (rule grantAll_append [OF disj])
  have run: "onLockModeChanged chk (hp, h) = Some (grantAll (ns1 @ ns2) hp, h2, ns1 @ ns2)"
    using 1(1) 2(1) head_ok_sync [OF 2(2)] by (simp add: onLockModeChanged_def heap)
  have "distinct (conflictList h1)" using 1(2) by (simp add: head_ok_def)
  then have dist: "distinct (ns1 @ ns2)"
    using 1(4) disj subseq_distinct [OF 2(4)] by simp
  have f1: "filter (\<lambda>r. r \<in> set (conflictList h)) ns1 = []"
    using 1(5) d(2) by (auto simp: filter_empty_conv)
  have f2: "filter (\<lambda>r. r \<in> set (conflictList h)) ns2 = ns2"
    using sub2 by (intro filter_True) auto
  have fifo: "prefix ns2 (conflictList h)" if cf: "\<forall>s \<in> set (conflictList h). \<not> compatibleFirst (hp s)"
  proof (cases chk)
    case True
    have "\<not> compatibleFirst (grantAll ns1 hp s)" if "s \<in> set (conflictList h1)" for s
      using that cf 1(3) by (auto simp: conv_frame_def grantAll_def grantNow_def split: Status.split)
    from grantWaiting_prefix [OF 1(2) refl this] 2(1) True 1(3) show ?thesis by (auto simp: conv_frame_def)
  qed (use 2(6) in simp)
  have "filter (\<lambda>r. r \<notin> set ns2) (conflictList h) = filter (\<lambda>r. r \<notin> set (ns1 @ ns2)) (conflictList h)"
    using 1(5) d(2) by (intro filter_cong) auto
  moreover have "ns2 = []" "h2 = h1" if "conflictList h = []"
    using that sub2 2(1,6) 1(3) by (cases chk; simp add: conv_frame_def)+
  ultimately have "change_frame (ns1 @ ns2) h h2"
    using 1(3) 2(3) f1 f2 by (auto simp: change_frame_def conv_frame_def wait_frame_def)
  moreover have "front_blocked (grantAll (ns1 @ ns2) hp) h2" if "chk \<or> front_blocked hp h"
  proof (cases chk)
    case False
    have "set (conflictList h) \<inter> set ns1 = {}" using 1(5) d(2) by blast
    with False that 2(6) front_blocked_conv [OF _ 1(3)] show ?thesis by auto
  qed (use 2(5) heap in simp)
  moreover have "chk \<or> set (ns1 @ ns2) \<inter> set (conflictList h) = {}"
    using 2(6) 1(5) d(2) by auto
  ultimately show ?thesis
    using run dist 2(2) heap 1(5) sub2 f1 f2 fifo by (intro exI [of _ h2] exI [of _ "ns1 @ ns2"]) auto
qed

end
