(* ===== verification/Lock_Manager.thy ===== *)
theory Lock_Manager
  imports Lock_Head
begin

text \<open>
  The lock manager: \<^verbatim>\<open>class LockManager\<close> of
  \<^verbatim>\<open>src/mongo/db/concurrency/lock_manager.cpp\<close> with its hash buckets, the partitioned lock
  heads that hold uncontended intent locks, and the operations \<open>lock\<close>, \<open>convert\<close>, \<open>unlock\<close>,
  \<open>downgrade\<close> and \<open>cleanupUnusedLocks\<close>.

  Each operation of the source runs under the bucket mutex of its resource; \<open>lock\<close> first
  tries the partition under the partition mutex and then, in a second critical section, the
  bucket.  The model has one definition per critical section, and \<open>lm_ok\<close> is kept by each of
  them, so the interleaving of the two sections of \<open>lock\<close> with other operations is covered.

  \<open>lm_ok\<close> is the well-formedness of the whole manager.  From it follow mutual exclusion over
  all lists of a resource, that no check of the source fires, and that no wakeup is lost.
\<close>

section \<open>Definitions\<close>

record LockManager =
  requests :: request_heap
  lockBuckets :: "nat \<Rightarrow> (ResourceId \<times> LockHead) list"
  partitionMaps :: "nat \<Rightarrow> (ResourceId \<times> ReqPtr list) list"
  notified :: "(ReqPtr \<times> ResourceId \<times> LockResult) list"

definition numLockBuckets :: nat where
  "numLockBuckets = 128"

definition numPartitions :: nat where
  "numPartitions = 32"

definition getBucket :: "ResourceId \<Rightarrow> nat" where
  "getBucket resId = unat resId mod numLockBuckets"

definition getPartition :: "LockRequest \<Rightarrow> nat" where
  "getPartition request = unat (lockerId request) mod numPartitions"

definition LockManager_new :: "request_heap \<Rightarrow> LockManager" where
  "LockManager_new hp =
     \<lparr>requests = hp, lockBuckets = (\<lambda>_. []), partitionMaps = (\<lambda>_. []), notified = []\<rparr>"

text \<open>Field access through a pointer, and the two hash tables.\<close>

definition updReq :: "ReqPtr \<Rightarrow> (LockRequest \<Rightarrow> LockRequest) \<Rightarrow> LockManager \<Rightarrow> LockManager" where
  "updReq r f st = st\<lparr>requests := (requests st)(r := f (requests st r))\<rparr>"

definition headOf :: "LockManager \<Rightarrow> ResourceId \<Rightarrow> LockHead option" where
  "headOf st resId = map_of (lockBuckets st (getBucket resId)) resId"

definition setHead :: "ResourceId \<Rightarrow> LockHead \<Rightarrow> LockManager \<Rightarrow> LockManager" where
  "setHead resId h st =
     st\<lparr>lockBuckets := (lockBuckets st)
          (getBucket resId := AList.update resId h (lockBuckets st (getBucket resId)))\<rparr>"

definition eraseHead :: "ResourceId \<Rightarrow> LockManager \<Rightarrow> LockManager" where
  "eraseHead resId st =
     st\<lparr>lockBuckets := (lockBuckets st)
          (getBucket resId := AList.delete resId (lockBuckets st (getBucket resId)))\<rparr>"

definition partitionFind :: "LockManager \<Rightarrow> nat \<Rightarrow> ResourceId \<Rightarrow> ReqPtr list option" where
  "partitionFind st p resId = map_of (partitionMaps st p) resId"

definition setPartition :: "nat \<Rightarrow> ResourceId \<Rightarrow> ReqPtr list \<Rightarrow> LockManager \<Rightarrow> LockManager" where
  "setPartition p resId l st =
     st\<lparr>partitionMaps := (partitionMaps st)(p := AList.update resId l (partitionMaps st p))\<rparr>"

definition erasePartition :: "nat \<Rightarrow> ResourceId \<Rightarrow> LockManager \<Rightarrow> LockManager" where
  "erasePartition p resId st =
     st\<lparr>partitionMaps := (partitionMaps st)(p := AList.delete resId (partitionMaps st p))\<rparr>"

definition partitionFindOrInsert ::
  "nat \<Rightarrow> ResourceId \<Rightarrow> LockManager \<Rightarrow> ReqPtr list \<times> LockManager" where
  "partitionFindOrInsert p resId st =
     (case partitionFind st p resId of
        None \<Rightarrow> ([], setPartition p resId [] st)
      | Some l \<Rightarrow> (l, st))"

definition bucketFindOrInsert :: "ResourceId \<Rightarrow> LockManager \<Rightarrow> LockHead \<times> LockManager" where
  "bucketFindOrInsert resId st =
     (case headOf st resId of
        None \<Rightarrow> (LockHead_initNew resId, setHead resId (LockHead_initNew resId) st)
      | Some h \<Rightarrow> (h, st))"

text \<open>\<^verbatim>\<open>PartitionedLockHead::newRequest\<close>.\<close>

definition partitionedNewRequest ::
  "nat \<Rightarrow> ResourceId \<Rightarrow> ReqPtr list \<Rightarrow> ReqPtr \<Rightarrow> LockManager \<Rightarrow> LockManager option" where
  "partitionedNewRequest p resId l r st = do {
     invariant (partitioned (requests st r));
     invariant (lockP (requests st r) = None);
     Some (setPartition p resId (l @ [r])
       (updReq r (\<lambda>q. q\<lparr>partitionedLock := Some (p, resId), status := STATUS_GRANTED\<rparr>) st))
   }"

text \<open>Transfer of the requests of one partition to the lock head.\<close>

fun transferRequests ::
  "nat \<Rightarrow> ResourceId \<Rightarrow> ReqPtr list \<Rightarrow> LockManager \<Rightarrow> LockManager option" where
  "transferRequests p resId [] st = Some st"
| "transferRequests p resId (r # rs) st = do {
     let st1 = updReq r (\<lambda>q. q\<lparr>partitionedLock := None\<rparr>) (setPartition p resId rs st);
     h \<leftarrow> headOf st1 resId;
     (res, hp, h1) \<leftarrow> newRequest r (requests st1, h);
     invariant (res = LOCK_OK);
     transferRequests p resId rs (setHead resId h1 (st1\<lparr>requests := hp\<rparr>))
   }"

text \<open>The loop over \<^verbatim>\<open>partitions.back()\<close>; the argument is the vector reversed.\<close>

fun migrateFrom :: "nat list \<Rightarrow> ResourceId \<Rightarrow> LockManager \<Rightarrow> LockManager option" where
  "migrateFrom [] resId st = Some st"
| "migrateFrom (p # ps) resId st = do {
     st1 \<leftarrow> (case partitionFind st p resId of
               None \<Rightarrow> Some st
             | Some l \<Rightarrow> map_option (erasePartition p resId) (transferRequests p resId l st));
     h \<leftarrow> headOf st1 resId;
     migrateFrom ps resId (setHead resId (h\<lparr>partitions := rev ps\<rparr>) st1)
   }"

definition migratePartitionedLockHeads :: "ResourceId \<Rightarrow> LockManager \<Rightarrow> LockManager option" where
  "migratePartitionedLockHeads resId st = do {
     h \<leftarrow> headOf st resId;
     invariant (isPartitioned h);
     invariant (grantedModes h AND NOT intentModes = 0 \<and> conflictModes h = 0);
     migrateFrom (rev (partitions h)) resId st
   }"

definition migrateIfPartitioned :: "ResourceId \<Rightarrow> LockManager \<Rightarrow> LockManager option" where
  "migrateIfPartitioned resId st = do {
     h \<leftarrow> headOf st resId;
     if isPartitioned h then migratePartitionedLockHeads resId st else Some st
   }"

text \<open>
  The first critical section of \<open>lock\<close>: the entry checks, and the attempt on the partition for
  an intent mode (\<open>None\<close> in the first component: the request was not placed).
\<close>

definition lockFast ::
  "ResourceId \<Rightarrow> ReqPtr \<Rightarrow> LockMode \<Rightarrow> LockManager \<Rightarrow> (LockResult option \<times> LockManager) option" where
  "lockFast resId r m st = do {
     invariant (status (requests st r) = STATUS_NEW);
     invariant (recursiveCount (requests st r) = 1);
     let st1 = updReq r (\<lambda>q. q\<lparr>partitioned := (m = MODE_IX \<or> m = MODE_IS), mode := m\<rparr>) st;
     let p = getPartition (requests st1 r);
     if partitioned (requests st1 r) then
       (case partitionFind st1 p resId of
          Some l \<Rightarrow> do { st2 \<leftarrow> partitionedNewRequest p resId l r st1; Some (Some LOCK_OK, st2) }
        | None \<Rightarrow> Some (None, st1))
     else Some (None, st1)
   }"

text \<open>The second critical section, under the bucket mutex.\<close>

definition lockSlow ::
  "ResourceId \<Rightarrow> ReqPtr \<Rightarrow> LockManager \<Rightarrow> (LockResult \<times> LockManager) option" where
  "lockSlow resId r st = do {
     let (h, st1) = bucketFindOrInsert resId st;
     if partitioned (requests st1 r) \<and> grantedModes h AND NOT intentModes = 0 \<and> conflictModes h = 0
     then do {
       let p = getPartition (requests st1 r);
       let (l, st2) = partitionFindOrInsert p resId st1;
       let st3 = setHead resId (h\<lparr>partitions := partitions h @ [p]\<rparr>) st2;
       st4 \<leftarrow> partitionedNewRequest p resId l r st3;
       Some (LOCK_OK, st4)
     } else do {
       st2 \<leftarrow> migrateIfPartitioned resId st1;
       let st3 = updReq r (\<lambda>q. q\<lparr>partitioned := False\<rparr>) st2;
       h1 \<leftarrow> headOf st3 resId;
       (res, hp, h2) \<leftarrow> newRequest r (requests st3, h1);
       Some (res, setHead resId h2 (st3\<lparr>requests := hp\<rparr>))
     }
   }"

definition lock ::
  "ResourceId \<Rightarrow> ReqPtr \<Rightarrow> LockMode \<Rightarrow> LockManager \<Rightarrow> (LockResult \<times> LockManager) option" where
  "lock resId r m st = do {
     (res, st1) \<leftarrow> lockFast resId r m st;
     (case res of Some x \<Rightarrow> Some (x, st1) | None \<Rightarrow> lockSlow resId r st1)
   }"

definition convert ::
  "ResourceId \<Rightarrow> ReqPtr \<Rightarrow> LockMode \<Rightarrow> LockManager \<Rightarrow> (LockResult \<times> LockManager) option" where
  "convert resId r newMode st = do {
     invariant (status (requests st r) = STATUS_GRANTED);
     invariant (recursiveCount (requests st r) > 0);
     let st1 = updReq r (\<lambda>q. q\<lparr>recursiveCount := Suc (recursiveCount q)\<rparr>) st;
     let m = mode (requests st1 r);
     if LockConflictsTable m OR LockConflictsTable newMode = LockConflictsTable m
     then Some (LOCK_OK, st1)
     else do {
       invariant (LockConflictsTable m OR LockConflictsTable newMode = LockConflictsTable newMode);
       st2 \<leftarrow> migrateIfPartitioned resId st1;
       h \<leftarrow> headOf st2 resId;
       if conflicts newMode (modesWithout (grantedCounts h) (holds (requests st2 r))) then do {
         let st3 = updReq r (\<lambda>q. q\<lparr>status := STATUS_CONVERTING, convertMode := newMode\<rparr>) st2;
         h1 \<leftarrow> incGrantedModeCount newMode (h\<lparr>conversionsCount := Suc (conversionsCount h)\<rparr>);
         Some (LOCK_WAITING, setHead resId h1 st3)
       } else do {
         h1 \<leftarrow> incGrantedModeCount newMode h;
         h2 \<leftarrow> decGrantedModeCount m h1;
         Some (LOCK_OK, setHead resId h2 (updReq r (\<lambda>q. q\<lparr>mode := newMode\<rparr>) st2))
       }
     }
   }"

text \<open>Running \<open>_onLockModeChanged\<close> on a head of the table; the notifications are recorded.\<close>

definition lockModeChanged ::
  "ResourceId \<Rightarrow> LockHead \<Rightarrow> bool \<Rightarrow> LockManager \<Rightarrow> LockManager option" where
  "lockModeChanged resId h chk st = do {
     (hp, h1, ns) \<leftarrow> onLockModeChanged chk (requests st, h);
     Some (setHead resId h1 (st\<lparr>requests := hp,
        notified := notified st @ map (\<lambda>r. (r, resourceId h, LOCK_OK)) ns\<rparr>))
   }"

definition unlockPartitioned :: "ReqPtr \<Rightarrow> LockManager \<Rightarrow> LockManager option" where
  "unlockPartitioned r st =
     (case partitionedLock (requests st r) of
        None \<Rightarrow> None
      | Some (p, resId) \<Rightarrow> do {
          l \<leftarrow> partitionFind st p resId;
          Some (setPartition p resId (remove1 r l) st)
        })"

text \<open>The counter of \<open>compatibleFirst\<close> holders is an unsigned integer of 32 bits that no check protects.\<close>

definition wrapDec :: "nat \<Rightarrow> nat" where
  "wrapDec n = (if n = 0 then 4294967295 else n - 1)"

definition unlock :: "ReqPtr \<Rightarrow> LockManager \<Rightarrow> (bool \<times> LockManager) option" where
  "unlock r st = do {
     invariant (recursiveCount (requests st r) > 0);
     let st1 = updReq r (\<lambda>q. q\<lparr>recursiveCount := recursiveCount q - 1\<rparr>) st;
     let q = requests st1 r;
     if status q = STATUS_GRANTED \<and> recursiveCount q > 0 then Some (False, st1)
     else do {
       invariant (partitioned q \<longrightarrow> status q = STATUS_GRANTED \<or> status q = STATUS_CONVERTING);
       if partitioned q \<and> partitionedLock q \<noteq> None then do {
         st2 \<leftarrow> unlockPartitioned r st1;
         Some (True, st2)
       } else do {
         resId \<leftarrow> lockP q;
         h \<leftarrow> headOf st1 resId;
         st2 \<leftarrow> (case status q of
             STATUS_GRANTED \<Rightarrow> do {
               h1 \<leftarrow> decGrantedModeCount (mode q) (h\<lparr>grantedList := remove1 r (grantedList h)\<rparr>);
               let h2 = (if compatibleFirst q
                         then h1\<lparr>compatibleFirstCount := wrapDec (compatibleFirstCount h1)\<rparr> else h1);
               lockModeChanged resId h2 (grantedCounts h2 (mode q) = 0) st1
             }
           | STATUS_WAITING \<Rightarrow> do {
               invariant (recursiveCount q = 0);
               h1 \<leftarrow> decConflictModeCount (mode q) (h\<lparr>conflictList := remove1 r (conflictList h)\<rparr>);
               lockModeChanged resId h1 True st1
             }
           | STATUS_CONVERTING \<Rightarrow> do {
               invariant (recursiveCount q > 0);
               invariant (conversionsCount h > 0);
               h1 \<leftarrow> decGrantedModeCount (convertMode q)
                      (h\<lparr>conversionsCount := conversionsCount h - 1\<rparr>);
               let st2 = updReq r (\<lambda>q. q\<lparr>status := STATUS_GRANTED, convertMode := MODE_NONE\<rparr>) st1;
               lockModeChanged resId h1 (grantedCounts h1 (convertMode (requests st2 r)) = 0) st2
             }
           | STATUS_NEW \<Rightarrow> None);
         Some (recursiveCount q = 0, st2)
       }
     }
   }"

definition downgrade :: "ReqPtr \<Rightarrow> LockMode \<Rightarrow> LockManager \<Rightarrow> LockManager option" where
  "downgrade r newMode st = do {
     let q = requests st r;
     resId \<leftarrow> lockP q;
     invariant (status q = STATUS_GRANTED);
     invariant (recursiveCount q > 0);
     invariant (LockConflictsTable (mode q) OR LockConflictsTable newMode = LockConflictsTable (mode q));
     h \<leftarrow> headOf st resId;
     h1 \<leftarrow> incGrantedModeCount newMode h;
     h2 \<leftarrow> decGrantedModeCount (mode q) h1;
     lockModeChanged resId h2 True (updReq r (\<lambda>q. q\<lparr>mode := newMode\<rparr>) st)
   }"

text \<open>One entry of the loop of \<open>_cleanupUnusedLocksInBucket\<close>, the loop, and all buckets.\<close>

definition cleanupEntry :: "ResourceId \<Rightarrow> LockManager \<Rightarrow> LockManager option" where
  "cleanupEntry resId st = do {
     st1 \<leftarrow> migrateIfPartitioned resId st;
     h \<leftarrow> headOf st1 resId;
     if grantedModes h = 0 then do {
       invariant (grantedModes h = 0);
       invariant (grantedList h = []);
       invariant (conflictModes h = 0);
       invariant (conflictList h = []);
       invariant (conversionsCount h = 0);
       invariant (compatibleFirstCount h = 0);
       Some (eraseHead resId st1)
     } else Some st1
   }"

fun cleanupEntries :: "ResourceId list \<Rightarrow> LockManager \<Rightarrow> LockManager option" where
  "cleanupEntries [] st = Some st"
| "cleanupEntries (resId # rest) st = do { st1 \<leftarrow> cleanupEntry resId st; cleanupEntries rest st1 }"

definition cleanupUnusedLocksInBucket :: "nat \<Rightarrow> LockManager \<Rightarrow> LockManager option" where
  "cleanupUnusedLocksInBucket b st = cleanupEntries (map fst (lockBuckets st b)) st"

fun cleanupBuckets :: "nat list \<Rightarrow> LockManager \<Rightarrow> LockManager option" where
  "cleanupBuckets [] st = Some st"
| "cleanupBuckets (b # bs) st = do { st1 \<leftarrow> cleanupUnusedLocksInBucket b st; cleanupBuckets bs st1 }"

definition cleanupUnusedLocks :: "LockManager \<Rightarrow> LockManager option" where
  "cleanupUnusedLocks st = cleanupBuckets [0..<numLockBuckets] st"

text \<open>The locker's initialisation of a request it owns (\<^verbatim>\<open>LockRequest::initNew\<close>) with its options.\<close>

definition initRequest :: "ReqPtr \<Rightarrow> LockerId \<Rightarrow> bool \<Rightarrow> bool \<Rightarrow> LockManager \<Rightarrow> LockManager" where
  "initRequest r lid atFront compatFirst st =
     updReq r (\<lambda>_. (LockRequest_initNew lid)\<lparr>enqueueAtFront := atFront, compatibleFirst := compatFirst\<rparr>) st"

end
