(* ===== verification/Lock_Invariant.thy ===== *)
theory Lock_Invariant
  imports Lock_Manager
begin

text \<open>
  Well-formedness of the lock manager of \<open>Lock_Manager\<close>: \<open>lm_ok\<close> ties every lock head, every
  partition list and the back pointers of every request together; \<open>lm_ok_frame\<close> is the frame
  rule all operations use.  The migration of partitioned requests to their lock head
  (\<^verbatim>\<open>LockHead::migratePartitionedLockHeads\<close>) keeps it at every transfer.
\<close>

section \<open>Well-formed lock managers\<close>

definition intent :: "LockMode \<Rightarrow> bool" where
  "intent m \<longleftrightarrow> m = MODE_IS \<or> m = MODE_IX"

definition intentOnly :: "LockHead \<Rightarrow> bool" where
  "intentOnly h \<longleftrightarrow> grantedModes h AND NOT intentModes = 0 \<and> conflictModes h = 0"

text \<open>A request is live from the moment it is placed until its last reference is released.\<close>

definition live :: "LockRequest \<Rightarrow> bool" where
  "live q \<longleftrightarrow> status q \<noteq> STATUS_NEW \<and> recursiveCount q > 0"

definition counted :: "LockRequest \<Rightarrow> bool" where
  "counted q \<longleftrightarrow> recursiveCount q > 0 \<and>
     (status q = STATUS_WAITING \<longrightarrow> recursiveCount q = 1 \<and> \<not> partitioned q) \<and>
     (status q = STATUS_CONVERTING \<longrightarrow> recursiveCount q \<ge> 2)"

definition newInv :: "LockRequest \<Rightarrow> bool" where
  "newInv q \<longleftrightarrow> (status q = STATUS_NEW \<longrightarrow> lockP q = None \<and> partitionedLock q = None \<and>
     convertMode q = MODE_NONE \<and> recursiveCount q = 1)"

abbreviation members :: "LockHead \<Rightarrow> ReqPtr set" where
  "members h \<equiv> set (grantedList h) \<union> set (conflictList h)"

definition headBase :: "request_heap \<Rightarrow> ResourceId \<Rightarrow> LockHead \<Rightarrow> bool" where
  "headBase hp resId h \<longleftrightarrow> resourceId h = resId \<and> head_ok hp h \<and>
     (\<forall>r \<in> members h. lockP (hp r) = Some resId \<and> partitionedLock (hp r) = None \<and> counted (hp r)) \<and>
     (partitions h \<noteq> [] \<longrightarrow> intentOnly h)"

text \<open>
  No lost wakeup: while nothing jumped the queue, the request at its front conflicts with a
  granted mode; and in any case somebody holds the lock while somebody waits for it.
\<close>

definition headLive :: "request_heap \<Rightarrow> LockHead \<Rightarrow> bool" where
  "headLive hp h \<longleftrightarrow> (conflictList h \<noteq> [] \<longrightarrow> grantedList h \<noteq> []) \<and>
     ((\<forall>r \<in> set (conflictList h). \<not> enqueueAtFront (hp r)) \<longrightarrow> front_blocked hp h)"

definition partInv :: "request_heap \<Rightarrow> ResourceId \<Rightarrow> nat \<Rightarrow> ReqPtr list \<Rightarrow> bool" where
  "partInv hp resId p l \<longleftrightarrow> distinct l \<and>
     (\<forall>r \<in> set l. partitionedLock (hp r) = Some (p, resId) \<and> lockP (hp r) = None \<and>
        status (hp r) = STATUS_GRANTED \<and> intent (mode (hp r)) \<and> convertMode (hp r) = MODE_NONE \<and>
        partitioned (hp r) \<and> recursiveCount (hp r) > 0)"

definition resBase ::
  "request_heap \<Rightarrow> ResourceId \<Rightarrow> LockHead option \<Rightarrow> (nat \<Rightarrow> ReqPtr list option) \<Rightarrow> bool" where
  "resBase hp resId ho pf \<longleftrightarrow>
     (\<forall>h. ho = Some h \<longrightarrow> headBase hp resId h) \<and>
     (\<forall>p l. pf p = Some l \<longrightarrow> partInv hp resId p l \<and> (\<exists>h. ho = Some h \<and> p \<in> set (partitions h)))"

definition resInv ::
  "request_heap \<Rightarrow> ResourceId \<Rightarrow> LockHead option \<Rightarrow> (nat \<Rightarrow> ReqPtr list option) \<Rightarrow> bool" where
  "resInv hp resId ho pf \<longleftrightarrow> resBase hp resId ho pf \<and> (\<forall>h. ho = Some h \<longrightarrow> headLive hp h)"

definition linked :: "LockHead option \<Rightarrow> (nat \<Rightarrow> ReqPtr list option) \<Rightarrow> ReqPtr \<Rightarrow> bool" where
  "linked ho pf r \<longleftrightarrow> (\<exists>h. ho = Some h \<and> r \<in> members h) \<or> (\<exists>p l. pf p = Some l \<and> r \<in> set l)"

abbreviation partsOf :: "LockManager \<Rightarrow> ResourceId \<Rightarrow> nat \<Rightarrow> ReqPtr list option" where
  "partsOf st resId \<equiv> (\<lambda>p. partitionFind st p resId)"

definition linkedOn :: "LockManager \<Rightarrow> ResourceId \<Rightarrow> ReqPtr \<Rightarrow> bool" where
  "linkedOn st resId r \<longleftrightarrow> linked (headOf st resId) (partsOf st resId) r"

definition buckets_ok :: "LockManager \<Rightarrow> bool" where
  "buckets_ok st \<longleftrightarrow> (\<forall>b. distinct (map fst (lockBuckets st b)) \<and>
     (\<forall>e \<in> set (lockBuckets st b). getBucket (fst e) = b))"

definition lm_ok :: "LockManager \<Rightarrow> bool" where
  "lm_ok st \<longleftrightarrow> (\<forall>resId. resInv (requests st) resId (headOf st resId) (partsOf st resId)) \<and>
     (\<forall>r. newInv (requests st r)) \<and>
     (\<forall>r. live (requests st r) \<longrightarrow> (\<exists>resId. linkedOn st resId r)) \<and> buckets_ok st"

text \<open>The resource a request's back pointers name.\<close>

definition resOf :: "LockRequest \<Rightarrow> ResourceId option" where
  "resOf q = (case partitionedLock q of Some (p, resId) \<Rightarrow> Some resId | None \<Rightarrow> lockP q)"

section \<open>Table lookups\<close>

lemma headOf_setHead [simp]: "headOf (setHead a h st) b = (if b = a then Some h else headOf st b)"
  by (auto simp: headOf_def setHead_def update_conv')

lemma headOf_eraseHead [simp]: "headOf (eraseHead a st) b = (if b = a then None else headOf st b)"
  by (auto simp: headOf_def eraseHead_def delete_conv')

lemma partitionFind_setPartition [simp]:
  "partitionFind (setPartition p a l st) q b = (if q = p \<and> b = a then Some l else partitionFind st q b)"
  by (auto simp: partitionFind_def setPartition_def update_conv')

lemma partitionFind_erasePartition [simp]:
  "partitionFind (erasePartition p a st) q b = (if q = p \<and> b = a then None else partitionFind st q b)"
  by (auto simp: partitionFind_def erasePartition_def delete_conv')

lemma table_frames [simp]:
  "headOf (setPartition p a l st) b = headOf st b" "headOf (erasePartition p a st) b = headOf st b"
  "headOf (updReq r f st) b = headOf st b" "headOf (st\<lparr>requests := hp\<rparr>) b = headOf st b"
  "headOf (st\<lparr>notified := ns\<rparr>) b = headOf st b"
  "partitionFind (setHead a h st) p b = partitionFind st p b"
  "partitionFind (eraseHead a st) p b = partitionFind st p b"
  "partitionFind (updReq r f st) p b = partitionFind st p b"
  "partitionFind (st\<lparr>requests := hp\<rparr>) p b = partitionFind st p b"
  "partitionFind (st\<lparr>notified := ns\<rparr>) p b = partitionFind st p b"
  "requests (setHead a h st) = requests st" "requests (eraseHead a st) = requests st"
  "requests (setPartition p a l st) = requests st" "requests (erasePartition p a st) = requests st"
  "requests (updReq r f st) = (requests st)(r := f (requests st r))"
  by (simp_all add: headOf_def setPartition_def erasePartition_def updReq_def partitionFind_def
      setHead_def eraseHead_def)

lemma notified_frames [simp]:
  "notified (setHead a h st) = notified st" "notified (eraseHead a st) = notified st"
  "notified (setPartition p a l st) = notified st" "notified (erasePartition p a st) = notified st"
  "notified (updReq r f st) = notified st"
  by (simp_all add: setHead_def eraseHead_def setPartition_def erasePartition_def updReq_def)

lemma buckets_ok_frames [simp]:
  "buckets_ok (setPartition p a l st) = buckets_ok st" "buckets_ok (erasePartition p a st) = buckets_ok st"
  "buckets_ok (updReq r f st) = buckets_ok st" "buckets_ok (st\<lparr>requests := hp\<rparr>) = buckets_ok st"
  "buckets_ok (st\<lparr>notified := ns\<rparr>) = buckets_ok st"
  by (simp_all add: buckets_ok_def setPartition_def erasePartition_def updReq_def)

lemma keys_update: "set (map fst (AList.update a h al)) = insert a (set (map fst al))"
  using dom_update [of a h al] by (simp add: dom_map_of_conv_image_fst)

lemma buckets_ok_keys:
  "buckets_ok st \<longleftrightarrow> (\<forall>b. distinct (map fst (lockBuckets st b)) \<and>
     (\<forall>k \<in> set (map fst (lockBuckets st b)). getBucket k = b))"
  by (simp add: buckets_ok_def)

lemma buckets_ok_setHead [simp]: "buckets_ok st \<Longrightarrow> buckets_ok (setHead a h st)"
  unfolding buckets_ok_keys setHead_def
  by (simp add: distinct_update keys_update del: set_map)

lemma buckets_ok_eraseHead [simp]: "buckets_ok st \<Longrightarrow> buckets_ok (eraseHead a st)"
  unfolding buckets_ok_keys eraseHead_def
  by (simp add: distinct_removeAll delete_keys del: set_map)

section \<open>The invariant depends only on linked requests\<close>

lemma head_ok_cong:
  assumes "\<And>r. r \<in> members h \<Longrightarrow> hp' r = hp r"
  shows "head_ok hp h \<Longrightarrow> head_ok hp' h"
proof -
  have "tallyOn g hp' (grantedList h) = tallyOn g hp (grantedList h)"
    "tallyOn g hp' (conflictList h) = tallyOn g hp (conflictList h)" for g
    using assms by (auto intro!: tallyOn_cong)
  then show "head_ok hp h \<Longrightarrow> head_ok hp' h"
    using assms by (auto simp: head_ok_def counts_ok_def granted_compatible_def)
qed

lemma headLive_cong:
  assumes "\<And>r. r \<in> members h \<Longrightarrow> hp' r = hp r" and "headLive hp h"
  shows "headLive hp' h"
  using assms by (auto simp: headLive_def front_blocked_def split: list.splits)

lemma resInv_cong:
  assumes "\<And>r. linked ho pf r \<Longrightarrow> hp' r = hp r" and "resInv hp resId ho pf"
  shows "resInv hp' resId ho pf"
proof -
  have "head_ok hp' h \<and> headLive hp' h" if "ho = Some h" for h
    using assms that
    by (intro conjI head_ok_cong [of h hp' hp] headLive_cong [of h hp' hp])
      (auto simp: linked_def resInv_def resBase_def headBase_def)
  moreover have "partInv hp' resId p l" if "pf p = Some l" for p l
  proof -
    have "partInv hp resId p l" and eq: "\<And>r. r \<in> set l \<Longrightarrow> hp' r = hp r"
      using assms that by (auto simp: linked_def resInv_def resBase_def)
    then show ?thesis by (simp add: partInv_def)
  qed
  ultimately show ?thesis
    using assms by (auto simp: resInv_def resBase_def headBase_def linked_def)
qed

lemma member_status:
  "head_ok hp h \<Longrightarrow> r \<in> members h \<Longrightarrow> status (hp r) \<noteq> STATUS_NEW"
  by (auto simp: head_ok_def granted_ok_def waiting_ok_def)

lemma headBase_member:
  assumes "headBase hp resId h" and "r \<in> members h"
  shows "live (hp r) \<and> resOf (hp r) = Some resId"
  using assms member_status [of hp h r] by (auto simp: headBase_def live_def counted_def resOf_def)

lemma partInv_member:
  "partInv hp resId p l \<Longrightarrow> r \<in> set l \<Longrightarrow> live (hp r) \<and> resOf (hp r) = Some resId"
  by (auto simp: partInv_def live_def resOf_def)

lemma linked_resOf:
  assumes "resBase hp resId ho pf" and "linked ho pf r"
  shows "resOf (hp r) = Some resId" and "live (hp r)"
  using assms unfolding resBase_def linked_def by (metis headBase_member partInv_member)+

lemma lm_okD:
  assumes "lm_ok st"
  shows "resInv (requests st) resId (headOf st resId) (partsOf st resId)"
    and "resBase (requests st) resId (headOf st resId) (partsOf st resId)"
    and "newInv (requests st r)" and "buckets_ok st"
    and "live (requests st r) \<Longrightarrow> \<exists>resId. linkedOn st resId r"
  using assms by (auto simp: lm_ok_def resInv_def)

lemma linkedOn_unique:
  "lm_ok st \<Longrightarrow> linkedOn st a r \<Longrightarrow> linkedOn st b r \<Longrightarrow> a = b"
  using lm_okD(2) linked_resOf(1) unfolding linkedOn_def by (metis option.inject)

text \<open>
  The frame rule: a change confined to one resource and to requests that no other resource
  links keeps the invariant if that resource is well-formed afterwards.
\<close>

lemma lm_ok_frame:
  assumes ok: "lm_ok st"
    and other: "\<And>b p. b \<noteq> a \<Longrightarrow> headOf st' b = headOf st b \<and> partitionFind st' p b = partitionFind st p b"
    and heap: "\<And>s. s \<notin> A \<Longrightarrow> requests st' s = requests st s"
    and conf: "\<And>s b. s \<in> A \<Longrightarrow> linkedOn st b s \<Longrightarrow> b = a"
    and res: "resInv (requests st') a (headOf st' a) (partsOf st' a)"
    and new: "\<And>s. s \<in> A \<Longrightarrow> newInv (requests st' s)"
    and live: "\<And>s. live (requests st' s) \<Longrightarrow> s \<in> A \<or> linkedOn st a s \<Longrightarrow> linkedOn st' a s"
    and bk: "buckets_ok st'"
  shows "lm_ok st'"
proof -
  have eq: "headOf st' b = headOf st b" "partsOf st' b = partsOf st b" if "b \<noteq> a" for b
    using other that by auto
  have "resInv (requests st') b (headOf st' b) (partsOf st' b)" for b
  proof (cases "b = a")
    case False
    have "requests st' s = requests st s" if "linked (headOf st b) (partsOf st b) s" for s
      using heap conf [of s b] False that by (auto simp: linkedOn_def)
    with eq [OF False] lm_okD(1) [OF ok, of b] show ?thesis by (simp add: resInv_cong)
  qed (use res in simp)
  moreover have "\<exists>b. linkedOn st' b s" if l: "live (requests st' s)" for s
  proof (cases "s \<in> A \<or> linkedOn st a s")
    case False
    with heap l lm_okD(5) [OF ok] obtain b where b: "linkedOn st b s" by metis
    with False have "b \<noteq> a" by auto
    with b eq have "linkedOn st' b s" by (simp add: linkedOn_def)
    then show ?thesis ..
  qed (use live l in blast)
  moreover have "newInv (requests st' s)" for s
    using new heap lm_okD(3) [OF ok] by metis
  ultimately show ?thesis using bk by (auto simp: lm_ok_def)
qed

section \<open>Intent-only lock heads\<close>

lemma intentOnly_counts:
  assumes "counts_ok hp h"
  shows "intentOnly h \<longleftrightarrow> (\<forall>m. 0 < grantedCounts h m \<longrightarrow> intent m) \<and> (\<forall>m. conflictCounts h m = 0)"
  using counts_okD [OF assms] by (simp add: intentOnly_def maskOf_intent maskOf_eq_0 intent_def)

lemma intentOnly_conflict: "head_ok hp h \<Longrightarrow> intentOnly h \<Longrightarrow> conflictList h = []"
  using head_ok_sync(2) by (auto simp: intentOnly_def)

lemma intentOnly_granted:
  assumes "head_ok hp h"
  shows "intentOnly h \<longleftrightarrow> conflictList h = [] \<and> (\<forall>r \<in> set (grantedList h). intent (mode (hp r)) \<and>
    (status (hp r) = STATUS_CONVERTING \<longrightarrow> intent (convertMode (hp r))))"
proof -
  have c: "counts_ok hp h" using assms by (simp add: head_ok_def)
  have "(\<forall>m. 0 < grantedCounts h m \<longrightarrow> intent m) \<longleftrightarrow>
    (\<forall>r \<in> set (grantedList h). \<forall>m. 0 < own (hp r) m \<longrightarrow> intent m)"
    using c by (auto simp: counts_ok_def tallyOn_pos)
  also have "\<dots> \<longleftrightarrow> (\<forall>r \<in> set (grantedList h). intent (mode (hp r)) \<and>
    (status (hp r) = STATUS_CONVERTING \<longrightarrow> intent (convertMode (hp r))))"
    by (auto simp: own_def ind_def)
  finally show ?thesis
    using head_ok_sync(2) [OF assms] counts_okD(2) [OF c]
    by (auto simp: intentOnly_counts [OF c] maskOf_eq_0)
qed

lemma intent_granting:
  assumes "head_ok hp h" and "intentOnly h" and "intent (mode q)"
  shows "granting q h"
proof -
  have c: "counts_ok hp h" using assms by (simp add: head_ok_def)
  with assms show ?thesis
    using compatible_intent
    by (auto simp: granting_def intentOnly_counts [OF c] counts_okD [OF c] conflicts_maskOf intent_def)
qed

section \<open>Migration of partitioned requests\<close>

text \<open>What migration does to a request: only its back pointers change.\<close>

definition moved :: "ResourceId \<Rightarrow> LockRequest \<Rightarrow> LockRequest" where
  "moved resId q = q\<lparr>partitionedLock := None, lockP := Some resId\<rparr>"

definition moveAll :: "ResourceId \<Rightarrow> ReqPtr set \<Rightarrow> request_heap \<Rightarrow> request_heap" where
  "moveAll resId S hp = (\<lambda>r. if r \<in> S then moved resId (hp r) else hp r)"

definition same_others :: "ResourceId \<Rightarrow> LockManager \<Rightarrow> LockManager \<Rightarrow> bool" where
  "same_others a st st' \<longleftrightarrow>
     (\<forall>b. b \<noteq> a \<longrightarrow> headOf st' b = headOf st b \<and> partsOf st' b = partsOf st b)"

lemma same_others_refl [simp]: "same_others a st st"
  by (simp add: same_others_def)

lemma same_others_trans: "same_others a s1 s2 \<Longrightarrow> same_others a s2 s3 \<Longrightarrow> same_others a s1 s3"
  by (simp add: same_others_def)

lemma moveAll_simps [simp]:
  "moveAll a {} hp = hp" "moveAll a S (moveAll a T hp) = moveAll a (S \<union> T) hp"
  by (auto simp: moveAll_def moved_def)

lemma moved_simps [simp]:
  "status (moved a q) = status q" "mode (moved a q) = mode q" "convertMode (moved a q) = convertMode q"
  "recursiveCount (moved a q) = recursiveCount q" "partitioned (moved a q) = partitioned q"
  "enqueueAtFront (moved a q) = enqueueAtFront q" "compatibleFirst (moved a q) = compatibleFirst q"
  "lockerId (moved a q) = lockerId q"
  "lockP (moved a q) = Some a" "partitionedLock (moved a q) = None"
  by (simp_all add: moved_def)

lemma moved_granted:
  "status q = STATUS_GRANTED \<Longrightarrow> q\<lparr>partitionedLock := None, lockP := Some a, status := STATUS_GRANTED\<rparr> = moved a q"
  by (cases q) (simp add: moved_def)

lemma partInv_frame:
  "(\<And>r. r \<in> set l \<Longrightarrow> hp' r = hp r) \<Longrightarrow> partInv hp a p l \<Longrightarrow> partInv hp' a p l"
  by (simp add: partInv_def)

text \<open>Partition lists of one resource are disjoint from each other and from its lock head.\<close>

lemma partition_disjoint:
  assumes "resBase hp a ho pf" and "pf p = Some l" and "r \<in> set l"
  shows "ho = Some h \<Longrightarrow> r \<notin> members h" and "pf q = Some l' \<Longrightarrow> q \<noteq> p \<Longrightarrow> r \<notin> set l'"
proof -
  have r: "partitionedLock (hp r) = Some (p, a)"
    using assms by (auto simp: resBase_def partInv_def)
  then show "ho = Some h \<Longrightarrow> r \<notin> members h"
    using assms(1) by (auto simp: resBase_def headBase_def)
  show "pf q = Some l' \<Longrightarrow> q \<noteq> p \<Longrightarrow> r \<notin> set l'"
    using assms(1) r by (auto simp: resBase_def partInv_def)
qed

lemma linked_at:
  "linked (Some h) pf s \<longleftrightarrow> s \<in> members h \<or> (case pf p of None \<Rightarrow> False | Some l \<Rightarrow> s \<in> set l) \<or>
     (\<exists>q l. q \<noteq> p \<and> pf q = Some l \<and> s \<in> set l)"
proof -
  have "(\<exists>q. P q) \<longleftrightarrow> P p \<or> (\<exists>q. q \<noteq> p \<and> P q)" for P :: "nat \<Rightarrow> bool" by metis
  from this [of "\<lambda>q. \<exists>l. pf q = Some l \<and> s \<in> set l"] show ?thesis
    by (auto simp: linked_def split: option.split)
qed

lemma transfer_step:
  assumes ok: "lm_ok st" and h: "headOf st a = Some h" and io: "intentOnly h"
    and l: "partitionFind st p a = Some (r # rs)"
  defines "st1 \<equiv> updReq r (\<lambda>q. q\<lparr>partitionedLock := None\<rparr>) (setPartition p a rs st)"
  shows "\<exists>h1. newRequest r (requests st1, h) = Some (LOCK_OK, moveAll a {r} (requests st), h1) \<and>
    lm_ok (setHead a h1 (st1\<lparr>requests := moveAll a {r} (requests st)\<rparr>)) \<and> intentOnly h1 \<and>
    grantedList h1 = grantedList h @ [r] \<and> conflictList h1 = [] \<and> partitions h1 = partitions h"
proof -
  have base: "resBase (requests st) a (Some h) (partsOf st a)" using lm_okD(2) [OF ok, of a] h by simp
  then have hb: "headBase (requests st) a h" and pb: "partInv (requests st) a p (r # rs)"
    using l by (auto simp: resBase_def)
  have rn: "r \<notin> members h" "r \<notin> set rs"
    using partition_disjoint(1) [OF base l] pb by (auto simp: partInv_def)
  have st_r: "status (requests st r) = STATUS_GRANTED" "resourceId h = a"
    using pb hb by (auto simp: partInv_def headBase_def)
  let ?hp = "moveAll a {r} (requests st)"
  have upd: "(requests st1)(r := (requests st1 r)\<lparr>lockP := Some (resourceId h), status := STATUS_GRANTED\<rparr>) = ?hp"
    using st_r by (simp add: st1_def moveAll_def fun_eq_iff moved_granted)
  have eq: "?hp s = requests st s" if "s \<noteq> r" for s using that by (simp add: moveAll_def)
  have "head_ok (requests st1) h"
    using hb rn by (intro head_ok_cong [of h "requests st1" "requests st"]) (auto simp: st1_def headBase_def)
  with newRequest_granted [of "requests st1" h r] obtain h1 where h1:
    "newRequest r (requests st1, h) = Some (LOCK_OK, ?hp, h1)" "head_ok ?hp h1"
    "grantedList h1 = grantedList h @ [r]" "conflictList h1 = conflictList h"
    "resourceId h1 = resourceId h" "partitions h1 = partitions h"
    using rn pb io intent_granting [of "requests st1" h "requests st1 r"]
    unfolding upd by (auto simp: partInv_def st1_def intent_def)
  have cl: "conflictList h = []" using intentOnly_conflict io hb by (auto simp: headBase_def)
  have io1: "intentOnly h1"
    using io hb pb h1 cl rn intentOnly_granted [of "requests st" h] eq
    by (auto simp: intentOnly_granted [OF h1(2)] headBase_def partInv_def moveAll_def)
  have hb1: "headBase ?hp a h1"
    using hb h1 pb eq io1 rn cl by (auto simp: headBase_def partInv_def moveAll_def counted_def)
  let ?st = "setHead a h1 (st1\<lparr>requests := ?hp\<rparr>)"
  have link: "linkedOn ?st a s \<longleftrightarrow> linkedOn st a s" for s
    using h l h1(3,4) by (auto simp: linkedOn_def linked_at [of _ _ _ p] st1_def)
  have lr: "linkedOn st a r" unfolding linkedOn_def linked_def using l by fastforce
  have "lm_ok ?st"
  proof (rule lm_ok_frame [OF ok, of a _ "{r}"])
    have pt: "partInv ?hp a q l'" if "partitionFind st q a = Some l'" "q \<noteq> p" for q l'
      using partition_disjoint(2) [OF base l _ that] base that
      by (intro partInv_frame [of l' ?hp "requests st"]) (auto simp: moveAll_def resBase_def)
    have "partInv ?hp a p rs"
      using pb rn by (intro partInv_frame [of rs ?hp "requests st"]) (auto simp: moveAll_def partInv_def)
    with pt hb1 h1(6) base l cl h1(4) show "resInv (requests ?st) a (headOf ?st a) (partsOf ?st a)"
      by (auto simp: resInv_def resBase_def st1_def headLive_def front_blocked_def)
  next
    fix s assume "live (requests ?st s)" "s \<in> {r} \<or> linkedOn st a s"
    then show "linkedOn ?st a s"
      using link lr by blast
  next
    fix s b assume "s \<in> {r}" "linkedOn st b s"
    then show "b = a" using linkedOn_unique [OF ok _ lr] by blast
  qed (use lm_okD(3,4) [OF ok] pb in \<open>auto simp: st1_def moveAll_def newInv_def partInv_def\<close>)
  with h1 io1 cl show ?thesis by auto
qed


lemma transferRequests_ok:
  assumes "lm_ok st" and "headOf st a = Some h" and "intentOnly h" and "partitionFind st p a = Some l"
  shows "\<exists>st' h'. transferRequests p a l st = Some st' \<and> lm_ok st' \<and> headOf st' a = Some h' \<and>
    intentOnly h' \<and> grantedList h' = grantedList h @ l \<and> conflictList h' = conflictList h \<and>
    partitions h' = partitions h \<and> (\<forall>q. partitionFind st' q a = (if q = p then Some [] else partitionFind st q a)) \<and>
    same_others a st st' \<and> requests st' = moveAll a (set l) (requests st) \<and> notified st' = notified st"
  using assms
proof (induction l arbitrary: st h)
  case Nil
  then show ?case by (auto simp: fun_eq_iff)
next
  case (Cons r rs)
  let ?st1 = "updReq r (\<lambda>q. q\<lparr>partitionedLock := None\<rparr>) (setPartition p a rs st)"
  have cl: "conflictList h = []"
    using lm_okD(2) [OF Cons.prems(1), of a] Cons.prems(2,3) intentOnly_conflict
    by (auto simp: resBase_def headBase_def)
  from transfer_step [OF Cons.prems] obtain h1 where h1:
    "newRequest r (requests ?st1, h) = Some (LOCK_OK, moveAll a {r} (requests st), h1)"
    "lm_ok (setHead a h1 (?st1\<lparr>requests := moveAll a {r} (requests st)\<rparr>))" "intentOnly h1"
    "grantedList h1 = grantedList h @ [r]" "conflictList h1 = []" "partitions h1 = partitions h" by blast
  let ?st2 = "setHead a h1 (?st1\<lparr>requests := moveAll a {r} (requests st)\<rparr>)"
  have run: "transferRequests p a (r # rs) st = transferRequests p a rs ?st2"
    using Cons.prems(2) h1(1) by (simp add: Let_def)
  have nt: "notified ?st2 = notified st" by simp
  have so: "same_others a st ?st2" by (simp add: same_others_def)
  have "headOf ?st2 a = Some h1" "partitionFind ?st2 p a = Some rs" by simp_all
  from Cons.IH [OF h1(2) this(1) h1(3) this(2)] obtain st' h' where
    "transferRequests p a rs ?st2 = Some st'" "lm_ok st'" "headOf st' a = Some h'" "intentOnly h'"
    "grantedList h' = grantedList h1 @ rs" "conflictList h' = conflictList h1"
    "partitions h' = partitions h1" "\<forall>q. partitionFind st' q a = (if q = p then Some [] else partitionFind ?st2 q a)"
    "same_others a ?st2 st'" "requests st' = moveAll a (set rs) (requests ?st2)"
    "notified st' = notified ?st2" by blast
  moreover from this have "requests st' = moveAll a (set (r # rs)) (requests st)"
    by (simp add: Un_commute)
  ultimately show ?case
    using h1(4-6) run nt cl same_others_trans [OF so, of st'] by (intro exI [of _ st'] exI [of _ h']) auto
qed

lemma head_partitions_upd [simp]:
  "head_ok hp (h\<lparr>partitions := ps\<rparr>) = head_ok hp h" "front_blocked hp (h\<lparr>partitions := ps\<rparr>) = front_blocked hp h"
  "headLive hp (h\<lparr>partitions := ps\<rparr>) = headLive hp h" "intentOnly (h\<lparr>partitions := ps\<rparr>) = intentOnly h"
  by (simp_all add: head_ok_def counts_ok_def front_blocked_def headLive_def intentOnly_def cong: list.case_cong)

text \<open>Erasing an emptied partition entry, and removing the partition from the lock head.\<close>

lemma drop_partition:
  assumes ok: "lm_ok st" and h: "headOf st a = Some h" and l: "\<And>l. partitionFind st p a = Some l \<Longrightarrow> l = []"
    and ps: "partitions h = rev (p # ps)"
    and st': "headOf st' a = Some (h\<lparr>partitions := rev ps\<rparr>)" "requests st' = requests st"
      "same_others a st st'" "\<And>q. partitionFind st' q a = (if q = p then None else partitionFind st q a)" "buckets_ok st'"
  shows "lm_ok st'"
proof (rule lm_ok_frame [OF ok, of a st' "{}"])
  have inv: "resInv (requests st) a (Some h) (partsOf st a)" using lm_okD(1) [OF ok, of a] h by simp
  then show "resInv (requests st') a (headOf st' a) (partsOf st' a)"
    unfolding st'(1,2,4) using ps
    by (auto simp: resInv_def resBase_def headBase_def)
next
  fix s assume "live (requests st' s)" "s \<in> {} \<or> linkedOn st a s"
  then show "linkedOn st' a s"
    unfolding linkedOn_def linked_def st'(1,4) using h l by fastforce
next
  fix b q assume "b \<noteq> a"
  then show "headOf st' b = headOf st b \<and> partitionFind st' q b = partitionFind st q b"
    using st'(3) unfolding same_others_def by metis
qed (use st' in auto)


definition partitionMembers :: "LockManager \<Rightarrow> ResourceId \<Rightarrow> ReqPtr set" where
  "partitionMembers st a = {r. \<exists>p l. partitionFind st p a = Some l \<and> r \<in> set l}"

text \<open>The outcome of migrating all partitions of a resource to its lock head.\<close>

definition migrated :: "ResourceId \<Rightarrow> LockManager \<Rightarrow> LockHead \<Rightarrow> LockManager \<Rightarrow> LockHead \<Rightarrow> bool" where
  "migrated a st h st' h' \<longleftrightarrow> lm_ok st' \<and> headOf st' a = Some h' \<and> partitions h' = [] \<and>
     (\<forall>q. partitionFind st' q a = None) \<and> same_others a st st' \<and>
     requests st' = moveAll a (partitionMembers st a) (requests st) \<and>
     set (grantedList h') = set (grantedList h) \<union> partitionMembers st a \<and>
     conflictList h' = conflictList h \<and> notified st' = notified st"

lemma partitionMembers_at:
  "partitionMembers st a = (case partitionFind st p a of None \<Rightarrow> {} | Some l \<Rightarrow> set l) \<union>
     {r. \<exists>q l. q \<noteq> p \<and> partitionFind st q a = Some l \<and> r \<in> set l}"
  using linked_at [of "LockHead_initNew a" "partsOf st a" _ p]
  by (auto simp: linked_def LockHead_initNew_def partitionMembers_def split: option.split)

lemma migrate_partition:
  assumes ok: "lm_ok st" and h: "headOf st a = Some h" and ps: "partitions h = rev (p # ps)"
    and io: "intentOnly h"
  shows "\<exists>st1 h1 l. (case partitionFind st p a of None \<Rightarrow> Some st
      | Some l \<Rightarrow> map_option (erasePartition p a) (transferRequests p a l st)) = Some st1 \<and>
    headOf st1 a = Some h1 \<and> lm_ok (setHead a (h1\<lparr>partitions := rev ps\<rparr>) st1) \<and> intentOnly h1 \<and>
    grantedList h1 = grantedList h @ l \<and> conflictList h1 = conflictList h \<and>
    set l = (case partitionFind st p a of None \<Rightarrow> {} | Some l \<Rightarrow> set l) \<and>
    (\<forall>q. partitionFind st1 q a = (if q = p then None else partitionFind st q a)) \<and>
    same_others a st st1 \<and> requests st1 = moveAll a (set l) (requests st) \<and> notified st1 = notified st"
proof (cases "partitionFind st p a")
  case None
  have "lm_ok (setHead a (h\<lparr>partitions := rev ps\<rparr>) st)"
    by (rule drop_partition [OF ok h _ ps])
      (use None lm_okD(4) [OF ok] in \<open>auto simp: same_others_def\<close>)
  with None h io show ?thesis by (intro exI [of _ st] exI [of _ h] exI [of _ "[]"]) auto
next
  case (Some l)
  from transferRequests_ok [OF ok h io Some] obtain st0 h1 where 0:
    "transferRequests p a l st = Some st0" "lm_ok st0" "headOf st0 a = Some h1" "intentOnly h1"
    "grantedList h1 = grantedList h @ l" "conflictList h1 = conflictList h" "partitions h1 = partitions h"
    "\<And>q. partitionFind st0 q a = (if q = p then Some [] else partitionFind st q a)"
    "same_others a st st0" "requests st0 = moveAll a (set l) (requests st)" "notified st0 = notified st" by blast
  let ?st1 = "erasePartition p a st0"
  have so: "same_others a st0 ?st1" by (simp add: same_others_def)
  have "lm_ok (setHead a (h1\<lparr>partitions := rev ps\<rparr>) ?st1)"
    by (rule drop_partition [OF 0(2,3), of p ps])
      (use 0 ps lm_okD(4) [OF 0(2)] in \<open>auto simp: same_others_def\<close>)
  with 0 Some same_others_trans [OF 0(9) so] show ?thesis
    by (intro exI [of _ ?st1] exI [of _ h1] exI [of _ l]) auto
qed

lemma no_partitions:
  assumes "lm_ok st" "headOf st a = Some h" "partitions h = []"
  shows "partitionFind st q a = None" and "partitionMembers st a = {}"
proof -
  show *: "partitionFind st q a = None" for q
    using lm_okD(2) [OF assms(1), of a] assms(2,3)
    by (cases "partitionFind st q a") (auto simp: resBase_def)
  then show "partitionMembers st a = {}" by (simp add: partitionMembers_def)
qed

lemma migrateFrom_ok:
  assumes "lm_ok st" and "headOf st a = Some h" and "partitions h = rev ps" and "ps \<noteq> [] \<Longrightarrow> intentOnly h"
  shows "\<exists>st' h'. migrateFrom ps a st = Some st' \<and> migrated a st h st' h'"
  using assms
proof (induction ps arbitrary: st h)
  case Nil
  then show ?case using no_partitions by (auto simp: migrated_def)
next
  case (Cons p ps)
  from migrate_partition [OF Cons.prems(1-3)] Cons.prems(4) obtain st1 h1 l where 1:
    "(case partitionFind st p a of None \<Rightarrow> Some st
      | Some l \<Rightarrow> map_option (erasePartition p a) (transferRequests p a l st)) = Some st1"
    "headOf st1 a = Some h1" "lm_ok (setHead a (h1\<lparr>partitions := rev ps\<rparr>) st1)" "intentOnly h1"
    "grantedList h1 = grantedList h @ l" "conflictList h1 = conflictList h"
    "set l = (case partitionFind st p a of None \<Rightarrow> {} | Some l \<Rightarrow> set l)"
    "\<And>q. partitionFind st1 q a = (if q = p then None else partitionFind st q a)"
    "same_others a st st1" "requests st1 = moveAll a (set l) (requests st)" "notified st1 = notified st"
    by blast
  let ?st2 = "setHead a (h1\<lparr>partitions := rev ps\<rparr>) st1" and ?h2 = "h1\<lparr>partitions := rev ps\<rparr>"
  have run: "migrateFrom (p # ps) a st = migrateFrom ps a ?st2" using 1(1,2) by simp
  have "headOf ?st2 a = Some ?h2" "partitions ?h2 = rev ps" "intentOnly ?h2" using 1(4) by simp_all
  from Cons.IH [OF 1(3) this] obtain st' h' where r:
    "migrateFrom ps a ?st2 = Some st'" "migrated a ?st2 ?h2 st' h'" by blast
  have pm: "partitionMembers st a = set l \<union> partitionMembers ?st2 a"
    unfolding partitionMembers_at [of st a p] partitionMembers_at [of ?st2 a p] using 1(7,8) by auto
  have "same_others a st ?st2" using 1(9) by (simp add: same_others_def)
  from same_others_trans [OF this] r(2) 1(5,6,10,11) have "migrated a st h st' h'"
    unfolding migrated_def pm by (auto simp: Un_commute)
  with r(1) run show ?case by auto
qed

lemma migrateIfPartitioned_ok:
  assumes "lm_ok st" and "headOf st a = Some h"
  shows "\<exists>st' h'. migrateIfPartitioned a st = Some st' \<and> migrated a st h st' h'"
proof -
  have io: "intentOnly h" if "partitions h \<noteq> []"
    using lm_okD(2) [OF assms(1), of a] assms(2) that by (auto simp: resBase_def headBase_def)
  from migrateFrom_ok [OF assms, of "rev (partitions h)"] io obtain st' h' where r:
    "migrateFrom (rev (partitions h)) a st = Some st'" "migrated a st h st' h'" by auto
  show ?thesis
  proof (cases "partitions h = []")
    case True
    with r show ?thesis using assms(2) by (auto simp: migrateIfPartitioned_def isPartitioned_def)
  next
    case False
    with io r assms(2) show ?thesis
      by (auto simp: migrateIfPartitioned_def isPartitioned_def migratePartitionedLockHeads_def
          intentOnly_def)
  qed
qed

end
