(* ===== verification/Lock_Placement.thy ===== *)
theory Lock_Placement
  imports Lock_Invariant
begin

text \<open>
  \<^verbatim>\<open>LockManager::lock\<close>: both critical sections keep \<open>lm_ok\<close>, no check of the source fires, and
  the request is granted exactly if the documented compatibility rule says so, wherever the
  manager keeps the holders of the resource (\<open>lock_ok\<close>).
\<close>

section \<open>Placing a request\<close>

lemma not_linked: "lm_ok st \<Longrightarrow> \<not> live (requests st r) \<Longrightarrow> \<not> linkedOn st b r"
  using linked_resOf(2) lm_okD(2) unfolding linkedOn_def by blast

lemma not_linkedD:
  assumes "\<not> linkedOn st a r"
  shows "headOf st a = Some h \<Longrightarrow> r \<notin> members h" and "partitionFind st p a = Some l \<Longrightarrow> r \<notin> set l"
  using assms unfolding linkedOn_def linked_def by auto

lemma lm_ok_upd_unlinked:
  assumes ok: "lm_ok st" and "\<not> live (requests st r)"
    and "newInv (f (requests st r))" and "\<not> live (f (requests st r))"
  shows "lm_ok (updReq r f st)"
proof (rule lm_ok_frame [OF ok, of a _ "{r}" for a])
  fix a
  have nl: "\<not> linkedOn st b r" for b using not_linked assms by blast
  then show "resInv (requests (updReq r f st)) a (headOf (updReq r f st) a) (partsOf (updReq r f st) a)"
    using lm_okD(1) [OF ok, of a]
    by (intro resInv_cong [of _ _ "requests (updReq r f st)" "requests st"]) (auto simp: linkedOn_def)
  show "linkedOn (updReq r f st) a s" if "live (requests (updReq r f st) s)" "s \<in> {r} \<or> linkedOn st a s" for s
    using that assms by (auto simp: linkedOn_def)
  show "b = a" if "s \<in> {r}" "linkedOn st b s" for s b using that nl by auto
qed (use assms lm_okD(4) [OF ok] in auto)

lemma bucketFindOrInsert_ok:
  assumes ok: "lm_ok st" and b: "bucketFindOrInsert a st = (h, st1)"
  shows "lm_ok st1 \<and> headOf st1 a = Some h \<and> same_others a st st1 \<and> requests st1 = requests st \<and>
    partsOf st1 a = partsOf st a \<and> notified st1 = notified st \<and>
    (case headOf st a of Some h' \<Rightarrow> h = h' | None \<Rightarrow> h = LockHead_initNew a)"
proof (cases "headOf st a")
  case None
  with b have e: "h = LockHead_initNew a" "st1 = setHead a h st" by (auto simp: bucketFindOrInsert_def)
  have pn: "partitionFind st p a = None" for p
    using lm_okD(2) [OF ok, of a] None by (cases "partitionFind st p a") (auto simp: resBase_def)
  have "maskOf (\<lambda>_. 0) = 0" by (simp add: maskOf_eq_0)
  then have "headBase (requests st) a h" "headLive (requests st) h"
    by (auto simp: e headBase_def headLive_def LockHead_initNew_def head_ok_def counts_ok_def
        granted_compatible_def front_blocked_def)
  then have "lm_ok st1"
    by (intro lm_ok_frame [OF ok, of a st1 "{}"])
      (use pn None lm_okD(4) [OF ok] in \<open>auto simp: e resInv_def resBase_def linkedOn_def linked_def\<close>)
  then show ?thesis using e None by (auto simp: same_others_def)
next
  case (Some h')
  with b ok show ?thesis by (auto simp: bucketFindOrInsert_def)
qed

lemma add_partition:
  assumes ok: "lm_ok st" and h: "headOf st a = Some h" and io: "intentOnly h"
    and l: "l = (case partitionFind st p a of None \<Rightarrow> [] | Some l \<Rightarrow> l)"
  shows "lm_ok (setHead a (h\<lparr>partitions := partitions h @ [p]\<rparr>) (setPartition p a l st))" (is "lm_ok ?st")
proof (rule lm_ok_frame [OF ok, of a _ "{}"])
  have inv: "resInv (requests st) a (Some h) (partsOf st a)" using lm_okD(1) [OF ok, of a] h by simp
  have "partInv (requests st) a p l"
    using inv l by (auto simp: resInv_def resBase_def partInv_def split: option.splits)
  with inv io show "resInv (requests ?st) a (headOf ?st a) (partsOf ?st a)"
    by (auto simp: resInv_def resBase_def headBase_def)
next
  fix s assume "s \<in> {} \<or> linkedOn st a s"
  then show "linkedOn ?st a s"
    using h l by (auto simp: linkedOn_def linked_at [of _ _ _ p] split: option.splits)
qed (use lm_okD(4) [OF ok] in auto)

lemma partitionedNewRequest_ok:
  assumes ok: "lm_ok st" and l: "partitionFind st p a = Some l" and new: "status (requests st r) = STATUS_NEW"
    and q: "partitioned (requests st r)" "intent (mode (requests st r))"
  shows "\<exists>st'. partitionedNewRequest p a l r st = Some st' \<and> lm_ok st' \<and>
    st' = setPartition p a (l @ [r])
       (updReq r (\<lambda>q. q\<lparr>partitionedLock := Some (p, a), status := STATUS_GRANTED\<rparr>) st)"
proof -
  let ?st = "setPartition p a (l @ [r])
       (updReq r (\<lambda>q. q\<lparr>partitionedLock := Some (p, a), status := STATUS_GRANTED\<rparr>) st)"
  have ni: "newInv (requests st r)" using ok by (rule lm_okD)
  then have run: "partitionedNewRequest p a l r st = Some ?st"
    using q new by (simp add: partitionedNewRequest_def newInv_def)
  have nl: "\<not> linkedOn st b r" for b using not_linked [OF ok] new by (simp add: live_def)
  have inv: "resInv (requests st) a (headOf st a) (partsOf st a)" using ok by (rule lm_okD)
  then obtain h where h: "headOf st a = Some h" "p \<in> set (partitions h)" "partInv (requests st) a p l"
    using l unfolding resInv_def resBase_def by blast
  have inv': "resInv (requests ?st) a (headOf st a) (partsOf st a)"
    using nl inv by (intro resInv_cong [of _ _ "requests ?st" "requests st"]) (auto simp: linkedOn_def)
  then have "partInv (requests ?st) a p l" using l by (auto simp: resInv_def resBase_def)
  then have pi: "partInv (requests ?st) a p (l @ [r])"
    using not_linkedD(2) [OF nl l] q new ni by (auto simp: partInv_def newInv_def)
  have "lm_ok ?st"
  proof (rule lm_ok_frame [OF ok, of a _ "{r}"])
    show "resInv (requests ?st) a (headOf ?st a) (partsOf ?st a)"
      using inv' pi h by (simp add: resInv_def resBase_def)
    show "linkedOn ?st a s" if "s \<in> {r} \<or> linkedOn st a s" for s
      using that h l by (auto simp: linkedOn_def linked_at [of _ _ _ p])
  qed (use nl lm_okD(4) [OF ok] in \<open>auto simp: newInv_def\<close>)
  with run show ?thesis by blast
qed


text \<open>A lock held by more requests conflicts with at least the same modes.\<close>

lemma conflicts_mono:
  assumes "counts_ok hp h" "counts_ok hp' h'"
    and "\<And>r. r \<in> set (grantedList h) \<Longrightarrow> r \<in> set (grantedList h') \<and> own (hp' r) = own (hp r)"
    and "conflicts k (grantedModes h)"
  shows "conflicts k (grantedModes h')"
proof -
  from assms(1,4) obtain m where m: "0 < tallyOn (\<lambda>q. own q m) hp (grantedList h)" "\<not> compatible k m"
    unfolding counts_okD [OF assms(1)] conflicts_maskOf by (auto simp: counts_ok_def)
  with assms(3) have "0 < tallyOn (\<lambda>q. own q m) hp' (grantedList h')"
    unfolding tallyOn_pos by metis
  with m(2) assms(2) show ?thesis
    unfolding counts_okD [OF assms(2)] conflicts_maskOf by (auto simp: counts_ok_def)
qed

lemma headLive_add_granted:
  assumes "head_ok hp h" "head_ok hp' h'" "headLive hp h"
    and "grantedList h' = grantedList h @ [r]" "conflictList h' = conflictList h"
    and "\<And>s. s \<in> members h \<Longrightarrow> hp' s = hp s"
  shows "headLive hp' h'"
proof -
  have "conflicts k (grantedModes h')" if "conflicts k (grantedModes h)" for k
    using assms that by (intro conflicts_mono [of hp h hp' h']) (auto simp: head_ok_def)
  then show ?thesis
    using assms(3-6) by (auto simp: headLive_def front_blocked_def split: list.splits)
qed

lemma headLive_add_waiting:
  assumes ok: "head_ok hp h" and lv: "headLive hp h" and g: "\<not> granting (hp r) h" and rn: "r \<notin> members h"
    and hp': "hp' = hp(r := q)" "mode q = mode (hp r)" "enqueueAtFront q = enqueueAtFront (hp r)"
    and h': "grantedList h' = grantedList h" "grantedModes h' = grantedModes h"
      "conflictList h' = (if enqueueAtFront (hp r) then r # conflictList h else conflictList h @ [r])"
  shows "headLive hp' h'"
proof -
  have sync: "grantedModes h = 0 \<longleftrightarrow> grantedList h = []" "conflictModes h = 0 \<longleftrightarrow> conflictList h = []"
    using head_ok_sync [OF ok] .
  have fb: "conflictList h = [] \<Longrightarrow> conflicts (mode (hp r)) (grantedModes h)"
    using g sync by (auto simp: granting_def)
  then have gl: "grantedList h \<noteq> []"
    using lv sync(1) by (cases "conflictList h") (auto simp: headLive_def)
  show ?thesis
  proof (cases "enqueueAtFront (hp r)")
    case True
    then show ?thesis using gl h' hp' by (auto simp: headLive_def)
  next
    case False
    then show ?thesis
      using gl h' hp' fb lv rn by (cases "conflictList h") (auto simp: headLive_def front_blocked_def)
  qed
qed

definition placed :: "ResourceId \<Rightarrow> Status \<Rightarrow> LockRequest \<Rightarrow> LockRequest" where
  "placed a s q = q\<lparr>lockP := Some a, status := s\<rparr>"

text \<open>\<open>newRequest\<close> on the lock head of the table, for a resource without partitions.\<close>

lemma newRequest_ok:
  assumes ok: "lm_ok st" and h: "headOf st a = Some h" and pn: "partitions h = []"
    and new: "status (requests st r) = STATUS_NEW" and q: "mode (requests st r) \<noteq> MODE_NONE"
      "\<not> partitioned (requests st r)"
  shows "\<exists>h'. newRequest r (requests st, h) =
      Some (if granting (requests st r) h then LOCK_OK else LOCK_WAITING,
        (requests st)(r := placed a (if granting (requests st r) h then STATUS_GRANTED else STATUS_WAITING)
          (requests st r)), h') \<and>
    lm_ok (setHead a h' (st\<lparr>requests := (requests st)(r := placed a
      (if granting (requests st r) h then STATUS_GRANTED else STATUS_WAITING) (requests st r))\<rparr>)) \<and>
    grantedList h' = (if granting (requests st r) h then grantedList h @ [r] else grantedList h) \<and>
    conflictList h' = (if granting (requests st r) h then conflictList h
      else if enqueueAtFront (requests st r) then r # conflictList h else conflictList h @ [r]) \<and>
    partitions h' = []"
proof -
  let ?hp = "(requests st)(r := placed a
      (if granting (requests st r) h then STATUS_GRANTED else STATUS_WAITING) (requests st r))"
  have inv: "resInv (requests st) a (Some h) (partsOf st a)" using lm_okD(1) [OF ok, of a] h by simp
  then have hb: "headBase (requests st) a h" "headLive (requests st) h" by (auto simp: resInv_def resBase_def)
  have ni: "newInv (requests st r)" using ok by (rule lm_okD)
  have nl: "\<not> linkedOn st b r" for b using not_linked [OF ok] new by (simp add: live_def)
  have rn: "r \<notin> members h" using not_linkedD(1) [OF nl h] .
  have rid: "resourceId h = a" and hok: "head_ok (requests st) h" using hb by (auto simp: headBase_def)
  obtain h' where h': "newRequest r (requests st, h) =
      Some (if granting (requests st r) h then LOCK_OK else LOCK_WAITING, ?hp, h')" "head_ok ?hp h'"
    "grantedList h' = (if granting (requests st r) h then grantedList h @ [r] else grantedList h)"
    "conflictList h' = (if granting (requests st r) h then conflictList h
      else if enqueueAtFront (requests st r) then r # conflictList h else conflictList h @ [r])"
    "partitions h' = []" "resourceId h' = a" "headLive ?hp h'"
  proof (cases "granting (requests st r) h")
    case True
    from newRequest_granted [OF hok _ q(1) _ _ True] rn ni new obtain h' where
      "newRequest r (requests st, h) = Some (LOCK_OK, ?hp, h')" "head_ok ?hp h'"
      "grantedList h' = grantedList h @ [r]" "conflictList h' = conflictList h" "partitions h' = []"
      "resourceId h' = a" using True pn by (auto simp: newInv_def placed_def rid)
    moreover from this have "headLive ?hp h'"
      by (intro headLive_add_granted [OF hok _ hb(2)]) (use rn in auto)
    ultimately show ?thesis using True that by auto
  next
    case False
    from newRequest_waiting [OF hok _ q(1) _ _ False] rn ni new obtain h' where
      "newRequest r (requests st, h) = Some (LOCK_WAITING, ?hp, h')" "head_ok ?hp h'"
      "grantedList h' = grantedList h" "grantedModes h' = grantedModes h" "partitions h' = []" "resourceId h' = a"
      "conflictList h' = (if enqueueAtFront (requests st r) then r # conflictList h else conflictList h @ [r])"
      using False pn by (auto simp: newInv_def placed_def rid)
    moreover from this have "headLive ?hp h'"
      by (intro headLive_add_waiting [OF hok hb(2) False rn refl]) (auto simp: placed_def)
    ultimately show ?thesis using False that by auto
  qed
  let ?st = "setHead a h' (st\<lparr>requests := ?hp\<rparr>)"
  have "headBase ?hp a h'"
    using hb h' rn ni new q by (auto simp: headBase_def placed_def counted_def newInv_def split: if_splits)
  moreover have "partitionFind st p a = None" for p
    using no_partitions [OF ok h pn] by blast
  ultimately have res: "resInv (requests ?st) a (headOf ?st a) (partsOf ?st a)"
    using h'(7) by (auto simp: resInv_def resBase_def)
  have "lm_ok ?st"
    by (rule lm_ok_frame [OF ok, of a _ "{r}"])
      (use res nl lm_okD(4) [OF ok] h h' no_partitions [OF ok h pn] in
        \<open>auto simp: newInv_def placed_def linkedOn_def linked_def split: if_splits\<close>)
  with h' show ?thesis by auto
qed


text \<open>
  The view a client has of a resource: the requests that hold it, and the queue of those that
  wait for it, wherever the manager keeps them.
\<close>

definition holders :: "LockManager \<Rightarrow> ResourceId \<Rightarrow> ReqPtr set" where
  "holders st a = (case headOf st a of None \<Rightarrow> {} | Some h \<Rightarrow> set (grantedList h)) \<union> partitionMembers st a"

definition waiters :: "LockManager \<Rightarrow> ResourceId \<Rightarrow> ReqPtr list" where
  "waiters st a = (case headOf st a of None \<Rightarrow> [] | Some h \<Rightarrow> conflictList h)"

text \<open>Two requests that differ in back pointers only.\<close>

definition sameReq :: "LockRequest \<Rightarrow> LockRequest \<Rightarrow> bool" where
  "sameReq q q' \<longleftrightarrow> q' = q\<lparr>lockP := lockP q', partitionedLock := partitionedLock q'\<rparr>"

lemma sameReqI [simp]: "sameReq q q" "sameReq q (moved a q)"
  by (cases q; simp add: sameReq_def moved_def)+

lemma sameReqD:
  assumes "sameReq q q'"
  shows "status q' = status q" "mode q' = mode q" "convertMode q' = convertMode q"
    "recursiveCount q' = recursiveCount q" "enqueueAtFront q' = enqueueAtFront q"
    "compatibleFirst q' = compatibleFirst q" "lockerId q' = lockerId q" "partitioned q' = partitioned q"
  using assms unfolding sameReq_def by (cases q; cases q'; simp)+

lemma sameReq_moveAll [simp]: "sameReq (hp s) (moveAll a S hp s)"
  by (simp add: moveAll_def)

text \<open>The effect of placing request \<open>r\<close> on resource \<open>a\<close>.\<close>

definition lockedBy :: "ResourceId \<Rightarrow> ReqPtr \<Rightarrow> LockMode \<Rightarrow> LockManager \<Rightarrow> LockResult \<Rightarrow> LockManager \<Rightarrow> bool" where
  "lockedBy a r m st res st' \<longleftrightarrow> lm_ok st' \<and> same_others a st st' \<and> notified st' = notified st \<and>
     (\<forall>s. s \<noteq> r \<longrightarrow> sameReq (requests st s) (requests st' s)) \<and>
     mode (requests st' r) = m \<and> recursiveCount (requests st' r) = 1 \<and>
     (if res = LOCK_OK
      then status (requests st' r) = STATUS_GRANTED \<and>
        holders st' a = insert r (holders st a) \<and> waiters st' a = waiters st a
      else res = LOCK_WAITING \<and> status (requests st' r) = STATUS_WAITING \<and> holders st' a = holders st a \<and>
        waiters st' a = (if enqueueAtFront (requests st r) then r # waiters st a else waiters st a @ [r]))"

lemma partitionMembers_None: "(\<And>p. partitionFind st p a = None) \<Longrightarrow> partitionMembers st a = {}"
  by (simp add: partitionMembers_def)

lemma partitioned_lockedBy:
  assumes ok: "lm_ok st" and l: "partitionFind st p a = Some l" and new: "status (requests st r) = STATUS_NEW"
    and q: "partitioned (requests st r)" "intent m" "mode (requests st r) = m"
  shows "\<exists>st'. partitionedNewRequest p a l r st = Some st' \<and> lockedBy a r m st LOCK_OK st'"
proof -
  from partitionedNewRequest_ok [OF ok l new q(1)] q(2,3) obtain st' where st':
    "partitionedNewRequest p a l r st = Some st'" "lm_ok st'"
    "st' = setPartition p a (l @ [r])
       (updReq r (\<lambda>q. q\<lparr>partitionedLock := Some (p, a), status := STATUS_GRANTED\<rparr>) st)" by auto
  have "partitionMembers st' a = insert r (partitionMembers st a)"
    unfolding partitionMembers_at [of _ a p] by (auto simp: st'(3) l)
  moreover have "newInv (requests st r)" using ok by (rule lm_okD)
  ultimately show ?thesis
    using st' q(3) new
    by (auto simp: lockedBy_def st'(3) same_others_def holders_def waiters_def newInv_def split: option.split)
qed

lemma lockFast_ok:
  assumes ok: "lm_ok st" and new: "status (requests st r) = STATUS_NEW" and m: "m \<noteq> MODE_NONE"
  shows "\<exists>res st'. lockFast a r m st = Some (res, st') \<and>
    (case res of
       Some x \<Rightarrow> x = LOCK_OK \<and> intent m \<and> lockedBy a r m st LOCK_OK st'
     | None \<Rightarrow> lm_ok st' \<and> st' = updReq r (\<lambda>q. q\<lparr>partitioned := (m = MODE_IX \<or> m = MODE_IS), mode := m\<rparr>) st)"
proof -
  let ?st = "updReq r (\<lambda>q. q\<lparr>partitioned := (m = MODE_IX \<or> m = MODE_IS), mode := m\<rparr>) st"
  let ?p = "getPartition (requests ?st r)"
  have ni: "newInv (requests st r)" using ok by (rule lm_okD)
  have ok': "lm_ok ?st"
    by (rule lm_ok_upd_unlinked [OF ok]) (use ni new in \<open>auto simp: live_def newInv_def\<close>)
  show ?thesis
  proof (cases "intent m \<and> partitionFind st ?p a \<noteq> None")
    case True
    then obtain l where l: "partitionFind ?st ?p a = Some l" by auto
    from partitioned_lockedBy [OF ok' l, of r m] True new obtain st' where st':
      "partitionedNewRequest ?p a l r ?st = Some st'" "lockedBy a r m ?st LOCK_OK st'"
      by (auto simp: intent_def)
    have "lockFast a r m st = Some (Some LOCK_OK, st')"
      using st'(1) l True ni new unfolding lockFast_def by (auto simp: Let_def newInv_def intent_def)
    moreover have "lockedBy a r m st LOCK_OK st'"
      using st'(2)
      by (auto simp: lockedBy_def same_others_def holders_def waiters_def partitionMembers_def)
    ultimately show ?thesis using True by auto
  next
    case False
    then have "lockFast a r m st = Some (None, ?st)"
      using ni new unfolding lockFast_def by (auto simp: Let_def newInv_def intent_def)
    with ok' show ?thesis by auto
  qed
qed

text \<open>When the manager grants at once, said over the client's view.\<close>

definition grantable :: "LockManager \<Rightarrow> ResourceId \<Rightarrow> LockMode \<Rightarrow> bool" where
  "grantable st a m \<longleftrightarrow>
     (\<forall>s \<in> holders st a. compatible m (mode (requests st s)) \<and>
        (status (requests st s) = STATUS_CONVERTING \<longrightarrow> compatible m (convertMode (requests st s)))) \<and>
     ((\<exists>s \<in> holders st a. compatibleFirst (requests st s)) \<or>
      (\<forall>s \<in> set (waiters st a). compatible m (mode (requests st s))))"

lemma conflicts_conflict_iff:
  assumes "counts_ok hp h"
  shows "conflicts n (conflictModes h) \<longleftrightarrow> (\<exists>s \<in> set (conflictList h). \<not> compatible n (mode (hp s)))"
  using assms unfolding counts_okD(2) [OF assms] conflicts_maskOf
  by (auto simp: counts_ok_def tallyOn_pos ind_def split: if_splits)

lemma own_incompatible:
  "(\<exists>m. 0 < own q m \<and> \<not> compatible n m) \<longleftrightarrow>
     \<not> (compatible n (mode q) \<and> (status q = STATUS_CONVERTING \<longrightarrow> compatible n (convertMode q)))"
  by (auto simp: own_def ind_def)

lemma granting_iff:
  assumes "head_ok hp h"
  shows "granting q h \<longleftrightarrow>
    (\<forall>s \<in> set (grantedList h). compatible (mode q) (mode (hp s)) \<and>
       (status (hp s) = STATUS_CONVERTING \<longrightarrow> compatible (mode q) (convertMode (hp s)))) \<and>
    ((\<exists>s \<in> set (grantedList h). compatibleFirst (hp s)) \<or>
     (\<forall>s \<in> set (conflictList h). compatible (mode q) (mode (hp s))))"
proof -
  have c: "counts_ok hp h" using assms by (simp add: head_ok_def)
  have "compatibleFirstCount h = 0 \<longleftrightarrow> \<not> (\<exists>s \<in> set (grantedList h). compatibleFirst (hp s))"
    using c by (auto simp: counts_ok_def tallyOn_zero ind_def)
  then show ?thesis
    unfolding granting_def conflicts_granted_iff [OF c] conflicts_conflict_iff [OF c] own_incompatible
    by auto
qed

lemma grantable_migrated:
  assumes "migrated a st h st' h'" and "headOf st a = Some h"
  shows "granting (requests st' r) h' \<longleftrightarrow> grantable st a (mode (requests st' r))"
proof -
  have ok: "head_ok (requests st') h'"
    using assms(1) lm_okD(2) [of st' a] by (auto simp: migrated_def resBase_def headBase_def)
  have s: "sameReq (requests st s) (requests st' s)" for s
    using assms(1) by (simp add: migrated_def)
  have "set (grantedList h') = holders st a" "conflictList h' = waiters st a"
    using assms by (auto simp: migrated_def holders_def waiters_def)
  then show ?thesis unfolding granting_iff [OF ok] grantable_def by (simp add: sameReqD [OF s])
qed

lemma grantable_partitioned:
  assumes ok: "lm_ok st" and h: "headOf st a = Some h" and io: "intentOnly h" and m: "intent m"
  shows "grantable st a m"
proof -
  have b: "resBase (requests st) a (Some h) (partsOf st a)" using lm_okD(2) [OF ok, of a] h by simp
  then have "head_ok (requests st) h" by (auto simp: resBase_def headBase_def)
  from iffD1 [OF intentOnly_granted [OF this] io] have
    "waiters st a = []" "\<forall>s \<in> set (grantedList h). intent (mode (requests st s)) \<and>
       (status (requests st s) = STATUS_CONVERTING \<longrightarrow> intent (convertMode (requests st s)))"
    by (auto simp: waiters_def h)
  moreover have "\<forall>s \<in> partitionMembers st a. intent (mode (requests st s)) \<and> status (requests st s) = STATUS_GRANTED"
    using b by (auto simp: resBase_def partInv_def partitionMembers_def)
  ultimately show ?thesis
    using m compatible_intent by (auto simp: grantable_def holders_def h intent_def)
qed

lemma lockedBy_pre:
  assumes "lockedBy a r m st1 res st'" and "same_others a st st1" "notified st1 = notified st"
    and "\<And>s. s \<noteq> r \<Longrightarrow> sameReq (requests st s) (requests st1 s)"
    and "enqueueAtFront (requests st1 r) = enqueueAtFront (requests st r)"
    and "holders st1 a = holders st a" "waiters st1 a = waiters st a"
  shows "lockedBy a r m st res st'"
proof -
  have "sameReq (requests st s) (requests st' s)" if "s \<noteq> r" for s
    using assms(1) assms(4) [OF that] that unfolding lockedBy_def sameReq_def
    by (cases "requests st s") (metis LockRequest.update_convs(6,7))
  then show ?thesis
    using assms same_others_trans [OF assms(2)] by (auto simp: lockedBy_def split: if_splits)
qed

lemma setPartition_triv: "partitionFind st p a = Some l \<Longrightarrow> setPartition p a l st = st"
  by (simp add: setPartition_def partitionFind_def update_triv)

lemma migrated_view:
  assumes "migrated a st h st' h'" and "headOf st a = Some h"
  shows "holders st' a = holders st a" "waiters st' a = waiters st a" "partitionMembers st' a = {}"
    "sameReq (requests st s) (requests st' s)" "same_others a st st'" "notified st' = notified st"
  using assms by (auto simp: migrated_def holders_def waiters_def partitionMembers_def)

lemma migrated_lockedBy:
  assumes mg: "migrated a st h st2 h1" and h: "headOf st a = Some h"
    and st': "lm_ok st'" "headOf st' a = Some h2" "partsOf st' a = partsOf st2 a" "same_others a st2 st'"
      "notified st' = notified st2" "requests st' = (requests st2)(r := q)"
    and q: "mode q = m" "recursiveCount q = 1" "status q = (if g then STATUS_GRANTED else STATUS_WAITING)"
    and h2: "grantedList h2 = (if g then grantedList h1 @ [r] else grantedList h1)"
      "conflictList h2 = (if g then conflictList h1
        else if enqueueAtFront (requests st r) then r # conflictList h1 else conflictList h1 @ [r])"
  shows "lockedBy a r m st (if g then LOCK_OK else LOCK_WAITING) st'"
proof -
  note v = migrated_view [OF mg h]
  have "partitionMembers st' a = {}" using st'(3) v(3) by (simp add: partitionMembers_def fun_eq_iff)
  moreover have "set (grantedList h1) = holders st a" "conflictList h1 = waiters st a"
    using mg h by (auto simp: migrated_def holders_def waiters_def)
  ultimately have "holders st' a = (if g then insert r (holders st a) else holders st a)"
    "waiters st' a = (if g then waiters st a
        else if enqueueAtFront (requests st r) then r # waiters st a else waiters st a @ [r])"
    using st'(2) h2 by (auto simp: holders_def [of st'] waiters_def [of st'])
  then show ?thesis
    using st' q v(4-6) same_others_trans [OF v(5) st'(4)] by (simp add: lockedBy_def)
qed

lemma lockSlow_ok:
  assumes ok: "lm_ok st" and new: "status (requests st r) = STATUS_NEW"
    and m: "mode (requests st r) = m" "m \<noteq> MODE_NONE" and p: "partitioned (requests st r) = intent m"
  shows "\<exists>res st'. lockSlow a r st = Some (res, st') \<and> lockedBy a r m st res st' \<and>
    (res = LOCK_OK \<longleftrightarrow> grantable st a m)"
proof -
  obtain h st1 where b: "bucketFindOrInsert a st = (h, st1)" by fastforce
  note b1 = bucketFindOrInsert_ok [OF ok b]
  have pm: "partitionMembers st1 a = partitionMembers st a"
    using b1 by (simp add: partitionMembers_def fun_eq_iff)
  have view: "holders st1 a = holders st a" "waiters st1 a = waiters st a"
    using b1 pm by (auto simp: holders_def waiters_def LockHead_initNew_def split: option.splits)
  then have gv: "grantable st1 a m = grantable st a m"
    using b1 by (simp add: grantable_def)
  have ni: "newInv (requests st r)" using ok by (rule lm_okD)
  show ?thesis
  proof (cases "intent m \<and> intentOnly h")
    case True
    let ?p = "getPartition (requests st1 r)"
    let ?l = "case partitionFind st1 ?p a of None \<Rightarrow> [] | Some l \<Rightarrow> l"
    let ?st3 = "setHead a (h\<lparr>partitions := partitions h @ [?p]\<rparr>) (setPartition ?p a ?l st1)"
    have "lm_ok ?st3" using add_partition [OF _ _ _ refl] b1 True by blast
    from partitioned_lockedBy [OF this, of ?p a ?l r m] new b1 p True m obtain st' where st':
      "partitionedNewRequest ?p a ?l r ?st3 = Some st'" "lockedBy a r m ?st3 LOCK_OK st'" by auto
    have "holders ?st3 a = holders st1 a" "waiters ?st3 a = waiters st1 a"
      using b1 by (auto simp: holders_def waiters_def partitionMembers_at [of _ a ?p] split: option.splits)
    with view b1 have "lockedBy a r m st LOCK_OK st'"
      by (intro lockedBy_pre [OF st'(2)]) (auto simp: same_others_def)
    moreover have "lockSlow a r st = Some (LOCK_OK, st')"
      using b b1 st'(1) True p
      by (auto simp: lockSlow_def intentOnly_def partitionFindOrInsert_def Let_def setPartition_triv
          split: option.splits)
    moreover have "grantable st a m" using grantable_partitioned b1 True gv by blast
    ultimately show ?thesis by auto
  next
    case False
    from migrateIfPartitioned_ok b1 obtain st2 h1 where mg:
      "migrateIfPartitioned a st1 = Some st2" "migrated a st1 h st2 h1" by blast
    let ?st3 = "updReq r (\<lambda>q. q\<lparr>partitioned := False\<rparr>) st2"
    have rn: "r \<notin> partitionMembers st1 a"
      using not_linked [of st1 r a] b1 new unfolding partitionMembers_def
      by (auto simp: live_def dest: not_linkedD(2))
    then have r2: "requests st2 r = requests st r"
      using mg(2) b1 by (simp add: migrated_def moveAll_def)
    have ok3: "lm_ok ?st3"
      by (rule lm_ok_upd_unlinked)
        (use mg(2) r2 new ni in \<open>auto simp: migrated_def live_def newInv_def\<close>)
    have g: "granting (requests ?st3 r) h1 \<longleftrightarrow> grantable st a m"
      using grantable_migrated [OF mg(2), of r] b1 gv r2 m by (simp add: granting_def)
    from newRequest_ok [OF ok3, of a h1 r] obtain h2 where h2: "newRequest r (requests ?st3, h1) =
      Some (if grantable st a m then LOCK_OK else LOCK_WAITING,
        (requests ?st3)(r := placed a (if grantable st a m then STATUS_GRANTED else STATUS_WAITING)
          (requests ?st3 r)), h2)"
      "lm_ok (setHead a h2 (?st3\<lparr>requests := (requests ?st3)(r := placed a
        (if grantable st a m then STATUS_GRANTED else STATUS_WAITING) (requests ?st3 r))\<rparr>))"
      "grantedList h2 = (if grantable st a m then grantedList h1 @ [r] else grantedList h1)"
      "conflictList h2 = (if grantable st a m then conflictList h1
        else if enqueueAtFront (requests ?st3 r) then r # conflictList h1 else conflictList h1 @ [r])"
      using mg(2) r2 new m g by (auto simp: migrated_def)
    let ?res = "if grantable st a m then LOCK_OK else LOCK_WAITING"
    let ?st' = "setHead a h2 (?st3\<lparr>requests := (requests ?st3)(r := placed a
        (if grantable st a m then STATUS_GRANTED else STATUS_WAITING) (requests ?st3 r))\<rparr>)"
    have "lockSlow a r st = Some (?res, ?st')"
      using b b1 mg h2(1) False p
      by (auto simp: lockSlow_def intentOnly_def Let_def migrated_def)
    moreover have "lockedBy a r m st1 ?res ?st'"
      by (rule migrated_lockedBy [OF mg(2) _ h2(2), where q = "placed a
          (if grantable st a m then STATUS_GRANTED else STATUS_WAITING) (requests ?st3 r)"])
        (use h2(3,4) b1 r2 m ni new in \<open>auto simp: same_others_def placed_def newInv_def\<close>)
    ultimately show ?thesis using lockedBy_pre [of a r m st1 ?res ?st' st] b1 view by auto
  qed
qed

lemma lock_ok:
  assumes ok: "lm_ok st" and new: "status (requests st r) = STATUS_NEW" and m: "m \<noteq> MODE_NONE"
  shows "\<exists>res st'. lock a r m st = Some (res, st') \<and> lockedBy a r m st res st' \<and>
    (res = LOCK_OK \<longleftrightarrow> grantable st a m)"
proof -
  from lockFast_ok [OF ok new m, of a] obtain x st1 where f: "lockFast a r m st = Some (x, st1)"
    "case x of Some x \<Rightarrow> x = LOCK_OK \<and> intent m \<and> lockedBy a r m st LOCK_OK st1
     | None \<Rightarrow> lm_ok st1 \<and> st1 = updReq r (\<lambda>q. q\<lparr>partitioned := (m = MODE_IX \<or> m = MODE_IS), mode := m\<rparr>) st"
    by blast
  show ?thesis
  proof (cases x)
    case None
    with f(2) have s1: "lm_ok st1" "st1 = updReq r (\<lambda>q. q\<lparr>partitioned := (m = MODE_IX \<or> m = MODE_IS), mode := m\<rparr>) st"
      by auto
    have "status (requests st1 r) = STATUS_NEW" "mode (requests st1 r) = m" "partitioned (requests st1 r) = intent m"
      using new by (auto simp: s1(2) intent_def)
    from lockSlow_ok [OF s1(1) this(1,2) m this(3), of a] obtain res st' where s:
      "lockSlow a r st1 = Some (res, st')" "lockedBy a r m st1 res st'" "res = LOCK_OK \<longleftrightarrow> grantable st1 a m"
      by blast
    have v: "holders st1 a = holders st a" "waiters st1 a = waiters st a"
      by (simp_all add: s1(2) holders_def waiters_def partitionMembers_def)
    have "r \<notin> holders st a" "r \<notin> set (waiters st a)"
      using not_linked [OF ok, of r a] new
      by (auto simp: live_def linkedOn_def linked_def holders_def waiters_def partitionMembers_def split: option.splits)
    then have "grantable st1 a m = grantable st a m" unfolding grantable_def v by (auto simp: s1(2))
    with s f(1) None lockedBy_pre [OF s(2)] v show ?thesis by (auto simp: lock_def s1(2) same_others_def)
  next
    case (Some y)
    with f(2) have s: "y = LOCK_OK" "intent m" "lockedBy a r m st LOCK_OK st1" by auto
    have "\<exists>p. partitionFind st p a \<noteq> None" 
      using f(1) Some by (auto simp: lockFast_def Let_def bind_invariant split: if_splits option.splits)
    then obtain h where h: "headOf st a = Some h" "partitions h \<noteq> []"
      using lm_okD(2) [OF ok, of a] by (fastforce simp: resBase_def)
    then have "intentOnly h" using lm_okD(2) [OF ok, of a] by (auto simp: resBase_def headBase_def)
    with grantable_partitioned [OF ok h(1)] s f(1) Some show ?thesis by (auto simp: lock_def)
  qed
qed

end
