(* ===== verification/Lock_Release.thy ===== *)
theory Lock_Release
  imports Lock_Placement
begin

text \<open>
  \<^verbatim>\<open>LockManager::unlock\<close> and the wake-up pass \<^verbatim>\<open>_onLockModeChanged\<close> on the lock head of the
  table: \<open>lockModeChanged_ok\<close> says that the pass restores \<open>lm_ok\<close> after any change confined to
  one resource, and \<open>unlock_ok\<close> gives the effect of \<open>unlock\<close> for every live request.
\<close>

section \<open>Lock heads after a release\<close>

lemma remove_granted:
  assumes ok: "head_ok hp h" and r: "r \<in> set (grantedList h)" and g: "status (hp r) = STATUS_GRANTED"
  defines "m \<equiv> mode (hp r)"
  shows "\<exists>h1. decGrantedModeCount m (h\<lparr>grantedList := remove1 r (grantedList h)\<rparr>) = Some h1 \<and>
    (let h2 = (if compatibleFirst (hp r) then h1\<lparr>compatibleFirstCount := wrapDec (compatibleFirstCount h1)\<rparr> else h1)
     in head_ok (hp(r := q)) h2 \<and> grantedList h2 = remove1 r (grantedList h) \<and>
        conflictList h2 = conflictList h \<and> resourceId h2 = resourceId h \<and> partitions h2 = partitions h \<and>
        grantedCounts h2 = (grantedCounts h)(m := grantedCounts h m - 1))"
proof -
  have c: "counts_ok hp h" and d: "distinct (grantedList h)" and rn: "r \<notin> set (conflictList h)"
    using ok r by (auto simp: head_ok_def)
  have nin: "r \<notin> set (remove1 r (grantedList h))" using d by simp
  have own_r: "own (hp r) k = ind (m = k)" for k using g by (simp add: own_def m_def)
  have pos: "1 \<le> grantedCounts h m" using granted_mode_counted [OF c r, of m] by (simp add: own_r)
  define gc where "gc = (grantedCounts h)(m := grantedCounts h m - 1)"
  define h1 where "h1 = h\<lparr>grantedList := remove1 r (grantedList h), grantedCounts := gc, grantedModes := maskOf gc\<rparr>"
  define h2 where "h2 = (if compatibleFirst (hp r) then h1\<lparr>compatibleFirstCount := wrapDec (compatibleFirstCount h1)\<rparr> else h1)"
  have run: "decGrantedModeCount m (h\<lparr>grantedList := remove1 r (grantedList h)\<rparr>) = Some h1"
    using counts_okD(1) [OF c] pos by (simp add: decGranted_eq h1_def gc_def)
  have "wrapDec (compatibleFirstCount h) = compatibleFirstCount h - 1" if "compatibleFirst (hp r)"
    using c tallyOn_ge [OF r, of "\<lambda>q. ind (compatibleFirst q)" hp] that
    by (simp add: wrapDec_def counts_ok_def)
  then have "counts_ok (hp(r := q)) h2"
    using c g nin rn
    by (auto simp: counts_ok_def h2_def h1_def gc_def tallyOn_remove1 [OF r, of _ hp] own_r)
  moreover have "granted_compatible (hp(r := q)) (grantedList h2)"
    using ok d by (auto simp: granted_compatible_def head_ok_def h2_def h1_def)
  ultimately have "head_ok (hp(r := q)) h2"
    using ok d rn by (auto simp: head_ok_def h2_def h1_def)
  with run show ?thesis
    by (intro exI [of _ h1]) (auto simp: h2_def h1_def gc_def Let_def)
qed

lemma remove_waiting:
  assumes ok: "head_ok hp h" and r: "r \<in> set (conflictList h)"
  shows "\<exists>h1. decConflictModeCount (mode (hp r)) (h\<lparr>conflictList := remove1 r (conflictList h)\<rparr>) = Some h1 \<and>
    head_ok (hp(r := q)) h1 \<and> grantedList h1 = grantedList h \<and> conflictList h1 = remove1 r (conflictList h) \<and>
    resourceId h1 = resourceId h \<and> partitions h1 = partitions h"
proof -
  have c: "counts_ok hp h" and d: "distinct (conflictList h)" and rn: "r \<notin> set (grantedList h)"
    using ok r by (auto simp: head_ok_def)
  have nin: "r \<notin> set (remove1 r (conflictList h))" using d by simp
  let ?m = "mode (hp r)"
  define cc where "cc = (conflictCounts h)(?m := conflictCounts h ?m - 1)"
  define h1 where "h1 = h\<lparr>conflictList := remove1 r (conflictList h), conflictCounts := cc, conflictModes := maskOf cc\<rparr>"
  have run: "decConflictModeCount ?m (h\<lparr>conflictList := remove1 r (conflictList h)\<rparr>) = Some h1"
    using counts_okD(2) [OF c] conflict_mode_counted [OF c r] by (simp add: decConflict_eq h1_def cc_def)
  have "counts_ok (hp(r := q)) h1"
    using c nin rn by (auto simp: counts_ok_def h1_def cc_def tallyOn_remove1 [OF r, of _ hp])
  then have "head_ok (hp(r := q)) h1"
    using ok d rn by (auto simp: head_ok_def h1_def granted_compatible_def)
  with run show ?thesis by (intro exI [of _ h1]) (auto simp: h1_def)
qed

lemma cancel_conversion:
  assumes ok: "head_ok hp h" and r: "r \<in> set (grantedList h)" and g: "status (hp r) = STATUS_CONVERTING"
    and q: "status q = STATUS_GRANTED" "convertMode q = MODE_NONE" "mode q = mode (hp r)"
      "compatibleFirst q = compatibleFirst (hp r)"
  shows "0 < conversionsCount h \<and>
    (\<exists>h1. decGrantedModeCount (convertMode (hp r)) (h\<lparr>conversionsCount := conversionsCount h - 1\<rparr>) = Some h1 \<and>
      head_ok (hp(r := q)) h1 \<and> grantedList h1 = grantedList h \<and> conflictList h1 = conflictList h \<and>
      resourceId h1 = resourceId h \<and> partitions h1 = partitions h \<and> grantedCounts h1 MODE_NONE = 0 \<and>
      (\<forall>m. grantedCounts h1 m \<le> grantedCounts h m))"
proof -
  have c: "counts_ok hp h" and gok: "granted_ok (hp r)" using ok r by (auto simp: head_ok_def)
  let ?n = "convertMode (hp r)"
  have pos: "own (hp r) m \<le> grantedCounts h m" for m by (rule granted_mode_counted [OF c r])
  define gc where "gc = (grantedCounts h)(?n := grantedCounts h ?n - 1)"
  define h1 where "h1 = h\<lparr>grantedCounts := gc, grantedModes := maskOf gc, conversionsCount := conversionsCount h - 1\<rparr>"
  have "1 \<le> grantedCounts h ?n" using pos [of ?n] g by (simp add: own_def)
  then have run: "decGrantedModeCount ?n (h\<lparr>conversionsCount := conversionsCount h - 1\<rparr>) = Some h1"
    using counts_okD(1) [OF c] by (simp add: decGranted_eq h1_def gc_def)
  have "gc m = grantedCounts h m - own (hp r) m + ind (mode q = m)" for m
    using pos [of m] q g gok by (auto simp: gc_def own_def ind_def granted_ok_def)
  moreover have "compatible (mode q) (mode (hp s))" if "s \<in> set (grantedList h)" "s \<noteq> r" for s
    using ok r that q by (auto simp: head_ok_def granted_compatible_def)
  moreover have "mode q \<noteq> MODE_NONE" using gok q by (simp add: granted_ok_def)
  ultimately have "head_ok (hp(r := q)) h1"
    by (intro replace_granted [OF ok r q(1,2) _ q(4)]) (auto simp: h1_def g)
  moreover from this have "grantedCounts h1 MODE_NONE = 0"
    by (auto simp: head_ok_def counts_ok_def tallyOn_zero own_def ind_def granted_ok_def)
  moreover have "0 < conversionsCount h"
    using c r g by (auto simp: counts_ok_def tallyOn_pos ind_def)
  ultimately show ?thesis using run by (auto simp: h1_def gc_def)
qed


section \<open>Waking up requests\<close>

lemma change_frame_members:
  assumes "change_frame ns h h'" and "set ns \<subseteq> set (grantedList h) \<union> set (conflictList h)"
  shows "members h' = members h"
  using assms by (auto simp: change_frame_def)

lemma grantAll_simps [simp]:
  "lockP (grantAll ns hp r) = lockP (hp r)" "partitionedLock (grantAll ns hp r) = partitionedLock (hp r)"
  "recursiveCount (grantAll ns hp r) = recursiveCount (hp r)" "partitioned (grantAll ns hp r) = partitioned (hp r)"
  "enqueueAtFront (grantAll ns hp r) = enqueueAtFront (hp r)" "compatibleFirst (grantAll ns hp r) = compatibleFirst (hp r)"
  "lockerId (grantAll ns hp r) = lockerId (hp r)"
  "status (grantAll ns hp r) = STATUS_NEW \<longleftrightarrow> status (hp r) = STATUS_NEW"
  "live (grantAll ns hp r) = live (hp r)" "newInv (grantAll ns hp r) = newInv (hp r)"
  by (auto simp: grantAll_def grantNow_def live_def newInv_def split: Status.split)

lemma counted_grantAll: "counted (hp r) \<Longrightarrow> counted (grantAll ns hp r)"
  by (auto simp: grantAll_def grantNow_def counted_def split: Status.split)

lemma intentOnly_le:
  assumes "head_ok hp h" "head_ok hp' h'" "intentOnly h"
    and le: "\<And>m. grantedCounts h' m \<le> grantedCounts h m" and "set (conflictList h') \<subseteq> set (conflictList h)"
  shows "intentOnly h'"
proof -
  have c: "counts_ok hp h" "counts_ok hp' h'" using assms by (auto simp: head_ok_def)
  have "conflictList h' = []" using intentOnly_conflict [OF assms(1,3)] assms(5) by auto
  then have "conflictCounts h' m = 0" for m
    using head_ok_sync(2) [OF assms(2)] counts_okD(2) [OF c(2)] by (auto simp: maskOf_eq_0)
  moreover have "intent m" if "0 < grantedCounts h' m" for m
    using assms(3) less_le_trans [OF that le] unfolding intentOnly_counts [OF c(1)] by blast
  ultimately show ?thesis unfolding intentOnly_counts [OF c(2)] by blast
qed

lemma headBase_change:
  assumes hb: "headBase hp a h" and ok: "head_ok (grantAll ns hp) h'" and fr: "change_frame ns h h'"
    and ns: "set ns \<subseteq> members h"
  shows "headBase (grantAll ns hp) a h'"
proof -
  have "intentOnly h'" if "partitions h' \<noteq> []"
  proof -
    have io: "head_ok hp h" "intentOnly h" using hb fr that by (auto simp: headBase_def change_frame_def)
    with intentOnly_conflict have "conflictList h = []" by blast
    with io fr show ?thesis
      by (intro intentOnly_le [OF io(1) ok io(2)]) (auto simp: change_frame_def)
  qed
  with assms change_frame_members [OF fr ns] show ?thesis
    by (auto simp: headBase_def change_frame_def counted_grantAll)
qed

lemma front_blocked_live:
  assumes "head_ok hp h" "front_blocked hp h"
  shows "headLive hp h"
proof -
  have "grantedList h \<noteq> []" if "conflictList h \<noteq> []"
    using assms that head_ok_sync(1) [OF assms(1)] by (cases "conflictList h") (auto simp: front_blocked_def)
  with assms show ?thesis by (simp add: headLive_def)
qed

lemma headLive_change:
  assumes "headLive hp h" "change_frame ns h h'" "set ns \<inter> set (conflictList h) = {}"
    and "front_blocked hp h \<longrightarrow> front_blocked (grantAll ns hp) h'"
  shows "headLive (grantAll ns hp) h'"
proof -
  have "filter (\<lambda>r. r \<notin> set ns) (conflictList h) = conflictList h"
    using assms(3) by (intro filter_True) auto
  with assms show ?thesis by (auto simp: headLive_def change_frame_def)
qed

text \<open>
  After a change confined to resource \<open>a\<close> and the requests \<open>A\<close>, \<open>_onLockModeChanged\<close> restores
  the invariant.  \<open>woken\<close> is the outcome: the requests \<open>ns\<close> are granted and notified.
\<close>

definition wokenState :: "ResourceId \<Rightarrow> LockHead \<Rightarrow> ReqPtr list \<Rightarrow> LockManager \<Rightarrow> LockManager" where
  "wokenState a h' ns st = setHead a h' (st\<lparr>requests := grantAll ns (requests st),
     notified := notified st @ map (\<lambda>r. (r, a, LOCK_OK)) ns\<rparr>)"

definition woken :: "ResourceId \<Rightarrow> LockHead \<Rightarrow> LockManager \<Rightarrow> ReqPtr list \<Rightarrow> LockHead \<Rightarrow> bool" where
  "woken a h st ns h' \<longleftrightarrow> lm_ok (wokenState a h' ns st) \<and> change_frame ns h h' \<and> distinct ns \<and>
     set ns \<subseteq> {r \<in> set (grantedList h). status (requests st r) = STATUS_CONVERTING} \<union> set (conflictList h) \<and>
     ((\<forall>s \<in> set (conflictList h). \<not> compatibleFirst (requests st s)) \<longrightarrow>
        prefix (filter (\<lambda>s. s \<in> set (conflictList h)) ns) (conflictList h))"

lemma lockModeChanged_ok:
  assumes ok: "lm_ok st0" and others: "same_others a st0 st"
    and heap: "\<And>s. s \<notin> A \<Longrightarrow> requests st s = requests st0 s"
    and conf: "\<And>s b. s \<in> A \<Longrightarrow> linkedOn st0 b s \<Longrightarrow> b = a"
    and hb: "headBase (requests st) a h"
    and parts: "\<And>p l. partitionFind st p a = Some l \<Longrightarrow> partInv (requests st) a p l \<and> p \<in> set (partitions h)"
    and new: "\<And>s. s \<in> A \<Longrightarrow> newInv (requests st s)"
    and lv: "\<And>s. live (requests st s) \<Longrightarrow> s \<in> A \<or> linkedOn st0 a s \<Longrightarrow> s \<in> members h \<or> s \<in> partitionMembers st a"
    and bk: "buckets_ok st" and chk: "chk \<or> headLive (requests st) h"
  shows "\<exists>ns h'. lockModeChanged a h chk st = Some (wokenState a h' ns st) \<and> woken a h st ns h' \<and>
    (chk \<longrightarrow> front_blocked (grantAll ns (requests st)) h')"
proof -
  let ?hp = "requests st"
  have hok: "head_ok ?hp h" and rid: "resourceId h = a" using hb by (auto simp: headBase_def)
  from onLockModeChanged_ok [OF hok, of chk] obtain h' ns where w:
    "onLockModeChanged chk (?hp, h) = Some (grantAll ns ?hp, h', ns)"
    "head_ok (grantAll ns ?hp) h'" "change_frame ns h h'" "distinct ns"
    "set ns \<subseteq> {r \<in> set (grantedList h). status (?hp r) = STATUS_CONVERTING} \<union> set (conflictList h)"
    "chk \<or> front_blocked ?hp h \<longrightarrow> front_blocked (grantAll ns ?hp) h'"
    "chk \<or> set ns \<inter> set (conflictList h) = {}"
    "(\<forall>s \<in> set (conflictList h). \<not> compatibleFirst (?hp s)) \<longrightarrow>
       prefix (filter (\<lambda>r. r \<in> set (conflictList h)) ns) (conflictList h)" by blast
  let ?st = "wokenState a h' ns st"
  have run: "lockModeChanged a h chk st = Some ?st"
    using w(1) rid by (simp add: lockModeChanged_def wokenState_def)
  have sub: "set ns \<subseteq> members h" using w(5) by auto
  have hb': "headBase (grantAll ns ?hp) a h'" by (rule headBase_change [OF hb w(2,3) sub])
  have lv': "headLive (grantAll ns ?hp) h'"
    using front_blocked_live [OF w(2)] headLive_change [OF _ w(3)] w(6,7) chk by blast
  have mem: "members h' = members h" by (rule change_frame_members [OF w(3) sub])
  have pi: "partInv (grantAll ns ?hp) a p l" if "partitionFind st p a = Some l" for p l
  proof -
    have "r \<notin> members h" if "r \<in> set l" for r
      using parts [OF \<open>partitionFind st p a = Some l\<close>] hb that by (auto simp: partInv_def headBase_def)
    then have "r \<notin> set ns" if "r \<in> set l" for r using sub that by blast
    then show ?thesis using parts [OF that] by (intro partInv_frame [of l "grantAll ns ?hp" ?hp]) auto
  qed
  have "lm_ok ?st"
  proof (rule lm_ok_frame [OF ok, of a _ "A \<union> set ns"])
    have "partitions h' = partitions h" using w(3) by (simp add: change_frame_def)
    then show "resInv (requests ?st) a (headOf ?st a) (partsOf ?st a)"
      using hb' lv' pi parts by (auto simp: wokenState_def resInv_def resBase_def)
  next
    fix s b assume s: "s \<in> A \<union> set ns" "linkedOn st0 b s"
    show "b = a"
    proof (cases "s \<in> A")
      case False
      with s sub have "resOf (requests st0 s) = Some a"
        using headBase_member [OF hb, of s] heap by auto
      moreover have "resOf (requests st0 s) = Some b"
        using s(2) linked_resOf(1) lm_okD(2) [OF ok] unfolding linkedOn_def by blast
      ultimately show ?thesis by simp
    qed (use conf s in blast)
  next
    fix s assume "live (requests ?st s)" "s \<in> A \<union> set ns \<or> linkedOn st0 a s"
    then have "s \<in> members h \<or> s \<in> partitionMembers st a" using lv sub by (auto simp: wokenState_def)
    with mem show "linkedOn ?st a s"
      by (auto simp: wokenState_def linkedOn_def linked_def partitionMembers_def)
  next
    fix s assume "s \<in> A \<union> set ns"
    then show "newInv (requests ?st s)"
      using new heap lm_okD(3) [OF ok] by (cases "s \<in> A") (auto simp: wokenState_def)
  qed (use others heap bk in \<open>auto simp: wokenState_def same_others_def fun_eq_iff\<close>)
  with run w show ?thesis unfolding woken_def by blast
qed


section \<open>Changing the reference count of a granted request\<close>

text \<open>Requests that agree on everything the lock heads depend on.\<close>

definition coreEq :: "LockRequest \<Rightarrow> LockRequest \<Rightarrow> bool" where
  "coreEq q q' \<longleftrightarrow> status q' = status q \<and> mode q' = mode q \<and> convertMode q' = convertMode q \<and>
     compatibleFirst q' = compatibleFirst q \<and> enqueueAtFront q' = enqueueAtFront q"

lemma head_core:
  assumes "\<And>r. r \<in> members h \<Longrightarrow> coreEq (hp r) (hp' r)"
  shows "head_ok hp h \<Longrightarrow> head_ok hp' h" and "headLive hp h \<Longrightarrow> headLive hp' h"
proof -
  have "tallyOn (\<lambda>q. own q m) hp' (grantedList h) = tallyOn (\<lambda>q. own q m) hp (grantedList h)"
    "tallyOn (\<lambda>q. ind (mode q = m)) hp' (conflictList h) = tallyOn (\<lambda>q. ind (mode q = m)) hp (conflictList h)"
    "tallyOn (\<lambda>q. ind (status q = STATUS_CONVERTING)) hp' (grantedList h) =
      tallyOn (\<lambda>q. ind (status q = STATUS_CONVERTING)) hp (grantedList h)"
    "tallyOn (\<lambda>q. ind (compatibleFirst q)) hp' (grantedList h) = tallyOn (\<lambda>q. ind (compatibleFirst q)) hp (grantedList h)"
    for m using assms by (auto intro!: tallyOn_cong simp: coreEq_def own_def)
  then show "head_ok hp h \<Longrightarrow> head_ok hp' h"
    using assms by (auto simp: head_ok_def counts_ok_def granted_compatible_def coreEq_def
        granted_ok_def waiting_ok_def)
  show "headLive hp h \<Longrightarrow> headLive hp' h"
    using assms by (auto simp: headLive_def front_blocked_def coreEq_def split: list.splits)
qed

lemma lm_ok_recount:
  assumes ok: "lm_ok st" and g: "status (requests st r) = STATUS_GRANTED" "live (requests st r)" and n: "0 < n"
  shows "lm_ok (updReq r (\<lambda>q. q\<lparr>recursiveCount := n\<rparr>) st)" (is "lm_ok ?st")
proof -
  obtain a where l: "linkedOn st a r" using lm_okD(5) [OF ok g(2)] by blast
  have inv: "resInv (requests st) a (headOf st a) (partsOf st a)" using ok by (rule lm_okD)
  have c: "coreEq (requests st s) (requests ?st s)" for s by (simp add: coreEq_def)
  have "head_ok (requests ?st) h \<and> headLive (requests ?st) h" if "headOf st a = Some h" for h
    using inv that head_core [of h "requests st" "requests ?st"] c by (auto simp: resInv_def resBase_def headBase_def)
  with inv g n have res: "resInv (requests ?st) a (headOf st a) (partsOf st a)"
    by (auto simp: resInv_def resBase_def headBase_def partInv_def counted_def)
  show ?thesis
  proof (rule lm_ok_frame [OF ok, of a _ "{r}"])
    show "b = a" if "s \<in> {r}" "linkedOn st b s" for s b using that linkedOn_unique [OF ok _ l] by blast
  qed (use res l g lm_okD(4) [OF ok] in \<open>auto simp: linkedOn_def newInv_def\<close>)
qed

section \<open>unlock\<close>

text \<open>The effect of \<open>unlock\<close>: \<open>b\<close> says that the last reference is gone, \<open>ns\<close> who is woken up.\<close>

definition unlockedBy ::
  "ResourceId \<Rightarrow> ReqPtr \<Rightarrow> LockManager \<Rightarrow> bool \<Rightarrow> ReqPtr list \<Rightarrow> LockManager \<Rightarrow> bool" where
  "unlockedBy a r st b ns st' \<longleftrightarrow> lm_ok st' \<and> same_others a st st' \<and>
     notified st' = notified st @ map (\<lambda>s. (s, a, LOCK_OK)) ns \<and> distinct ns \<and> r \<notin> set ns \<and>
     set ns \<subseteq> {s \<in> holders st a. status (requests st s) = STATUS_CONVERTING} \<union> set (waiters st a) \<and>
     (\<forall>s. s \<noteq> r \<longrightarrow> requests st' s = grantAll ns (requests st) s) \<and>
     (b \<longleftrightarrow> recursiveCount (requests st r) = 1) \<and>
     recursiveCount (requests st' r) = recursiveCount (requests st r) - 1 \<and>
     mode (requests st' r) = mode (requests st r) \<and>
     (status (requests st r) = STATUS_CONVERTING \<longrightarrow> status (requests st' r) = STATUS_GRANTED) \<and>
     holders st' a = holders st a - (if b then {r} else {}) \<union> (set ns \<inter> set (waiters st a)) \<and>
     ((\<forall>s \<in> set (waiters st a). \<not> compatibleFirst (requests st s)) \<longrightarrow>
        prefix (filter (\<lambda>s. s \<in> set (waiters st a)) ns) (filter (\<lambda>s. \<not> (b \<and> s = r)) (waiters st a))) \<and>
     waiters st' a = filter (\<lambda>s. s \<notin> set ns \<and> \<not> (b \<and> s = r)) (waiters st a)"

lemma wokenState_simps [simp]:
  "requests (wokenState a h ns st) = grantAll ns (requests st)"
  "notified (wokenState a h ns st) = notified st @ map (\<lambda>r. (r, a, LOCK_OK)) ns"
  "headOf (wokenState a h ns st) b = (if b = a then Some h else headOf st b)"
  "partitionFind (wokenState a h ns st) p b = partitionFind st p b"
  by (simp_all add: wokenState_def)

lemma partitionMembers_woken [simp]: "partitionMembers (wokenState a h ns st) b = partitionMembers st b"
  by (simp add: partitionMembers_def)

lemma woken_view:
  assumes "woken a h st ns h'"
  shows "holders (wokenState a h' ns st) a =
      set (grantedList h) \<union> (set ns \<inter> set (conflictList h)) \<union> partitionMembers st a"
    and "waiters (wokenState a h' ns st) a = filter (\<lambda>s. s \<notin> set ns) (conflictList h)"
  using assms by (auto simp: woken_def change_frame_def holders_def waiters_def)

lemma member_linked: "headOf st a = Some h \<Longrightarrow> r \<in> members h \<Longrightarrow> linkedOn st a r"
  by (auto simp: linkedOn_def linked_def)

lemma headInvD:
  assumes "lm_ok st" "headOf st a = Some h"
  shows "headBase (requests st) a h" "headLive (requests st) h" "head_ok (requests st) h"
    "partitionFind st p a = Some l \<Longrightarrow> partInv (requests st) a p l \<and> p \<in> set (partitions h)"
  using lm_okD(1) [OF assms(1), of a] assms(2) by (auto simp: resInv_def resBase_def headBase_def)

lemma headBase_upd:
  assumes hb: "headBase hp a h" and ok: "head_ok (hp(r := q)) h'" and rid: "resourceId h' = resourceId h"
    and mem: "members h' \<subseteq> members h" "r \<in> members h' \<Longrightarrow> lockP q = Some a \<and> partitionedLock q = None \<and> counted q"
    and ps: "partitions h' = partitions h" "intentOnly h \<Longrightarrow> intentOnly h'"
  shows "headBase (hp(r := q)) a h'"
  using assms by (auto simp: headBase_def)

lemma partInv_upd: "partInv hp a p l \<Longrightarrow> r \<notin> set l \<Longrightarrow> partInv (hp(r := q)) a p l"
  by (auto simp: partInv_def)

text \<open>A release at a lock head followed by \<open>_onLockModeChanged\<close>, as one step.\<close>

lemma release_ok:
  assumes ok: "lm_ok st" and h: "headOf st a = Some h" and r: "r \<in> members h"
    and hok: "head_ok ((requests st)(r := q)) h'" "resourceId h' = resourceId h" "partitions h' = partitions h"
      "intentOnly h \<Longrightarrow> intentOnly h'"
    and mem: "set (grantedList h') = set (grantedList h) - (if recursiveCount q = 0 then {r} else {})"
      "conflictList h' = filter (\<lambda>s. \<not> (recursiveCount q = 0 \<and> s = r)) (conflictList h)"
    and q: "lockP q = Some a" "partitionedLock q = None" "recursiveCount q > 0 \<Longrightarrow> counted q" "status q \<noteq> STATUS_NEW"
    and chk: "chk \<or> headLive ((requests st)(r := q)) h'"
  shows "\<exists>ns h''. lockModeChanged a h' chk (updReq r (\<lambda>_. q) st) =
      Some (wokenState a h'' ns (updReq r (\<lambda>_. q) st)) \<and> woken a h' (updReq r (\<lambda>_. q) st) ns h'' \<and>
      (chk \<longrightarrow> front_blocked (grantAll ns ((requests st)(r := q))) h'')"
proof -
  let ?st = "updReq r (\<lambda>_. q) st"
  note hi = headInvD [OF ok h]
  have l: "linkedOn st a r" by (rule member_linked [OF h r])
  have pn: "r \<notin> set l" if "partitionFind st p a = Some l" for p l
    using hi(4) [OF that] hi(1) r by (auto simp: partInv_def headBase_def)
  have hb: "headBase (requests ?st) a h'"
    using headBase_upd [OF hi(1) hok(1,2) _ _ hok(3,4)] mem q by fastforce
  have "\<exists>ns h''. lockModeChanged a h' chk ?st = Some (wokenState a h'' ns ?st) \<and> woken a h' ?st ns h'' \<and>
      (chk \<longrightarrow> front_blocked (grantAll ns (requests ?st)) h'')"
  proof (rule lockModeChanged_ok [OF ok _ _ _ hb, of "{r}"])
    show "b = a" if "s \<in> {r}" "linkedOn st b s" for s b using that linkedOn_unique [OF ok _ l] by blast
    show "partInv (requests ?st) a p l \<and> p \<in> set (partitions h')" if "partitionFind ?st p a = Some l" for p l
      using that hi(4) [of p l] pn [of p l] hok(3) by (auto intro: partInv_upd)
    show "s \<in> members h' \<or> s \<in> partitionMembers ?st a" if "live (requests ?st s)" "s \<in> {r} \<or> linkedOn st a s" for s
    proof (cases "s = r")
      case True
      then show ?thesis using that r mem q by (auto simp: live_def)
    next
      case False
      then have "s \<in> members h \<or> s \<in> partitionMembers st a"
        using that h by (auto simp: linkedOn_def linked_def partitionMembers_def)
      then show ?thesis using mem False by (auto simp: partitionMembers_def)
    qed
  qed (use chk q lm_okD(4) [OF ok] in \<open>auto simp: same_others_def newInv_def\<close>)
  then show ?thesis by simp
qed


lemma partitionMembers_updReq [simp]: "partitionMembers (updReq r f st) a = partitionMembers st a"
  by (simp add: partitionMembers_def)

lemma release_view:
  assumes ok: "lm_ok st" and h: "headOf st a = Some h" and r: "r \<in> members h"
    and w: "woken a h' (updReq r (\<lambda>_. q) st) ns h''"
    and mem: "set (grantedList h') = set (grantedList h) - (if recursiveCount q = 0 then {r} else {})"
      "conflictList h' = filter (\<lambda>s. \<not> (recursiveCount q = 0 \<and> s = r)) (conflictList h)"
    and q: "recursiveCount q = recursiveCount (requests st r) - 1" "mode q = mode (requests st r)"
      "recursiveCount q > 0 \<Longrightarrow> r \<in> set (grantedList h) \<and> status q = STATUS_GRANTED"
    and c: "status (requests st r) = STATUS_CONVERTING \<Longrightarrow> recursiveCount q > 0"
  shows "unlockedBy a r st (recursiveCount q = 0) ns (wokenState a h'' ns (updReq r (\<lambda>_. q) st))"
proof -
  let ?st = "updReq r (\<lambda>_. q) st"
  note hi = headInvD [OF ok h]
  have d: "set (grantedList h) \<inter> set (conflictList h) = {}" using hi(3) by (auto simp: head_ok_def)
  have rc: "recursiveCount (requests st r) > 0"
    using hi(1) r by (auto simp: headBase_def counted_def)
  have rpm: "r \<notin> partitionMembers st a"
    using hi(1,4) r by (fastforce simp: partitionMembers_def partInv_def headBase_def)
  have sub: "set ns \<subseteq> {s \<in> set (grantedList h'). status (requests ?st s) = STATUS_CONVERTING} \<union> set (conflictList h')"
    using w by (simp add: woken_def)
  then have rn: "r \<notin> set ns"
    using mem d q(3) by (cases "recursiveCount q = 0") auto
  have vw: "holders st a = set (grantedList h) \<union> partitionMembers st a" "waiters st a = conflictList h"
    using h by (simp_all add: holders_def waiters_def)
  have "set ns \<subseteq> {s \<in> holders st a. status (requests st s) = STATUS_CONVERTING} \<union> set (waiters st a)"
    using sub mem rn unfolding vw by (auto split: if_splits)
  moreover have "holders (wokenState a h'' ns ?st) a =
      holders st a - (if recursiveCount q = 0 then {r} else {}) \<union> (set ns \<inter> set (waiters st a))"
    unfolding woken_view [OF w] vw mem using rn rpm by auto
  moreover have "waiters (wokenState a h'' ns ?st) a =
      filter (\<lambda>s. s \<notin> set ns \<and> \<not> (recursiveCount q = 0 \<and> s = r)) (waiters st a)"
    unfolding woken_view [OF w] vw mem by (simp add: conj_commute)
  moreover have "prefix (filter (\<lambda>s. s \<in> set (waiters st a)) ns)
      (filter (\<lambda>s. \<not> (recursiveCount q = 0 \<and> s = r)) (waiters st a))"
    if "\<forall>s \<in> set (waiters st a). \<not> compatibleFirst (requests st s)"
  proof -
    have "\<forall>s \<in> set (conflictList h'). \<not> compatibleFirst (requests ?st s)"
      using that q(3) d unfolding vw mem by auto
    moreover have "filter (\<lambda>s. s \<in> set (conflictList h')) ns = filter (\<lambda>s. s \<in> set (waiters st a)) ns"
      using rn unfolding vw mem by (intro filter_cong) auto
    ultimately show ?thesis using w unfolding woken_def vw by (metis mem(2))
  qed
  moreover have "lm_ok (wokenState a h'' ns ?st)" "distinct ns" using w by (auto simp: woken_def)
  moreover have "\<forall>s. s \<noteq> r \<longrightarrow> grantAll ns ((requests st)(r := q)) s = grantAll ns (requests st) s"
    by (simp add: grantAll_def)
  moreover have "same_others a st (wokenState a h'' ns ?st)" by (simp add: same_others_def)
  moreover have "recursiveCount q = 0 \<longleftrightarrow> recursiveCount (requests st r) = 1" using rc q(1) by auto
  moreover have "status (requests st r) = STATUS_CONVERTING \<longrightarrow> status q = STATUS_GRANTED" using c q(3) by blast
  ultimately show ?thesis
    unfolding unlockedBy_def using rn q(1,2) by simp
qed

lemma updReq_const: "updReq r f st = updReq r (\<lambda>_. f (requests st r)) st"
  by (simp add: updReq_def)

lemma updReq_twice [simp]: "updReq r f (updReq r g st) = updReq r (\<lambda>q. f (g q)) st"
  by (simp add: updReq_def)

lemma same_modes_live:
  assumes ok: "head_ok hp h" "head_ok hp' h'" and lv: "headLive hp h"
    and gc: "grantedCounts h' = (grantedCounts h)(m := grantedCounts h m - 1) \<and> grantedCounts h' m \<noteq> 0"
    and cl: "conflictList h' = conflictList h" "\<And>s. s \<in> set (conflictList h) \<Longrightarrow> hp' s = hp s"
  shows "headLive hp' h'"
proof -
  have c: "grantedModes h = maskOf (grantedCounts h)" "grantedModes h' = maskOf (grantedCounts h')"
    using ok by (auto simp: head_ok_def counts_ok_def)
  have "0 < grantedCounts h' k \<longleftrightarrow> 0 < grantedCounts h k" for k using gc by auto
  then have "conflicts k (grantedModes h') = conflicts k (grantedModes h)" for k
    unfolding c conflicts_maskOf by simp
  moreover have "grantedList h' \<noteq> []"
    using conjunct2 [OF gc] head_ok_sync(1) [OF ok(2)] unfolding c maskOf_eq_0 by metis
  ultimately show ?thesis
    using lv cl by (auto simp: headLive_def front_blocked_def split: list.splits)
qed

lemma unlock_granted:
  assumes ok: "lm_ok st" and h: "headOf st a = Some h" and r: "r \<in> set (grantedList h)"
    and q: "status (requests st r) = STATUS_GRANTED" "recursiveCount (requests st r) = 1"
  shows "\<exists>ns st'. unlock r st = Some (True, st') \<and> unlockedBy a r st True ns st'"
proof -
  let ?q = "(requests st r)\<lparr>recursiveCount := 0\<rparr>"
  note hi = headInvD [OF ok h]
  have p: "lockP (requests st r) = Some a" "partitionedLock (requests st r) = None"
    using hi(1) r by (auto simp: headBase_def)
  obtain h1 h2 where h1: "decGrantedModeCount (mode (requests st r)) (h\<lparr>grantedList := remove1 r (grantedList h)\<rparr>) = Some h1"
    "h2 = (if compatibleFirst (requests st r) then h1\<lparr>compatibleFirstCount := wrapDec (compatibleFirstCount h1)\<rparr> else h1)"
    "head_ok ((requests st)(r := ?q)) h2" "grantedList h2 = remove1 r (grantedList h)"
    "conflictList h2 = conflictList h" "resourceId h2 = resourceId h" "partitions h2 = partitions h"
    "grantedCounts h2 = (grantedCounts h)(mode (requests st r) := grantedCounts h (mode (requests st r)) - 1)"
    using remove_granted [OF hi(3) r q(1), of ?q] unfolding Let_def by blast
  let ?chk = "grantedCounts h2 (mode (requests st r)) = 0"
  have d: "distinct (grantedList h)" "r \<notin> set (conflictList h)" using hi(3) r by (auto simp: head_ok_def)
  have gl: "set (grantedList h2) = set (grantedList h) - (if recursiveCount ?q = 0 then {r} else {})"
    "conflictList h2 = filter (\<lambda>s. \<not> (recursiveCount ?q = 0 \<and> s = r)) (conflictList h)"
    using h1(4,5) d by (auto intro!: filter_True [symmetric])
  have io: "intentOnly h \<Longrightarrow> intentOnly h2"
    by (erule intentOnly_le [OF hi(3) h1(3)]) (simp_all add: h1(5,8))
  have "s \<in> set (conflictList h) \<Longrightarrow> ((requests st)(r := ?q)) s = requests st s" for s using d(2) by auto
  with same_modes_live [OF hi(3) h1(3) hi(2) _ h1(5)] h1(8)
  have chk: "?chk \<or> headLive ((requests st)(r := ?q)) h2" by blast
  from release_ok [OF ok h _ h1(3,6,7) io gl _ _ _ _ chk] obtain ns h'' where w:
    "lockModeChanged a h2 ?chk (updReq r (\<lambda>_. ?q) st) = Some (wokenState a h'' ns (updReq r (\<lambda>_. ?q) st))"
    "woken a h2 (updReq r (\<lambda>_. ?q) st) ns h''"
    using r p q by auto
  have "updReq r (\<lambda>q. q\<lparr>recursiveCount := recursiveCount q - 1\<rparr>) st = updReq r (\<lambda>_. ?q) st"
    by (simp add: updReq_def q)
  then have "unlock r st = Some (True, wokenState a h'' ns (updReq r (\<lambda>_. ?q) st))"
    using p q h h1(1,2) w(1) by (simp add: unlock_def Let_def)
  moreover have "unlockedBy a r st (recursiveCount ?q = 0) ns (wokenState a h'' ns (updReq r (\<lambda>_. ?q) st))"
    by (rule release_view [OF ok h _ w(2) gl]) (use r q in auto)
  ultimately show ?thesis by auto
qed


lemma unlock_waiting:
  assumes ok: "lm_ok st" and h: "headOf st a = Some h" and r: "r \<in> set (conflictList h)"
  shows "\<exists>ns st'. unlock r st = Some (True, st') \<and> unlockedBy a r st True ns st'"
proof -
  let ?q = "(requests st r)\<lparr>recursiveCount := 0\<rparr>"
  note hi = headInvD [OF ok h]
  have q: "lockP (requests st r) = Some a" "partitionedLock (requests st r) = None" "\<not> partitioned (requests st r)"
    "status (requests st r) = STATUS_WAITING" "recursiveCount (requests st r) = 1"
    using hi(1) r by (auto simp: headBase_def head_ok_def waiting_ok_def counted_def)
  from remove_waiting [OF hi(3) r, of ?q] obtain h1 where h1:
    "decConflictModeCount (mode (requests st r)) (h\<lparr>conflictList := remove1 r (conflictList h)\<rparr>) = Some h1"
    "head_ok ((requests st)(r := ?q)) h1" "grantedList h1 = grantedList h"
    "conflictList h1 = remove1 r (conflictList h)" "resourceId h1 = resourceId h" "partitions h1 = partitions h"
    by blast
  have d: "distinct (conflictList h)" "r \<notin> set (grantedList h)" using hi(3) r by (auto simp: head_ok_def)
  have gl: "set (grantedList h1) = set (grantedList h) - (if recursiveCount ?q = 0 then {r} else {})"
    "conflictList h1 = filter (\<lambda>s. \<not> (recursiveCount ?q = 0 \<and> s = r)) (conflictList h)"
    using h1(3,4) d by (auto simp: distinct_remove1_removeAll removeAll_filter_not_eq intro!: filter_cong)
  have le: "grantedCounts h1 m \<le> grantedCounts h m" for m
    using h1(2,3) hi(3) d by (auto simp: head_ok_def counts_ok_def)
  have io: "intentOnly h \<Longrightarrow> intentOnly h1"
    by (erule intentOnly_le [OF hi(3) h1(2)]) (use le h1(4) d in auto)
  from release_ok [OF ok h _ h1(2,5,6) io gl, of True] obtain ns h'' where w:
    "lockModeChanged a h1 True (updReq r (\<lambda>_. ?q) st) = Some (wokenState a h'' ns (updReq r (\<lambda>_. ?q) st))"
    "woken a h1 (updReq r (\<lambda>_. ?q) st) ns h''"
    using r q by auto
  have "updReq r (\<lambda>q. q\<lparr>recursiveCount := recursiveCount q - 1\<rparr>) st = updReq r (\<lambda>_. ?q) st"
    by (simp add: updReq_def q)
  then have "unlock r st = Some (True, wokenState a h'' ns (updReq r (\<lambda>_. ?q) st))"
    using q h h1(1) w(1) by (simp add: unlock_def Let_def)
  moreover have "unlockedBy a r st (recursiveCount ?q = 0) ns (wokenState a h'' ns (updReq r (\<lambda>_. ?q) st))"
    by (rule release_view [OF ok h _ w(2) gl]) (use r q in auto)
  ultimately show ?thesis by auto
qed

lemma unlock_converting:
  assumes ok: "lm_ok st" and h: "headOf st a = Some h" and r: "r \<in> set (grantedList h)"
    and c: "status (requests st r) = STATUS_CONVERTING"
  shows "\<exists>ns st'. unlock r st = Some (False, st') \<and> unlockedBy a r st False ns st'"
proof -
  let ?q = "(requests st r)\<lparr>recursiveCount := recursiveCount (requests st r) - 1,
    status := STATUS_GRANTED, convertMode := MODE_NONE\<rparr>"
  note hi = headInvD [OF ok h]
  have q: "lockP (requests st r) = Some a" "partitionedLock (requests st r) = None" "2 \<le> recursiveCount (requests st r)"
    using hi(1) r c by (auto simp: headBase_def counted_def)
  from cancel_conversion [OF hi(3) r c, of ?q] obtain h1 where h1: "0 < conversionsCount h"
    "decGrantedModeCount (convertMode (requests st r)) (h\<lparr>conversionsCount := conversionsCount h - 1\<rparr>) = Some h1"
    "head_ok ((requests st)(r := ?q)) h1" "grantedList h1 = grantedList h" "conflictList h1 = conflictList h"
    "resourceId h1 = resourceId h" "partitions h1 = partitions h" "grantedCounts h1 MODE_NONE = 0"
    "\<And>m. grantedCounts h1 m \<le> grantedCounts h m" by auto
  have gl: "set (grantedList h1) = set (grantedList h) - (if recursiveCount ?q = 0 then {r} else {})"
    "conflictList h1 = filter (\<lambda>s. \<not> (recursiveCount ?q = 0 \<and> s = r)) (conflictList h)"
    using h1(4,5) q by auto
  have io: "intentOnly h \<Longrightarrow> intentOnly h1"
    by (erule intentOnly_le [OF hi(3) h1(3)]) (simp_all add: h1(5,9))
  from release_ok [OF ok h _ h1(3,6,7) io gl, of True] obtain ns h'' where w:
    "lockModeChanged a h1 True (updReq r (\<lambda>_. ?q) st) = Some (wokenState a h'' ns (updReq r (\<lambda>_. ?q) st))"
    "woken a h1 (updReq r (\<lambda>_. ?q) st) ns h''"
    using r q by (auto simp: counted_def)
  have "updReq r (\<lambda>q. q\<lparr>status := STATUS_GRANTED, convertMode := MODE_NONE\<rparr>)
      (updReq r (\<lambda>q. q\<lparr>recursiveCount := recursiveCount q - 1\<rparr>) st) = updReq r (\<lambda>_. ?q) st"
    by (simp add: updReq_def)
  then have "unlock r st = Some (False, wokenState a h'' ns (updReq r (\<lambda>_. ?q) st))"
    using q h h1(1,2,8) w(1) c by (simp add: unlock_def Let_def updReq_const [of r "\<lambda>q. q\<lparr>recursiveCount := _ q\<rparr>"])
  moreover have "unlockedBy a r st (recursiveCount ?q = 0) ns (wokenState a h'' ns (updReq r (\<lambda>_. ?q) st))"
    by (rule release_view [OF ok h _ w(2) gl]) (use r q in auto)
  ultimately show ?thesis using q by auto
qed

lemma grantAll_Nil_fun [simp]: "grantAll [] = (\<lambda>hp. hp)"
  by (simp add: fun_eq_iff)

lemma unlock_recount:
  assumes ok: "lm_ok st" and l: "linkedOn st a r" and q: "status (requests st r) = STATUS_GRANTED" "1 < recursiveCount (requests st r)"
  shows "\<exists>st'. unlock r st = Some (False, st') \<and> unlockedBy a r st False [] st'"
proof -
  let ?st = "updReq r (\<lambda>q. q\<lparr>recursiveCount := recursiveCount (requests st r) - 1\<rparr>) st"
  have "live (requests st r)" using q by (simp add: live_def)
  with q have ok': "lm_ok ?st" by (intro lm_ok_recount [OF ok]) auto
  have "updReq r (\<lambda>q. q\<lparr>recursiveCount := recursiveCount q - 1\<rparr>) st = ?st" by (simp add: updReq_def)
  then have "unlock r st = Some (False, ?st)" using q by (simp add: unlock_def Let_def)
  moreover have "unlockedBy a r st False [] ?st"
    using ok' q by (auto simp: unlockedBy_def same_others_def holders_def waiters_def)
  ultimately show ?thesis by blast
qed

lemma unlock_partitioned:
  assumes ok: "lm_ok st" and l: "partitionFind st p a = Some l" "r \<in> set l" and q: "recursiveCount (requests st r) = 1"
  shows "\<exists>st'. unlock r st = Some (True, st') \<and> unlockedBy a r st True [] st'"
proof -
  let ?st1 = "updReq r (\<lambda>q. q\<lparr>recursiveCount := 0\<rparr>) st"
  let ?st = "setPartition p a (remove1 r l) ?st1"
  have inv: "resInv (requests st) a (headOf st a) (partsOf st a)" using ok by (rule lm_okD)
  then have base: "resBase (requests st) a (headOf st a) (partsOf st a)" by (simp add: resInv_def)
  from base l obtain h where h: "headOf st a = Some h" "p \<in> set (partitions h)" "partInv (requests st) a p l"
    unfolding resBase_def by blast
  have rq: "partitioned (requests st r)" "partitionedLock (requests st r) = Some (p, a)"
    "status (requests st r) = STATUS_GRANTED" "distinct l"
    using h(3) l(2) by (auto simp: partInv_def)
  have rn: "r \<notin> members h" "\<And>q l'. partitionFind st q a = Some l' \<Longrightarrow> q \<noteq> p \<Longrightarrow> r \<notin> set l'"
    using partition_disjoint [OF base l] h(1) by auto
  note hi = headInvD [OF ok h(1)]
  have eq: "updReq r (\<lambda>q. q\<lparr>recursiveCount := recursiveCount q - 1\<rparr>) st = ?st1" by (simp add: updReq_def q)
  have run: "unlock r st = Some (True, ?st)"
    unfolding unlock_def eq Let_def using q rq l by (simp add: unlockPartitioned_def)
  have lk: "linkedOn st a r" using l by (auto simp: linkedOn_def linked_def)
  have "lm_ok ?st"
  proof (rule lm_ok_frame [OF ok, of a _ "{r}"])
    have same: "requests ?st s = requests st s" if "s \<noteq> r" for s using that by simp
    have "headBase (requests ?st) a h \<and> headLive (requests ?st) h"
      using hi(1,2) head_core [of h "requests st" "requests ?st"] rn(1) by (auto simp: headBase_def coreEq_def)
    moreover have "partInv (requests ?st) a p (remove1 r l)"
      using h(3) rq(4) by (auto simp: partInv_def)
    moreover have "partInv (requests ?st) a p' l'" if "partitionFind st p' a = Some l'" "p' \<noteq> p" for p' l'
      using partInv_upd [OF conjunct1 [OF hi(4) [OF that(1)]] rn(2) [OF that]] by simp
    ultimately show "resInv (requests ?st) a (headOf ?st a) (partsOf ?st a)"
      using h hi(4) by (auto simp: resInv_def resBase_def)
    show "b = a" if "s \<in> {r}" "linkedOn st b s" for s b using that linkedOn_unique [OF ok _ lk] by blast
    show "linkedOn ?st a s" if "live (requests ?st s)" "s \<in> {r} \<or> linkedOn st a s" for s
    proof -
      have "s \<noteq> r" using that(1) by (auto simp: live_def)
      then show ?thesis using that(2) h(1) l(1) by (auto simp: linkedOn_def linked_at [of _ _ _ p])
    qed
  qed (use lm_okD(4) [OF ok] rq in \<open>auto simp: newInv_def\<close>)
  moreover have "partitionMembers ?st a = partitionMembers st a - {r}"
    unfolding partitionMembers_at [of _ a p] using l rq(4) rn(2) by auto
  ultimately have "unlockedBy a r st True [] ?st"
    using h(1) rn(1) rq q by (auto simp: unlockedBy_def same_others_def holders_def waiters_def intro!: filter_True [symmetric])
  with run show ?thesis by blast
qed

text \<open>Every live request can be released; \<open>unlock\<close> aborts on no path.\<close>

lemma unlock_ok:
  assumes ok: "lm_ok st" and lv: "live (requests st r)"
  shows "\<exists>a b ns st'. linkedOn st a r \<and> unlock r st = Some (b, st') \<and> unlockedBy a r st b ns st'"
proof -
  obtain a where l: "linkedOn st a r" using lm_okD(5) [OF ok lv] by blast
  consider h where "headOf st a = Some h" "r \<in> set (grantedList h)"
    | h where "headOf st a = Some h" "r \<in> set (conflictList h)"
    | p l where "partitionFind st p a = Some l" "r \<in> set l"
    using l unfolding linkedOn_def linked_def by blast
  then show ?thesis
  proof cases
    case 1
    have "granted_ok (requests st r)" using headInvD(3) [OF ok 1(1)] 1(2) by (auto simp: head_ok_def)
    then consider "status (requests st r) = STATUS_CONVERTING"
      | "status (requests st r) = STATUS_GRANTED" "recursiveCount (requests st r) = 1"
      | "status (requests st r) = STATUS_GRANTED" "1 < recursiveCount (requests st r)"
      using lv by (auto simp: granted_ok_def live_def) linarith
    then show ?thesis
      using unlock_converting [OF ok 1] unlock_granted [OF ok 1] unlock_recount [OF ok l] l
      by cases blast+
  next
    case 2
    then show ?thesis using unlock_waiting [OF ok] l by blast
  next
    case 3
    have "partInv (requests st) a p l" using lm_okD(2) [OF ok, of a] 3(1) by (auto simp: resBase_def)
    then have "status (requests st r) = STATUS_GRANTED" using 3(2) by (auto simp: partInv_def)
    moreover have "recursiveCount (requests st r) = 1 \<or> 1 < recursiveCount (requests st r)"
      using lv by (auto simp: live_def)
    ultimately show ?thesis using unlock_partitioned [OF ok 3] unlock_recount [OF ok l] l by blast
  qed
qed

end
