(* ===== verification/Lock_Conversion.thy ===== *)
theory Lock_Conversion
  imports Lock_Release
begin

text \<open>
  \<^verbatim>\<open>LockManager::convert\<close>, \<^verbatim>\<open>LockManager::downgrade\<close> and
  \<^verbatim>\<open>LockManager::cleanupUnusedLocks\<close>: each keeps \<open>lm_ok\<close>, aborts on no legal input, and has the
  effect that \<open>convertedBy\<close>, \<open>downgradedBy\<close> and \<open>sameView\<close> describe.
\<close>

section \<open>convert\<close>

lemma others_iff:
  assumes c: "counts_ok hp h" and r: "r \<in> set (grantedList h)" and d: "distinct (grantedList h)"
    and g: "status (hp r) = STATUS_GRANTED"
  shows "conflicts n (modesWithout (grantedCounts h) (holds (hp r))) \<longleftrightarrow>
    (\<exists>s \<in> set (grantedList h). s \<noteq> r \<and> \<not> (compatible n (mode (hp s)) \<and>
       (status (hp s) = STATUS_CONVERTING \<longrightarrow> compatible n (convertMode (hp s)))))"
proof -
  have "holds (hp r) m < grantedCounts h m \<longleftrightarrow> (\<exists>s \<in> set (grantedList h). s \<noteq> r \<and> 0 < own (hp s) m)" for m
  proof -
    have "grantedCounts h m = holds (hp r) m + tallyOn (\<lambda>q. own q m) hp (remove1 r (grantedList h))"
      using c tallyOn_split [OF r, of "\<lambda>q. own q m" hp] g
      by (simp add: counts_ok_def own_def holds_def ind_def)
    then show ?thesis using d by (auto simp: tallyOn_pos)
  qed
  then show ?thesis unfolding conflicts_modesWithout own_incompatible [symmetric] by blast
qed

lemma convert_granted_head:
  assumes ok: "head_ok hp h" and r: "r \<in> set (grantedList h)" and g: "status (hp r) = STATUS_GRANTED"
    and n: "n \<noteq> mode (hp r)" "n \<noteq> MODE_NONE"
    and compat: "\<And>s. s \<in> set (grantedList h) \<Longrightarrow> s \<noteq> r \<Longrightarrow> compatible n (mode (hp s))"
    and q: "q = (hp r)\<lparr>mode := n\<rparr>"
  shows "\<exists>h1 h2. incGrantedModeCount n h = Some h1 \<and> decGrantedModeCount (mode (hp r)) h1 = Some h2 \<and>
    head_ok (hp(r := q)) h2 \<and> grantedList h2 = grantedList h \<and> conflictList h2 = conflictList h \<and>
    resourceId h2 = resourceId h \<and> partitions h2 = partitions h \<and>
    (isModeCovered (mode (hp r)) n \<longrightarrow> (\<forall>k. conflicts k (grantedModes h) \<longrightarrow> conflicts k (grantedModes h2)))"
proof -
  have c: "counts_ok hp h" and gok: "granted_ok (hp r)" using ok r by (auto simp: head_ok_def)
  let ?m = "mode (hp r)"
  define gc1 where "gc1 = (grantedCounts h)(n := Suc (grantedCounts h n))"
  define gc where "gc = gc1(?m := gc1 ?m - 1)"
  define h1 where "h1 = h\<lparr>grantedCounts := gc1, grantedModes := maskOf gc1\<rparr>"
  define h2 where "h2 = h\<lparr>grantedCounts := gc, grantedModes := maskOf gc, conversionsCount := conversionsCount h - 0\<rparr>"
  have pos: "own (hp r) k \<le> grantedCounts h k" for k by (rule granted_mode_counted [OF c r])
  have ownr: "own (hp r) k = ind (?m = k)" for k using g by (simp add: own_def)
  have i: "incGrantedModeCount n h = Some h1"
    using counts_okD(1) [OF c] by (simp add: incGranted_eq h1_def gc1_def)
  have dd: "decGrantedModeCount ?m h1 = Some h2"
    using pos [of ?m] n unfolding ownr
    by (subst decGranted_eq) (simp_all add: h1_def h2_def gc_def gc1_def)
  have "gc k = grantedCounts h k - own (hp r) k + ind (mode q = k)" for k
    using pos [of k] n by (auto simp: gc_def gc1_def ownr q ind_def)
  then have hok: "head_ok (hp(r := q)) h2"
    using g n compat gok by (intro replace_granted [OF ok r]) (auto simp: q h2_def g granted_ok_def)
  moreover have "conflicts k (maskOf gc)" if "isModeCovered ?m n" "conflicts k (grantedModes h)" for k
    using that n by (intro conflicts_replace [OF c r that(1) _ _ that(2)]) (auto simp: gc_def gc1_def)
  ultimately show ?thesis using i dd by (auto simp: h2_def)
qed

lemma convert_waiting_head:
  assumes ok: "head_ok hp h" and r: "r \<in> set (grantedList h)" and g: "status (hp r) = STATUS_GRANTED"
    and n: "n \<noteq> mode (hp r)" "n \<noteq> MODE_NONE" "isModeCovered (mode (hp r)) n"
    and q: "q = (hp r)\<lparr>status := STATUS_CONVERTING, convertMode := n\<rparr>"
  shows "\<exists>h1. incGrantedModeCount n (h\<lparr>conversionsCount := Suc (conversionsCount h)\<rparr>) = Some h1 \<and>
    head_ok (hp(r := q)) h1 \<and> grantedList h1 = grantedList h \<and> conflictList h1 = conflictList h \<and>
    resourceId h1 = resourceId h \<and> partitions h1 = partitions h \<and>
    (\<forall>k. conflicts k (grantedModes h) \<longrightarrow> conflicts k (grantedModes h1))"
proof -
  have c: "counts_ok hp h" and d: "distinct (grantedList h)" and rn: "r \<notin> set (conflictList h)"
    and gok: "granted_ok (hp r)" using ok r by (auto simp: head_ok_def)
  define gc where "gc = (grantedCounts h)(n := Suc (grantedCounts h n))"
  define h1 where "h1 = h\<lparr>grantedCounts := gc, grantedModes := maskOf gc, conversionsCount := Suc (conversionsCount h)\<rparr>"
  have i: "incGrantedModeCount n (h\<lparr>conversionsCount := Suc (conversionsCount h)\<rparr>) = Some h1"
    using counts_okD(1) [OF c] by (simp add: incGranted_eq h1_def gc_def)
  have pos: "own (hp r) k \<le> grantedCounts h k" for k by (rule granted_mode_counted [OF c r])
  have ge: "ind (compatibleFirst (hp r)) \<le> tallyOn (\<lambda>q. ind (compatibleFirst q)) hp (grantedList h)"
    using tallyOn_ge [OF r, of "\<lambda>q. ind (compatibleFirst q)" hp] by simp
  have own_q: "own q k = own (hp r) k + ind (n = k)" for k using g by (simp add: own_def q)
  have "counts_ok (hp(r := q)) h1"
    using c pos ge rn g
    by (auto simp: counts_ok_def h1_def gc_def tallyOn_upd [OF d r] own_q) (simp_all add: q)
  moreover have "granted_compatible (hp(r := q)) (grantedList h1)"
    using ok by (auto simp: granted_compatible_def head_ok_def h1_def q)
  ultimately have "head_ok (hp(r := q)) h1"
    using ok r rn n gok g by (auto simp: head_ok_def h1_def q granted_ok_def)
  moreover have "conflicts k (grantedModes h1)" if "conflicts k (grantedModes h)" for k
    using that unfolding counts_okD(1) [OF c] h1_def
    by (auto simp: conflicts_maskOf gc_def)
  ultimately show ?thesis using i by (auto simp: h1_def)
qed


lemma install_ok:
  assumes ok: "lm_ok st" and h: "headOf st a = Some h" "partitions h = []" and r: "r \<in> set (grantedList h)"
    and h': "head_ok ((requests st)(r := q)) h'" "grantedList h' = grantedList h" "conflictList h' = conflictList h"
      "resourceId h' = resourceId h" "partitions h' = partitions h"
      "\<And>k. conflicts k (grantedModes h) \<Longrightarrow> conflicts k (grantedModes h')"
    and q: "lockP q = Some a" "partitionedLock q = None" "counted q" "status q \<noteq> STATUS_NEW"
  shows "lm_ok (setHead a h' (updReq r (\<lambda>_. q) st))" (is "lm_ok ?st")
proof (rule lm_ok_frame [OF ok, of a _ "{r}"])
  note hi = headInvD [OF ok h(1)]
  have rn: "r \<notin> set (conflictList h)" using hi(3) r by (auto simp: head_ok_def)
  have "headBase ((requests st)(r := q)) a h'"
    using headBase_upd [OF hi(1) h'(1,4)] h' h(2) q hi(1) by (auto simp: headBase_def)
  moreover have "headLive ((requests st)(r := q)) h'"
    using hi(2) rn h'(2,3,6) by (auto simp: headLive_def front_blocked_def split: list.splits)
  ultimately show "resInv (requests ?st) a (headOf ?st a) (partsOf ?st a)"
    using no_partitions(1) [OF ok h] by (simp add: resInv_def resBase_def)
  show "b = a" if "s \<in> {r}" "linkedOn st b s" for s b
    using that linkedOn_unique [OF ok _ member_linked [OF h(1)]] r by blast
  show "linkedOn ?st a s" if "s \<in> {r} \<or> linkedOn st a s" for s
    using that h r h'(2,3) by (auto simp: linkedOn_def linked_def)
qed (use q lm_okD(4) [OF ok] in \<open>auto simp: newInv_def\<close>)

definition compatibleOthers :: "LockManager \<Rightarrow> ResourceId \<Rightarrow> ReqPtr \<Rightarrow> LockMode \<Rightarrow> bool" where
  "compatibleOthers st a r n \<longleftrightarrow> (\<forall>s \<in> holders st a - {r}. compatible n (mode (requests st s)) \<and>
     (status (requests st s) = STATUS_CONVERTING \<longrightarrow> compatible n (convertMode (requests st s))))"

text \<open>The effect of \<open>convert\<close>.\<close>

definition convertedBy ::
  "ResourceId \<Rightarrow> ReqPtr \<Rightarrow> LockMode \<Rightarrow> LockManager \<Rightarrow> LockResult \<Rightarrow> LockManager \<Rightarrow> bool" where
  "convertedBy a r n st res st' \<longleftrightarrow> lm_ok st' \<and> same_others a st st' \<and> notified st' = notified st \<and>
     (\<forall>s. s \<noteq> r \<longrightarrow> sameReq (requests st s) (requests st' s)) \<and>
     holders st' a = holders st a \<and> waiters st' a = waiters st a \<and>
     recursiveCount (requests st' r) = Suc (recursiveCount (requests st r)) \<and>
     (if isModeCovered n (mode (requests st r)) then res = LOCK_OK \<and>
        mode (requests st' r) = mode (requests st r) \<and> status (requests st' r) = STATUS_GRANTED
      else if compatibleOthers st a r n then res = LOCK_OK \<and>
        mode (requests st' r) = n \<and> status (requests st' r) = STATUS_GRANTED
      else res = LOCK_WAITING \<and> mode (requests st' r) = mode (requests st r) \<and>
        status (requests st' r) = STATUS_CONVERTING \<and> convertMode (requests st' r) = n)"

lemma view_head_eq:
  assumes "headOf st' a = Some h'" "headOf st a = Some h" "grantedList h' = grantedList h"
    "conflictList h' = conflictList h" "partsOf st' a = partsOf st a"
  shows "holders st' a = holders st a" "waiters st' a = waiters st a"
  using assms by (auto simp: holders_def waiters_def partitionMembers_def fun_eq_iff)

lemma convert_upgrade:
  assumes ok: "lm_ok st" and h: "headOf st a = Some h" "partitions h = []" and r: "r \<in> set (grantedList h)"
    and g: "status (requests st r) = STATUS_GRANTED" "1 < recursiveCount (requests st r)"
    and n: "n \<noteq> mode (requests st r)" "n \<noteq> MODE_NONE" "isModeCovered (mode (requests st r)) n"
  shows "\<exists>res st'. (if conflicts n (modesWithout (grantedCounts h) (holds (requests st r))) then do {
         let st3 = updReq r (\<lambda>q. q\<lparr>status := STATUS_CONVERTING, convertMode := n\<rparr>) st;
         h1 \<leftarrow> incGrantedModeCount n (h\<lparr>conversionsCount := Suc (conversionsCount h)\<rparr>);
         Some (LOCK_WAITING, setHead a h1 st3)
       } else do {
         h1 \<leftarrow> incGrantedModeCount n h;
         h2 \<leftarrow> decGrantedModeCount (mode (requests st r)) h1;
         Some (LOCK_OK, setHead a h2 (updReq r (\<lambda>q. q\<lparr>mode := n\<rparr>) st))
       }) = Some (res, st') \<and> lm_ok st' \<and> same_others a st st' \<and> notified st' = notified st \<and>
     requests st' = (requests st)(r := (if compatibleOthers st a r n then (requests st r)\<lparr>mode := n\<rparr>
        else (requests st r)\<lparr>status := STATUS_CONVERTING, convertMode := n\<rparr>)) \<and>
     res = (if compatibleOthers st a r n then LOCK_OK else LOCK_WAITING) \<and>
     holders st' a = holders st a \<and> waiters st' a = waiters st a"
proof -
  note hi = headInvD [OF ok h(1)]
  have c: "counts_ok (requests st) h" "distinct (grantedList h)" using hi(3) by (auto simp: head_ok_def)
  have hs: "holders st a = set (grantedList h)" using h no_partitions(2) [OF ok h] by (simp add: holders_def)
  have co: "conflicts n (modesWithout (grantedCounts h) (holds (requests st r))) \<longleftrightarrow> \<not> compatibleOthers st a r n"
    unfolding others_iff [OF c(1) r c(2) g(1)] compatibleOthers_def hs by blast
  have p: "lockP (requests st r) = Some a" "partitionedLock (requests st r) = None" "counted (requests st r)"
    using hi(1) r by (auto simp: headBase_def)
  show ?thesis
  proof (cases "compatibleOthers st a r n")
    case True
    let ?q = "(requests st r)\<lparr>mode := n\<rparr>"
    have "compatible n (mode (requests st s))" if "s \<in> set (grantedList h)" "s \<noteq> r" for s
      using True that hs by (auto simp: compatibleOthers_def)
    from convert_granted_head [OF hi(3) r g(1) n(1,2) this refl] n(3) obtain h1 h2 where h2:
      "incGrantedModeCount n h = Some h1" "decGrantedModeCount (mode (requests st r)) h1 = Some h2"
      "head_ok ((requests st)(r := ?q)) h2" "grantedList h2 = grantedList h" "conflictList h2 = conflictList h"
      "resourceId h2 = resourceId h" "partitions h2 = partitions h"
      "\<And>k. conflicts k (grantedModes h) \<Longrightarrow> conflicts k (grantedModes h2)" by blast
    let ?st = "setHead a h2 (updReq r (\<lambda>_. ?q) st)"
    have ok': "lm_ok ?st"
      by (rule install_ok [OF ok h r h2(3-8)]) (use p g in \<open>auto simp: counted_def\<close>)
    have eq: "updReq r (\<lambda>q. q\<lparr>mode := n\<rparr>) st = updReq r (\<lambda>_. ?q) st" by (simp add: updReq_def)
    show ?thesis
      using True ok' view_head_eq [of ?st a h2 st h] h h2(1,2,4,5)
      by (intro exI [of _ LOCK_OK] exI [of _ ?st]) (simp add: co eq same_others_def)
  next
    case False
    let ?q = "(requests st r)\<lparr>status := STATUS_CONVERTING, convertMode := n\<rparr>"
    from convert_waiting_head [OF hi(3) r g(1) n refl] obtain h1 where h1:
      "incGrantedModeCount n (h\<lparr>conversionsCount := Suc (conversionsCount h)\<rparr>) = Some h1"
      "head_ok ((requests st)(r := ?q)) h1" "grantedList h1 = grantedList h" "conflictList h1 = conflictList h"
      "resourceId h1 = resourceId h" "partitions h1 = partitions h"
      "\<And>k. conflicts k (grantedModes h) \<Longrightarrow> conflicts k (grantedModes h1)" by blast
    let ?st = "setHead a h1 (updReq r (\<lambda>_. ?q) st)"
    have ok': "lm_ok ?st"
      by (rule install_ok [OF ok h r h1(2-7)]) (use p g in \<open>auto simp: counted_def\<close>)
    have eq: "updReq r (\<lambda>q. q\<lparr>status := STATUS_CONVERTING, convertMode := n\<rparr>) st = updReq r (\<lambda>_. ?q) st"
      by (simp add: updReq_def)
    show ?thesis
      using False ok' view_head_eq [of ?st a h1 st h] h h1(1,3,4)
      by (intro exI [of _ LOCK_WAITING] exI [of _ ?st]) (simp add: co eq same_others_def Let_def)
  qed
qed


lemma sameReq_trans: "sameReq q q' \<Longrightarrow> sameReq q' q'' \<Longrightarrow> sameReq q q''"
  by (cases q; cases q'; cases q''; simp add: sameReq_def)

lemma convert_ok:
  assumes ok: "lm_ok st" and l: "linkedOn st a r" and g: "status (requests st r) = STATUS_GRANTED"
    and n: "n \<noteq> MODE_NONE" "isModeCovered n (mode (requests st r)) \<or> isModeCovered (mode (requests st r)) n"
  shows "\<exists>res st'. convert a r n st = Some (res, st') \<and> convertedBy a r n st res st'"
proof -
  let ?c = "recursiveCount (requests st r)" and ?m = "mode (requests st r)"
  let ?st1 = "updReq r (\<lambda>q. q\<lparr>recursiveCount := Suc ?c\<rparr>) st"
  have lv: "live (requests st r)" using l lm_okD(2) [OF ok] linked_resOf(2) unfolding linkedOn_def by blast
  have rc: "0 < ?c" using lv by (simp add: live_def)
  have ok1: "lm_ok ?st1" by (rule lm_ok_recount [OF ok g lv]) simp
  have eq: "updReq r (\<lambda>q. q\<lparr>recursiveCount := Suc (recursiveCount q)\<rparr>) st = ?st1" by (simp add: updReq_def)
  have v1: "holders ?st1 a = holders st a" "waiters ?st1 a = waiters st a" "same_others a st ?st1"
    by (simp_all add: holders_def waiters_def same_others_def)
  show ?thesis
  proof (cases "isModeCovered n ?m")
    case True
    then have "convert a r n st = Some (LOCK_OK, ?st1)"
      using g rc by (simp add: convert_def eq Let_def isModeCovered_def)
    with True ok1 v1 g show ?thesis by (simp add: convertedBy_def)
  next
    case False
    with n have cov: "isModeCovered ?m n" and ne: "n \<noteq> ?m" by (auto simp: isModeCovered_def)
    have cond: "LockConflictsTable ?m OR LockConflictsTable n \<noteq> LockConflictsTable ?m"
      "LockConflictsTable ?m OR LockConflictsTable n = LockConflictsTable n"
      using False cov by (auto simp: isModeCovered_def or.commute)
    from l obtain h where h: "headOf st a = Some h"
      using lm_okD(2) [OF ok, of a] unfolding linkedOn_def linked_def resBase_def by blast
    have h1: "headOf ?st1 a = Some h" using h by simp
    from migrateIfPartitioned_ok [OF ok1 h1] obtain st2 h2 where mg:
      "migrateIfPartitioned a ?st1 = Some st2" "migrated a ?st1 h st2 h2" by blast
    note v = migrated_view [OF mg(2) h1]
    have s2: "lm_ok st2" "headOf st2 a = Some h2" "partitions h2 = []" "set (grantedList h2) = holders st a"
      using mg(2) h by (auto simp: migrated_def holders_def)
    have "r \<in> holders st a"
      using l h g headInvD(3) [OF ok h]
      by (auto simp: linkedOn_def linked_def holders_def partitionMembers_def head_ok_def waiting_ok_def)
    with s2(4) have r2: "r \<in> set (grantedList h2)" by simp
    note rq = sameReqD [OF v(4) [of r]]
    have co: "compatibleOthers st2 a r n = compatibleOthers st a r n"
      unfolding compatibleOthers_def v(1) v1 using sameReqD(1-3) [OF v(4)] by simp
    from convert_upgrade [OF s2(1-3) r2, of n] obtain res st' where u:
      "(if conflicts n (modesWithout (grantedCounts h2) (holds (requests st2 r))) then do {
         let st3 = updReq r (\<lambda>q. q\<lparr>status := STATUS_CONVERTING, convertMode := n\<rparr>) st2;
         h1 \<leftarrow> incGrantedModeCount n (h2\<lparr>conversionsCount := Suc (conversionsCount h2)\<rparr>);
         Some (LOCK_WAITING, setHead a h1 st3)
       } else do {
         h1 \<leftarrow> incGrantedModeCount n h2;
         h2 \<leftarrow> decGrantedModeCount (mode (requests st2 r)) h1;
         Some (LOCK_OK, setHead a h2 (updReq r (\<lambda>q. q\<lparr>mode := n\<rparr>) st2))
       }) = Some (res, st')"
      "lm_ok st'" "same_others a st2 st'" "notified st' = notified st2"
      "requests st' = (requests st2)(r := (if compatibleOthers st2 a r n then (requests st2 r)\<lparr>mode := n\<rparr>
        else (requests st2 r)\<lparr>status := STATUS_CONVERTING, convertMode := n\<rparr>))"
      "res = (if compatibleOthers st2 a r n then LOCK_OK else LOCK_WAITING)"
      "holders st' a = holders st2 a" "waiters st' a = waiters st2 a"
      using rq g rc ne n(1) cov by auto
    have "mode (requests st2 r) = ?m" using rq by simp
    with u(1) mg(1) s2(2) cond g rc have "convert a r n st = Some (res, st')"
      by (simp add: convert_def eq Let_def cong: if_cong)
    moreover have "same_others a st st'"
      using same_others_trans [OF same_others_trans [OF v1(3) v(5)] u(3)] .
    moreover have "sameReq (requests st s) (requests st' s)" if "s \<noteq> r" for s
      using that v(4) [of s] u(5) by simp
    ultimately show ?thesis
      using u(2,4-8) v(1,2,6) v1 rq False g
      by (intro exI [of _ res] exI [of _ st']) (simp add: convertedBy_def co)
  qed
qed

section \<open>downgrade\<close>

definition downgradedBy ::
  "ResourceId \<Rightarrow> ReqPtr \<Rightarrow> LockMode \<Rightarrow> LockManager \<Rightarrow> ReqPtr list \<Rightarrow> LockManager \<Rightarrow> bool" where
  "downgradedBy a r n st ns st' \<longleftrightarrow> lm_ok st' \<and> same_others a st st' \<and>
     notified st' = notified st @ map (\<lambda>s. (s, a, LOCK_OK)) ns \<and> distinct ns \<and>
     set ns \<subseteq> {s \<in> holders st a. status (requests st s) = STATUS_CONVERTING} \<union> set (waiters st a) \<and>
     requests st' = (grantAll ns (requests st))(r := (requests st r)\<lparr>mode := n\<rparr>) \<and>
     holders st' a = holders st a \<union> (set ns \<inter> set (waiters st a)) \<and>
     waiters st' a = filter (\<lambda>s. s \<notin> set ns) (waiters st a)"

lemma downgrade_head:
  assumes ok: "head_ok hp h" and r: "r \<in> set (grantedList h)" and g: "status (hp r) = STATUS_GRANTED"
    and n: "n \<noteq> MODE_NONE" "isModeCovered n (mode (hp r))" and q: "q = (hp r)\<lparr>mode := n\<rparr>"
  shows "\<exists>h1 h2. incGrantedModeCount n h = Some h1 \<and> decGrantedModeCount (mode (hp r)) h1 = Some h2 \<and>
    head_ok (hp(r := q)) h2 \<and> grantedList h2 = grantedList h \<and> conflictList h2 = conflictList h \<and>
    resourceId h2 = resourceId h \<and> partitions h2 = partitions h"
proof (cases "n = mode (hp r)")
  case True
  have c: "counts_ok hp h" using ok by (simp add: head_ok_def)
  have "q = hp r" using True q by (cases "hp r") simp
  moreover have "decGrantedModeCount n (h\<lparr>grantedCounts := (grantedCounts h)(n := Suc (grantedCounts h n)),
      grantedModes := maskOf ((grantedCounts h)(n := Suc (grantedCounts h n)))\<rparr>) = Some h"
    using counts_okD(1) [OF c] by (subst decGranted_eq) simp_all
  ultimately show ?thesis
    using True ok counts_okD(1) [OF c] by (simp add: incGranted_eq)
next
  case False
  have "compatible n (mode (hp s))" if "s \<in> set (grantedList h)" "s \<noteq> r" for s
    using ok r that n(2) by (auto simp: head_ok_def granted_compatible_def isModeCovered_iff)
  from convert_granted_head [OF ok r g False n(1) this q] show ?thesis by blast
qed


lemma downgrade_ok:
  assumes ok: "lm_ok st" and lv: "live (requests st r)" and p: "lockP (requests st r) = Some a"
    and g: "status (requests st r) = STATUS_GRANTED"
    and n: "n \<noteq> MODE_NONE" "isModeCovered n (mode (requests st r))"
  shows "\<exists>ns st'. downgrade r n st = Some st' \<and> downgradedBy a r n st ns st'"
proof -
  let ?q = "(requests st r)\<lparr>mode := n\<rparr>" and ?st = "updReq r (\<lambda>_. (requests st r)\<lparr>mode := n\<rparr>) st"
  obtain b where b: "linkedOn st b r" using lm_okD(5) [OF ok lv] by blast
  have "partitionFind st p' b = Some l \<Longrightarrow> r \<notin> set l" for p' l
    using lm_okD(2) [OF ok, of b] p by (auto simp: resBase_def partInv_def)
  then obtain h where h: "headOf st b = Some h" "r \<in> members h"
    using b unfolding linkedOn_def linked_def by blast
  note hi = headInvD [OF ok h(1)]
  have ba: "b = a" using hi(1) h(2) p by (auto simp: headBase_def)
  have r: "r \<in> set (grantedList h)" "r \<notin> set (conflictList h)"
    using hi(3) h(2) g by (auto simp: head_ok_def waiting_ok_def)
  have rq: "partitionedLock (requests st r) = None" "counted (requests st r)" "0 < recursiveCount (requests st r)"
    using hi(1) r by (auto simp: headBase_def counted_def)
  from downgrade_head [OF hi(3) r(1) g n refl] obtain h1 h2 where h2:
    "incGrantedModeCount n h = Some h1" "decGrantedModeCount (mode (requests st r)) h1 = Some h2"
    "head_ok ((requests st)(r := ?q)) h2" "grantedList h2 = grantedList h" "conflictList h2 = conflictList h"
    "resourceId h2 = resourceId h" "partitions h2 = partitions h" by blast
  have io: "intentOnly h2" if "intentOnly h"
    using that r n unfolding intentOnly_granted [OF hi(3)] intentOnly_granted [OF h2(3)] h2(4,5)
    by (auto simp: intent_def isModeCovered_cases g)
  have gl: "set (grantedList h2) = set (grantedList h) - (if recursiveCount ?q = 0 then {r} else {})"
    "conflictList h2 = filter (\<lambda>s. \<not> (recursiveCount ?q = 0 \<and> s = r)) (conflictList h)"
    using h2(4,5) rq by auto
  from release_ok [OF ok h h2(3,6,7) io gl, of True] obtain ns h'' where w:
    "lockModeChanged a h2 True ?st = Some (wokenState a h'' ns ?st)" "woken a h2 ?st ns h''"
    using p rq g ba by (auto simp: counted_def)
  have "updReq r (\<lambda>q. q\<lparr>mode := n\<rparr>) st = ?st" by (simp add: updReq_def)
  then have run: "downgrade r n st = Some (wokenState a h'' ns ?st)"
    using p g rq n(2) h(1) ba h2(1,2) w(1) by (simp add: downgrade_def Let_def isModeCovered_def)
  have sub: "set ns \<subseteq> {s \<in> set (grantedList h). status (requests ?st s) = STATUS_CONVERTING} \<union> set (conflictList h)"
    using w(2) h2(4,5) by (simp add: woken_def)
  then have rn: "r \<notin> set ns" using r(2) g by auto
  have vw: "holders st a = set (grantedList h) \<union> partitionMembers st a" "waiters st a = conflictList h"
    using h(1) ba by (simp_all add: holders_def waiters_def)
  have "set ns \<subseteq> {s \<in> holders st a. status (requests st s) = STATUS_CONVERTING} \<union> set (waiters st a)"
    using sub rn unfolding vw by (auto split: if_splits)
  moreover have "grantAll ns ((requests st)(r := ?q)) = (grantAll ns (requests st))(r := ?q)"
    using rn by (simp add: grantAll_def fun_eq_iff)
  moreover have "holders (wokenState a h'' ns ?st) a = holders st a \<union> (set ns \<inter> set (waiters st a))"
    unfolding woken_view [OF w(2)] vw h2(4,5) by auto
  moreover have "waiters (wokenState a h'' ns ?st) a = filter (\<lambda>s. s \<notin> set ns) (waiters st a)"
    unfolding woken_view [OF w(2)] vw h2(5) ..
  moreover have "lm_ok (wokenState a h'' ns ?st)" "distinct ns" using w(2) by (auto simp: woken_def)
  ultimately have "downgradedBy a r n st ns (wokenState a h'' ns ?st)"
    by (simp add: downgradedBy_def same_others_def)
  with run show ?thesis by blast
qed

section \<open>Cleanup\<close>

text \<open>What clients of the manager can see of a state.\<close>

definition sameView :: "LockManager \<Rightarrow> LockManager \<Rightarrow> bool" where
  "sameView st st' \<longleftrightarrow> (\<forall>a. holders st' a = holders st a \<and> waiters st' a = waiters st a) \<and>
     (\<forall>r. sameReq (requests st r) (requests st' r)) \<and> notified st' = notified st"

lemma sameView_refl [simp]: "sameView st st"
  by (simp add: sameView_def)

lemma sameView_trans: "sameView s1 s2 \<Longrightarrow> sameView s2 s3 \<Longrightarrow> sameView s1 s3"
  unfolding sameView_def using sameReq_trans by fastforce

lemma same_others_view:
  assumes "same_others a st st'" "b \<noteq> a"
  shows "holders st' b = holders st b" "waiters st' b = waiters st b"
proof -
  have "headOf st' b = headOf st b" "\<And>p. partitionFind st' p b = partitionFind st p b"
    using assms unfolding same_others_def by (auto simp: fun_eq_iff)
  then show "holders st' b = holders st b" "waiters st' b = waiters st b"
    by (simp_all add: holders_def waiters_def partitionMembers_def)
qed

lemma eraseHead_ok:
  assumes ok: "lm_ok st" and h: "headOf st a = Some h" "partitions h = []" "grantedModes h = 0"
  shows "lm_ok (eraseHead a st)" "sameView st (eraseHead a st)"
    and "grantedList h = [] \<and> conflictList h = [] \<and> conflictModes h = 0 \<and> conversionsCount h = 0 \<and> compatibleFirstCount h = 0"
proof -
  note hi = headInvD [OF ok h(1)]
  have e: "grantedList h = []" "conflictList h = []"
    using head_ok_sync(1) [OF hi(3)] h(3) hi(2) by (auto simp: headLive_def)
  then show "grantedList h = [] \<and> conflictList h = [] \<and> conflictModes h = 0 \<and> conversionsCount h = 0 \<and> compatibleFirstCount h = 0"
    using head_ok_sync(2) [OF hi(3)] hi(3) by (simp add: head_ok_def counts_ok_def)
  have np: "partitionFind st p a = None" for p using no_partitions(1) [OF ok h(1,2)] .
  then have nl: "\<not> linkedOn st a s" for s using h e by (simp add: linkedOn_def linked_def)
  show "lm_ok (eraseHead a st)"
    by (rule lm_ok_frame [OF ok, of a _ "{}"])
      (use nl np lm_okD(4) [OF ok] in \<open>auto simp: resInv_def resBase_def\<close>)
  have "same_others a st (eraseHead a st)" by (simp add: same_others_def)
  moreover have "holders (eraseHead a st) a = holders st a" "waiters (eraseHead a st) a = waiters st a"
    using h(1) e np by (simp_all add: holders_def waiters_def partitionMembers_def)
  ultimately show "sameView st (eraseHead a st)"
    unfolding sameView_def using same_others_view by (metis sameReqI(1) notified_frames(2) table_frames(12))
qed


definition clean :: "LockManager \<Rightarrow> ResourceId \<Rightarrow> bool" where
  "clean st a \<longleftrightarrow> (headOf st a \<noteq> None \<longrightarrow> holders st a \<noteq> {}) \<and> partsOf st a = (\<lambda>_. None)"

lemma cleanupEntry_ok:
  assumes ok: "lm_ok st" and "headOf st a \<noteq> None"
  shows "\<exists>st'. cleanupEntry a st = Some st' \<and> lm_ok st' \<and> sameView st st' \<and> same_others a st st' \<and> clean st' a"
proof -
  obtain h where h: "headOf st a = Some h" using assms(2) by blast
  from migrateIfPartitioned_ok [OF ok h] obtain st1 h1 where mg:
    "migrateIfPartitioned a st = Some st1" "migrated a st h st1 h1" by blast
  note v = migrated_view [OF mg(2) h]
  have s1: "lm_ok st1" "headOf st1 a = Some h1" "partitions h1 = []" "\<And>p. partitionFind st1 p a = None"
    using mg(2) by (auto simp: migrated_def)
  have view: "sameView st st1"
    unfolding sameView_def using v same_others_view [OF v(5)] by metis
  show ?thesis
  proof (cases "grantedModes h1 = 0")
    case True
    note e = eraseHead_ok [OF s1(1-3) True]
    have "cleanupEntry a st = Some (eraseHead a st1)"
      using mg(1) s1(2) e(3) True by (simp add: cleanupEntry_def)
    moreover have "same_others a st (eraseHead a st1)" using v(5) by (simp add: same_others_def)
    moreover have "clean (eraseHead a st1) a" using s1(4) by (simp add: clean_def fun_eq_iff)
    ultimately show ?thesis using e(1) sameView_trans [OF view e(2)] by blast
  next
    case False
    then have "cleanupEntry a st = Some st1" using mg(1) s1(2) by (simp add: cleanupEntry_def)
    moreover have "grantedList h1 \<noteq> []"
      using head_ok_sync(1) [OF headInvD(3) [OF s1(1,2)]] False by blast
    then have "clean st1 a" using s1 by (simp add: clean_def holders_def fun_eq_iff)
    ultimately show ?thesis using s1(1) view v(5) by blast
  qed
qed

lemma clean_same:
  "same_others a st st' \<Longrightarrow> b \<noteq> a \<Longrightarrow> clean st' b = clean st b"
  unfolding clean_def same_others_def holders_def partitionMembers_def by (auto simp: fun_eq_iff)

lemma cleanupEntries_ok:
  assumes "lm_ok st" and "distinct xs" and "\<And>a. a \<in> set xs \<Longrightarrow> headOf st a \<noteq> None"
  shows "\<exists>st'. cleanupEntries xs st = Some st' \<and> lm_ok st' \<and> sameView st st' \<and>
    (\<forall>a. a \<in> set xs \<or> clean st a \<longrightarrow> clean st' a)"
  using assms
proof (induction xs arbitrary: st)
  case (Cons a xs)
  from cleanupEntry_ok [OF Cons.prems(1), of a] Cons.prems(3) obtain st1 where 1:
    "cleanupEntry a st = Some st1" "lm_ok st1" "sameView st st1" "same_others a st st1" "clean st1 a" by auto
  have "headOf st1 b \<noteq> None" if "b \<in> set xs" for b
    using that Cons.prems(2,3) 1(4) by (metis distinct.simps(2) list.set_intros(2) same_others_def)
  from Cons.IH [OF 1(2) _ this] Cons.prems(2) obtain st' where
    "cleanupEntries xs st1 = Some st'" "lm_ok st'" "sameView st1 st'" "\<forall>b. b \<in> set xs \<or> clean st1 b \<longrightarrow> clean st' b"
    by auto
  then show ?case using 1 sameView_trans clean_same [OF 1(4)] by fastforce
qed simp

lemma cleanupUnusedLocksInBucket_ok:
  assumes ok: "lm_ok st"
  shows "\<exists>st'. cleanupUnusedLocksInBucket b st = Some st' \<and> lm_ok st' \<and> sameView st st' \<and>
    (\<forall>a. getBucket a = b \<or> clean st a \<longrightarrow> clean st' a)"
proof -
  let ?xs = "map fst (lockBuckets st b)"
  have bk: "distinct ?xs" "\<And>a. a \<in> set ?xs \<Longrightarrow> getBucket a = b"
    using lm_okD(4) [OF ok] by (auto simp: buckets_ok_def)
  have hd: "headOf st a \<noteq> None" if "a \<in> set ?xs" for a
    using that bk(2) [OF that] by (auto simp: headOf_def map_of_eq_None_iff)
  from cleanupEntries_ok [OF ok bk(1) hd] obtain st' where r:
    "cleanupEntries ?xs st = Some st'" "lm_ok st'" "sameView st st'" "\<forall>a. a \<in> set ?xs \<or> clean st a \<longrightarrow> clean st' a"
    by blast
  have "clean st a" if "getBucket a = b" "a \<notin> set ?xs" for a
  proof -
    have n: "headOf st a = None" using that by (simp add: headOf_def map_of_eq_None_iff)
    then have "partitionFind st p a = None" for p
      using lm_okD(2) [OF ok, of a] by (cases "partitionFind st p a") (auto simp: resBase_def)
    with n show ?thesis by (simp add: clean_def fun_eq_iff)
  qed
  with r show ?thesis unfolding cleanupUnusedLocksInBucket_def by blast
qed

lemma cleanupBuckets_ok:
  assumes "lm_ok st"
  shows "\<exists>st'. cleanupBuckets bs st = Some st' \<and> lm_ok st' \<and> sameView st st' \<and>
    (\<forall>a. getBucket a \<in> set bs \<or> clean st a \<longrightarrow> clean st' a)"
  using assms
proof (induction bs arbitrary: st)
  case (Cons b bs)
  from cleanupUnusedLocksInBucket_ok [OF Cons.prems, of b] obtain st1 where 1:
    "cleanupUnusedLocksInBucket b st = Some st1" "lm_ok st1" "sameView st st1"
    "\<forall>a. getBucket a = b \<or> clean st a \<longrightarrow> clean st1 a" by blast
  from Cons.IH [OF 1(2)] obtain st' where
    "cleanupBuckets bs st1 = Some st'" "lm_ok st'" "sameView st1 st'"
    "\<forall>a. getBucket a \<in> set bs \<or> clean st1 a \<longrightarrow> clean st' a" by blast
  then show ?case using 1 sameView_trans by fastforce
qed simp

lemma cleanupUnusedLocks_ok:
  assumes "lm_ok st"
  shows "\<exists>st'. cleanupUnusedLocks st = Some st' \<and> lm_ok st' \<and> sameView st st' \<and> (\<forall>a. clean st' a)"
proof -
  have "getBucket a \<in> set [0..<numLockBuckets]" for a by (simp add: getBucket_def numLockBuckets_def)
  with cleanupBuckets_ok [OF assms, of "[0..<numLockBuckets]"] show ?thesis
    unfolding cleanupUnusedLocks_def by blast
qed

end
