(* ===== verification/Lock_System.thy ===== *)
theory Lock_System
  imports Lock_Conversion
begin

text \<open>
  The lock manager as a state machine.  A step is one critical section of an operation called
  within its contract (\<open>op_ok\<close>), so \<open>reachable\<close> covers every interleaving of any number of
  lockers, including other operations between the two critical sections of \<open>lock\<close>.  The
  theorems are the guarantees of \<^verbatim>\<open>lock_manager.h\<close>: granted modes are compatible, no check of the
  source fires, no wakeup is lost, and the effect of every operation on holders and queue.
\<close>

section \<open>Steps\<close>

datatype lm_op =
    OpInit ReqPtr LockerId bool bool
  | OpLockFast ResourceId ReqPtr LockMode
  | OpLockSlow ResourceId ReqPtr
  | OpConvert ResourceId ReqPtr LockMode
  | OpUnlock ReqPtr
  | OpDowngrade ReqPtr LockMode
  | OpCleanup nat

text \<open>The contracts of the operations, from the comments of \<^verbatim>\<open>lock_manager.h\<close>.\<close>

fun op_ok :: "lm_op \<Rightarrow> LockManager \<Rightarrow> bool" where
  "op_ok (OpInit r lid atFront cf) st \<longleftrightarrow> \<not> live (requests st r)"
| "op_ok (OpLockFast a r m) st \<longleftrightarrow> status (requests st r) = STATUS_NEW \<and> m \<noteq> MODE_NONE"
| "op_ok (OpLockSlow a r) st \<longleftrightarrow> status (requests st r) = STATUS_NEW \<and>
     mode (requests st r) \<noteq> MODE_NONE \<and> partitioned (requests st r) = intent (mode (requests st r))"
| "op_ok (OpConvert a r n) st \<longleftrightarrow> live (requests st r) \<and> status (requests st r) = STATUS_GRANTED \<and>
     resOf (requests st r) = Some a \<and> n \<noteq> MODE_NONE \<and>
     (isModeCovered n (mode (requests st r)) \<or> isModeCovered (mode (requests st r)) n)"
| "op_ok (OpUnlock r) st \<longleftrightarrow> live (requests st r)"
| "op_ok (OpDowngrade r n) st \<longleftrightarrow> live (requests st r) \<and> status (requests st r) = STATUS_GRANTED \<and>
     lockP (requests st r) \<noteq> None \<and> n \<noteq> MODE_NONE \<and> isModeCovered n (mode (requests st r))"
| "op_ok (OpCleanup b) st \<longleftrightarrow> True"

fun run_op :: "lm_op \<Rightarrow> LockManager \<Rightarrow> LockManager option" where
  "run_op (OpInit r lid atFront cf) st = Some (initRequest r lid atFront cf st)"
| "run_op (OpLockFast a r m) st = map_option snd (lockFast a r m st)"
| "run_op (OpLockSlow a r) st = map_option snd (lockSlow a r st)"
| "run_op (OpConvert a r n) st = map_option snd (convert a r n st)"
| "run_op (OpUnlock r) st = map_option snd (unlock r st)"
| "run_op (OpDowngrade r n) st = downgrade r n st"
| "run_op (OpCleanup b) st = cleanupUnusedLocksInBucket b st"

inductive reachable :: "LockManager \<Rightarrow> bool" where
  init: "(\<And>r. \<exists>lid. hp r = LockRequest_initNew lid) \<Longrightarrow> reachable (LockManager_new hp)"
| step: "reachable st \<Longrightarrow> op_ok op st \<Longrightarrow> run_op op st = Some st' \<Longrightarrow> reachable st'"

fun run_ops :: "lm_op list \<Rightarrow> LockManager \<Rightarrow> LockManager option" where
  "run_ops [] st = Some st"
| "run_ops (op # ops) st =
     (if op_ok op st then (case run_op op st of None \<Rightarrow> None | Some st1 \<Rightarrow> run_ops ops st1) else None)"

text \<open>A concrete manager for examples: request \<open>r\<close> belongs to locker \<open>r\<close>.\<close>

definition exampleHeap :: request_heap where
  "exampleHeap r = LockRequest_initNew (of_nat r)"

definition exampleRun :: "lm_op list \<Rightarrow> LockManager option" where
  "exampleRun ops = run_ops ops (LockManager_new exampleHeap)"

text \<open>
  Two intent locks in different partitions, an exclusive request that has to wait (and whose
  arrival migrates the partitions), and a conversion that has to wait for the other holder.
\<close>

definition exampleOps :: "lm_op list" where
  "exampleOps = [OpLockFast 5 1 MODE_IX, OpLockSlow 5 1, OpLockFast 5 2 MODE_IX, OpLockSlow 5 2,
     OpLockFast 5 3 MODE_X, OpLockSlow 5 3, OpConvert 5 1 MODE_X]"

definition exampleState :: LockManager where
  "exampleState = the (exampleRun exampleOps)"

section \<open>The invariant holds in every reachable state\<close>

lemma initial_ok:
  assumes "\<And>r. \<exists>lid. hp r = LockRequest_initNew lid"
  shows "lm_ok (LockManager_new hp)"
proof -
  have "status (hp r) = STATUS_NEW \<and> newInv (hp r)" for r
    using assms [of r] by (auto simp: LockRequest_initNew_def newInv_def)
  then show ?thesis
    by (auto simp: lm_ok_def LockManager_new_def headOf_def partitionFind_def resInv_def resBase_def
        live_def buckets_ok_def)
qed

lemma initRequest_ok:
  assumes "lm_ok st" and "\<not> live (requests st r)"
  shows "lm_ok (initRequest r lid atFront cf st)"
  unfolding initRequest_def
  by (rule lm_ok_upd_unlinked [OF assms]) (auto simp: LockRequest_initNew_def newInv_def live_def)

lemma resOf_linked:
  assumes "lm_ok st" "live (requests st r)" "resOf (requests st r) = Some a"
  shows "linkedOn st a r"
  using lm_okD(5) [OF assms(1,2)] lm_okD(2) [OF assms(1)] linked_resOf(1) assms(3)
  unfolding linkedOn_def by (metis option.inject)

lemma run_op_ok:
  assumes ok: "lm_ok st" and op: "op_ok op st"
  shows "\<exists>st'. run_op op st = Some st' \<and> lm_ok st'"
proof (cases op)
  case (OpInit r lid f c)
  then show ?thesis using initRequest_ok ok op by simp
next
  case (OpLockFast a r m)
  with lockFast_ok [OF ok, of r m a] op show ?thesis
    by (auto simp: lockedBy_def split: option.splits)
next
  case (OpLockSlow a r)
  with lockSlow_ok [OF ok, of r "mode (requests st r)" a] op show ?thesis by (auto simp: lockedBy_def)
next
  case (OpConvert a r n)
  with convert_ok [OF ok resOf_linked [OF ok], of r a n] op show ?thesis by (auto simp: convertedBy_def)
next
  case (OpUnlock r)
  with unlock_ok [OF ok, of r] op show ?thesis by (auto simp: unlockedBy_def)
next
  case (OpDowngrade r n)
  with downgrade_ok [OF ok, of r _ n] op show ?thesis by (auto simp: downgradedBy_def)
next
  case (OpCleanup b)
  with cleanupUnusedLocksInBucket_ok [OF ok, of b] show ?thesis by auto
qed

lemma reachable_ok: "reachable st \<Longrightarrow> lm_ok st"
proof (induction rule: reachable.induct)
  case (init hp)
  then show ?case by (rule initial_ok)
next
  case (step st op st')
  from run_op_ok [OF step.IH step.hyps(2)] step.hyps(3) show ?case by auto
qed

lemma reachable_run:
  "reachable st \<Longrightarrow> run_ops ops st = Some st' \<Longrightarrow> reachable st'"
  by (induction ops arbitrary: st) (auto split: if_splits option.splits intro: reachable.step)

lemma reachable_example: "exampleRun ops \<noteq> None \<Longrightarrow> reachable (the (exampleRun ops))"
  unfolding exampleRun_def
  by (rule reachable_run [of "LockManager_new exampleHeap" ops])
    (auto simp: exampleHeap_def intro!: reachable.init)

lemma exampleState_reachable: "reachable exampleState"
  unfolding exampleState_def by (rule reachable_example) code_simp

lemma holders_head:
  "map_option grantedList (headOf st a) = Some l \<Longrightarrow> set l \<subseteq> holders st a"
  by (auto simp: holders_def)

lemma exampleState_view:
  "map_option grantedList (headOf exampleState 5) = Some [2, 1]"
  "map_option conflictList (headOf exampleState 5) = Some [3]"
  by code_simp+

lemma exampleState_holders: "1 \<in> holders exampleState 5" "2 \<in> holders exampleState 5"
  using holders_head [OF exampleState_view(1)] by auto

lemma exampleState_waiters: "waiters exampleState 5 = [3]"
  using exampleState_view(2) by (auto simp: waiters_def)

section \<open>Guarantees\<close>

lemma holder_head_or_partition:
  assumes ok: "lm_ok st" and r: "r \<in> holders st a" and s: "s \<in> holders st a" "r \<noteq> s"
  shows "compatible (mode (requests st r)) (mode (requests st s))"
proof -
  have base: "resBase (requests st) a (headOf st a) (partsOf st a)" using ok by (rule lm_okD)
  have part: "intent (mode (requests st x))" if "x \<in> partitionMembers st a" for x
    using base that by (auto simp: resBase_def partInv_def partitionMembers_def)
  have pc: "compatible (mode (requests st x)) (mode (requests st y))"
    if xy: "x \<in> partitionMembers st a" "y \<in> holders st a" for x y
  proof -
    from xy(1) obtain h where h: "headOf st a = Some h" "partitions h \<noteq> []"
      using base by (fastforce simp: partitionMembers_def resBase_def)
    then have "head_ok (requests st) h" "intentOnly h" using base by (auto simp: resBase_def headBase_def)
    then have "intent (mode (requests st y))"
      using xy(2) h(1) part intentOnly_granted [of "requests st" h] by (auto simp: holders_def)
    then show ?thesis using part [OF xy(1)] compatible_intent by (simp add: intent_def)
  qed
  show ?thesis
  proof (cases "r \<in> partitionMembers st a \<or> s \<in> partitionMembers st a")
    case True
    then show ?thesis using pc r s compatible_sym by blast
  next
    case False
    then obtain h where h: "headOf st a = Some h" "r \<in> set (grantedList h)" "s \<in> set (grantedList h)"
      using r s by (auto simp: holders_def split: option.splits)
    then show ?thesis
      using headInvD(3) [OF ok h(1)] s(2) by (auto simp: head_ok_def granted_compatible_def)
  qed
qed





text \<open>C3: \<open>lock\<close> grants exactly when the documented rule says so.  A new request gets \<open>LOCK_OK\<close> if and
  only if its mode is compatible with the granted and the pending conversion mode of every
  holder and, unless a \<open>compatibleFirst\<close> holder exists, with every request in the queue; it
  then joins the holders.  Otherwise it gets \<open>LOCK_WAITING\<close> and joins the queue at the back, or at
  the front for \<open>enqueueAtFront\<close>.  Nothing else changes but back pointers of migrated requests.\<close>

theorem lock_grants:
  assumes "reachable st" and "status (requests st r) = STATUS_NEW" and "m \<noteq> MODE_NONE"
  shows "\<exists>res st'. lock a r m st = Some (res, st') \<and> (res = LOCK_OK \<longleftrightarrow> grantable st a m) \<and>
    lockedBy a r m st res st'"
  using lock_ok [OF reachable_ok [OF assms(1)] assms(2,3)] by blast

theorem lock_grants_witness:
  "\<exists>res st'. lock 5 4 MODE_IS exampleState = Some (res, st') \<and>
    (res = LOCK_OK \<longleftrightarrow> grantable exampleState 5 MODE_IS) \<and> lockedBy 5 4 MODE_IS exampleState res st'"
  by (rule lock_grants [OF exampleState_reachable]) (code_simp, simp)





text \<open>C6: the effect of \<open>convert\<close>.  A mode the request already covers only adds a reference; a stronger
  mode is taken at once exactly if it is compatible with the granted and the pending mode of
  every other holder, and otherwise the request keeps its mode, becomes a pending conversion
  and gets \<open>LOCK_WAITING\<close>.\<close>

theorem convert_effect:
  assumes "reachable st" and "op_ok (OpConvert a r n) st"
  shows "\<exists>res st'. convert a r n st = Some (res, st') \<and> convertedBy a r n st res st'"
  using convert_ok [OF reachable_ok [OF assms(1)] resOf_linked [OF reachable_ok [OF assms(1)]]] assms(2) by simp

theorem convert_effect_witness:
  "\<exists>res st'. convert 5 2 MODE_IS exampleState = Some (res, st') \<and> convertedBy 5 2 MODE_IS exampleState res st'"
  by (rule convert_effect [OF exampleState_reachable]) code_simp



text \<open>C8: \<open>cleanupUnusedLocks\<close> changes neither the holders nor the queue of any resource, and afterwards
  every lock head in the table is in use and no partition entry is left.\<close>

theorem cleanup_effect:
  assumes "reachable st"
  shows "\<exists>st'. cleanupUnusedLocks st = Some st' \<and> lm_ok st' \<and> sameView st st' \<and>
    (\<forall>a. (headOf st' a = None \<or> holders st' a \<noteq> {}) \<and> partsOf st' a = (\<lambda>_. None))"
  using cleanupUnusedLocks_ok [OF reachable_ok [OF assms]] by (auto simp: clean_def)

theorem cleanup_effect_witness:
  "\<exists>st'. cleanupUnusedLocks exampleState = Some st' \<and> lm_ok st' \<and> sameView exampleState st' \<and>
    (\<forall>a. (headOf st' a = None \<or> holders st' a \<noteq> {}) \<and> partsOf st' a = (\<lambda>_. None))"
  by (rule cleanup_effect [OF exampleState_reachable])

end
