(* ===== verification/Deadlock_Detector.thy ===== *)
theory Deadlock_Detector
  imports Lock_System
begin

text \<open>
  \<^verbatim>\<open>class DeadlockDetector\<close> of \<^verbatim>\<open>src/mongo/db/concurrency/lock_manager.cpp\<close>: a search of the wait-for
  graph from the locker that waits.  \<open>Locker::getWaitingResource\<close> of the other lockers is the
  argument \<open>wr\<close>.  On one state of the lock manager the search ends, no check of it fires, and it
  reports a cycle exactly if the initial locker waits for itself through a chain of lockers.
\<close>

section \<open>Definitions\<close>

record Detector =
  initialLockerId :: LockerId
  unprocessed :: "(LockerId \<times> ResourceId) list"
  graph :: "(LockerId \<times> ResourceId \<times> LockerId list) list"
  foundCycle :: bool

definition DeadlockDetector_new :: "(LockerId \<Rightarrow> ResourceId) \<Rightarrow> LockerId \<Rightarrow> Detector" where
  "DeadlockDetector_new wr lid =
     \<lparr>initialLockerId = lid, unprocessed = (if isValidResource (wr lid) then [(lid, wr lid)] else []),
      graph = [], foundCycle = False\<rparr>"

text \<open>The locker of a request if it waits for something itself.\<close>

definition waitingOwner :: "request_heap \<Rightarrow> (LockerId \<Rightarrow> ResourceId) \<Rightarrow> ReqPtr \<Rightarrow> LockerId list" where
  "waitingOwner hp wr it =
     (let lid = lockerId (hp it) in if isValidResource (wr lid) then [lid] else [])"

fun scanGranted ::
  "request_heap \<Rightarrow> (LockerId \<Rightarrow> ResourceId) \<Rightarrow> ReqPtr \<Rightarrow> ReqPtr list \<Rightarrow> bool \<Rightarrow> LockerId list option" where
  "scanGranted hp wr request [] seen = Some []"
| "scanGranted hp wr request (it # rest) seen =
     (if it = request then scanGranted hp wr request rest True
      else if status (hp request) = STATUS_WAITING then do {
        let new = (if conflicts (mode (hp request)) (modeMask (mode (hp it))) \<or>
                      conflicts (mode (hp request)) (modeMask (convertMode (hp it)))
                   then waitingOwner hp wr it else []);
        more \<leftarrow> scanGranted hp wr request rest seen;
        Some (new @ more)
      } else do {
        invariant (status (hp request) = STATUS_CONVERTING);
        let new = (if conflicts (convertMode (hp request)) (modeMask (mode (hp it))) \<or>
                      seen \<and> conflicts (convertMode (hp request)) (modeMask (convertMode (hp it)))
                   then waitingOwner hp wr it else []);
        more \<leftarrow> scanGranted hp wr request rest seen;
        Some (new @ more)
      })"

fun scanConflict ::
  "request_heap \<Rightarrow> (LockerId \<Rightarrow> ResourceId) \<Rightarrow> ReqPtr \<Rightarrow> ReqPtr list \<Rightarrow> LockerId list option" where
  "scanConflict hp wr request [] = Some []"
| "scanConflict hp wr request (it # rest) = do {
     invariant (it \<noteq> request);
     let new = (if conflicts (mode (hp request)) (modeMask (mode (hp it))) then waitingOwner hp wr it else []);
     more \<leftarrow> scanConflict hp wr request rest;
     Some (new @ more)
   }"

definition edgesOf :: "LockManager \<Rightarrow> (LockerId \<Rightarrow> ResourceId) \<Rightarrow> LockHead \<Rightarrow> ReqPtr \<Rightarrow> LockerId list option" where
  "edgesOf st wr h request = do {
     let hp = requests st;
     gs \<leftarrow> scanGranted hp wr request (rev (grantedList h)) False;
     cs \<leftarrow> (if status (hp request) = STATUS_WAITING
            then scanConflict hp wr request (rev (takeWhile (\<lambda>r. r \<noteq> request) (conflictList h)))
            else Some []);
     Some (gs @ cs)
   }"

definition processNextNode ::
  "LockManager \<Rightarrow> (LockerId \<Rightarrow> ResourceId) \<Rightarrow> LockerId \<times> ResourceId \<Rightarrow> Detector \<Rightarrow> Detector option" where
  "processNextNode st wr node d =
     (case headOf st (snd node) of
        None \<Rightarrow> Some d
      | Some h \<Rightarrow>
          (case findRequest (fst node) (requests st) h of
             None \<Rightarrow> Some d
           | Some request \<Rightarrow>
               if status (requests st request) = STATUS_GRANTED then Some d
               else if fst node \<in> set (map fst (graph d)) then
                 Some (if foundCycle d then d else d\<lparr>foundCycle := (fst node = initialLockerId d)\<rparr>)
               else do {
                 owners \<leftarrow> edgesOf st wr h request;
                 Some (d\<lparr>graph := (fst node, snd node, owners) # graph d,
                         unprocessed := rev (map (\<lambda>l. (l, wr l)) owners) @ unprocessed d\<rparr>)
               }))"

definition detector_next ::
  "LockManager \<Rightarrow> (LockerId \<Rightarrow> ResourceId) \<Rightarrow> Detector \<Rightarrow> (bool \<times> Detector) option" where
  "detector_next st wr d =
     (case unprocessed d of
        [] \<Rightarrow> Some (False, d)
      | front # rest \<Rightarrow> do {
          d' \<leftarrow> processNextNode st wr front (d\<lparr>unprocessed := rest\<rparr>);
          Some (unprocessed d' \<noteq> [], d')
        })"

partial_function (option) detector_check ::
  "LockManager \<Rightarrow> (LockerId \<Rightarrow> ResourceId) \<Rightarrow> Detector \<Rightarrow> Detector option" where
  "detector_check st wr d = do {
     (more, d') \<leftarrow> detector_next st wr d;
     if more then detector_check st wr d' else Some d'
   }"

declare detector_check.simps [code]

definition hasCycle :: "Detector \<Rightarrow> bool option" where
  "hasCycle d = do { invariant (unprocessed d = []); Some (foundCycle d) }"

definition findsDeadlock :: "LockManager \<Rightarrow> (LockerId \<Rightarrow> ResourceId) \<Rightarrow> LockerId \<Rightarrow> bool option" where
  "findsDeadlock st wr lid = do { d \<leftarrow> detector_check st wr (DeadlockDetector_new wr lid); hasCycle d }"

text \<open>Two lockers that hold one resource each and wait for the other's.\<close>

definition exR1 :: ResourceId where "exR1 = fullHash RESOURCE_DATABASE 5"

definition exR2 :: ResourceId where "exR2 = fullHash RESOURCE_DATABASE 6"

definition deadlockState :: LockManager where
  "deadlockState = the (exampleRun
     [OpInit 3 1 False False, OpInit 4 2 False False,
      OpLockFast exR1 1 MODE_X, OpLockSlow exR1 1, OpLockFast exR2 2 MODE_X, OpLockSlow exR2 2,
      OpLockFast exR2 3 MODE_X, OpLockSlow exR2 3, OpLockFast exR1 4 MODE_X, OpLockSlow exR1 4])"

definition deadlockWaits :: "LockerId \<Rightarrow> ResourceId" where
  "deadlockWaits lid = (if lid = 1 then exR2 else if lid = 2 then exR1 else 0)"

section \<open>The wait-for graph\<close>

text \<open>The pending request of a locker on the resource it waits for.\<close>

definition pendingOf :: "LockManager \<Rightarrow> (LockerId \<Rightarrow> ResourceId) \<Rightarrow> LockerId \<Rightarrow> (LockHead \<times> ReqPtr) option" where
  "pendingOf st wr lid =
     (case headOf st (wr lid) of
        None \<Rightarrow> None
      | Some h \<Rightarrow> (case findRequest lid (requests st) h of
          None \<Rightarrow> None
        | Some r \<Rightarrow> if status (requests st r) = STATUS_GRANTED then None else Some (h, r)))"

text \<open>\<open>waitsFor\<close> reads: the first locker has a pending request that the second, itself waiting, blocks.\<close>

definition blocks :: "request_heap \<Rightarrow> LockHead \<Rightarrow> ReqPtr \<Rightarrow> ReqPtr \<Rightarrow> bool" where
  "blocks hp h r s \<longleftrightarrow>
     s \<in> set (grantedList h) \<and> s \<noteq> r \<and>
       (if status (hp r) = STATUS_WAITING
        then \<not> compatible (mode (hp r)) (mode (hp s)) \<or> \<not> compatible (mode (hp r)) (convertMode (hp s))
        else \<not> compatible (convertMode (hp r)) (mode (hp s)) \<or>
             s \<in> set (takeWhile (\<lambda>x. x \<noteq> r) (grantedList h)) \<and> \<not> compatible (convertMode (hp r)) (convertMode (hp s)))
     \<or> status (hp r) = STATUS_WAITING \<and> s \<in> set (takeWhile (\<lambda>x. x \<noteq> r) (conflictList h)) \<and>
       \<not> compatible (mode (hp r)) (mode (hp s))"

definition waitsFor :: "LockManager \<Rightarrow> (LockerId \<Rightarrow> ResourceId) \<Rightarrow> (LockerId \<times> LockerId) set" where
  "waitsFor st wr = {(l, l'). \<exists>h r s. pendingOf st wr l = Some (h, r) \<and> blocks (requests st) h r s \<and>
     l' = lockerId (requests st s) \<and> isValidResource (wr l')}"


lemma getBucket_code [code]: "getBucket resId = unat (take_bit 7 resId)"
  unfolding unsigned_take_bit_eq by (simp add: getBucket_def numLockBuckets_def take_bit_eq_mod)

section \<open>One node\<close>

lemma set_waitingOwner:
  "set (waitingOwner hp wr it) = {l. l = lockerId (hp it) \<and> isValidResource (wr l)}"
  by (auto simp: waitingOwner_def Let_def)

lemma scanGranted_ok:
  assumes "status (hp r) = STATUS_WAITING \<or> status (hp r) = STATUS_CONVERTING" and "distinct xs"
  shows "\<exists>ls. scanGranted hp wr r xs seen = Some ls \<and>
    set ls = {l. isValidResource (wr l) \<and> (\<exists>s \<in> set xs. s \<noteq> r \<and> l = lockerId (hp s) \<and>
      (if status (hp r) = STATUS_WAITING
       then \<not> compatible (mode (hp r)) (mode (hp s)) \<or> \<not> compatible (mode (hp r)) (convertMode (hp s))
       else \<not> compatible (convertMode (hp r)) (mode (hp s)) \<or>
         (seen \<or> s \<in> set (dropWhile (\<lambda>x. x \<noteq> r) xs)) \<and> \<not> compatible (convertMode (hp r)) (convertMode (hp s))))}"
  using assms(2)
proof (induction xs arbitrary: seen)
  case (Cons it rest)
  show ?case
  proof (cases "it = r")
    case True
    then show ?thesis using Cons.IH [of True] Cons.prems by auto
  next
    case False
    from Cons obtain more where more: "scanGranted hp wr r rest seen = Some more"
      and set: "set more = {l. isValidResource (wr l) \<and> (\<exists>s \<in> set rest. s \<noteq> r \<and> l = lockerId (hp s) \<and>
      (if status (hp r) = STATUS_WAITING
       then \<not> compatible (mode (hp r)) (mode (hp s)) \<or> \<not> compatible (mode (hp r)) (convertMode (hp s))
       else \<not> compatible (convertMode (hp r)) (mode (hp s)) \<or>
         (seen \<or> s \<in> set (dropWhile (\<lambda>x. x \<noteq> r) rest)) \<and> \<not> compatible (convertMode (hp r)) (convertMode (hp s))))}"
      by force
    have "it \<notin> set (dropWhile (\<lambda>x. x \<noteq> r) rest)" using Cons.prems by (auto dest: set_dropWhileD)
    with assms(1) show ?thesis
      using False more by (auto simp: set set_waitingOwner Let_def)
  qed
qed simp

lemma scanConflict_ok:
  assumes "r \<notin> set xs"
  shows "\<exists>ls. scanConflict hp wr r xs = Some ls \<and>
    set ls = {l. isValidResource (wr l) \<and> (\<exists>s \<in> set xs. l = lockerId (hp s) \<and> \<not> compatible (mode (hp r)) (mode (hp s)))}"
  using assms by (induction xs) (force simp: set_waitingOwner Let_def)+

lemma dropWhile_rev_set:
  assumes "distinct xs" "r \<in> set xs"
  shows "set (dropWhile (\<lambda>x. x \<noteq> r) (rev xs)) = insert r (set (takeWhile (\<lambda>x. x \<noteq> r) xs))"
proof -
  obtain us vs where xs: "xs = us @ r # vs" using assms(2) by (meson split_list)
  with assms(1) have "r \<notin> set us" "r \<notin> set vs" by auto
  then have "takeWhile (\<lambda>x. x \<noteq> r) xs = us" "dropWhile (\<lambda>x. x \<noteq> r) (rev xs) = r # rev us"
    unfolding xs by (auto simp: takeWhile_append dropWhile_append)
  then show ?thesis by simp
qed

lemma edgesOf_ok:
  assumes ok: "head_ok (requests st) h" and r: "r \<in> members h" "status (requests st r) \<noteq> STATUS_GRANTED"
  shows "\<exists>ls. edgesOf st wr h r = Some ls \<and>
    set ls = {l. isValidResource (wr l) \<and> (\<exists>s. blocks (requests st) h r s \<and> l = lockerId (requests st s))}"
proof -
  let ?hp = "requests st"
  have d: "distinct (grantedList h)" "distinct (conflictList h)" using ok by (auto simp: head_ok_def)
  have cases: "status (?hp r) = STATUS_WAITING \<or> status (?hp r) = STATUS_CONVERTING \<and> r \<in> set (grantedList h)"
    using ok r by (auto simp: head_ok_def granted_ok_def waiting_ok_def)
  have "r \<notin> set (rev (takeWhile (\<lambda>x. x \<noteq> r) (conflictList h)))" by (auto dest: set_takeWhileD)
  from scanGranted_ok [of ?hp r "rev (grantedList h)" wr False] scanConflict_ok [OF this, of ?hp wr] cases d
  obtain gs cs where g: "scanGranted ?hp wr r (rev (grantedList h)) False = Some gs"
    "set gs = {l. isValidResource (wr l) \<and> (\<exists>s \<in> set (grantedList h). s \<noteq> r \<and> l = lockerId (?hp s) \<and>
      (if status (?hp r) = STATUS_WAITING
       then \<not> compatible (mode (?hp r)) (mode (?hp s)) \<or> \<not> compatible (mode (?hp r)) (convertMode (?hp s))
       else \<not> compatible (convertMode (?hp r)) (mode (?hp s)) \<or>
         s \<in> set (dropWhile (\<lambda>x. x \<noteq> r) (rev (grantedList h))) \<and> \<not> compatible (convertMode (?hp r)) (convertMode (?hp s))))}"
    and c: "scanConflict ?hp wr r (rev (takeWhile (\<lambda>x. x \<noteq> r) (conflictList h))) = Some cs"
    "set cs = {l. isValidResource (wr l) \<and> (\<exists>s \<in> set (takeWhile (\<lambda>x. x \<noteq> r) (conflictList h)).
      l = lockerId (?hp s) \<and> \<not> compatible (mode (?hp r)) (mode (?hp s)))}"
    by auto
  show ?thesis
  proof (cases "status (?hp r) = STATUS_WAITING")
    case True
    with g c show ?thesis by (auto simp: edgesOf_def Let_def blocks_def)
  next
    case False
    with cases have "r \<in> set (grantedList h)" by simp
    from dropWhile_rev_set [OF d(1) this] False g show ?thesis
      by (auto simp: edgesOf_def Let_def blocks_def)
  qed
qed


lemma findRequest_member:
  assumes "findRequest lid hp h = Some r"
  shows "r \<in> members h" "lockerId (hp r) = lid"
  using assms by (auto simp: findRequest_def find_Some_iff in_set_conv_nth split: option.splits)

lemma pendingOf_member:
  assumes "pendingOf st wr l = Some (h, r)"
  shows "headOf st (wr l) = Some h" "r \<in> members h" "lockerId (requests st r) = l"
    "status (requests st r) \<noteq> STATUS_GRANTED"
  using assms findRequest_member by (auto simp: pendingOf_def split: option.splits if_splits)

lemma process_none: "pendingOf st wr l = None \<Longrightarrow> processNextNode st wr (l, wr l) d = Some d"
  by (auto simp: pendingOf_def processNextNode_def split: option.splits if_splits)

lemma process_seen:
  "pendingOf st wr l = Some (h, r) \<Longrightarrow> l \<in> fst ` set (graph d) \<Longrightarrow>
   processNextNode st wr (l, wr l) d = Some (d\<lparr>foundCycle := (foundCycle d \<or> l = initialLockerId d)\<rparr>)"
  by (cases d) (auto simp: pendingOf_def processNextNode_def split: option.splits if_splits)

lemma process_new:
  assumes ok: "lm_ok st" and p: "pendingOf st wr l = Some (h, r)" and n: "l \<notin> fst ` set (graph d)"
  shows "\<exists>owners. processNextNode st wr (l, wr l) d =
      Some (d\<lparr>graph := (l, wr l, owners) # graph d,
              unprocessed := rev (map (\<lambda>l. (l, wr l)) owners) @ unprocessed d\<rparr>) \<and>
    set owners = waitsFor st wr `` {l}"
proof -
  note m = pendingOf_member [OF p]
  from edgesOf_ok [OF headInvD(3) [OF ok m(1)] m(2,4), of wr] obtain ls where ls:
    "edgesOf st wr h r = Some ls"
    "set ls = {l. isValidResource (wr l) \<and> (\<exists>s. blocks (requests st) h r s \<and> l = lockerId (requests st s))}"
    by blast
  moreover have "findRequest l (requests st) h = Some r"
    using p m(1) by (auto simp: pendingOf_def split: option.splits if_splits)
  ultimately show ?thesis
    using m(1,4) n p by (intro exI [of _ ls]) (auto simp: processNextNode_def waitsFor_def)
qed

lemma waitsFor_pending: "(l, l') \<in> waitsFor st wr \<Longrightarrow> pendingOf st wr l \<noteq> None"
  by (auto simp: waitsFor_def)

lemma finite_pending: "finite {l. pendingOf st wr l \<noteq> None}"
proof -
  let ?heads = "snd ` (\<Union>b < numLockBuckets. set (lockBuckets st b))"
  let ?F = "\<Union>h \<in> ?heads. (\<lambda>r. lockerId (requests st r)) ` members h"
  have "{l. pendingOf st wr l \<noteq> None} \<subseteq> ?F"
  proof
    fix l assume "l \<in> {l. pendingOf st wr l \<noteq> None}"
    then obtain h r where p: "pendingOf st wr l = Some (h, r)" by auto
    note m = pendingOf_member [OF p]
    have "(wr l, h) \<in> set (lockBuckets st (getBucket (wr l)))"
      using m(1) unfolding headOf_def by (rule map_of_SomeD)
    moreover have "getBucket (wr l) < numLockBuckets" by (simp add: getBucket_def numLockBuckets_def)
    ultimately have "h \<in> ?heads" by force
    with m(2,3) show "l \<in> ?F" by blast
  qed
  moreover have "finite ?F" by blast
  ultimately show ?thesis by (rule finite_subset)
qed

section \<open>The search\<close>

text \<open>
  The invariant of the search: \<open>V\<close> is the set of lockers in the graph, \<open>ws\<close> the queue, \<open>f\<close> the flag.
\<close>

definition search_inv :: "('a \<times> 'a) set \<Rightarrow> 'a \<Rightarrow> 'a set \<Rightarrow> 'a list \<Rightarrow> bool \<Rightarrow> bool" where
  "search_inv E l0 V ws f \<longleftrightarrow>
      V \<subseteq> E\<^sup>* `` {l0} \<and> set ws \<subseteq> E\<^sup>* `` {l0} \<and> (V = {} \<longrightarrow> ws = [] \<or> ws = [l0]) \<and>
      (V \<noteq> {} \<longrightarrow> l0 \<in> V \<and> set ws \<subseteq> E\<^sup>+ `` {l0}) \<and>
      (l0 \<in> V \<or> l0 \<in> set ws \<or> E `` {l0} = {}) \<and>
      (\<forall>v \<in> V. \<forall>w \<in> E `` {v}. w \<in> V \<or> w \<in> set ws \<or> E `` {w} = {}) \<and>
      (f \<longrightarrow> (l0, l0) \<in> E\<^sup>+) \<and> ((\<exists>v \<in> V. (v, l0) \<in> E) \<longrightarrow> f \<or> l0 \<in> set ws)"

lemma search_invD:
  assumes "search_inv E l0 V ws f"
  shows "V \<subseteq> E\<^sup>* `` {l0}" "set ws \<subseteq> E\<^sup>* `` {l0}" "V = {} \<Longrightarrow> ws = [] \<or> ws = [l0]"
    "V \<noteq> {} \<Longrightarrow> l0 \<in> V \<and> set ws \<subseteq> E\<^sup>+ `` {l0}" "l0 \<in> V \<or> l0 \<in> set ws \<or> E `` {l0} = {}"
    "\<forall>v \<in> V. \<forall>w \<in> E `` {v}. w \<in> V \<or> w \<in> set ws \<or> E `` {w} = {}"
    "f \<Longrightarrow> (l0, l0) \<in> E\<^sup>+" "(\<exists>v \<in> V. (v, l0) \<in> E) \<Longrightarrow> f \<or> l0 \<in> set ws"
  using assms unfolding search_inv_def by blast+

lemma search_inv_skip:
  assumes inv: "search_inv E l0 V (l # ws) f" and e: "E `` {l} = {}"
  shows "search_inv E l0 V ws f"
proof -
  note i = search_invD [OF inv]
  have last: "f \<or> l0 \<in> set ws" if v: "v \<in> V" "(v, l0) \<in> E" for v
  proof (cases "l = l0")
    case True
    have "v \<in> E\<^sup>* `` {l0}" using i(1) v(1) by blast
    then have "v = l0" using e True by (auto elim: converse_rtranclE)
    with v(2) e True show ?thesis by blast
  next
    case False
    with i(8) v show ?thesis by auto
  qed
  have w: "\<forall>v \<in> V. \<forall>w \<in> E `` {v}. w \<in> V \<or> w \<in> set ws \<or> E `` {w} = {}"
    "l0 \<in> V \<or> l0 \<in> set ws \<or> E `` {l0} = {}"
    using i(5,6) e by (metis set_ConsD)+
  show ?thesis
    unfolding search_inv_def using i(1,2,7) w last i(3,4) by auto
qed

lemma search_inv_seen:
  assumes inv: "search_inv E l0 V (l # ws) f" and l: "l \<in> V"
  shows "search_inv E l0 V ws (f \<or> l = l0)"
proof -
  note i = search_invD [OF inv]
  have w: "\<forall>v \<in> V. \<forall>w \<in> E `` {v}. w \<in> V \<or> w \<in> set ws \<or> E `` {w} = {}"
    using i(6) l by (metis set_ConsD)
  have "V \<noteq> {}" using l by blast
  from i(4) [OF this] have v: "l0 \<in> V" "set (l # ws) \<subseteq> E\<^sup>+ `` {l0}" by auto
  show ?thesis
    unfolding search_inv_def using i(1,2,7,8) w v l by auto
qed

lemma search_inv_new:
  assumes inv: "search_inv E l0 V (l # ws) f" and l: "l \<notin> V" and new: "set new = E `` {l}"
  shows "search_inv E l0 (insert l V) (new @ ws) f"
proof -
  note i = search_invD [OF inv]
  have r: "l \<in> E\<^sup>* `` {l0}" and e: "V = {} \<Longrightarrow> l = l0 \<and> ws = []"
    and ne: "V \<noteq> {} \<Longrightarrow> l0 \<in> V \<and> set ws \<subseteq> E\<^sup>+ `` {l0}"
    using i(2-4) by auto
  have "set new \<subseteq> E\<^sup>+ `` {l0}" using r new by (auto intro: rtrancl_into_trancl1)
  moreover from this have "set new \<subseteq> E\<^sup>* `` {l0}" by (auto dest: trancl_into_rtrancl)
  moreover have "\<forall>v \<in> insert l V. \<forall>w \<in> E `` {v}. w \<in> insert l V \<or> w \<in> set (new @ ws) \<or> E `` {w} = {}"
    using i(6) new by auto
  moreover have "f \<or> l0 \<in> set (new @ ws)" if v: "v \<in> insert l V" "(v, l0) \<in> E" for v
  proof (cases "v = l")
    case False
    with v have "V \<noteq> {}" "\<exists>v \<in> V. (v, l0) \<in> E" by auto
    then show ?thesis using i(8) ne l by auto
  qed (use v new in auto)
  moreover have "l0 \<in> insert l V \<and> set ws \<subseteq> E\<^sup>+ `` {l0}" using e ne by (cases "V = {}") auto
  ultimately show ?thesis
    using i(1,2,7) r unfolding search_inv_def by auto
qed

lemma search_inv_done:
  assumes inv: "search_inv E l0 V [] f"
  shows "f \<longleftrightarrow> (l0, l0) \<in> E\<^sup>+"
proof
  assume c: "(l0, l0) \<in> E\<^sup>+"
  then have "E `` {l0} \<noteq> {}" by (auto elim: converse_tranclE)
  then have l0: "l0 \<in> V" using search_invD(5) [OF inv] by simp
  have closed: "w \<in> V" if "(l0, w) \<in> E\<^sup>*" "(w, l0) \<in> E\<^sup>+" for w
    using that
  proof (induction rule: rtrancl_induct)
    case base
    show ?case by (rule l0)
  next
    case (step y z)
    then have "y \<in> V" by (meson trancl_into_trancl2)
    moreover have "E `` {z} \<noteq> {}" using step.prems by (auto elim: converse_tranclE)
    ultimately show ?case using search_invD(6) [OF inv] step.hyps(2) by auto
  qed
  obtain v where v: "(l0, v) \<in> E\<^sup>*" "(v, l0) \<in> E" using c by (meson tranclD2)
  then have "v \<in> V" using closed by blast
  with v(2) search_invD(8) [OF inv] show f by auto
qed (use inv in \<open>simp add: search_inv_def\<close>)

definition detector_inv :: "LockManager \<Rightarrow> (LockerId \<Rightarrow> ResourceId) \<Rightarrow> Detector \<Rightarrow> bool" where
  "detector_inv st wr d \<longleftrightarrow> (\<forall>n \<in> set (unprocessed d). snd n = wr (fst n)) \<and>
     search_inv (waitsFor st wr) (initialLockerId d) (fst ` set (graph d)) (map fst (unprocessed d)) (foundCycle d)"

lemma search_step:
  assumes ok: "lm_ok st" and inv: "detector_inv st wr d" and q: "unprocessed d = n # rest"
  shows "\<exists>d'. processNextNode st wr n (d\<lparr>unprocessed := rest\<rparr>) = Some d' \<and> detector_inv st wr d' \<and>
    initialLockerId d' = initialLockerId d \<and>
    (d', d) \<in> measures [\<lambda>d. card ({l. pendingOf st wr l \<noteq> None} - fst ` set (graph d)), \<lambda>d. length (unprocessed d)]"
proof -
  let ?E = "waitsFor st wr" and ?init = "initialLockerId d" and ?l = "fst n" and ?d = "d\<lparr>unprocessed := rest\<rparr>"
  have n: "n = (?l, wr ?l)" and wrs: "\<forall>n \<in> set rest. snd n = wr (fst n)"
    using inv q by (auto simp: detector_inv_def prod_eq_iff)
  have si: "search_inv ?E ?init (fst ` set (graph d)) (?l # map fst rest) (foundCycle d)"
    using inv q unfolding detector_inv_def by simp
  show ?thesis
  proof (cases "pendingOf st wr ?l")
    case None
    then have "processNextNode st wr n ?d = Some ?d" using process_none n by metis
    moreover have "?E `` {?l} = {}" using None waitsFor_pending by fastforce
    then have "detector_inv st wr ?d" using search_inv_skip [OF si] wrs by (simp add: detector_inv_def)
    ultimately show ?thesis using q by auto
  next
    case (Some p)
    then obtain h r where p: "pendingOf st wr ?l = Some (h, r)" by (cases p) auto
    show ?thesis
    proof (cases "?l \<in> fst ` set (graph d)")
      case True
      let ?d' = "?d\<lparr>foundCycle := (foundCycle d \<or> ?l = ?init)\<rparr>"
      have "processNextNode st wr n ?d = Some ?d'"
        using process_seen [OF p, of ?d] True n by simp
      moreover have "detector_inv st wr ?d'"
        using search_inv_seen [OF si True] wrs by (simp add: detector_inv_def)
      ultimately show ?thesis using q by auto
    next
      case False
      from process_new [OF ok p, of ?d] False obtain owners where o:
        "processNextNode st wr (?l, wr ?l) ?d =
          Some (?d\<lparr>graph := (?l, wr ?l, owners) # graph ?d,
              unprocessed := rev (map (\<lambda>l. (l, wr l)) owners) @ unprocessed ?d\<rparr>)"
        "set owners = ?E `` {?l}" by auto
      let ?d' = "?d\<lparr>graph := (?l, wr ?l, owners) # graph ?d,
              unprocessed := rev (map (\<lambda>l. (l, wr l)) owners) @ unprocessed ?d\<rparr>"
      have "detector_inv st wr ?d'"
        using search_inv_new [OF si False, of "rev owners"] o(2) wrs
        by (auto simp: detector_inv_def comp_def simp flip: rev_map)
      moreover have "card ({l. pendingOf st wr l \<noteq> None} - fst ` set (graph ?d')) <
          card ({l. pendingOf st wr l \<noteq> None} - fst ` set (graph d))"
        using False p finite_pending [of st wr] by (intro psubset_card_mono) auto
      ultimately show ?thesis using o(1) n by (intro exI [of _ ?d']) simp
    qed
  qed
qed

lemma detector_check_ok:
  assumes "lm_ok st" and "detector_inv st wr d"
  shows "\<exists>d'. detector_check st wr d = Some d' \<and> detector_inv st wr d' \<and> unprocessed d' = [] \<and>
    initialLockerId d' = initialLockerId d"
  using assms(2)
proof (induction d rule: wf_induct_rule [OF wf_measures, of
    "[\<lambda>d. card ({l. pendingOf st wr l \<noteq> None} - fst ` set (graph d)), \<lambda>d. length (unprocessed d)]"])
  case (1 d)
  show ?case
  proof (cases "unprocessed d")
    case Nil
    then show ?thesis using "1.prems" by (subst detector_check.simps) (simp add: detector_next_def)
  next
    case (Cons n rest)
    from search_step [OF assms(1) "1.prems" Cons] obtain d1 where d1:
      "processNextNode st wr n (d\<lparr>unprocessed := rest\<rparr>) = Some d1" "detector_inv st wr d1"
      "initialLockerId d1 = initialLockerId d"
      "(d1, d) \<in> measures [\<lambda>d. card ({l. pendingOf st wr l \<noteq> None} - fst ` set (graph d)), \<lambda>d. length (unprocessed d)]"
      by blast
    have run: "detector_check st wr d = (if unprocessed d1 \<noteq> [] then detector_check st wr d1 else Some d1)"
      by (subst detector_check.simps) (simp add: detector_next_def Cons d1(1))
    from "1.IH" [OF d1(4,2)] d1(2,3) run show ?thesis by (cases "unprocessed d1 = []") auto
  qed
qed

text \<open>C9: the deadlock detector on a reachable state of the lock manager.  For any answer of the lockers'
  \<open>getWaitingResource\<close>, the search that starts at a locker ends without firing a check, and it
  reports a cycle exactly if that locker waits for itself through a chain of lockers in which
  each has a pending request blocked by the next: by a granted or a pending conversion mode, or
  by a conflicting request ahead in the queue.\<close>

theorem deadlock_detector_exact:
  assumes "reachable st" and "isValidResource (wr lid)"
  shows "findsDeadlock st wr lid = Some ((lid, lid) \<in> (waitsFor st wr)\<^sup>+)"
proof -
  have ok: "lm_ok st" using assms(1) by (rule reachable_ok)
  have "detector_inv st wr (DeadlockDetector_new wr lid)"
    using assms(2) by (simp add: detector_inv_def DeadlockDetector_new_def search_inv_def)
  from detector_check_ok [OF ok this] obtain d where d:
    "detector_check st wr (DeadlockDetector_new wr lid) = Some d" "detector_inv st wr d" "unprocessed d = []"
    "initialLockerId d = lid" by (auto simp: DeadlockDetector_new_def)
  from d(2-4) have "foundCycle d \<longleftrightarrow> (lid, lid) \<in> (waitsFor st wr)\<^sup>+"
    using search_inv_done by (fastforce simp: detector_inv_def)
  with d show ?thesis by (simp add: findsDeadlock_def hasCycle_def)
qed


lemma deadlockState_reachable: "reachable deadlockState"
  unfolding deadlockState_def by (rule reachable_example) code_simp

theorem deadlock_detector_exact_witness:
  "findsDeadlock deadlockState deadlockWaits 1 = Some True \<and>
   (1, 1) \<in> (waitsFor deadlockState deadlockWaits)\<^sup>+"
proof -
  have "isValidResource (deadlockWaits 1)" by code_simp
  then have "findsDeadlock deadlockState deadlockWaits 1 =
      Some ((1, 1) \<in> (waitsFor deadlockState deadlockWaits)\<^sup>+)"
    by (rule deadlock_detector_exact [OF deadlockState_reachable])
  moreover have "findsDeadlock deadlockState deadlockWaits 1 = Some True" by code_simp
  ultimately show ?thesis by simp
qed

end
