(* ===== verification/Query_Coalescer.thy ===== *)
theory Query_Coalescer
  imports Prelude
begin

text \<open>
  The config server's query coalescer, \<^verbatim>\<open>src/mongo/db/s/config/config_query_coalescer.cpp\<close>:
  concurrent requests for one namespace join the group of the first (its leader), whose single
  query answers all of them.

  The state is the object's (groups, shared waiter states, statistics) plus the program point of
  every calling thread; a step is one critical section of \<open>tryCoalesce\<close> or \<open>shutdown\<close>, or the end
  of a query, which runs without the lock and may throw.  The query callback of a thread is not
  modelled: its result is an argument of the step that ends the query.  Waiting times are
  arguments too: a follower may find its deadline passed at any time.
\<close>

section \<open>Definitions\<close>

datatype CoalescerError = ShutdownInProgress | ExceededTimeLimit | QueryFailed nat

type_synonym 'd query_result = "CoalescerError + 'd list"
type_synonym thread = nat

record 'd WaiterState =
  w_result :: "'d list option"
  w_status :: "CoalescerError option"
  w_done :: bool

definition WaiterState_new :: "'d WaiterState" where
  "WaiterState_new = \<lparr>w_result = None, w_status = None, w_done = False\<rparr>"

record CoalescingGroup =
  generation :: nat
  minVersion :: "64 word"
  maxVersion :: "64 word"
  queryInProgress :: bool
  queryCompleted :: bool
  waiters :: "(thread \<times> 64 word) list"

record CoalescerStats =
  totalRequests :: nat
  actualQueries :: nat
  coalescedRequests :: nat
  timeoutRequests :: nat
  overflowRequests :: nat
  versionGapSkippedRequests :: nat
  activeGroups :: nat

definition Stats_new :: CoalescerStats where
  "Stats_new = \<lparr>totalRequests = 0, actualQueries = 0, coalescedRequests = 0, timeoutRequests = 0,
     overflowRequests = 0, versionGapSkippedRequests = 0, activeGroups = 0\<rparr>"

record CoalescerConfig =
  maxWaitersPerGroup :: nat
  maxVersionGap :: "64 word"

definition Config_default :: CoalescerConfig where
  "Config_default = \<lparr>maxWaitersPerGroup = 1000, maxVersionGap = 500\<rparr>"

text \<open>
  Where a call to \<open>tryCoalesce\<close> is, with the locals it still needs.  \<open>published\<close> is a history variable
  the code does not have: generation, namespace, leader and result of every query whose result was
  distributed.
\<close>

datatype 'd call =
    NotCalled
  | Entered string "64 word"
  | Leading string nat
  | Independent string
  | Waiting string nat
  | Promoted string nat
  | Threw string nat
  | ThrewAlone
  | ReturnedLeader nat "'d query_result"
  | ReturnedFollower nat "'d query_result"
  | Returned "'d query_result"

record 'd Coalescer =
  cfg :: CoalescerConfig
  groups :: "(string \<times> CoalescingGroup) list"
  nextGeneration :: nat
  stats :: CoalescerStats
  is_shutdown :: bool
  waiterStates :: "thread \<Rightarrow> 'd WaiterState"
  calls :: "thread \<Rightarrow> 'd call"
  published :: "(nat \<times> string \<times> thread \<times> 'd query_result) list"

definition ConfigQueryCoalescer_new :: "CoalescerConfig \<Rightarrow> 'd Coalescer" where
  "ConfigQueryCoalescer_new c =
     \<lparr>cfg = c, groups = [], nextGeneration = 0, stats = Stats_new, is_shutdown = False,
      waiterStates = (\<lambda>_. WaiterState_new), calls = (\<lambda>_. NotCalled), published = []\<rparr>"

definition setCall :: "thread \<Rightarrow> 'd call \<Rightarrow> 'd Coalescer \<Rightarrow> 'd Coalescer" where
  "setCall t c s = s\<lparr>calls := (calls s)(t := c)\<rparr>"

definition updStats :: "(CoalescerStats \<Rightarrow> CoalescerStats) \<Rightarrow> 'd Coalescer \<Rightarrow> 'd Coalescer" where
  "updStats f s = s\<lparr>stats := f (stats s)\<rparr>"

text \<open>The entry: the unlocked shutdown check, the request counter, the fresh waiter state.\<close>

definition enterCoalesce :: "thread \<Rightarrow> string \<Rightarrow> 64 word \<Rightarrow> 'd Coalescer \<Rightarrow> 'd Coalescer" where
  "enterCoalesce t ns requestVersion s =
     (if is_shutdown s then setCall t (Returned (Inl ShutdownInProgress)) s
      else setCall t (Entered ns requestVersion)
        (updStats (\<lambda>x. x\<lparr>totalRequests := Suc (totalRequests x)\<rparr>)
          (s\<lparr>waiterStates := (waiterStates s)(t := WaiterState_new)\<rparr>)))"

text \<open>The first critical section: lead a new group, run alone, or join.\<close>

definition joinOrLead :: "thread \<Rightarrow> string \<Rightarrow> 64 word \<Rightarrow> 'd Coalescer \<Rightarrow> 'd Coalescer" where
  "joinOrLead t ns requestVersion s =
     (case map_of (groups s) ns of
        None \<Rightarrow>
          let gen = Suc (nextGeneration s);
              g = \<lparr>generation = gen, minVersion = requestVersion, maxVersion = requestVersion,
                   queryInProgress = True, queryCompleted = False, waiters = [(t, requestVersion)]\<rparr>;
              s1 = s\<lparr>nextGeneration := gen, groups := AList.update ns g (groups s)\<rparr>
          in setCall t (Leading ns gen) (updStats (\<lambda>x. x\<lparr>activeGroups := length (groups s1)\<rparr>) s1)
      | Some g \<Rightarrow>
          let newMinVersion = min (minVersion g) requestVersion;
              newMaxVersion = max (maxVersion g) requestVersion
          in if newMaxVersion - newMinVersion > maxVersionGap (cfg s) then
               setCall t (Independent ns)
                 (updStats (\<lambda>x. x\<lparr>versionGapSkippedRequests := Suc (versionGapSkippedRequests x),
                                 actualQueries := Suc (actualQueries x)\<rparr>) s)
             else if length (waiters g) \<ge> maxWaitersPerGroup (cfg s) then
               setCall t (Independent ns)
                 (updStats (\<lambda>x. x\<lparr>overflowRequests := Suc (overflowRequests x),
                                 actualQueries := Suc (actualQueries x)\<rparr>) s)
             else
               setCall t (Waiting ns (generation g))
                 (updStats (\<lambda>x. x\<lparr>coalescedRequests := Suc (coalescedRequests x)\<rparr>)
                   (s\<lparr>groups := AList.update ns (g\<lparr>waiters := waiters g @ [(t, requestVersion)]\<rparr>) (groups s)\<rparr>)))"

text \<open>Distribution of a query result to the waiters of a group.\<close>

definition deliver :: "'d query_result \<Rightarrow> 'd WaiterState" where
  "deliver r = (case r of
      Inr docs \<Rightarrow> \<lparr>w_result = Some docs, w_status = None, w_done = True\<rparr>
    | Inl e \<Rightarrow> \<lparr>w_result = None, w_status = Some e, w_done = True\<rparr>)"

definition distribute :: "CoalescingGroup \<Rightarrow> 'd query_result \<Rightarrow> 'd Coalescer \<Rightarrow> 'd Coalescer" where
  "distribute g r s =
     s\<lparr>waiterStates := (\<lambda>t. if t \<in> fst ` set (waiters g) then deliver r else waiterStates s t)\<rparr>"

definition readState :: "'d WaiterState \<Rightarrow> 'd query_result" where
  "readState w = (case w_status w of
      Some e \<Rightarrow> Inl e
    | None \<Rightarrow> (case w_result w of Some docs \<Rightarrow> Inr docs | None \<Rightarrow> Inr []))"

text \<open>The second critical section of a leader or promoted follower, after its query returned \<open>r\<close>.\<close>

definition publish :: "thread \<Rightarrow> string \<Rightarrow> nat \<Rightarrow> 'd query_result \<Rightarrow> 'd Coalescer \<Rightarrow> 'd Coalescer" where
  "publish t ns myGeneration r s =
     (case map_of (groups s) ns of
        None \<Rightarrow> s
      | Some g \<Rightarrow>
          if generation g = myGeneration then
            let s1 = (distribute g r s)\<lparr>groups := AList.delete ns (groups s),
                                        published := (myGeneration, ns, t, r) # published s\<rparr>
            in updStats (\<lambda>x. x\<lparr>actualQueries := Suc (actualQueries x), activeGroups := length (groups s1)\<rparr>) s1
          else s)"

definition leaderFinish :: "thread \<Rightarrow> string \<Rightarrow> nat \<Rightarrow> 'd query_result \<Rightarrow> 'd Coalescer \<Rightarrow> 'd Coalescer" where
  "leaderFinish t ns myGeneration r s =
     (if is_shutdown s then setCall t (Returned (Inl ShutdownInProgress)) s
      else let s1 = publish t ns myGeneration r s
           in setCall t (ReturnedLeader myGeneration (readState (waiterStates s1 t))) s1)"

text \<open>
  A promoted follower returns \<open>queryResult\<close> itself, whose documents have been moved out by then if
  the group was still there.
\<close>

definition movedFrom :: "string \<Rightarrow> nat \<Rightarrow> 'd query_result \<Rightarrow> 'd Coalescer \<Rightarrow> 'd query_result" where
  "movedFrom ns myGeneration r s =
     (case map_of (groups s) ns of
        None \<Rightarrow> r
      | Some g \<Rightarrow> (case r of Inr docs \<Rightarrow> if generation g = myGeneration then Inr [] else r | Inl e \<Rightarrow> r))"

definition promotedFinish :: "thread \<Rightarrow> string \<Rightarrow> nat \<Rightarrow> 'd query_result \<Rightarrow> 'd Coalescer \<Rightarrow> 'd Coalescer" where
  "promotedFinish t ns myGeneration r s =
     (if is_shutdown s then setCall t (Returned (Inl ShutdownInProgress)) s
      else setCall t (Returned (movedFrom ns myGeneration r s)) (publish t ns myGeneration r s))"

definition removeWaiter :: "thread \<Rightarrow> string \<Rightarrow> nat \<Rightarrow> 'd Coalescer \<Rightarrow> 'd Coalescer" where
  "removeWaiter t ns gen s =
     (case map_of (groups s) ns of
        Some g \<Rightarrow> if generation g = gen
                  then s\<lparr>groups := AList.update ns
                         (g\<lparr>waiters := filter (\<lambda>w. fst w \<noteq> t) (waiters g)\<rparr>) (groups s)\<rparr>
                  else s
      | None \<Rightarrow> s)"

text \<open>The waiting loop of a follower: total timeout, wake-up, promotion.\<close>

definition followerTimeout :: "thread \<Rightarrow> string \<Rightarrow> nat \<Rightarrow> 'd Coalescer \<Rightarrow> 'd Coalescer" where
  "followerTimeout t ns gen s =
     setCall t (Returned (Inl ExceededTimeLimit))
       (updStats (\<lambda>x. x\<lparr>timeoutRequests := Suc (timeoutRequests x)\<rparr>) (removeWaiter t ns gen s))"

definition followerWake :: "thread \<Rightarrow> nat \<Rightarrow> 'd Coalescer \<Rightarrow> 'd Coalescer" where
  "followerWake t gen s =
     (if is_shutdown s then setCall t (Returned (Inl ShutdownInProgress)) s
      else setCall t (ReturnedFollower gen (readState (waiterStates s t))) s)"

definition canPromote :: "string \<Rightarrow> nat \<Rightarrow> 'd Coalescer \<Rightarrow> bool" where
  "canPromote ns gen s =
     (case map_of (groups s) ns of
        None \<Rightarrow> False
      | Some g \<Rightarrow> generation g = gen \<and> \<not> queryInProgress g \<and> \<not> queryCompleted g)"

definition followerPromote :: "thread \<Rightarrow> string \<Rightarrow> nat \<Rightarrow> 'd Coalescer \<Rightarrow> 'd Coalescer" where
  "followerPromote t ns gen s =
     (case map_of (groups s) ns of
        None \<Rightarrow> s
      | Some g \<Rightarrow> setCall t (Promoted ns gen) (removeWaiter t ns gen
          (s\<lparr>groups := AList.update ns (g\<lparr>queryInProgress := True\<rparr>) (groups s)\<rparr>)))"

definition shutdownCoalescer :: "'d Coalescer \<Rightarrow> 'd Coalescer" where
  "shutdownCoalescer s =
     s\<lparr>is_shutdown := True, groups := [],
       waiterStates := (\<lambda>t. if \<exists>g \<in> snd ` set (groups s). t \<in> fst ` set (waiters g)
                      then (waiterStates s t)\<lparr>w_status := Some ShutdownInProgress, w_done := True\<rparr>
                      else waiterStates s t)\<rparr>"

definition resetStats :: "'d Coalescer \<Rightarrow> 'd Coalescer" where
  "resetStats s = s\<lparr>stats := Stats_new\<rparr>"

section \<open>The system of calling threads\<close>

text \<open>
  Between the loop's test of the deadline and the test of \<open>done\<close> before it the lock is held: a
  follower times out only while its result is not there.  The shutdown flag is read once more after
  the lock is released, as a step of its own that may come late.
\<close>

datatype 'd event =
    Enter thread string "64 word"
  | Join thread
  | QueryReturns thread "'d query_result"
  | QueryThrows thread
  | Timeout thread
  | Wake thread
  | Promote thread
  | ShutdownEvent
  | ResetStats

fun event_ok :: "'d event \<Rightarrow> 'd Coalescer \<Rightarrow> bool" where
  "event_ok (Enter t ns v) s \<longleftrightarrow> calls s t = NotCalled"
| "event_ok (Join t) s \<longleftrightarrow> (case calls s t of Entered ns v \<Rightarrow> True | _ \<Rightarrow> False)"
| "event_ok (QueryReturns t r) s \<longleftrightarrow>
     (case calls s t of Leading ns gen \<Rightarrow> True | Promoted ns gen \<Rightarrow> True | Independent ns \<Rightarrow> True | _ \<Rightarrow> False)"
| "event_ok (QueryThrows t) s \<longleftrightarrow>
     (case calls s t of Leading ns gen \<Rightarrow> True | Promoted ns gen \<Rightarrow> True | Independent ns \<Rightarrow> True | _ \<Rightarrow> False)"
| "event_ok (Timeout t) s \<longleftrightarrow> (case calls s t of Waiting ns gen \<Rightarrow> \<not> w_done (waiterStates s t) | _ \<Rightarrow> False)"
| "event_ok (Wake t) s \<longleftrightarrow>
     (case calls s t of Waiting ns gen \<Rightarrow> w_done (waiterStates s t) \<or> is_shutdown s | _ \<Rightarrow> False)"
| "event_ok (Promote t) s \<longleftrightarrow>
     (case calls s t of Waiting ns gen \<Rightarrow>
        \<not> w_done (waiterStates s t) \<and> \<not> is_shutdown s \<and> canPromote ns gen s | _ \<Rightarrow> False)"
| "event_ok ShutdownEvent s \<longleftrightarrow> True"
| "event_ok ResetStats s \<longleftrightarrow> True"

fun run_event :: "'d event \<Rightarrow> 'd Coalescer \<Rightarrow> 'd Coalescer" where
  "run_event (Enter t ns v) s = enterCoalesce t ns v s"
| "run_event (Join t) s = (case calls s t of Entered ns v \<Rightarrow> joinOrLead t ns v s | _ \<Rightarrow> s)"
| "run_event (QueryReturns t r) s =
     (case calls s t of
        Leading ns gen \<Rightarrow> leaderFinish t ns gen r s
      | Promoted ns gen \<Rightarrow> promotedFinish t ns gen r s
      | Independent ns \<Rightarrow> setCall t (Returned r) s
      | _ \<Rightarrow> s)"
| "run_event (QueryThrows t) s =
     (case calls s t of
        Leading ns gen \<Rightarrow> setCall t (Threw ns gen) s
      | Promoted ns gen \<Rightarrow> setCall t (Threw ns gen) s
      | Independent ns \<Rightarrow> setCall t ThrewAlone s
      | _ \<Rightarrow> s)"
| "run_event (Timeout t) s = (case calls s t of Waiting ns gen \<Rightarrow> followerTimeout t ns gen s | _ \<Rightarrow> s)"
| "run_event (Wake t) s = (case calls s t of Waiting ns gen \<Rightarrow> followerWake t gen s | _ \<Rightarrow> s)"
| "run_event (Promote t) s = (case calls s t of Waiting ns gen \<Rightarrow> followerPromote t ns gen s | _ \<Rightarrow> s)"
| "run_event ShutdownEvent s = shutdownCoalescer s"
| "run_event ResetStats s = resetStats s"

inductive c_reachable :: "CoalescerConfig \<Rightarrow> 'd Coalescer \<Rightarrow> bool" for c where
  c_init: "c_reachable c (ConfigQueryCoalescer_new c)"
| c_step: "c_reachable c s \<Longrightarrow> event_ok e s \<Longrightarrow> c_reachable c (run_event e s)"

fun run_events :: "'d event list \<Rightarrow> 'd Coalescer \<Rightarrow> 'd Coalescer option" where
  "run_events [] s = Some s"
| "run_events (e # es) s = (if event_ok e s then run_events es (run_event e s) else None)"

text \<open>
  Example: thread 1 asks for the chunks after version 600 and leads, thread 2 joins with version 100 and
  thread 3 with version 1100.  In the second run the query of the leader throws.
\<close>

definition exampleGroup :: "nat Coalescer" where
  "exampleGroup = the (run_events
     [Enter 1 ''config.chunks'' 600, Enter 2 ''config.chunks'' 100, Enter 3 ''config.chunks'' 1100, Join 1, Join 2, Join 3]
     (ConfigQueryCoalescer_new Config_default))"

definition exampleAnswered :: "nat Coalescer" where
  "exampleAnswered = the (run_events [QueryReturns 1 (Inr [7, 8]), Wake 2] exampleGroup)"

definition exampleThrown :: "nat Coalescer" where
  "exampleThrown = the (run_events [QueryThrows 1] exampleGroup)"

definition exampleEvents :: "nat event list" where
  "exampleEvents = [Enter 1 ''a'' 5, Enter 2 ''a'' 6, Enter 3 ''a'' 1000, Join 1, Join 2, Join 3, QueryReturns 1 (Inr [7]), Wake 2]"

section \<open>The invariant\<close>

definition memberOf :: "'d Coalescer \<Rightarrow> thread \<Rightarrow> string \<Rightarrow> nat \<Rightarrow> bool" where
  "memberOf s t ns gen \<longleftrightarrow>
     (\<exists>g. map_of (groups s) ns = Some g \<and> generation g = gen \<and> t \<in> fst ` set (waiters g))"

definition leads :: "'d Coalescer \<Rightarrow> thread \<Rightarrow> string \<Rightarrow> nat \<Rightarrow> bool" where
  "leads s t ns gen \<longleftrightarrow> calls s t = Leading ns gen \<or> calls s t = Threw ns gen"

definition thread_ok :: "'d Coalescer \<Rightarrow> thread \<Rightarrow> bool" where
  "thread_ok s t = (case calls s t of
      Leading ns gen \<Rightarrow> is_shutdown s \<or> memberOf s t ns gen
    | Threw ns gen \<Rightarrow> is_shutdown s \<or> memberOf s t ns gen
    | Waiting ns gen \<Rightarrow> is_shutdown s \<or> memberOf s t ns gen \<and> \<not> w_done (waiterStates s t) \<or>
        w_done (waiterStates s t) \<and> (\<exists>l. (gen, ns, l, readState (waiterStates s t)) \<in> set (published s))
    | Promoted ns gen \<Rightarrow> False
    | ReturnedLeader gen r \<Rightarrow> \<exists>ns. (gen, ns, t, r) \<in> set (published s)
    | ReturnedFollower gen r \<Rightarrow> \<exists>ns l. (gen, ns, l, r) \<in> set (published s)
    | Entered ns v \<Rightarrow> waiterStates s t = WaiterState_new
    | _ \<Rightarrow> True)"

definition versionGap :: "64 word \<Rightarrow> 64 word \<Rightarrow> 64 word" where
  "versionGap v w = max v w - min v w"

definition group_ok :: "'d Coalescer \<Rightarrow> string \<Rightarrow> CoalescingGroup \<Rightarrow> bool" where
  "group_ok s ns g \<longleftrightarrow>
     queryInProgress g \<and> \<not> queryCompleted g \<and> 0 < generation g \<and> generation g \<le> nextGeneration s \<and>
     generation g \<notin> fst ` set (published s) \<and>
     distinct (map fst (waiters g)) \<and> length (waiters g) \<le> max 1 (maxWaitersPerGroup (cfg s)) \<and>
     minVersion g = maxVersion g \<and>
     (\<forall>(t, v) \<in> set (waiters g). versionGap (minVersion g) v \<le> maxVersionGap (cfg s)) \<and>
     (\<forall>t \<in> fst ` set (waiters g). calls s t \<noteq> NotCalled \<and> (\<forall>n v. calls s t \<noteq> Entered n v)) \<and>
     (\<not> is_shutdown s \<longrightarrow>
        (\<exists>l. leads s l ns (generation g)) \<and>
        (\<forall>t \<in> fst ` set (waiters g). leads s t ns (generation g) \<or> calls s t = Waiting ns (generation g)))"

definition groups_ok :: "'d Coalescer \<Rightarrow> bool" where
  "groups_ok s \<longleftrightarrow> distinct (map fst (groups s)) \<and>
     (\<forall>ns g. map_of (groups s) ns = Some g \<longrightarrow> group_ok s ns g) \<and>
     (\<forall>ns ns' g g'. map_of (groups s) ns = Some g \<longrightarrow> map_of (groups s) ns' = Some g' \<longrightarrow>
        generation g = generation g' \<longrightarrow> ns = ns')"

definition leaders_ok :: "'d Coalescer \<Rightarrow> bool" where
  "leaders_ok s \<longleftrightarrow>
     (\<forall>t t' ns ns' gen. leads s t ns gen \<longrightarrow> leads s t' ns' gen \<longrightarrow> t = t') \<and>
     (\<forall>t ns gen. leads s t ns gen \<longrightarrow> gen \<le> nextGeneration s)"

definition published_ok :: "'d Coalescer \<Rightarrow> bool" where
  "published_ok s \<longleftrightarrow> (\<forall>gen \<in> fst ` set (published s). gen \<le> nextGeneration s) \<and> distinct (map fst (published s))"

definition c_inv :: "'d Coalescer \<Rightarrow> bool" where
  "c_inv s \<longleftrightarrow> (\<forall>t. thread_ok s t) \<and> groups_ok s \<and> leaders_ok s \<and> published_ok s"

lemma setCall_simps [simp]:
  "groups (setCall t c s) = groups s" "nextGeneration (setCall t c s) = nextGeneration s"
  "is_shutdown (setCall t c s) = is_shutdown s" "waiterStates (setCall t c s) = waiterStates s"
  "published (setCall t c s) = published s" "cfg (setCall t c s) = cfg s"
  "stats (setCall t c s) = stats s" "calls (setCall t c s) = (calls s)(t := c)"
  by (simp_all add: setCall_def)

lemma updStats_simps [simp]:
  "groups (updStats f s) = groups s" "nextGeneration (updStats f s) = nextGeneration s"
  "is_shutdown (updStats f s) = is_shutdown s" "waiterStates (updStats f s) = waiterStates s"
  "published (updStats f s) = published s" "cfg (updStats f s) = cfg s"
  "stats (updStats f s) = f (stats s)" "calls (updStats f s) = calls s"
  by (simp_all add: updStats_def)

lemma views_updStats [simp]:
  "memberOf (updStats f s) = memberOf s" "leads (updStats f s) = leads s"
  "group_ok (updStats f s) = group_ok s" "thread_ok (updStats f s) t = thread_ok s t"
  by (auto simp: memberOf_def leads_def group_ok_def fun_eq_iff thread_ok_def split: call.split)

lemma c_inv_updStats [simp]: "c_inv (updStats f s) = c_inv s"
  by (simp add: c_inv_def groups_ok_def leaders_ok_def published_ok_def)

lemma setCall_updStats: "setCall t c (updStats f s) = updStats f (setCall t c s)"
  by (simp add: setCall_def updStats_def)

lemma c_invD:
  assumes "c_inv s"
  shows "distinct (map fst (groups s))" "thread_ok s t"
    "map_of (groups s) ns = Some g \<Longrightarrow> group_ok s ns g"
    "map_of (groups s) ns = Some g \<Longrightarrow> map_of (groups s) ns' = Some g' \<Longrightarrow> generation g = generation g' \<Longrightarrow> ns = ns'"
    "leads s t ns gen \<Longrightarrow> leads s t' ns' gen \<Longrightarrow> t = t'"
    "leads s t ns gen \<Longrightarrow> gen \<le> nextGeneration s"
    "gen \<in> fst ` set (published s) \<Longrightarrow> gen \<le> nextGeneration s"
    "distinct (map fst (published s))"
  using assms unfolding c_inv_def groups_ok_def leaders_ok_def published_ok_def by metis+

lemma c_invI:
  assumes "distinct (map fst (groups s))" "\<And>t. thread_ok s t"
    "\<And>ns g. map_of (groups s) ns = Some g \<Longrightarrow> group_ok s ns g"
    "\<And>ns ns' g g'. map_of (groups s) ns = Some g \<Longrightarrow> map_of (groups s) ns' = Some g' \<Longrightarrow>
       generation g = generation g' \<Longrightarrow> ns = ns'"
    "\<And>t t' ns ns' gen. leads s t ns gen \<Longrightarrow> leads s t' ns' gen \<Longrightarrow> t = t'"
    "\<And>t ns gen. leads s t ns gen \<Longrightarrow> gen \<le> nextGeneration s"
    "\<And>gen. gen \<in> fst ` set (published s) \<Longrightarrow> gen \<le> nextGeneration s"
    "distinct (map fst (published s))"
  shows "c_inv s"
  unfolding c_inv_def groups_ok_def leaders_ok_def published_ok_def
  by (intro conjI allI impI ballI; (rule assms; assumption)?)

lemma thread_ok_other:
  assumes "thread_ok s u" "u \<noteq> t"
  shows "thread_ok (setCall t c s) u"
  using assms by (simp add: thread_ok_def memberOf_def split: call.splits)

text \<open>A step that only moves one thread to another program point.\<close>

lemma c_inv_setCall:
  assumes inv: "c_inv s"
    and c: "\<And>ns gen. memberOf s t ns gen \<Longrightarrow> c \<noteq> NotCalled \<and> (\<forall>n v. c \<noteq> Entered n v)"
    and keep: "\<And>ns gen. leads s t ns gen \<Longrightarrow> is_shutdown s \<or> c = Leading ns gen \<or> c = Threw ns gen"
    and new: "\<And>ns gen. c = Leading ns gen \<or> c = Threw ns gen \<Longrightarrow> leads s t ns gen"
    and mem: "\<And>ns gen. memberOf s t ns gen \<Longrightarrow> is_shutdown s \<or> c = Leading ns gen \<or> c = Threw ns gen \<or> c = Waiting ns gen"
    and ok: "thread_ok (setCall t c s) t"
  shows "c_inv (setCall t c s)"
proof (rule c_invI)
  have leads: "leads (setCall t c s) u ns gen \<Longrightarrow> leads s u ns gen" for u ns gen
    using new by (auto simp: leads_def split: if_splits)
  show "leads (setCall t c s) u ns gen \<Longrightarrow> leads (setCall t c s) u' ns' gen \<Longrightarrow> u = u'" for u u' ns ns' gen
    using leads c_invD(5) [OF inv] by blast
  show "leads (setCall t c s) u ns gen \<Longrightarrow> gen \<le> nextGeneration (setCall t c s)" for u ns gen
    using leads c_invD(6) [OF inv] by simp blast
  show "thread_ok (setCall t c s) u" for u
    using ok thread_ok_other [OF c_invD(2) [OF inv]] by (cases "u = t") auto
  show "group_ok (setCall t c s) ns g" if "map_of (groups (setCall t c s)) ns = Some g" for ns g
  proof -
    have g: "map_of (groups s) ns = Some g" using that by simp
    have keep': "leads (setCall t c s) u ns gen" if "\<not> is_shutdown s" "leads s u ns gen" for u gen
      using that keep [of ns gen] by (auto simp: leads_def)
    have mem': "t \<in> fst ` set (waiters g) \<Longrightarrow> memberOf s t ns (generation g)"
      using g by (auto simp: memberOf_def)
    note ok = c_invD(3) [OF inv g, unfolded group_ok_def]
    have "leads (setCall t c s) u ns (generation g) \<or> calls (setCall t c s) u = Waiting ns (generation g)"
      if "\<not> is_shutdown s" "u \<in> fst ` set (waiters g)" for u
    proof (cases "u = t")
      case True
      then show ?thesis using mem [OF mem'] that by (auto simp: leads_def)
    next
      case False
      then show ?thesis using ok that keep' by auto
    qed
    moreover have "\<exists>l. leads (setCall t c s) l ns (generation g)" if run: "\<not> is_shutdown s"
    proof -
      obtain l where "leads s l ns (generation g)" using ok run by auto
      then show ?thesis using keep' [OF run] by auto
    qed
    ultimately show ?thesis using ok c [OF mem'] unfolding group_ok_def by auto
  qed
qed (simp_all only: setCall_simps c_invD(1,8) [OF inv], erule (2) c_invD(4) [OF inv], erule c_invD(7) [OF inv])

lemma c_inv_init: "c_inv (ConfigQueryCoalescer_new c)"
  by (rule c_invI) (simp_all add: ConfigQueryCoalescer_new_def thread_ok_def leads_def)

lemma memberOf_call:
  assumes "c_inv s" "memberOf s t ns gen"
  shows "calls s t \<noteq> NotCalled" "calls s t \<noteq> Entered n v"
    "\<not> is_shutdown s \<Longrightarrow> leads s t ns gen \<or> calls s t = Waiting ns gen"
  using assms c_invD(3) [OF assms(1)] by (fastforce simp: memberOf_def group_ok_def)+

text \<open>A thread that is not yet, or no longer, part of any group.\<close>

lemma c_inv_leave:
  assumes inv: "c_inv s" and out: "\<And>ns gen. \<not> is_shutdown s \<Longrightarrow> \<not> memberOf s t ns gen"
    and no: "\<And>ns gen. \<not> is_shutdown s \<Longrightarrow> \<not> leads s t ns gen"
    and ok: "thread_ok (setCall t c s) t" and c: "c \<noteq> NotCalled" "\<And>n v. c \<noteq> Entered n v"
      "\<And>ns gen. c \<noteq> Leading ns gen" "\<And>ns gen. c \<noteq> Threw ns gen"
  shows "c_inv (setCall t c s)"
  by (rule c_inv_setCall [OF inv]) (use assms in auto)

lemma c_inv_newState:
  assumes inv: "c_inv s" and t: "calls s t = NotCalled"
  shows "c_inv (s\<lparr>waiterStates := (waiterStates s)(t := w)\<rparr>)"
proof -
  let ?s = "s\<lparr>waiterStates := (waiterStates s)(t := w)\<rparr>"
  have "thread_ok ?s u" for u
    using c_invD(2) [OF inv, of u] t by (auto simp: thread_ok_def memberOf_def split: call.splits)
  moreover have "leads ?s = leads s" by (simp add: leads_def fun_eq_iff)
  moreover have "group_ok ?s ns g = group_ok s ns g" for ns g
    using \<open>leads ?s = leads s\<close> by (simp add: group_ok_def)
  ultimately show ?thesis using inv by (simp add: c_inv_def groups_ok_def leaders_ok_def published_ok_def)
qed

lemma enterCoalesce_inv:
  assumes inv: "c_inv s" and t: "calls s t = NotCalled"
  shows "c_inv (enterCoalesce t ns v s)"
proof -
  have out: "\<not> memberOf s t n gen" for n gen using memberOf_call(1) [OF inv] t by blast
  have no: "\<not> leads s t n gen" for n gen using t by (simp add: leads_def)
  let ?s = "s\<lparr>waiterStates := (waiterStates s)(t := WaiterState_new)\<rparr>"
  have *: "memberOf ?s = memberOf s" "leads ?s = leads s" by (simp_all add: memberOf_def leads_def fun_eq_iff)
  have "c_inv (setCall t (Entered ns v) ?s)"
    by (rule c_inv_setCall [OF c_inv_newState [OF inv t]]) (use out no * in \<open>auto simp: thread_ok_def\<close>)
  moreover have "c_inv (setCall t (Returned (Inl ShutdownInProgress)) s)"
    by (rule c_inv_leave [OF inv]) (use out no in \<open>auto simp: thread_ok_def\<close>)
  ultimately show ?thesis by (simp add: enterCoalesce_def setCall_updStats)
qed

lemma c_inv_independent:
  assumes inv: "c_inv s" and t: "calls s t = Entered n v \<or> calls s t = Independent n"
    and c: "c = Independent ns \<or> c = Returned r \<or> c = ThrewAlone"
  shows "c_inv (setCall t c s)"
proof (rule c_inv_leave [OF inv])
  show "\<not> memberOf s t n gen" if "\<not> is_shutdown s" for n gen
    using memberOf_call(3) [OF inv _ that, of t n gen] t by (auto simp: leads_def)
qed (use t c in \<open>auto simp: leads_def thread_ok_def\<close>)

lemma queryThrows_inv:
  assumes inv: "c_inv s" and t: "calls s t = Leading ns gen"
  shows "c_inv (setCall t (Threw ns gen) s)"
  by (rule c_inv_setCall [OF inv])
    (use t memberOf_call(3) [OF inv, of t] c_invD(2) [OF inv, of t] in
      \<open>auto simp: leads_def thread_ok_def memberOf_def\<close>)

lemma waiting_done_out:
  assumes inv: "c_inv s" and t: "calls s t = Waiting ns gen" and d: "w_done (waiterStates s t)"
    and run: "\<not> is_shutdown s"
  shows "\<not> memberOf s t n g" "\<exists>l. (gen, ns, l, readState (waiterStates s t)) \<in> set (published s)"
proof -
  show pub: "\<exists>l. (gen, ns, l, readState (waiterStates s t)) \<in> set (published s)"
    using c_invD(2) [OF inv, of t] t d run by (simp add: thread_ok_def)
  show "\<not> memberOf s t n g"
  proof
    assume m: "memberOf s t n g"
    then have "calls s t = Waiting n g" using memberOf_call(3) [OF inv m run] t by (simp add: leads_def)
    then have "(n, g) = (ns, gen)" using t by simp
    moreover obtain gr where "map_of (groups s) n = Some gr" "generation gr = g" using m by (auto simp: memberOf_def)
    moreover have "gen \<in> fst ` set (published s)" using pub by (auto intro: rev_image_eqI)
    ultimately show False using c_invD(3) [OF inv, of n gr] by (simp add: group_ok_def)
  qed
qed

lemma followerWake_inv:
  assumes inv: "c_inv s" and t: "calls s t = Waiting ns gen" and d: "w_done (waiterStates s t) \<or> is_shutdown s"
  shows "c_inv (followerWake t gen s)"
proof (cases "is_shutdown s")
  case True
  then show ?thesis
    unfolding followerWake_def by simp (rule c_inv_leave [OF inv]; simp add: thread_ok_def)
next
  case False
  then have "c_inv (setCall t (ReturnedFollower gen (readState (waiterStates s t))) s)"
    using waiting_done_out [OF inv t _ False] d
    by (intro c_inv_leave [OF inv]) (auto simp: leads_def t thread_ok_def)
  then show ?thesis using False by (simp add: followerWake_def)
qed

subsection \<open>Steps that change a group\<close>

lemma map_of_update [simp]: "map_of (AList.update k v al) = (map_of al)(k \<mapsto> v)"
  by (simp add: update_conv')

lemma map_of_delete [simp]: "map_of (AList.delete k al) = (map_of al)(k := None)"
  by (simp add: delete_conv')

text \<open>The views of a thread that a change of groups or of other threads keeps.\<close>

lemma thread_ok_cong:
  assumes "thread_ok s u" "calls s' u = calls s u" "is_shutdown s' = is_shutdown s"
    "waiterStates s' u = waiterStates s u" "set (published s) \<subseteq> set (published s')"
    "\<And>ns gen. leads s u ns gen \<or> calls s u = Waiting ns gen \<Longrightarrow> memberOf s u ns gen \<Longrightarrow> memberOf s' u ns gen"
  shows "thread_ok s' u"
  using assms by (auto simp: thread_ok_def leads_def split: call.splits)

lemma group_ok_other:
  assumes ok: "group_ok s n g" and calls: "\<And>u. u \<noteq> t \<Longrightarrow> calls s' u = calls s u"
    and keep: "\<not> is_shutdown s \<Longrightarrow> \<not> leads s t n (generation g) \<and> calls s t \<noteq> Waiting n (generation g)"
    and c: "calls s' t \<noteq> NotCalled \<and> (\<forall>n v. calls s' t \<noteq> Entered n v)"
    and s: "is_shutdown s' = is_shutdown s" "cfg s' = cfg s" "nextGeneration s \<le> nextGeneration s'"
    and pub: "generation g \<notin> fst ` set (published s')"
  shows "group_ok s' n g"
proof -
  have "leads s' l n (generation g)" if "\<not> is_shutdown s" "leads s l n (generation g)" for l
    using that keep calls [of l] by (cases "l = t") (auto simp: leads_def)
  moreover have "u \<noteq> t" if "\<not> is_shutdown s" "u \<in> fst ` set (waiters g)" for u
    using that ok keep by (auto simp: group_ok_def)
  moreover have "calls s' u \<noteq> NotCalled \<and> (\<forall>n v. calls s' u \<noteq> Entered n v)" if "u \<in> fst ` set (waiters g)" for u
    using that ok c calls [of u] by (cases "u = t") (auto simp: group_ok_def)
  ultimately show ?thesis using ok s pub calls unfolding group_ok_def by (auto 4 3)
qed

lemma lead_inv:
  assumes inv: "c_inv s" and t: "calls s t = Entered ns v" and none: "map_of (groups s) ns = None"
  shows "c_inv (joinOrLead t ns v s)"
proof -
  define gen where "gen = Suc (nextGeneration s)"
  define g where "g = \<lparr>generation = gen, minVersion = v, maxVersion = v, queryInProgress = True,
    queryCompleted = False, waiters = [(t, v)]\<rparr>"
  define s' where "s' = setCall t (Leading ns gen) (s\<lparr>nextGeneration := gen, groups := AList.update ns g (groups s)\<rparr>)"
  have leads: "leads s' u n k \<longleftrightarrow> (if u = t then n = ns \<and> k = gen else leads s u n k)" for u n k
    by (auto simp: leads_def s'_def)
  have s'[simp]: "is_shutdown s' = is_shutdown s" "cfg s' = cfg s" "nextGeneration s' = gen"
    "published s' = published s" "waiterStates s' = waiterStates s" "calls s' = (calls s)(t := Leading ns gen)"
    "groups s' = AList.update ns g (groups s)" by (simp_all add: s'_def)
  have new: "gen \<notin> fst ` set (published s)" using c_invD(7) [OF inv, of gen] by (auto simp: gen_def)
  have old: "generation g' < gen" if "map_of (groups s) n = Some g'" for n g'
    using c_invD(3) [OF inv that] by (simp add: group_ok_def gen_def)
  have "c_inv s'"
  proof (rule c_invI)
    show "thread_ok s' u" for u
    proof (cases "u = t")
      case True
      then show ?thesis by (auto simp: thread_ok_def memberOf_def g_def)
    next
      case False
      then show ?thesis using none by (intro thread_ok_cong [OF c_invD(2) [OF inv, of u]]) (auto simp: memberOf_def)
    qed
    show "group_ok s' n g'" if "map_of (groups s') n = Some g'" for n g'
    proof (cases "n = ns")
      case True
      then have "g' = g" using that by simp
      then show ?thesis using True new leads by (auto simp: group_ok_def g_def versionGap_def gen_def)
    next
      case False
      then have g': "map_of (groups s) n = Some g'" using that by simp
      then show ?thesis using c_invD(3) [OF inv g'] t
        by (intro group_ok_other [OF c_invD(3) [OF inv g'], of t s']) (auto simp: leads_def gen_def group_ok_def)
    qed
    show "n = n'" if "map_of (groups s') n = Some g1" "map_of (groups s') n' = Some g2" "generation g1 = generation g2"
      for n n' g1 g2
      using that old [of n g1] old [of n' g2] c_invD(4) [OF inv, of n g1 n' g2]
      by (cases "n = ns"; cases "n' = ns") (auto simp: g_def)
    show "u = u'" if "leads s' u n k" "leads s' u' n' k" for u u' n n' k
      using that c_invD(5) [OF inv, of u n k u' n'] c_invD(6) [OF inv, of u n k] c_invD(6) [OF inv, of u' n' k]
      by (auto simp: leads gen_def split: if_splits)
    show "k \<le> nextGeneration s'" if "leads s' u n k" for u n k
      using that c_invD(6) [OF inv, of u n k] by (auto simp: leads gen_def split: if_splits)
    show "k \<le> nextGeneration s'" if "k \<in> fst ` set (published s')" for k
      using that c_invD(7) [OF inv, of k] by (simp add: gen_def)
  qed (simp_all add: c_invD(1,8) [OF inv] distinct_update)
  moreover have "joinOrLead t ns v s = updStats (\<lambda>x. x\<lparr>activeGroups := length (groups s')\<rparr>) s'"
    using none by (simp add: joinOrLead_def s'_def g_def gen_def Let_def setCall_updStats)
  ultimately show ?thesis by simp
qed

text \<open>
  A change of the waiters of one group by one thread: the thread joins as a follower, or a follower
  leaves.
\<close>

lemma c_inv_upd_group:
  assumes inv: "c_inv s" and g: "map_of (groups s) ns = Some g"
    and s': "s' = setCall t c (s\<lparr>groups := AList.update ns (g\<lparr>waiters := ws\<rparr>) (groups s)\<rparr>)"
    and t: "\<And>n gen. \<not> leads s t n gen" "\<And>n gen. calls s t = Waiting n gen \<Longrightarrow> n = ns \<and> gen = generation g \<or> is_shutdown s"
    and c: "c \<noteq> NotCalled" "\<And>n v. c \<noteq> Entered n v" "\<And>n gen. c \<noteq> Leading n gen" "\<And>n gen. c \<noteq> Threw n gen"
    and ws: "fst ` set (waiters g) - {t} \<subseteq> fst ` set ws"
    and ok: "thread_ok s' t" and gok: "group_ok s' ns (g\<lparr>waiters := ws\<rparr>)"
  shows "c_inv s'"
proof (rule c_invI)
  have leads: "leads s' u n k \<longleftrightarrow> leads s u n k" for u n k
    using t(1) c by (auto simp: leads_def s')
  have s's[simp]: "is_shutdown s' = is_shutdown s" "cfg s' = cfg s" "nextGeneration s' = nextGeneration s"
    "published s' = published s" "waiterStates s' = waiterStates s" "calls s' = (calls s)(t := c)"
    "groups s' = AList.update ns (g\<lparr>waiters := ws\<rparr>) (groups s)" by (simp_all add: s')
  show "thread_ok s' u" for u
  proof (cases "u = t")
    case False
    then have "u \<in> fst ` set (waiters g) \<Longrightarrow> u \<in> fst ` set ws" using ws by blast
    then have "memberOf s u n k \<Longrightarrow> memberOf s' u n k" for n k
      using g by (cases "n = ns") (simp_all add: memberOf_def)
    then show ?thesis
      using False by (intro thread_ok_cong [OF c_invD(2) [OF inv, of u]]) auto
  qed (use ok in simp)
  show "group_ok s' n g'" if "map_of (groups s') n = Some g'" for n g'
  proof (cases "n = ns")
    case True
    then show ?thesis using that gok by simp
  next
    case False
    then have g': "map_of (groups s) n = Some g'" using that by simp
    note ok' = c_invD(3) [OF inv g']
    show ?thesis by (rule group_ok_other [OF ok', of t]) (use t c False ok' in \<open>auto simp: group_ok_def\<close>)
  qed
  show "n = n'" if "map_of (groups s') n = Some g1" "map_of (groups s') n' = Some g2" "generation g1 = generation g2"
    for n n' g1 g2
  proof -
    have old: "\<exists>h. map_of (groups s) m = Some h \<and> generation h = generation k" if "map_of (groups s') m = Some k" for m k
      using that g by (cases "m = ns") auto
    show ?thesis using old [OF that(1)] old [OF that(2)] that(3) c_invD(4) [OF inv] by metis
  qed
  show "u = u'" if "leads s' u n k" "leads s' u' n' k" for u u' n n' k
    using c_invD(5) [OF inv] that unfolding leads .
  show "k \<le> nextGeneration s'" if "leads s' u n k" for u n k
    using c_invD(6) [OF inv] that unfolding leads s's .
  show "k \<le> nextGeneration s'" if "k \<in> fst ` set (published s')" for k
    using c_invD(7) [OF inv] that unfolding s's .
qed (simp_all add: s' distinct_update c_invD(1,8) [OF inv])

lemma join_inv:
  assumes inv: "c_inv s" and t: "calls s t = Entered ns v" and g: "map_of (groups s) ns = Some g"
  shows "c_inv (joinOrLead t ns v s)"
proof -
  let ?ws = "waiters g @ [(t, v)]"
  let ?s' = "setCall t (Waiting ns (generation g)) (s\<lparr>groups := AList.update ns (g\<lparr>waiters := ?ws\<rparr>) (groups s)\<rparr>)"
  note ok = c_invD(3) [OF inv g]
  have out: "t \<notin> fst ` set (waiters g)" using ok t by (auto simp: group_ok_def)
  have new: "\<not> w_done (waiterStates s t)"
    using c_invD(2) [OF inv, of t] t by (simp add: thread_ok_def WaiterState_new_def)
  have "c_inv ?s'" if gap: "max (maxVersion g) v - min (minVersion g) v \<le> maxVersionGap (cfg s)"
    and room: "length (waiters g) < maxWaitersPerGroup (cfg s)"
  proof (rule c_inv_upd_group [OF inv g refl])
    have "leads ?s' u n k" if "leads s u n k" for u n k
      using that t by (auto simp: leads_def)
    moreover have "versionGap (maxVersion g) v \<le> maxVersionGap (cfg s)"
      using gap ok by (simp add: versionGap_def group_ok_def)
    ultimately show "group_ok ?s' ns (g\<lparr>waiters := ?ws\<rparr>)"
      using ok out room unfolding group_ok_def by auto
  qed (use t out new in \<open>auto simp: leads_def thread_ok_def memberOf_def\<close>)
  moreover have "c_inv (setCall t (Independent ns) s)" using c_inv_independent [OF inv] t by blast
  ultimately show ?thesis using g by (simp add: joinOrLead_def Let_def setCall_updStats)
qed

lemma joinOrLead_inv: "c_inv s \<Longrightarrow> calls s t = Entered ns v \<Longrightarrow> c_inv (joinOrLead t ns v s)"
  by (cases "map_of (groups s) ns") (auto intro: lead_inv join_inv)

lemma followerTimeout_inv:
  assumes inv: "c_inv s" and t: "calls s t = Waiting ns gen" and d: "\<not> w_done (waiterStates s t)"
  shows "c_inv (followerTimeout t ns gen s)"
proof -
  let ?c = "Returned (Inl ExceededTimeLimit)"
  have "c_inv (setCall t ?c (removeWaiter t ns gen s))"
  proof (cases "\<exists>g. map_of (groups s) ns = Some g \<and> generation g = gen")
    case True
    then obtain g where g: "map_of (groups s) ns = Some g" "generation g = gen" by auto
    let ?ws = "filter (\<lambda>w. fst w \<noteq> t) (waiters g)"
    let ?s' = "setCall t ?c (s\<lparr>groups := AList.update ns (g\<lparr>waiters := ?ws\<rparr>) (groups s)\<rparr>)"
    note ok = c_invD(3) [OF inv g(1)]
    have "c_inv ?s'"
    proof (rule c_inv_upd_group [OF inv g(1) refl])
      have "leads ?s' u n k" if "leads s u n k" for u n k using that t by (auto simp: leads_def)
      moreover have "length ?ws \<le> length (waiters g)" by simp
      then have "length ?ws \<le> max 1 (maxWaitersPerGroup (cfg s))"
        using ok unfolding group_ok_def by linarith
      ultimately show "group_ok ?s' ns (g\<lparr>waiters := ?ws\<rparr>)"
        using ok t unfolding group_ok_def by (auto simp: distinct_map_filter)
    qed (use t g in \<open>auto simp: leads_def thread_ok_def\<close>)
    then show ?thesis using g by (simp add: removeWaiter_def)
  next
    case False
    then have "removeWaiter t ns gen s = s" by (auto simp: removeWaiter_def split: option.split)
    moreover have "is_shutdown s" using False c_invD(2) [OF inv, of t] t d by (auto simp: thread_ok_def memberOf_def)
    then have "c_inv (setCall t ?c s)" by (intro c_inv_leave [OF inv]) (auto simp: thread_ok_def)
    ultimately show ?thesis by simp
  qed
  then show ?thesis by (simp add: followerTimeout_def setCall_updStats)
qed

lemma readState_deliver [simp]: "readState (deliver r) = r"
  by (cases r) (simp_all add: deliver_def readState_def)

lemma w_done_deliver [simp]: "w_done (deliver r)"
  by (cases r) (simp_all add: deliver_def)

lemma leader_publishes:
  assumes inv: "c_inv s" and run: "\<not> is_shutdown s" and t: "calls s t = Leading ns gen"
  obtains g where "map_of (groups s) ns = Some g" "generation g = gen" "t \<in> fst ` set (waiters g)"
    "leaderFinish t ns gen r s = updStats (\<lambda>x. x\<lparr>actualQueries := Suc (actualQueries x), activeGroups := length (AList.delete ns (groups s))\<rparr>)
       (setCall t (ReturnedLeader gen r)
         ((distribute g r s)\<lparr>groups := AList.delete ns (groups s), published := (gen, ns, t, r) # published s\<rparr>))"
proof -
  obtain g where g: "map_of (groups s) ns = Some g" "generation g = gen" "t \<in> fst ` set (waiters g)"
    using c_invD(2) [OF inv, of t] t run by (auto simp: thread_ok_def memberOf_def)
  then show ?thesis using that run by (simp add: leaderFinish_def publish_def Let_def setCall_updStats distribute_def)
qed

lemma leaderFinish_inv:
  assumes inv: "c_inv s" and run: "\<not> is_shutdown s" and t: "calls s t = Leading ns gen"
  shows "c_inv (leaderFinish t ns gen r s)"
proof -
  obtain g where g: "map_of (groups s) ns = Some g" "generation g = gen" "t \<in> fst ` set (waiters g)"
    and eq: "leaderFinish t ns gen r s = updStats (\<lambda>x. x\<lparr>actualQueries := Suc (actualQueries x), activeGroups := length (AList.delete ns (groups s))\<rparr>)
       (setCall t (ReturnedLeader gen r)
         ((distribute g r s)\<lparr>groups := AList.delete ns (groups s), published := (gen, ns, t, r) # published s\<rparr>))"
    by (rule leader_publishes [OF inv run t])
  define s' where "s' = setCall t (ReturnedLeader gen r)
         ((distribute g r s)\<lparr>groups := AList.delete ns (groups s), published := (gen, ns, t, r) # published s\<rparr>)"
  have s's[simp]: "is_shutdown s' = is_shutdown s" "cfg s' = cfg s" "nextGeneration s' = nextGeneration s"
    "published s' = (gen, ns, t, r) # published s" "calls s' = (calls s)(t := ReturnedLeader gen r)"
    "waiterStates s' = (\<lambda>u. if u \<in> fst ` set (waiters g) then deliver r else waiterStates s u)"
    "groups s' = AList.delete ns (groups s)" by (simp_all add: s'_def distribute_def)
  have lt: "leads s t ns gen" using t by (simp add: leads_def)
  have leads: "leads s' u n k \<Longrightarrow> leads s u n k" for u n k by (auto simp: leads_def split: if_splits)
  note ok = c_invD(3) [OF inv g(1)]
  have "c_inv s'"
  proof (rule c_invI)
    show "thread_ok s' u" for u
    proof (cases "u = t")
      case True
      then show ?thesis by (auto simp: thread_ok_def)
    next
      case ut: False
      show ?thesis
      proof (cases "u \<in> fst ` set (waiters g)")
        case True
        have "\<not> leads s u ns gen" using c_invD(5) [OF inv lt] ut by metis
        then have "calls s u = Waiting ns gen" using ok run True g by (auto simp: group_ok_def)
        then show ?thesis using ut True by (auto simp: thread_ok_def)
      next
        case False
        then have "memberOf s u n k \<Longrightarrow> memberOf s' u n k" for n k
          using g by (cases "n = ns") (simp_all add: memberOf_def)
        then show ?thesis using False ut by (intro thread_ok_cong [OF c_invD(2) [OF inv, of u]]) auto
      qed
    qed
    show "group_ok s' n g'" if "map_of (groups s') n = Some g'" for n g'
    proof -
      have n: "n \<noteq> ns" and g': "map_of (groups s) n = Some g'" using that by (auto split: if_splits)
      have "generation g' \<noteq> gen" using n c_invD(4) [OF inv g' g(1)] g(2) by metis
      then show ?thesis
        using c_invD(3) [OF inv g'] t n by (intro group_ok_other [OF c_invD(3) [OF inv g'], of t]) (auto simp: leads_def group_ok_def)
    qed
    show "n = n'" if "map_of (groups s') n = Some g1" "map_of (groups s') n' = Some g2" "generation g1 = generation g2"
      for n n' g1 g2 using that c_invD(4) [OF inv _ _ that(3)] by (simp split: if_splits)
    show "u = u'" if "leads s' u n k" "leads s' u' n' k" for u u' n n' k
      using c_invD(5) [OF inv leads [OF that(1)] leads [OF that(2)]] .
    show "k \<le> nextGeneration s'" if "leads s' u n k" for u n k
      using c_invD(6) [OF inv leads [OF that]] by simp
    show "k \<le> nextGeneration s'" if "k \<in> fst ` set (published s')" for k
      using that c_invD(7) [OF inv, of k] c_invD(6) [OF inv lt] by auto
    show "distinct (map fst (published s'))" using c_invD(8) [OF inv] ok g(2) by (simp add: group_ok_def)
    show "distinct (map fst (groups s'))" using c_invD(1) [OF inv] by (simp add: distinct_delete)
  qed
  then show ?thesis by (simp add: eq s'_def)
qed

lemma shutdown_inv:
  assumes inv: "c_inv s"
  shows "c_inv (shutdownCoalescer s)"
proof (rule c_invI)
  have *: "leads (shutdownCoalescer s) = leads s" by (simp add: leads_def fun_eq_iff shutdownCoalescer_def)
  show "leads (shutdownCoalescer s) u n k \<Longrightarrow> leads (shutdownCoalescer s) u' n' k \<Longrightarrow> u = u'" for u u' n n' k
    using c_invD(5) [OF inv] unfolding * .
  show "leads (shutdownCoalescer s) u n k \<Longrightarrow> k \<le> nextGeneration (shutdownCoalescer s)" for u n k
    using c_invD(6) [OF inv] unfolding * by (simp add: shutdownCoalescer_def)
  show "k \<in> fst ` set (published (shutdownCoalescer s)) \<Longrightarrow> k \<le> nextGeneration (shutdownCoalescer s)" for k
    using c_invD(7) [OF inv, of k] by (simp add: shutdownCoalescer_def)
  show "thread_ok (shutdownCoalescer s) t" for t
  proof -
    have "waiterStates (shutdownCoalescer s) t = waiterStates s t" if "calls s t = Entered n v" for n v
    proof -
      have "t \<notin> fst ` set (waiters g)" if "(k, g) \<in> set (groups s)" for k g
        using memberOf_call(2) [OF inv, of t k "generation g" n v] c_invD(1) [OF inv] that \<open>calls s t = Entered n v\<close>
        by (auto simp: memberOf_def)
      then show ?thesis by (force simp: shutdownCoalescer_def)
    qed
    then show ?thesis using c_invD(2) [OF inv, of t] by (auto simp: thread_ok_def shutdownCoalescer_def split: call.splits)
  qed
qed (simp_all add: shutdownCoalescer_def c_invD(8) [OF inv])

lemma run_event_inv: "c_inv s \<Longrightarrow> event_ok e s \<Longrightarrow> c_inv (run_event e s)"
proof (induction e s rule: event_ok.induct)
  case (3 t r s)
  then show ?case
    using c_inv_independent [OF 3(1), of t _ _ "Returned r"] leaderFinish_inv [OF 3(1), of t] c_invD(2) [OF 3(1), of t]
      c_inv_leave [OF 3(1), of t "Returned (Inl ShutdownInProgress)"]
    by (cases "is_shutdown s") (auto simp: leaderFinish_def thread_ok_def split: call.splits)
next
  case (4 t s)
  then show ?case
    using c_inv_independent [OF 4(1), of t _ _ ThrewAlone] queryThrows_inv [OF 4(1), of t] c_invD(2) [OF 4(1), of t]
    by (auto simp: thread_ok_def split: call.splits)
next
  case (7 t s)
  then show ?case
    using c_invD(3) [OF 7(1)] by (auto simp: canPromote_def group_ok_def split: call.splits option.splits)
next
  case (9 s)
  then show ?case using c_inv_updStats [of "\<lambda>_. Stats_new" s] by (simp add: resetStats_def updStats_def)
qed (auto intro: enterCoalesce_inv joinOrLead_inv followerTimeout_inv followerWake_inv shutdown_inv split: call.splits)

lemma c_reachable_inv: "c_reachable c s \<Longrightarrow> c_inv s"
  by (induction rule: c_reachable.induct) (auto intro: c_inv_init run_event_inv)

lemma c_reachable_run: "c_reachable c s \<Longrightarrow> run_events es s = Some s' \<Longrightarrow> c_reachable c s'"
  by (induction es arbitrary: s) (auto split: if_splits intro: c_step)

lemma run_event_cfg: "cfg (run_event e s) = cfg s"
  by (induction e s rule: event_ok.induct)
    (auto simp: enterCoalesce_def joinOrLead_def leaderFinish_def promotedFinish_def publish_def distribute_def
      followerTimeout_def removeWaiter_def followerWake_def followerPromote_def shutdownCoalescer_def resetStats_def
      Let_def split: call.split option.split)

lemma c_reachable_cfg: "c_reachable c s \<Longrightarrow> cfg s = c"
  by (induction rule: c_reachable.induct) (simp_all add: ConfigQueryCoalescer_new_def run_event_cfg)

text \<open>A call that has returned or thrown makes no further step.\<close>

fun ended :: "'d call \<Rightarrow> bool" where
  "ended (Threw ns gen) = True"
| "ended (ReturnedLeader gen r) = True"
| "ended _ = False"

lemma ended_stays: "ended (calls s t) \<Longrightarrow> event_ok e s \<Longrightarrow> calls (run_event e s) t = calls s t"
  by (induction e s rule: event_ok.induct)
    (auto simp: enterCoalesce_def joinOrLead_def leaderFinish_def promotedFinish_def publish_def distribute_def
      followerTimeout_def removeWaiter_def followerWake_def followerPromote_def shutdownCoalescer_def resetStats_def
      Let_def split: call.splits option.split)

lemma ended_stays_run: "run_events es s = Some s' \<Longrightarrow> ended (calls s t) \<Longrightarrow> calls s' t = calls s t"
  by (induction es arbitrary: s) (auto simp: ended_stays split: if_splits)

lemma run_event_published:
  assumes "c_inv s" "event_ok e s" "(gen, ns, l, r) \<in> set (published (run_event e s))"
  shows "(gen, ns, l, r) \<in> set (published s) \<or> calls (run_event e s) l = ReturnedLeader gen r"
proof (cases "\<exists>t r. e = QueryReturns t r")
  case True
  then obtain t r' where e: "e = QueryReturns t r'" by blast
  show ?thesis
  proof (cases "\<exists>n k. calls s t = Leading n k \<and> \<not> is_shutdown s")
    case True
    then obtain n k where t: "calls s t = Leading n k" "\<not> is_shutdown s" by blast
    show ?thesis
      by (rule leader_publishes [OF assms(1) t(2,1), of r']) (use assms(3) e t in \<open>auto simp: distribute_def\<close>)
  next
    case False
    then show ?thesis using assms c_invD(2) [OF assms(1), of t] e
      by (auto simp: thread_ok_def leaderFinish_def split: call.splits)
  qed
next
  case False
  then show ?thesis using assms(3)
    by (cases e) (auto simp: enterCoalesce_def joinOrLead_def followerTimeout_def removeWaiter_def followerWake_def
      followerPromote_def shutdownCoalescer_def resetStats_def Let_def split: call.splits option.splits if_splits)
qed

lemma published_leader:
  "c_reachable c s \<Longrightarrow> (gen, ns, l, r) \<in> set (published s) \<Longrightarrow> calls s l = ReturnedLeader gen r"
proof (induction rule: c_reachable.induct)
  case (c_step s e)
  then show ?case
    using run_event_published [OF c_reachable_inv [OF c_step(1)] c_step(2), of gen ns l r] ended_stays [of s l e] by auto
qed (simp add: ConfigQueryCoalescer_new_def)

lemma example_reachable:
  "c_reachable Config_default exampleGroup" "c_reachable Config_default exampleAnswered"
  "c_reachable Config_default exampleThrown"
proof -
  have some: "\<not> Option.is_none x \<Longrightarrow> x = Some (the x)" for x :: "nat Coalescer option"
    by (cases x) auto
  show 1: "c_reachable Config_default exampleGroup"
    unfolding exampleGroup_def by (rule c_reachable_run [OF c_init], rule some, code_simp)
  show "c_reachable Config_default exampleAnswered"
    unfolding exampleAnswered_def by (rule c_reachable_run [OF 1], rule some, code_simp)
  show "c_reachable Config_default exampleThrown"
    unfolding exampleThrown_def by (rule c_reachable_run [OF 1], rule some, code_simp)
qed

section \<open>Properties\<close>

text \<open>C14:
  A request that joined a group and returns without a timeout or shutdown returns what the query of
  exactly one other request, the leader of that generation, returned: the same documents or the same error.
\<close>

theorem coalesced_result:
  assumes "c_reachable c s" "calls s t = ReturnedFollower gen r"
  shows "(\<exists>l. l \<noteq> t \<and> calls s l = ReturnedLeader gen r) \<and> (\<exists>!l. \<exists>r'. calls s l = ReturnedLeader gen r')"
proof -
  note inv = c_reachable_inv [OF assms(1)]
  obtain ns l where p: "(gen, ns, l, r) \<in> set (published s)"
    using c_invD(2) [OF inv, of t] assms(2) by (auto simp: thread_ok_def)
  have l: "calls s l = ReturnedLeader gen r" by (rule published_leader [OF assms(1) p])
  have "l' = l" if l': "calls s l' = ReturnedLeader gen r'" for l' r'
  proof -
    obtain ns' where "(gen, ns', l', r') \<in> set (published s)"
      using c_invD(2) [OF inv, of l'] l' by (auto simp: thread_ok_def)
    then show ?thesis using p eq_key_imp_eq_value [OF c_invD(8) [OF inv]] by blast
  qed
  moreover have "l \<noteq> t" using l assms(2) by auto
  ultimately show ?thesis using l by blast
qed

theorem coalesced_result_witness:
  "calls exampleAnswered 2 = ReturnedFollower 1 (Inr [7, 8]) \<and>
   (\<exists>l. l \<noteq> 2 \<and> calls exampleAnswered l = ReturnedLeader 1 (Inr [7, 8])) \<and>
   (\<exists>!l. \<exists>r'. calls exampleAnswered l = ReturnedLeader 1 r')"
proof -
  have "calls exampleAnswered 2 = ReturnedFollower 1 (Inr [7, 8])" by code_simp
  with coalesced_result [OF example_reachable(2) this] show ?thesis by simp
qed

text \<open>C15:
  No follower is stranded: as long as the coalescer runs, a waiting follower can return now, or the
  leader of its group is still running its query and the end of that query, whatever it returns,
  lets the follower return the same, or that query threw.
\<close>

theorem follower_progress:
  assumes "c_reachable c s" "\<not> is_shutdown s" "calls s t = Waiting ns gen"
  shows "event_ok (Wake t) s \<or>
    (\<exists>l. calls s l = Leading ns gen \<and>
       (\<forall>r. event_ok (QueryReturns l r) s \<and> event_ok (Wake t) (run_event (QueryReturns l r) s) \<and>
            calls (run_event (Wake t) (run_event (QueryReturns l r) s)) t = ReturnedFollower gen r)) \<or>
    (\<exists>l. calls s l = Threw ns gen)"
proof (cases "w_done (waiterStates s t)")
  case True
  then show ?thesis using assms(3) by simp
next
  case False
  note inv = c_reachable_inv [OF assms(1)]
  obtain g where g: "map_of (groups s) ns = Some g" "generation g = gen" "t \<in> fst ` set (waiters g)"
    using c_invD(2) [OF inv, of t] assms(2,3) False by (auto simp: thread_ok_def memberOf_def)
  obtain l where l: "leads s l ns gen" using c_invD(3) [OF inv g(1)] g(2) assms(2) by (auto simp: group_ok_def)
  have "event_ok (QueryReturns l r) s \<and> event_ok (Wake t) (run_event (QueryReturns l r) s) \<and>
      calls (run_event (Wake t) (run_event (QueryReturns l r) s)) t = ReturnedFollower gen r"
    if "calls s l = Leading ns gen" for r
    by (rule leader_publishes [OF inv assms(2) that, of r])
      (use that g assms in \<open>auto simp: distribute_def followerWake_def\<close>)
  then show ?thesis using l unfolding leads_def by blast
qed

theorem follower_progress_witness:
  "c_reachable Config_default exampleGroup \<and> \<not> is_shutdown exampleGroup \<and>
   calls exampleGroup 2 = Waiting ''config.chunks'' 1 \<and>
   (event_ok (Wake 2) exampleGroup \<or>
    (\<exists>l. calls exampleGroup l = Leading ''config.chunks'' 1 \<and>
       (\<forall>r. event_ok (QueryReturns l r) exampleGroup \<and> event_ok (Wake 2) (run_event (QueryReturns l r) exampleGroup) \<and>
            calls (run_event (Wake 2) (run_event (QueryReturns l r) exampleGroup)) 2 = ReturnedFollower 1 r)) \<or>
    (\<exists>l. calls exampleGroup l = Threw ''config.chunks'' 1))"
proof -
  have "\<not> is_shutdown exampleGroup" "calls exampleGroup 2 = Waiting ''config.chunks'' 1" by code_simp+
  with follower_progress [OF example_reachable(1) this] example_reachable(1) show ?thesis by simp
qed

lemma unat_versionGap: "unat (versionGap v w) = (if unat v \<le> unat w then unat w - unat v else unat v - unat w)"
  by (simp add: versionGap_def max_def min_def word_le_nat_alt unat_sub)

text \<open>C17:
  A group never has more waiters than the configuration allows (its leader counts, and is admitted
  even if the limit is zero), every version in it is within the version gap of the leader's, and any
  two of them are within twice the gap.  The example shows two waiters that are further apart than
  the gap.
\<close>

theorem group_bounds:
  assumes "c_reachable c s" "map_of (groups s) ns = Some g"
  shows "length (waiters g) \<le> max 1 (maxWaitersPerGroup c) \<and>
    list_all (\<lambda>w. versionGap (minVersion g) (snd w) \<le> maxVersionGap c) (waiters g) \<and>
    list_all (\<lambda>w. list_all (\<lambda>w'. unat (versionGap (snd w) (snd w')) \<le> 2 * unat (maxVersionGap c)) (waiters g)) (waiters g)"
proof -
  have g: "group_ok s ns g" by (rule c_invD(3) [OF c_reachable_inv [OF assms(1)] assms(2)])
  have near: "versionGap (minVersion g) (snd w) \<le> maxVersionGap c" if "w \<in> set (waiters g)" for w
    using g that by (auto simp: group_ok_def c_reachable_cfg [OF assms(1)])
  have "unat (versionGap (snd w) (snd w')) \<le> 2 * unat (maxVersionGap c)"
    if "w \<in> set (waiters g)" "w' \<in> set (waiters g)" for w w'
    using near [OF that(1)] near [OF that(2)] by (auto simp: word_le_nat_alt unat_versionGap split: if_splits)
  then show ?thesis using near g by (simp add: list_all_iff group_ok_def c_reachable_cfg [OF assms(1)])
qed

theorem group_bounds_witness:
  "\<exists>g. map_of (groups exampleGroup) ''config.chunks'' = Some g \<and> length (waiters g) = 3 \<and>
     list_all (\<lambda>w. versionGap (minVersion g) (snd w) \<le> 500) (waiters g) \<and>
     list_ex (\<lambda>w. list_ex (\<lambda>w'. versionGap (snd w) (snd w') = 1000) (waiters g)) (waiters g) \<and>
     list_all (\<lambda>w. list_all (\<lambda>w'. unat (versionGap (snd w) (snd w')) \<le> 1000) (waiters g)) (waiters g)"
proof -
  let ?g = "the (map_of (groups exampleGroup) ''config.chunks'')"
  have g: "map_of (groups exampleGroup) ''config.chunks'' = Some ?g" by code_simp
  have "length (waiters ?g) = 3" "list_ex (\<lambda>w. list_ex (\<lambda>w'. versionGap (snd w) (snd w') = 1000) (waiters ?g)) (waiters ?g)"
    by code_simp+
  with group_bounds [OF example_reachable(1) g] g show ?thesis
    by (intro exI [of _ ?g]) (simp add: Config_default_def)
qed

text \<open>C16:
  If the query of a leader throws, its group stays until shutdown: whatever happens next, no
  follower of it can ever return with a result or take over as leader, and a new request for the
  namespace does not lead either, so until shutdown it times out or runs its own query.
\<close>

theorem failed_leader_blocks:
  assumes "c_reachable c s" "calls s l = Threw ns gen" "run_events es s = Some s'" "\<not> is_shutdown s'"
  shows "(\<exists>g. map_of (groups s') ns = Some g \<and> generation g = gen) \<and>
    {t. calls s' t = Waiting ns gen \<and> (event_ok (Wake t) s' \<or> event_ok (Promote t) s')} = {} \<and>
    {t. \<exists>v k. calls s' t = Entered ns v \<and> calls (run_event (Join t) s') t = Leading ns k} = {}"
proof -
  note inv = c_reachable_inv [OF c_reachable_run [OF assms(1,3)]]
  have "calls s' l = Threw ns gen" using ended_stays_run [OF assms(3), of l] assms(2) by simp
  then obtain g where g: "map_of (groups s') ns = Some g" "generation g = gen"
    using c_invD(2) [OF inv, of l] assms(4) by (auto simp: thread_ok_def memberOf_def)
  note ok = c_invD(3) [OF inv g(1)]
  have "\<not> w_done (waiterStates s' t)" if w: "calls s' t = Waiting ns gen" for t
  proof
    assume "w_done (waiterStates s' t)"
    then obtain k where "(gen, ns, k, readState (waiterStates s' t)) \<in> set (published s')"
      using waiting_done_out(2) [OF inv w _ assms(4)] by blast
    then have "gen \<in> fst ` set (published s')" by (auto intro: rev_image_eqI)
    then show False using ok g(2) by (simp add: group_ok_def)
  qed
  moreover have "\<not> canPromote ns gen s'" using g ok by (simp add: canPromote_def group_ok_def)
  moreover have "calls (joinOrLead t ns v s') t \<noteq> Leading ns k" for t v k
    using g by (simp add: joinOrLead_def Let_def)
  ultimately show ?thesis using g assms(4) by auto
qed

theorem failed_leader_blocks_witness:
  "calls exampleThrown 1 = Threw ''config.chunks'' 1 \<and> calls exampleThrown 2 = Waiting ''config.chunks'' 1 \<and>
   run_events [Timeout 3] exampleThrown = Some (run_event (Timeout 3) exampleThrown) \<and>
   (\<exists>g. map_of (groups (run_event (Timeout 3) exampleThrown)) ''config.chunks'' = Some g \<and> generation g = 1) \<and>
   \<not> event_ok (Wake 2) (run_event (Timeout 3) exampleThrown)"
proof -
  let ?s = "run_event (Timeout 3) exampleThrown"
  have "event_ok (Timeout 3) exampleThrown" by code_simp
  then have r: "run_events [Timeout 3] exampleThrown = Some ?s" by simp
  have "calls exampleThrown 1 = Threw ''config.chunks'' 1" "calls exampleThrown 2 = Waiting ''config.chunks'' 1"
    "\<not> is_shutdown ?s" "calls ?s 2 = Waiting ''config.chunks'' 1" by code_simp+
  with failed_leader_blocks [OF example_reachable(3) this(1) r this(3)] r show ?thesis by blast
qed

subsection \<open>Accounting\<close>

fun isEntered :: "'d call \<Rightarrow> bool" where
  "isEntered (Entered ns v) = True"
| "isEntered _ = False"

fun isLeading :: "'d call \<Rightarrow> bool" where
  "isLeading (Leading ns gen) = True"
| "isLeading _ = False"

fun isWaiting :: "'d call \<Rightarrow> bool" where
  "isWaiting (Waiting ns gen) = True"
| "isWaiting _ = False"

text \<open>How a count of threads by program point changes when one thread moves.\<close>

lemma card_upd:
  assumes "finite {u. P (f u)}"
  shows "finite {u. P ((f(t := c)) u)}"
    "card {u. P ((f(t := c)) u)} + ind (P (f t)) = card {u. P (f u)} + ind (P c)"
proof -
  have eq: "{u. P ((f(t := c)) u)} = (if P c then insert t {u. P (f u)} else {u. P (f u)} - {t})" by auto
  then show "finite {u. P ((f(t := c)) u)}" using assms by simp
  have "0 < card {u. P (f u)}" if "P (f t)" using assms that by (auto simp: card_gt_0_iff)
  then show "card {u. P ((f(t := c)) u)} + ind (P (f t)) = card {u. P (f u)} + ind (P c)"
    using assms unfolding eq by (auto simp: ind_def card_insert_if card_Diff_singleton_if)
qed

definition stats_inv :: "'d Coalescer \<Rightarrow> bool" where
  "stats_inv s \<longleftrightarrow>
     finite {t. isEntered (calls s t)} \<and> finite {t. isLeading (calls s t)} \<and> finite {t. isWaiting (calls s t)} \<and>
     coalescedRequests (stats s) + actualQueries (stats s) + card {t. isEntered (calls s t)} + card {t. isLeading (calls s t)}
       \<le> totalRequests (stats s) \<and>
     timeoutRequests (stats s) + card {t. isWaiting (calls s t)} \<le> coalescedRequests (stats s) \<and>
     overflowRequests (stats s) + versionGapSkippedRequests (stats s) \<le> actualQueries (stats s)"

lemma stats_inv_move:
  assumes "stats_inv s" "calls s' = (calls s)(t := c)"
    "coalescedRequests (stats s') + actualQueries (stats s') + ind (isEntered c) + ind (isLeading c) + totalRequests (stats s)
       \<le> totalRequests (stats s') + coalescedRequests (stats s) + actualQueries (stats s)
           + ind (isEntered (calls s t)) + ind (isLeading (calls s t))"
    "timeoutRequests (stats s') + ind (isWaiting c) + coalescedRequests (stats s)
       \<le> coalescedRequests (stats s') + timeoutRequests (stats s) + ind (isWaiting (calls s t))"
    "overflowRequests (stats s') + versionGapSkippedRequests (stats s') + actualQueries (stats s)
       \<le> actualQueries (stats s') + overflowRequests (stats s) + versionGapSkippedRequests (stats s)"
  shows "stats_inv s'"
  using assms card_upd [of isEntered "calls s" t c] card_upd [of isLeading "calls s" t c] card_upd [of isWaiting "calls s" t c]
  unfolding stats_inv_def by simp

lemma removeWaiter_simps [simp]: "calls (removeWaiter t ns gen s) = calls s" "stats (removeWaiter t ns gen s) = stats s"
  by (simp_all add: removeWaiter_def split: option.split)

lemma publish_simps [simp]: "calls (publish t ns gen r s) = calls s"
  by (simp add: publish_def distribute_def Let_def split: option.split)

lemma stats_inv_step:
  assumes st: "stats_inv s" and inv: "c_inv s" and e: "event_ok e s" "e \<noteq> ResetStats"
  shows "stats_inv (run_event e s)"
proof (cases e)
  case (Enter t ns v)
  then show ?thesis using e
    by (auto intro!: stats_inv_move [OF st, of _ t] simp: enterCoalesce_def)
next
  case (Join t)
  then show ?thesis using e
    by (auto intro!: stats_inv_move [OF st, of _ t] simp: joinOrLead_def Let_def split: call.splits option.splits)
next
  case (QueryReturns t r)
  then show ?thesis using e c_invD(2) [OF inv, of t]
    by (auto intro!: stats_inv_move [OF st, of _ t] simp: leaderFinish_def publish_def distribute_def Let_def thread_ok_def
        split: call.splits option.splits)
next
  case (QueryThrows t)
  then show ?thesis using e c_invD(2) [OF inv, of t]
    by (auto intro!: stats_inv_move [OF st, of _ t] simp: thread_ok_def split: call.splits)
next
  case (Timeout t)
  then show ?thesis using e
    by (auto intro!: stats_inv_move [OF st, of _ t] simp: followerTimeout_def split: call.splits)
next
  case (Wake t)
  then show ?thesis using e
    by (auto intro!: stats_inv_move [OF st, of _ t] simp: followerWake_def split: call.splits)
next
  case (Promote t)
  then show ?thesis using e c_invD(3) [OF inv]
    by (auto simp: canPromote_def group_ok_def split: call.splits option.splits)
next
  case ShutdownEvent
  then show ?thesis using st by (simp add: stats_inv_def shutdownCoalescer_def)
qed (use e in simp)

lemma stats_inv_run:
  "run_events es s = Some s' \<Longrightarrow> stats_inv s \<Longrightarrow> c_inv s \<Longrightarrow> ResetStats \<notin> set es \<Longrightarrow> stats_inv s'"
proof (induction es arbitrary: s)
  case (Cons e es)
  then show ?case using stats_inv_step [of s e] run_event_inv [of s e] by (auto split: if_splits)
qed simp

text \<open>
  As long as the statistics are not reset, every request is counted as coalesced or as an executed
  query at most once, so the coalescing rate is at most one; timeouts are a part of the coalesced
  requests, overflows and version-gap skips a part of the queries.
\<close>

theorem stats_bounds:
  assumes "run_events es (ConfigQueryCoalescer_new c) = Some s" "ResetStats \<notin> set es"
  shows "coalescedRequests (stats s) + actualQueries (stats s) \<le> totalRequests (stats s) \<and>
    timeoutRequests (stats s) \<le> coalescedRequests (stats s) \<and>
    overflowRequests (stats s) + versionGapSkippedRequests (stats s) \<le> actualQueries (stats s)"
proof -
  have "stats_inv (ConfigQueryCoalescer_new c)" by (simp add: stats_inv_def ConfigQueryCoalescer_new_def Stats_new_def)
  then have "stats_inv s" by (rule stats_inv_run [OF assms(1) _ c_inv_init assms(2)])
  then show ?thesis by (simp add: stats_inv_def)
qed

theorem stats_bounds_witness:
  "\<exists>s. run_events exampleEvents (ConfigQueryCoalescer_new Config_default) = Some s \<and>
     totalRequests (stats s) = 3 \<and> coalescedRequests (stats s) + actualQueries (stats s) \<le> 3 \<and>
     timeoutRequests (stats s) \<le> coalescedRequests (stats s) \<and>
     overflowRequests (stats s) + versionGapSkippedRequests (stats s) \<le> actualQueries (stats s)"
proof -
  let ?r = "run_events exampleEvents (ConfigQueryCoalescer_new Config_default)"
  have "\<not> Option.is_none ?r" by code_simp
  then have r: "?r = Some (the ?r)" by (cases ?r) auto
  have n: "ResetStats \<notin> set exampleEvents" by (simp add: exampleEvents_def)
  have "totalRequests (stats (the ?r)) = 3" by code_simp
  with stats_bounds [OF r n] r show ?thesis by metis
qed

end
