(* ===== verification/Coalescer_Parameters.thy ===== *)
theory Coalescer_Parameters
  imports Prelude
begin

text \<open>
  The runtime parameters of the query coalescer, the \<^verbatim>\<open>ServerParameter\<close> classes at the head of
  \<^verbatim>\<open>src/mongo/db/s/config/config_query_coalescer.cpp\<close>, with the number accessors of
  \<^verbatim>\<open>BSONElement\<close> they read a new value with.  The casts of a floating-point or decimal number to the
  two integer types are part of the element here.
\<close>

section \<open>Definitions\<close>

datatype Element =
    BoolElement bool
  | IntElement "32 word"
  | LongElement "64 word"
  | FloatElement "32 word" "64 word"
  | OtherElement

fun isNumber :: "Element \<Rightarrow> bool" where
  "isNumber (IntElement i) = True"
| "isNumber (LongElement l) = True"
| "isNumber (FloatElement i l) = True"
| "isNumber _ = False"

fun numberInt :: "Element \<Rightarrow> 32 word" where
  "numberInt (FloatElement i l) = i"
| "numberInt (IntElement i) = i"
| "numberInt (LongElement l) = ucast l"
| "numberInt _ = 0"

fun numberLong :: "Element \<Rightarrow> 64 word" where
  "numberLong (FloatElement i l) = l"
| "numberLong (IntElement i) = scast i"
| "numberLong (LongElement l) = l"
| "numberLong _ = 0"

text \<open>
  \<open>std::stoi\<close> and \<open>std::stoll\<close>: white space, a sign, decimal digits; what follows is ignored, no digit
  or a value out of range throws (\<open>None\<close>).
\<close>

definition isSpace :: "char \<Rightarrow> bool" where
  "isSpace c \<longleftrightarrow> c \<in> {CHR '' '', CHR 0x09, CHR 0x0A, CHR 0x0B, CHR 0x0C, CHR 0x0D}"

definition digitOf :: "char \<Rightarrow> int option" where
  "digitOf c = (let n = int (of_char c :: nat) in if 48 \<le> n \<and> n \<le> 57 then Some (n - 48) else None)"

fun leadingNumber :: "int \<Rightarrow> string \<Rightarrow> int" where
  "leadingNumber acc [] = acc"
| "leadingNumber acc (c # cs) =
     (case digitOf c of None \<Rightarrow> acc | Some d \<Rightarrow> leadingNumber (10 * acc + d) cs)"

definition stringToInt :: "int \<Rightarrow> int \<Rightarrow> string \<Rightarrow> int option" where
  "stringToInt lo hi str =
     (let s1 = dropWhile isSpace str;
          neg = (s1 \<noteq> [] \<and> hd s1 = CHR ''-'');
          s2 = (if s1 \<noteq> [] \<and> hd s1 \<in> {CHR ''-'', CHR ''+''} then tl s1 else s1)
      in if s2 = [] \<or> digitOf (hd s2) = None then None
         else let v = (if neg then - leadingNumber 0 s2 else leadingNumber 0 s2)
              in if lo \<le> v \<and> v \<le> hi then Some v else None)"

definition stoi :: "string \<Rightarrow> int option" where
  "stoi = stringToInt (- (2 ^ 31)) (2 ^ 31 - 1)"

definition stoll :: "string \<Rightarrow> int option" where
  "stoll = stringToInt (- (2 ^ 63)) (2 ^ 63 - 1)"

datatype ParamError = TypeMismatch | BadValue

text \<open>The boolean parameter: the new value of the atomic variable, or the error.\<close>

definition enabled_set :: "Element \<Rightarrow> ParamError + bool" where
  "enabled_set newValueElement =
     (case newValueElement of BoolElement b \<Rightarrow> Inr b | _ \<Rightarrow> Inl TypeMismatch)"

definition enabled_setFromString :: "string \<Rightarrow> ParamError + bool" where
  "enabled_setFromString str =
     (if str = ''true'' \<or> str = ''1'' then Inr True
      else if str = ''false'' \<or> str = ''0'' then Inr False
      else Inl BadValue)"

definition int_set :: "int \<Rightarrow> int \<Rightarrow> Element \<Rightarrow> ParamError + int" where
  "int_set minVal maxVal newValueElement =
     (if \<not> isNumber newValueElement then Inl TypeMismatch
      else let newValue = sint (numberInt newValueElement)
           in if newValue < minVal \<or> newValue > maxVal then Inl BadValue else Inr newValue)"

definition int_setFromString :: "int \<Rightarrow> int \<Rightarrow> string \<Rightarrow> ParamError + int" where
  "int_setFromString minVal maxVal str =
     (case stoi str of
        None \<Rightarrow> Inl BadValue
      | Some newValue \<Rightarrow> if newValue < minVal \<or> newValue > maxVal then Inl BadValue else Inr newValue)"

definition maxVersionGap_set :: "Element \<Rightarrow> ParamError + int" where
  "maxVersionGap_set newValueElement =
     (if \<not> isNumber newValueElement then Inl TypeMismatch
      else let newValue = sint (numberLong newValueElement)
           in if newValue < 1 \<or> newValue > 100000 then Inl BadValue else Inr newValue)"

definition maxVersionGap_setFromString :: "string \<Rightarrow> ParamError + int" where
  "maxVersionGap_setFromString str =
     (case stoll str of
        None \<Rightarrow> Inl BadValue
      | Some newValue \<Rightarrow> if newValue < 1 \<or> newValue > 100000 then Inl BadValue else Inr newValue)"

text \<open>The five parameters with their initial values, and one request to change one of them.\<close>

record CoalescerParameters =
  enabled :: bool
  windowMS :: int
  maxWaitMS :: int
  maxWaiters :: int
  versionGapLimit :: int

definition Parameters_initial :: CoalescerParameters where
  "Parameters_initial = \<lparr>enabled = False, windowMS = 5, maxWaitMS = 100, maxWaiters = 1000, versionGapLimit = 500\<rparr>"

datatype ParamName = Enabled | WindowMS | MaxWaitMS | MaxWaiters | MaxVersionGap

datatype ParamRequest = SetElement ParamName Element | SetString ParamName string

definition stored :: "('v \<Rightarrow> CoalescerParameters) \<Rightarrow> CoalescerParameters \<Rightarrow> ParamError + 'v \<Rightarrow> ParamError option \<times> CoalescerParameters" where
  "stored f p r = (case r of Inl e \<Rightarrow> (Some e, p) | Inr v \<Rightarrow> (None, f v))"

fun setParameter :: "ParamRequest \<Rightarrow> CoalescerParameters \<Rightarrow> ParamError option \<times> CoalescerParameters" where
  "setParameter (SetElement Enabled e) p = stored (\<lambda>v. p\<lparr>enabled := v\<rparr>) p (enabled_set e)"
| "setParameter (SetElement WindowMS e) p = stored (\<lambda>v. p\<lparr>windowMS := v\<rparr>) p (int_set 1 1000 e)"
| "setParameter (SetElement MaxWaitMS e) p = stored (\<lambda>v. p\<lparr>maxWaitMS := v\<rparr>) p (int_set 10 60000 e)"
| "setParameter (SetElement MaxWaiters e) p = stored (\<lambda>v. p\<lparr>maxWaiters := v\<rparr>) p (int_set 1 100000 e)"
| "setParameter (SetElement MaxVersionGap e) p = stored (\<lambda>v. p\<lparr>versionGapLimit := v\<rparr>) p (maxVersionGap_set e)"
| "setParameter (SetString Enabled s) p = stored (\<lambda>v. p\<lparr>enabled := v\<rparr>) p (enabled_setFromString s)"
| "setParameter (SetString WindowMS s) p = stored (\<lambda>v. p\<lparr>windowMS := v\<rparr>) p (int_setFromString 1 1000 s)"
| "setParameter (SetString MaxWaitMS s) p = stored (\<lambda>v. p\<lparr>maxWaitMS := v\<rparr>) p (int_setFromString 10 60000 s)"
| "setParameter (SetString MaxWaiters s) p = stored (\<lambda>v. p\<lparr>maxWaiters := v\<rparr>) p (int_setFromString 1 100000 s)"
| "setParameter (SetString MaxVersionGap s) p = stored (\<lambda>v. p\<lparr>versionGapLimit := v\<rparr>) p (maxVersionGap_setFromString s)"

definition setParameters :: "ParamRequest list \<Rightarrow> CoalescerParameters \<Rightarrow> CoalescerParameters" where
  "setParameters rs p = fold (\<lambda>r p. snd (setParameter r p)) rs p"

definition parameters_ok :: "CoalescerParameters \<Rightarrow> bool" where
  "parameters_ok p \<longleftrightarrow> windowMS p \<in> {1..1000} \<and> maxWaitMS p \<in> {10..60000} \<and> maxWaiters p \<in> {1..100000} \<and>
     versionGapLimit p \<in> {1..100000}"

section \<open>Properties\<close>

lemmas set_defs = int_set_def int_setFromString_def maxVersionGap_set_def maxVersionGap_setFromString_def

lemma int_set_range: "int_set lo hi e = Inr v \<Longrightarrow> lo \<le> v \<and> v \<le> hi"
  "int_setFromString lo hi s = Inr v \<Longrightarrow> lo \<le> v \<and> v \<le> hi"
  "maxVersionGap_set e = Inr v \<Longrightarrow> 1 \<le> v \<and> v \<le> 100000"
  "maxVersionGap_setFromString s = Inr v \<Longrightarrow> 1 \<le> v \<and> v \<le> 100000"
  by (auto simp: set_defs Let_def split: if_splits option.splits)

lemma setParameter_ok: "parameters_ok p \<Longrightarrow> parameters_ok (snd (setParameter r p))"
  by (cases "(r, p)" rule: setParameter.cases)
    (auto simp: parameters_ok_def stored_def split: sum.split dest: int_set_range)

lemma setParameter_error: "fst (setParameter r p) = Some e \<Longrightarrow> snd (setParameter r p) = p"
  by (cases "(r, p)" rule: setParameter.cases) (auto simp: stored_def split: sum.splits)

text \<open>C18:
  Whatever sequence of setParameter requests is made, with elements or strings, every numeric
  parameter stays within its documented range, and a request that is answered with an error changes
  nothing.
\<close>

theorem parameters_in_range:
  "parameters_ok (setParameters rs Parameters_initial) \<and>
   (fst (setParameter r p) = None \<or> snd (setParameter r p) = p)"
proof -
  have "parameters_ok p \<Longrightarrow> parameters_ok (setParameters rs p)" for p
    unfolding setParameters_def by (induction rs arbitrary: p) (simp_all add: setParameter_ok)
  moreover have "parameters_ok Parameters_initial" by (simp add: parameters_ok_def Parameters_initial_def)
  ultimately show ?thesis using setParameter_error [of r p] by (cases "fst (setParameter r p)") auto
qed

text \<open>
  A 64-bit value out of range is accepted when its low half is in range: the integer parameters
  narrow the element before they test it.
\<close>

lemma narrowed_value_accepted: "setParameter (SetElement WindowMS (LongElement 4294967301)) p = (None, p\<lparr>windowMS := 5\<rparr>)"
  by (simp add: int_set_def stored_def)

text \<open>The test reads the leading digits only.\<close>

lemma trailing_text_accepted: "setParameter (SetString WindowMS ''7 days'') p = (None, p\<lparr>windowMS := 7\<rparr>)"
proof -
  have "int_setFromString 1 1000 ''7 days'' = Inr 7" by code_simp
  then show ?thesis by (simp add: stored_def)
qed

end
