(* ===== verification/Privileges.thy ===== *)
theory Privileges
  imports Prelude
begin

text \<open>
  Action sets, resource patterns and privilege vectors of the access control system:
  \<^verbatim>\<open>src/mongo/db/auth/action_set.cpp\<close>, \<^verbatim>\<open>resource_pattern.h\<close>, \<^verbatim>\<open>privilege.cpp\<close> and the privilege map
  of \<^verbatim>\<open>user.cpp\<close>.  An action type is its name; the bit set of the source is the set of the names
  whose bits are set.  \<open>actions_ok\<close> is the type invariant of these bit sets: only known actions, and
  the bit of the special action \<open>anyAction\<close> only together with all others.

  Privilege vectors and users are two stores of privileges with one contract, the locale
  \<open>privilege_store\<close>: what a store grants on a resource after privileges were added is the union of
  what it granted and what was added.
\<close>

section \<open>Definitions\<close>

subsection \<open>Action sets\<close>

type_synonym ActionType = string
type_synonym ActionSet = "ActionType set"

definition actionTypes :: "ActionType list" where
  "actionTypes = [
    ''addShard'', ''anyAction'', ''appendOplogNote'', ''applicationMessage'', ''auditLogRotate'',
    ''authCheck'', ''authenticate'', ''authSchemaUpgrade'', ''bypassDocumentValidation'',
    ''changeCustomData'', ''changePassword'', ''changeOwnPassword'', ''changeOwnCustomData'',
    ''cleanupOrphaned'', ''closeAllDatabases'', ''collMod'', ''collStats'', ''compact'',
    ''connPoolStats'', ''connPoolSync'', ''convertToCapped'', ''cpuProfiler'',
    ''createCollection'', ''createDatabase'', ''createIndex'', ''createRole'', ''createUser'',
    ''dbHash'', ''dbStats'', ''diagLogging'', ''dropAllRolesFromDatabase'',
    ''dropAllUsersFromDatabase'', ''dropCollection'', ''dropDatabase'', ''dropIndex'',
    ''dropRole'', ''dropUser'', ''emptycapped'', ''enableProfiler'', ''enableSharding'', ''find'',
    ''flushRouterConfig'', ''fsync'', ''getCmdLineOpts'', ''getLog'', ''getParameter'',
    ''getShardMap'', ''getShardVersion'', ''grantRole'', ''grantPrivilegesToRole'',
    ''grantRolesToRole'', ''grantRolesToUser'', ''hostInfo'', ''impersonate'', ''indexStats'',
    ''inprog'', ''insert'', ''internal'', ''invalidateUserCache'', ''killCursors'', ''killop'',
    ''listCollections'', ''listDatabases'', ''listIndexes'', ''listShards'', ''logRotate'',
    ''moveChunk'', ''netstat'', ''planCacheIndexFilter'', ''planCacheRead'', ''planCacheWrite'',
    ''reIndex'', ''remove'', ''removeShard'', ''renameCollection'', ''renameCollectionSameDB'',
    ''repairDatabase'', ''replSetConfigure'', ''replSetGetConfig'', ''replSetGetStatus'',
    ''replSetHeartbeat'', ''replSetReconfig'', ''replSetStateChange'', ''resync'', ''revokeRole'',
    ''revokePrivilegesFromRole'', ''revokeRolesFromRole'', ''revokeRolesFromUser'',
    ''serverStatus'', ''setParameter'', ''shardCollection'', ''shardingState'', ''shutdown'',
    ''splitChunk'', ''splitVector'', ''storageDetails'', ''top'', ''touch'', ''unlock'',
    ''update'', ''updateRole'', ''updateUser'', ''validate'', ''viewRole'', ''viewUser''
  ]"

definition anyAction :: ActionType where
  "anyAction = ''anyAction''"

definition addAllActions :: ActionSet where
  "addAllActions = set actionTypes"

definition addAction :: "ActionType \<Rightarrow> ActionSet \<Rightarrow> ActionSet" where
  "addAction a s = (if a = anyAction then addAllActions else insert a s)"

definition ActionSet_new :: "ActionType list \<Rightarrow> ActionSet" where
  "ActionSet_new as = fold addAction as {}"

definition addAllActionsFromSet :: "ActionSet \<Rightarrow> ActionSet \<Rightarrow> ActionSet" where
  "addAllActionsFromSet actions s = (if anyAction \<in> actions then addAllActions else s \<union> actions)"

definition removeAction :: "ActionType \<Rightarrow> ActionSet \<Rightarrow> ActionSet" where
  "removeAction a s = s - {a} - {anyAction}"

definition removeAllActionsFromSet :: "ActionSet \<Rightarrow> ActionSet \<Rightarrow> ActionSet" where
  "removeAllActionsFromSet other s = (let s1 = s - other in if other \<noteq> {} then s1 - {anyAction} else s1)"

definition isSupersetOf :: "ActionSet \<Rightarrow> ActionSet \<Rightarrow> bool" where
  "isSupersetOf s other \<longleftrightarrow> s \<inter> other = other"

definition parseActionFromString :: "string \<Rightarrow> ActionType option" where
  "parseActionFromString str = (if str \<in> set actionTypes then Some str else None)"

fun parseActions :: "ActionSet \<Rightarrow> string list \<Rightarrow> string list \<Rightarrow> ActionSet \<times> string list" where
  "parseActions result unrecognized [] = (result, unrecognized)"
| "parseActions result unrecognized (a # as) =
     (case parseActionFromString a of
        None \<Rightarrow> parseActions result (unrecognized @ [a]) as
      | Some action \<Rightarrow>
          if action = anyAction then (addAllActions, unrecognized)
          else parseActions (addAction action result) unrecognized as)"

definition parseActionSetFromStringVector :: "string list \<Rightarrow> ActionSet \<times> string list" where
  "parseActionSetFromStringVector actionsVector = parseActions {} [] actionsVector"

definition getActionsAsStrings :: "ActionSet \<Rightarrow> string list" where
  "getActionsAsStrings s = (if anyAction \<in> s then [anyAction] else filter (\<lambda>a. a \<in> s) actionTypes)"

subsection \<open>Resource patterns and privileges\<close>

text \<open>
  A namespace is the pair of database and collection; the constructor of \<open>NamespaceString\<close> refuses a
  dot in the database name, so the concatenation it compares determines the pair.
\<close>

type_synonym NamespaceString = "string \<times> string"

datatype ResourcePattern =
    Never
  | ClusterResource
  | DatabaseName string
  | CollectionName string
  | ExactNamespace NamespaceString
  | AnyNormalResource
  | AnyResource

definition isSystem :: "NamespaceString \<Rightarrow> bool" where
  "isSystem ns \<longleftrightarrow> take 7 (snd ns) = ''system.''"

record Privilege =
  resource :: ResourcePattern
  actions :: ActionSet

definition privilegeOn :: "ResourcePattern \<Rightarrow> ActionSet \<Rightarrow> Privilege" where
  "privilegeOn r as = \<lparr>resource = r, actions = as\<rparr>"

definition privilegeOn1 :: "ResourcePattern \<Rightarrow> ActionType \<Rightarrow> Privilege" where
  "privilegeOn1 r a = \<lparr>resource = r, actions = addAction a {}\<rparr>"

definition addActions :: "ActionSet \<Rightarrow> Privilege \<Rightarrow> Privilege" where
  "addActions as p = p\<lparr>actions := addAllActionsFromSet as (actions p)\<rparr>"

definition removeActions :: "ActionSet \<Rightarrow> Privilege \<Rightarrow> Privilege" where
  "removeActions as p = p\<lparr>actions := removeAllActionsFromSet as (actions p)\<rparr>"

definition includesAction :: "ActionType \<Rightarrow> Privilege \<Rightarrow> bool" where
  "includesAction a p \<longleftrightarrow> a \<in> actions p"

definition includesActions :: "ActionSet \<Rightarrow> Privilege \<Rightarrow> bool" where
  "includesActions as p \<longleftrightarrow> isSupersetOf (actions p) as"

type_synonym PrivilegeVector = "Privilege list"

fun addPrivilegeToPrivilegeVector :: "PrivilegeVector \<Rightarrow> Privilege \<Rightarrow> PrivilegeVector" where
  "addPrivilegeToPrivilegeVector [] p = [p]"
| "addPrivilegeToPrivilegeVector (it # rest) p =
     (if resource it = resource p then addActions (actions p) it # rest
      else it # addPrivilegeToPrivilegeVector rest p)"

subsection \<open>The privileges of a user\<close>

type_synonym UserPrivileges = "(ResourcePattern \<times> Privilege) list"

definition getActionsForResource :: "UserPrivileges \<Rightarrow> ResourcePattern \<Rightarrow> ActionSet" where
  "getActionsForResource u r = (case map_of u r of None \<Rightarrow> {} | Some p \<Rightarrow> actions p)"

definition setPrivileges :: "PrivilegeVector \<Rightarrow> UserPrivileges" where
  "setPrivileges ps = fold (\<lambda>p u. AList.update (resource p) p u) ps []"

definition addPrivilege :: "Privilege \<Rightarrow> UserPrivileges \<Rightarrow> UserPrivileges" where
  "addPrivilege p u =
     (case map_of u (resource p) of
        None \<Rightarrow> AList.update (resource p) p u
      | Some q \<Rightarrow> AList.update (resource p) (addActions (actions p) q) u)"

definition addPrivileges :: "PrivilegeVector \<Rightarrow> UserPrivileges \<Rightarrow> UserPrivileges" where
  "addPrivileges ps u = fold addPrivilege ps u"

section \<open>The type invariant of action sets\<close>

definition actions_ok :: "ActionSet \<Rightarrow> bool" where
  "actions_ok s \<longleftrightarrow> s \<subseteq> addAllActions \<and> (anyAction \<in> s \<longrightarrow> s = addAllActions)"

definition privilege_ok :: "Privilege \<Rightarrow> bool" where
  "privilege_ok p \<longleftrightarrow> actions_ok (actions p)"

named_theorems actions_ok_intros \<open>operations that keep action sets well-formed\<close>

lemma anyAction_all [simp]: "anyAction \<in> addAllActions"
  by (simp add: anyAction_def addAllActions_def actionTypes_def)

lemma actions_ok_empty [simp, actions_ok_intros]: "actions_ok {}"
  by (simp add: actions_ok_def)

lemma actions_ok_all [simp, actions_ok_intros]: "actions_ok addAllActions"
  by (simp add: actions_ok_def)

lemma actions_ok_Un [actions_ok_intros]: "actions_ok s \<Longrightarrow> actions_ok t \<Longrightarrow> actions_ok (s \<union> t)"
  by (auto simp: actions_ok_def)

lemma addAllActionsFromSet_Un: "actions_ok s \<Longrightarrow> actions_ok t \<Longrightarrow> addAllActionsFromSet t s = s \<union> t"
  by (auto simp: actions_ok_def addAllActionsFromSet_def)

lemma actions_ok_addAction [actions_ok_intros]:
  "a \<in> addAllActions \<Longrightarrow> actions_ok s \<Longrightarrow> actions_ok (addAction a s)"
  by (auto simp: actions_ok_def addAction_def)

lemma actions_ok_fold:
  "set as \<subseteq> addAllActions \<Longrightarrow> actions_ok s \<Longrightarrow> actions_ok (fold addAction as s)"
  by (induction as arbitrary: s) (auto intro: actions_ok_intros)

lemma actions_ok_new [actions_ok_intros]: "set as \<subseteq> addAllActions \<Longrightarrow> actions_ok (ActionSet_new as)"
  unfolding ActionSet_new_def by (rule actions_ok_fold) simp_all

lemma actions_ok_remove [actions_ok_intros]: "actions_ok s \<Longrightarrow> actions_ok (removeAllActionsFromSet t s)"
  "actions_ok s \<Longrightarrow> actions_ok (removeAction a s)"
  by (auto simp: actions_ok_def removeAllActionsFromSet_def removeAction_def Let_def)

lemma removeAllActionsFromSet_eq:
  "actions_ok s \<Longrightarrow> removeAllActionsFromSet t s = (if t = {} then s else s - t - {anyAction})"
  by (simp add: removeAllActionsFromSet_def)

lemma isSupersetOf_iff [simp]: "isSupersetOf s t \<longleftrightarrow> t \<subseteq> s"
  by (auto simp: isSupersetOf_def)

section \<open>Names of actions\<close>

lemma parseActions_known:
  assumes "set as \<subseteq> addAllActions" "anyAction \<notin> set as"
  shows "parseActions result bad as = (result \<union> set as, bad)"
  using assms by (induction as arbitrary: result)
    (auto simp: parseActionFromString_def addAllActions_def addAction_def)

text \<open>The printed names of a well-formed action set parse back to that set, with nothing unrecognized.\<close>

lemma actions_roundtrip:
  assumes "actions_ok s"
  shows "parseActionSetFromStringVector (getActionsAsStrings s) = (s, [])"
proof (cases "anyAction \<in> s")
  case True
  then have "s = addAllActions" using assms by (simp add: actions_ok_def)
  then show ?thesis using anyAction_all
    by (simp add: parseActionSetFromStringVector_def getActionsAsStrings_def parseActionFromString_def addAllActions_def)
next
  case False
  have "set (filter (\<lambda>a. a \<in> s) actionTypes) = s" using assms by (auto simp: actions_ok_def addAllActions_def)
  then show ?thesis using False assms parseActions_known [of "filter (\<lambda>a. a \<in> s) actionTypes" "{}" "[]"]
    by (simp add: parseActionSetFromStringVector_def getActionsAsStrings_def actions_ok_def)
qed

section \<open>Stores of privileges\<close>

text \<open>What a privilege vector grants on a resource.\<close>

definition grants :: "PrivilegeVector \<Rightarrow> ResourcePattern \<Rightarrow> ActionSet" where
  "grants ps r = (\<Union>p \<in> {p \<in> set ps. resource p = r}. actions p)"

lemma grants_simps [simp]:
  "grants [] r = {}"
  "grants (p # ps) r = (if resource p = r then actions p else {}) \<union> grants ps r"
  "grants (ps @ qs) r = grants ps r \<union> grants qs r"
  by (auto simp: grants_def)

lemma grants_ok: "list_all privilege_ok ps \<Longrightarrow> actions_ok (grants ps r)"
  by (induction ps) (auto simp: privilege_ok_def intro!: actions_ok_intros)

locale privilege_store =
  fixes add :: "Privilege \<Rightarrow> 's \<Rightarrow> 's"
    and acts :: "'s \<Rightarrow> ResourcePattern \<Rightarrow> ActionSet"
    and store_ok :: "'s \<Rightarrow> bool"
  assumes add_ok: "store_ok s \<Longrightarrow> privilege_ok p \<Longrightarrow> store_ok (add p s)"
    and acts_ok: "store_ok s \<Longrightarrow> actions_ok (acts s r)"
    and acts_add: "store_ok s \<Longrightarrow> privilege_ok p \<Longrightarrow>
      acts (add p s) r = acts s r \<union> (if r = resource p then actions p else {})"
begin

lemma add_all_ok: "store_ok s \<Longrightarrow> list_all privilege_ok ps \<Longrightarrow> store_ok (fold add ps s)"
  by (induction ps arbitrary: s) (auto intro: add_ok)

lemma acts_add_all:
  "store_ok s \<Longrightarrow> list_all privilege_ok ps \<Longrightarrow> acts (fold add ps s) r = acts s r \<union> grants ps r"
  by (induction ps arbitrary: s) (auto simp: add_ok acts_add)

lemma acts_mono: "store_ok s \<Longrightarrow> list_all privilege_ok ps \<Longrightarrow> acts s r \<subseteq> acts (fold add ps s) r"
  by (simp add: acts_add_all)

end

lemma addPrivilege_vector_ok:
  "list_all privilege_ok ps \<Longrightarrow> privilege_ok p \<Longrightarrow> list_all privilege_ok (addPrivilegeToPrivilegeVector ps p)"
  by (induction ps) (auto simp: privilege_ok_def addActions_def addAllActionsFromSet_Un intro!: actions_ok_intros)

lemma grants_addPrivilege:
  "list_all privilege_ok ps \<Longrightarrow> privilege_ok p \<Longrightarrow>
   grants (addPrivilegeToPrivilegeVector ps p) r = grants ps r \<union> (if r = resource p then actions p else {})"
proof (induction ps)
  case (Cons q ps)
  then show ?case
    by (cases "resource q = resource p"; cases "r = resource p")
      (simp_all add: privilege_ok_def addActions_def addAllActionsFromSet_Un Un_ac)
qed simp

interpretation vector: privilege_store "\<lambda>p ps. addPrivilegeToPrivilegeVector ps p" grants "list_all privilege_ok"
  by unfold_locales (simp_all add: addPrivilege_vector_ok grants_addPrivilege grants_ok)

definition user_ok :: "UserPrivileges \<Rightarrow> bool" where
  "user_ok u \<longleftrightarrow> (\<forall>r p. map_of u r = Some p \<longrightarrow> privilege_ok p)"

lemma user_addPrivilege:
  assumes "user_ok u" "privilege_ok p"
  shows "user_ok (addPrivilege p u)"
    "getActionsForResource (addPrivilege p u) r = getActionsForResource u r \<union> (if r = resource p then actions p else {})"
  using assms
  by (auto simp: user_ok_def addPrivilege_def getActionsForResource_def update_conv' privilege_ok_def addActions_def
      addAllActionsFromSet_Un intro!: actions_ok_intros split: option.splits if_splits)

lemma user_acts_ok: "user_ok u \<Longrightarrow> actions_ok (getActionsForResource u r)"
  by (auto simp: user_ok_def getActionsForResource_def privilege_ok_def split: option.split)

interpretation user: privilege_store addPrivilege getActionsForResource user_ok
  by unfold_locales (rule user_addPrivilege user_acts_ok; assumption)+

lemma user_ok_empty [simp]: "user_ok []" "getActionsForResource [] r = {}"
  by (simp_all add: user_ok_def getActionsForResource_def)

text \<open>
  The privileges of a user are those of the privilege vectors granted: adding privileges one by one
  to the map of a user and merging them into a vector grant the same actions on every resource,
  namely the union of what the single privileges grant.
\<close>

theorem user_privileges_equiv:
  assumes "list_all privilege_ok ps"
  shows "getActionsForResource (addPrivileges ps []) r = grants ps r \<and>
    grants (fold (\<lambda>p v. addPrivilegeToPrivilegeVector v p) ps []) r = grants ps r"
  using assms user.acts_add_all [of "[]" ps r] vector.acts_add_all [of "[]" ps r]
  by (simp add: addPrivileges_def)

theorem user_privileges_equiv_witness:
  "getActionsForResource (addPrivileges [privilegeOn1 (DatabaseName ''a'') ''find'', privilegeOn1 (DatabaseName ''a'') ''insert''] [])
     (DatabaseName ''a'') = {''find'', ''insert''}"
proof -
  have "list_all privilege_ok [privilegeOn1 (DatabaseName ''a'') ''find'', privilegeOn1 (DatabaseName ''a'') ''insert'']"
    unfolding privilege_ok_def actions_ok_def by code_simp
  from user_privileges_equiv [OF this, of "DatabaseName ''a''"] show ?thesis
    by (auto simp: privilegeOn1_def addAction_def anyAction_def)
qed

end
