(* ===== verification/Namespace_Names.thy ===== *)
theory Namespace_Names
  imports Prelude
begin

text \<open>
  The names of databases and collections (\<^verbatim>\<open>db/namespace_string-inl.h\<close>), which authorization and the
  insert path check.
\<close>

definition validDBName :: "bool \<Rightarrow> string \<Rightarrow> bool" where
  "validDBName allowDollar db \<longleftrightarrow>
     0 < length db \<and> length db < 64 \<and>
     list_all (\<lambda>c. c \<notin> {CHR 0x00, CHR ''/'', CHR 0x5C, CHR ''.'', CHR '' '', CHR 0x22} \<and>
                   (c = CHR ''$'' \<longrightarrow> allowDollar)) db"

definition validCollectionName :: "string \<Rightarrow> bool" where
  "validCollectionName coll \<longleftrightarrow>
     coll \<noteq> [] \<and> hd coll \<noteq> CHR ''.'' \<and> list_all (\<lambda>c. c \<noteq> CHR 0x00 \<and> c \<noteq> CHR ''$'') coll"

end
