(* ===== verification/Builtin_Roles.thy ===== *)
theory Builtin_Roles
  imports Privileges Namespace_Names
begin

text \<open>
  The built-in roles, \<^verbatim>\<open>src/mongo/db/auth/role_graph_builtin_roles.cpp\<close>: the action set of each kind of
  role, the privileges each role adds to a privilege vector, and which role names are built in.  A
  role name has the parts role and database; the code compares the concatenation of both, which
  determines the parts unless one of them contains the separator.
\<close>

section \<open>Definitions\<close>

datatype RoleName = RoleName (getRole: string) (getDB: string)

definition getFullName :: "RoleName \<Rightarrow> string" where
  "getFullName r = getRole r @ ''@'' @ getDB r"

definition addAll :: "PrivilegeVector \<Rightarrow> Privilege list \<Rightarrow> PrivilegeVector" where
  "addAll privileges ps = fold (\<lambda>p v. addPrivilegeToPrivilegeVector v p) ps privileges"

subsection \<open>Action sets\<close>

definition readRoleActions :: ActionSet where
  "readRoleActions = ActionSet_new
     [''collStats'', ''dbHash'', ''dbStats'', ''find'', ''killCursors'', ''listCollections'',
      ''listIndexes'', ''planCacheRead'']"

definition readWriteRoleActions :: ActionSet where
  "readWriteRoleActions = fold addAction
     [''convertToCapped'', ''createCollection'', ''dropCollection'', ''dropIndex'',
      ''emptycapped'', ''createIndex'', ''insert'', ''remove'', ''renameCollectionSameDB'',
      ''update'']
     (addAllActionsFromSet readRoleActions {})"

definition userAdminRoleActions :: ActionSet where
  "userAdminRoleActions = ActionSet_new
     [''changeCustomData'', ''changePassword'', ''createUser'', ''createRole'', ''dropUser'',
      ''dropRole'', ''grantRole'', ''revokeRole'', ''viewUser'', ''viewRole'']"

definition dbAdminRoleActions :: ActionSet where
  "dbAdminRoleActions = ActionSet_new
     [''bypassDocumentValidation'', ''collMod'', ''collStats'', ''compact'', ''convertToCapped'',
      ''createCollection'', ''dbStats'', ''dropCollection'', ''dropDatabase'', ''dropIndex'',
      ''createIndex'', ''enableProfiler'', ''listCollections'', ''listIndexes'',
      ''planCacheIndexFilter'', ''planCacheRead'', ''planCacheWrite'', ''reIndex'',
      ''renameCollectionSameDB'', ''repairDatabase'', ''storageDetails'', ''validate'']"

definition clusterMonitorRoleClusterActions :: ActionSet where
  "clusterMonitorRoleClusterActions = ActionSet_new
     [''connPoolStats'', ''getCmdLineOpts'', ''getLog'', ''getParameter'', ''getShardMap'',
      ''hostInfo'', ''listDatabases'', ''listShards'', ''netstat'', ''replSetGetConfig'',
      ''replSetGetStatus'', ''serverStatus'', ''top'', ''inprog'', ''shardingState'']"

definition clusterMonitorRoleDatabaseActions :: ActionSet where
  "clusterMonitorRoleDatabaseActions = ActionSet_new
     [''collStats'', ''dbStats'', ''getShardVersion'', ''indexStats'']"

definition hostManagerRoleClusterActions :: ActionSet where
  "hostManagerRoleClusterActions = ActionSet_new
     [''applicationMessage'', ''connPoolSync'', ''cpuProfiler'', ''logRotate'', ''setParameter'',
      ''shutdown'', ''touch'', ''unlock'', ''diagLogging'', ''flushRouterConfig'', ''fsync'',
      ''invalidateUserCache'', ''killop'', ''resync'']"

definition hostManagerRoleDatabaseActions :: ActionSet where
  "hostManagerRoleDatabaseActions = ActionSet_new
     [''killCursors'', ''repairDatabase'']"

definition clusterManagerRoleClusterActions :: ActionSet where
  "clusterManagerRoleClusterActions = ActionSet_new
     [''appendOplogNote'', ''applicationMessage'', ''replSetConfigure'', ''replSetGetConfig'',
      ''replSetGetStatus'', ''replSetStateChange'', ''resync'', ''addShard'', ''removeShard'',
      ''listShards'', ''flushRouterConfig'', ''cleanupOrphaned'']"

definition clusterManagerRoleDatabaseActions :: ActionSet where
  "clusterManagerRoleDatabaseActions = ActionSet_new
     [''splitChunk'', ''moveChunk'', ''enableSharding'', ''splitVector'']"

subsection \<open>Roles of one database\<close>

definition addReadOnlyDbPrivileges :: "string \<Rightarrow> PrivilegeVector \<Rightarrow> PrivilegeVector" where
  "addReadOnlyDbPrivileges dbName privileges = addAll privileges
     [privilegeOn (DatabaseName dbName) readRoleActions,
      privilegeOn (ExactNamespace (dbName, ''system.indexes'')) readRoleActions,
      privilegeOn (ExactNamespace (dbName, ''system.js'')) readRoleActions,
      privilegeOn (ExactNamespace (dbName, ''system.namespaces'')) readRoleActions]"

definition addReadWriteDbPrivileges :: "string \<Rightarrow> PrivilegeVector \<Rightarrow> PrivilegeVector" where
  "addReadWriteDbPrivileges dbName privileges = addAll (addReadOnlyDbPrivileges dbName privileges)
     [privilegeOn (DatabaseName dbName) readWriteRoleActions,
      privilegeOn (ExactNamespace (dbName, ''system.js'')) readWriteRoleActions]"

definition addUserAdminDbPrivileges :: "string \<Rightarrow> PrivilegeVector \<Rightarrow> PrivilegeVector" where
  "addUserAdminDbPrivileges dbName privileges =
     privileges @ [privilegeOn (DatabaseName dbName) userAdminRoleActions]"

definition profileActions :: ActionSet where
  "profileActions =
     addAction ''dropCollection'' (addAction ''createCollection'' (addAction ''convertToCapped'' readRoleActions))"

definition addDbAdminDbPrivileges :: "string \<Rightarrow> PrivilegeVector \<Rightarrow> PrivilegeVector" where
  "addDbAdminDbPrivileges dbName privileges = addAll privileges
     [privilegeOn (DatabaseName dbName) dbAdminRoleActions,
      privilegeOn (ExactNamespace (dbName, ''system.indexes'')) readRoleActions,
      privilegeOn (ExactNamespace (dbName, ''system.namespaces'')) readRoleActions,
      privilegeOn (ExactNamespace (dbName, ''system.profile'')) profileActions]"

definition addDbOwnerPrivileges :: "string \<Rightarrow> PrivilegeVector \<Rightarrow> PrivilegeVector" where
  "addDbOwnerPrivileges dbName privileges =
     addUserAdminDbPrivileges dbName (addDbAdminDbPrivileges dbName (addReadWriteDbPrivileges dbName privileges))"

subsection \<open>Roles that reach beyond one database\<close>

definition addEnableShardingPrivileges :: "PrivilegeVector \<Rightarrow> PrivilegeVector" where
  "addEnableShardingPrivileges privileges = addAll privileges
     [privilegeOn AnyNormalResource (addAction ''enableSharding'' {})]"

definition addReadOnlyAnyDbPrivileges :: "PrivilegeVector \<Rightarrow> PrivilegeVector" where
  "addReadOnlyAnyDbPrivileges privileges = addAll privileges
     [privilegeOn AnyNormalResource readRoleActions,
      privilegeOn1 ClusterResource ''listDatabases'',
      privilegeOn (CollectionName ''system.indexes'') readRoleActions,
      privilegeOn (CollectionName ''system.js'') readRoleActions,
      privilegeOn (CollectionName ''system.namespaces'') readRoleActions]"

definition addReadWriteAnyDbPrivileges :: "PrivilegeVector \<Rightarrow> PrivilegeVector" where
  "addReadWriteAnyDbPrivileges privileges = addAll (addReadOnlyAnyDbPrivileges privileges)
     [privilegeOn AnyNormalResource readWriteRoleActions,
      privilegeOn (CollectionName ''system.js'') readWriteRoleActions]"

definition rolesCollectionNamespace :: NamespaceString where
  "rolesCollectionNamespace = (''admin'', ''system.roles'')"

definition usersAltCollectionNamespace :: NamespaceString where
  "usersAltCollectionNamespace = (''admin'', ''system.new_users'')"

definition usersBackupCollectionNamespace :: NamespaceString where
  "usersBackupCollectionNamespace = (''admin'', ''system.backup_users'')"

definition usersCollectionNamespace :: NamespaceString where
  "usersCollectionNamespace = (''admin'', ''system.users'')"

definition versionCollectionNamespace :: NamespaceString where
  "versionCollectionNamespace = (''admin'', ''system.version'')"

definition defaultTempUsersCollectionNamespace :: NamespaceString where
  "defaultTempUsersCollectionNamespace = (''admin'', ''tempusers'')"

definition defaultTempRolesCollectionNamespace :: NamespaceString where
  "defaultTempRolesCollectionNamespace = (''admin'', ''temproles'')"

definition readRoleAndIndexActions :: ActionSet where
  "readRoleAndIndexActions =
     fold addAction [''createIndex'', ''dropIndex''] (addAllActionsFromSet readRoleActions {})"

definition addUserAdminAnyDbPrivileges :: "PrivilegeVector \<Rightarrow> PrivilegeVector" where
  "addUserAdminAnyDbPrivileges privileges = addAll privileges
     [privilegeOn AnyNormalResource userAdminRoleActions,
      privilegeOn1 ClusterResource ''listDatabases'',
      privilegeOn1 ClusterResource ''authSchemaUpgrade'',
      privilegeOn1 ClusterResource ''invalidateUserCache'',
      privilegeOn (CollectionName ''system.users'') readRoleActions,
      privilegeOn (ExactNamespace usersCollectionNamespace) readRoleAndIndexActions,
      privilegeOn (ExactNamespace rolesCollectionNamespace) readRoleAndIndexActions,
      privilegeOn (ExactNamespace versionCollectionNamespace) readRoleActions,
      privilegeOn (ExactNamespace usersAltCollectionNamespace) readRoleActions,
      privilegeOn (ExactNamespace usersBackupCollectionNamespace) readRoleActions]"

definition addDbAdminAnyDbPrivileges :: "PrivilegeVector \<Rightarrow> PrivilegeVector" where
  "addDbAdminAnyDbPrivileges privileges = addAll privileges
     [privilegeOn1 ClusterResource ''listDatabases'',
      privilegeOn AnyNormalResource dbAdminRoleActions,
      privilegeOn (CollectionName ''system.indexes'') readRoleActions,
      privilegeOn (CollectionName ''system.namespaces'') readRoleActions,
      privilegeOn (CollectionName ''system.profile'') profileActions]"

definition addClusterMonitorPrivileges :: "PrivilegeVector \<Rightarrow> PrivilegeVector" where
  "addClusterMonitorPrivileges privileges =
     addAll (addReadOnlyDbPrivileges ''config'' (addReadOnlyDbPrivileges ''local'' (addAll privileges
       [privilegeOn ClusterResource clusterMonitorRoleClusterActions,
        privilegeOn AnyNormalResource clusterMonitorRoleDatabaseActions,
        privilegeOn (DatabaseName ''config'') clusterMonitorRoleDatabaseActions,
        privilegeOn (DatabaseName ''local'') clusterMonitorRoleDatabaseActions])))
       [privilegeOn1 (ExactNamespace (''local'', ''system.replset'')) ''find'',
        privilegeOn1 (CollectionName ''system.profile'') ''find'']"

definition addHostManagerPrivileges :: "PrivilegeVector \<Rightarrow> PrivilegeVector" where
  "addHostManagerPrivileges privileges = addAll privileges
     [privilegeOn ClusterResource hostManagerRoleClusterActions,
      privilegeOn AnyNormalResource hostManagerRoleDatabaseActions]"

definition writeActions :: ActionSet where
  "writeActions = ActionSet_new [''insert'', ''update'', ''remove'']"

definition addClusterManagerPrivileges :: "PrivilegeVector \<Rightarrow> PrivilegeVector" where
  "addClusterManagerPrivileges privileges =
     addAll (addReadOnlyDbPrivileges ''config'' (addAll privileges
       [privilegeOn ClusterResource clusterManagerRoleClusterActions,
        privilegeOn AnyNormalResource clusterManagerRoleDatabaseActions,
        privilegeOn (DatabaseName ''config'') clusterManagerRoleDatabaseActions,
        privilegeOn (DatabaseName ''local'') clusterManagerRoleDatabaseActions,
        privilegeOn (ExactNamespace (''local'', ''system.replset'')) readRoleActions]))
       [privilegeOn (DatabaseName ''config'') writeActions,
        privilegeOn (DatabaseName ''local'') writeActions,
        privilegeOn (ExactNamespace (''$setFeatureCompatibilityVersion'', ''version'')) writeActions]"

definition addClusterAdminPrivileges :: "PrivilegeVector \<Rightarrow> PrivilegeVector" where
  "addClusterAdminPrivileges privileges =
     addAll (addClusterManagerPrivileges (addHostManagerPrivileges (addClusterMonitorPrivileges privileges)))
       [privilegeOn1 AnyNormalResource ''dropDatabase'']"

definition addBackupPrivileges :: "PrivilegeVector \<Rightarrow> PrivilegeVector" where
  "addBackupPrivileges privileges = addAll privileges
     [privilegeOn1 AnyResource ''collStats'',
      privilegeOn1 AnyNormalResource ''find'',
      privilegeOn1 AnyResource ''listCollections'',
      privilegeOn1 AnyResource ''listIndexes'',
      privilegeOn ClusterResource (ActionSet_new [''getParameter'', ''listDatabases'', ''appendOplogNote'']),
      privilegeOn1 (DatabaseName ''config'') ''find'',
      privilegeOn1 (DatabaseName ''local'') ''find'',
      privilegeOn1 (CollectionName ''system.indexes'') ''find'',
      privilegeOn1 (CollectionName ''system.namespaces'') ''find'',
      privilegeOn1 (CollectionName ''system.js'') ''find'',
      privilegeOn1 (CollectionName ''system.users'') ''find'',
      privilegeOn1 (CollectionName ''system.profile'') ''find'',
      privilegeOn1 (ExactNamespace usersAltCollectionNamespace) ''find'',
      privilegeOn1 (ExactNamespace usersBackupCollectionNamespace) ''find'',
      privilegeOn1 (ExactNamespace rolesCollectionNamespace) ''find'',
      privilegeOn1 (ExactNamespace versionCollectionNamespace) ''find'',
      privilegeOn (ExactNamespace (''config'', ''settings'')) (ActionSet_new [''insert'', ''update'', ''find''])]"

definition restoreActions :: ActionSet where
  "restoreActions = ActionSet_new
     [''bypassDocumentValidation'', ''collMod'', ''createCollection'', ''createIndex'', ''dropCollection'', ''insert'']"

definition addRestorePrivileges :: "PrivilegeVector \<Rightarrow> PrivilegeVector" where
  "addRestorePrivileges privileges =
     (let actions0 = restoreActions;
          actions1 = addAction ''find'' actions0;
          actions2 = addAction ''remove'' (addAction ''update'' actions1)
      in addAll privileges
        [privilegeOn AnyNormalResource actions0,
         privilegeOn (CollectionName ''system.js'') actions0,
         privilegeOn1 (CollectionName ''system.namespaces'') ''find'',
         privilegeOn1 AnyResource ''listCollections'',
         privilegeOn (DatabaseName ''config'') actions0,
         privilegeOn (DatabaseName ''local'') actions0,
         privilegeOn AnyNormalResource userAdminRoleActions,
         privilegeOn1 (ExactNamespace defaultTempUsersCollectionNamespace) ''find'',
         privilegeOn1 (ExactNamespace defaultTempRolesCollectionNamespace) ''find'',
         privilegeOn (ExactNamespace usersAltCollectionNamespace) actions0,
         privilegeOn (ExactNamespace usersBackupCollectionNamespace) actions0,
         privilegeOn (ExactNamespace versionCollectionNamespace) actions1,
         privilegeOn (CollectionName ''system.users'') actions2,
         privilegeOn1 ClusterResource ''getParameter'',
         privilegeOn1 (ExactNamespace rolesCollectionNamespace) ''createIndex''])"

definition addRootRolePrivileges :: "PrivilegeVector \<Rightarrow> PrivilegeVector" where
  "addRootRolePrivileges privileges =
     addAll (addRestorePrivileges (addBackupPrivileges (addReadWriteAnyDbPrivileges (addDbAdminAnyDbPrivileges
       (addUserAdminAnyDbPrivileges (addClusterAdminPrivileges privileges))))))
       [privilegeOn1 AnyResource ''validate'']"

definition generateUniversalPrivileges :: "PrivilegeVector \<Rightarrow> PrivilegeVector" where
  "generateUniversalPrivileges privileges = privileges @ [privilegeOn AnyResource addAllActions]"

subsection \<open>Which roles are built in\<close>

definition addPrivilegesForBuiltinRole :: "RoleName \<Rightarrow> PrivilegeVector \<Rightarrow> PrivilegeVector option" where
  "addPrivilegesForBuiltinRole roleName result =
     (let role = getRole roleName; db = getDB roleName; isAdminDB = (db = ''admin'')
      in if role = ''read'' then Some (addReadOnlyDbPrivileges db result)
         else if role = ''readWrite'' then Some (addReadWriteDbPrivileges db result)
         else if role = ''userAdmin'' then Some (addUserAdminDbPrivileges db result)
         else if role = ''dbAdmin'' then Some (addDbAdminDbPrivileges db result)
         else if role = ''dbOwner'' then Some (addDbOwnerPrivileges db result)
         else if role = ''enableSharding'' then Some (addEnableShardingPrivileges result)
         else if isAdminDB \<and> role = ''readAnyDatabase'' then Some (addReadOnlyAnyDbPrivileges result)
         else if isAdminDB \<and> role = ''readWriteAnyDatabase'' then Some (addReadWriteAnyDbPrivileges result)
         else if isAdminDB \<and> role = ''userAdminAnyDatabase'' then Some (addUserAdminAnyDbPrivileges result)
         else if isAdminDB \<and> role = ''dbAdminAnyDatabase'' then Some (addDbAdminAnyDbPrivileges result)
         else if isAdminDB \<and> role = ''clusterMonitor'' then Some (addClusterMonitorPrivileges result)
         else if isAdminDB \<and> role = ''hostManager'' then Some (addHostManagerPrivileges result)
         else if isAdminDB \<and> role = ''clusterManager'' then Some (addClusterManagerPrivileges result)
         else if isAdminDB \<and> role = ''clusterAdmin'' then Some (addClusterAdminPrivileges result)
         else if isAdminDB \<and> role = ''backup'' then Some (addBackupPrivileges result)
         else if isAdminDB \<and> role = ''restore'' then Some (addRestorePrivileges result)
         else if isAdminDB \<and> role = ''root'' then Some (addRootRolePrivileges result)
         else if isAdminDB \<and> role = ''__system'' then Some (generateUniversalPrivileges result)
         else None)"

definition databaseRoles :: "string list" where
  "databaseRoles = [''read'', ''readWrite'', ''userAdmin'', ''dbAdmin'', ''dbOwner'', ''enableSharding'']"

definition adminRoles :: "string list" where
  "adminRoles = [''readAnyDatabase'', ''readWriteAnyDatabase'', ''userAdminAnyDatabase'', ''dbAdminAnyDatabase'',
     ''clusterMonitor'', ''hostManager'', ''clusterManager'', ''clusterAdmin'', ''backup'', ''restore'', ''root'', ''__system'']"

definition isBuiltinRole :: "RoleName \<Rightarrow> bool" where
  "isBuiltinRole role =
     (if \<not> validDBName True (getDB role) \<or> getDB role = ''$external'' then False
      else getRole role \<in> set databaseRoles \<or> getDB role = ''admin'' \<and> getRole role \<in> set adminRoles)"

section \<open>Role names\<close>

text \<open>
  Roles are compared by their full name.  It identifies the role as long as the role part has no
  \<open>@\<close>; otherwise two different roles may be taken for one another.
\<close>

lemma getFullName_inj:
  assumes "CHR ''@'' \<notin> set (getRole r)" "CHR ''@'' \<notin> set (getRole r')"
  shows "getFullName r = getFullName r' \<longleftrightarrow> r = r'"
proof
  assume eq: "getFullName r = getFullName r'"
  have "takeWhile (\<lambda>c. c \<noteq> CHR ''@'') (getFullName r) = getRole r" if "CHR ''@'' \<notin> set (getRole r)" for r
    using that by (auto simp: getFullName_def takeWhile_append)
  from this [OF assms(1)] this [OF assms(2)] eq have "getRole r = getRole r'" by simp
  then show "r = r'" using eq by (simp add: getFullName_def RoleName.expand)
qed simp

lemma getFullName_ambiguous:
  "getFullName (RoleName ''a@b'' ''c'') = getFullName (RoleName ''a'' ''b@c'') \<and> RoleName ''a@b'' ''c'' \<noteq> RoleName ''a'' ''b@c''"
  by (simp add: getFullName_def)

section \<open>The tables are well-formed\<close>

text \<open>Positions in the list of action types, by which membership is checked.\<close>

lemma subset_nth: "map ((!) actionTypes) ns = as \<Longrightarrow> list_all (\<lambda>n. n < length actionTypes) ns \<Longrightarrow> set as \<subseteq> addAllActions"
  by (auto simp: addAllActions_def list_all_iff)

lemma known_actions:
  "set [''createIndex'', ''dropIndex'', ''dropCollection'', ''createCollection'', ''convertToCapped'', ''enableSharding'', ''listDatabases'',
     ''authSchemaUpgrade'', ''invalidateUserCache'', ''find'', ''collStats'', ''listCollections'', ''listIndexes'',
     ''getParameter'', ''appendOplogNote'', ''update'', ''insert'', ''remove'', ''dropDatabase'',
     ''validate'', ''bypassDocumentValidation'', ''collMod''] \<subseteq> addAllActions"
  by (rule subset_nth [of "[24, 34, 32, 22, 20, 39, 62, 7, 58, 40, 16, 61, 63, 45, 2, 99, 56, 72, 33, 102, 8, 15]"]) code_simp+

lemma known_action [simp]:
  "''createIndex'' \<in> addAllActions" "''dropIndex'' \<in> addAllActions" "''dropCollection'' \<in> addAllActions"
  "''createCollection'' \<in> addAllActions" "''convertToCapped'' \<in> addAllActions" "''enableSharding'' \<in> addAllActions"
  "''listDatabases'' \<in> addAllActions" "''authSchemaUpgrade'' \<in> addAllActions" "''invalidateUserCache'' \<in> addAllActions"
  "''find'' \<in> addAllActions" "''collStats'' \<in> addAllActions" "''listCollections'' \<in> addAllActions"
  "''listIndexes'' \<in> addAllActions" "''getParameter'' \<in> addAllActions" "''appendOplogNote'' \<in> addAllActions"
  "''update'' \<in> addAllActions" "''insert'' \<in> addAllActions" "''remove'' \<in> addAllActions" "''dropDatabase'' \<in> addAllActions"
  "''validate'' \<in> addAllActions" "''bypassDocumentValidation'' \<in> addAllActions" "''collMod'' \<in> addAllActions"
  using known_actions by simp_all

lemma role_actions_ok [simp]:
  "actions_ok readRoleActions"
  "actions_ok userAdminRoleActions"
  "actions_ok dbAdminRoleActions"
  "actions_ok clusterMonitorRoleClusterActions"
  "actions_ok clusterMonitorRoleDatabaseActions"
  "actions_ok hostManagerRoleClusterActions"
  "actions_ok hostManagerRoleDatabaseActions"
  "actions_ok clusterManagerRoleClusterActions"
  "actions_ok clusterManagerRoleDatabaseActions"
proof -
  show "actions_ok readRoleActions" unfolding readRoleActions_def
    by (rule actions_ok_new, rule subset_nth [of "[16, 27, 28, 40, 59, 61, 63, 69]"]) code_simp+
  show "actions_ok userAdminRoleActions" unfolding userAdminRoleActions_def
    by (rule actions_ok_new, rule subset_nth [of "[9, 10, 26, 25, 36, 35, 48, 84, 104, 103]"]) code_simp+
  show "actions_ok dbAdminRoleActions" unfolding dbAdminRoleActions_def
    by (rule actions_ok_new, rule subset_nth [of "[8, 15, 16, 17, 20, 22, 28, 32, 33, 34, 24, 38, 61, 63, 68, 69, 70, 71, 75, 76, 95, 102]"]) code_simp+
  show "actions_ok clusterMonitorRoleClusterActions" unfolding clusterMonitorRoleClusterActions_def
    by (rule actions_ok_new, rule subset_nth [of "[18, 43, 44, 45, 46, 52, 62, 64, 67, 78, 79, 88, 96, 55, 91]"]) code_simp+
  show "actions_ok clusterMonitorRoleDatabaseActions" unfolding clusterMonitorRoleDatabaseActions_def
    by (rule actions_ok_new, rule subset_nth [of "[16, 28, 47, 54]"]) code_simp+
  show "actions_ok hostManagerRoleClusterActions" unfolding hostManagerRoleClusterActions_def
    by (rule actions_ok_new, rule subset_nth [of "[3, 19, 21, 65, 89, 92, 97, 98, 29, 41, 42, 58, 60, 83]"]) code_simp+
  show "actions_ok hostManagerRoleDatabaseActions" unfolding hostManagerRoleDatabaseActions_def
    by (rule actions_ok_new, rule subset_nth [of "[59, 76]"]) code_simp+
  show "actions_ok clusterManagerRoleClusterActions" unfolding clusterManagerRoleClusterActions_def
    by (rule actions_ok_new, rule subset_nth [of "[2, 3, 77, 78, 79, 82, 83, 0, 73, 64, 41, 13]"]) code_simp+
  show "actions_ok clusterManagerRoleDatabaseActions" unfolding clusterManagerRoleDatabaseActions_def
    by (rule actions_ok_new, rule subset_nth [of "[93, 66, 39, 94]"]) code_simp+
qed

lemma actions_ok_from: "actions_ok s \<Longrightarrow> actions_ok t \<Longrightarrow> actions_ok (addAllActionsFromSet t s)"
  by (simp add: addAllActionsFromSet_Un actions_ok_Un)

lemma readWriteRoleActions_ok [simp]: "actions_ok readWriteRoleActions"
  unfolding readWriteRoleActions_def 
  by (rule actions_ok_fold, rule subset_nth [of "[20, 22, 32, 34, 37, 24, 56, 72, 75, 99]"], code_simp, code_simp, simp add: actions_ok_from)

lemma derived_actions_ok [simp]:
  "actions_ok profileActions" "actions_ok readRoleAndIndexActions" "actions_ok writeActions" "actions_ok restoreActions"
  by (simp_all add: profileActions_def readRoleAndIndexActions_def writeActions_def restoreActions_def ActionSet_new_def
      actions_ok_from actions_ok_addAction)

lemma privilegeOn_ok [simp]: "privilege_ok (privilegeOn r as) \<longleftrightarrow> actions_ok as" "resource (privilegeOn r as) = r"
  "a \<in> addAllActions \<Longrightarrow> privilege_ok (privilegeOn1 r a)" "resource (privilegeOn1 r a) = r"
  by (simp_all add: privilege_ok_def privilegeOn_def privilegeOn1_def actions_ok_addAction)

text \<open>
  A role adder is uniform if what it adds does not depend on the vector it adds to.
\<close>

definition uniform :: "(PrivilegeVector \<Rightarrow> PrivilegeVector) \<Rightarrow> bool" where
  "uniform f \<longleftrightarrow>
     (\<forall>pv. list_all privilege_ok pv \<longrightarrow>
        list_all privilege_ok (f pv) \<and> (\<forall>r. grants (f pv) r = grants pv r \<union> grants (f []) r))"

lemma uniform_addAll:
  assumes "list_all privilege_ok ps"
  shows "uniform (\<lambda>pv. addAll pv ps)"
proof -
  have "list_all privilege_ok (addAll pv ps) \<and> (\<forall>r. grants (addAll pv ps) r = grants pv r \<union> grants ps r)"
    if "list_all privilege_ok pv" for pv
    unfolding addAll_def using vector.add_all_ok [OF that assms] vector.acts_add_all [OF that assms] by simp
  then show ?thesis unfolding uniform_def by simp
qed

lemma uniform_comp:
  assumes "uniform f" "uniform g"
  shows "uniform (\<lambda>pv. f (g pv))"
proof -
  have f: "list_all privilege_ok (f pv)" "grants (f pv) r = grants pv r \<union> grants (f []) r"
    and g: "list_all privilege_ok (g pv)" "grants (g pv) r = grants pv r \<union> grants (g []) r"
    if "list_all privilege_ok pv" for pv r
    using assms that unfolding uniform_def by blast+
  have "grants (f (g pv)) r = grants pv r \<union> grants (f (g [])) r" if "list_all privilege_ok pv" for pv r
    using f(2) [OF g(1) [OF that], of r] f(2) [OF g(1) [of "[]"], of r] g(2) [OF that, of r] by auto
  then show ?thesis using f(1) g(1) unfolding uniform_def by blast
qed

lemma uniform_push: "privilege_ok p \<Longrightarrow> uniform (\<lambda>pv. pv @ [p])"
  by (simp add: uniform_def)

lemmas uniform_addAll_comp = uniform_comp [OF uniform_addAll]

lemma uniform_db: "uniform (addReadOnlyDbPrivileges db)" "uniform (addUserAdminDbPrivileges db)"
  "uniform (addDbAdminDbPrivileges db)"
  unfolding addReadOnlyDbPrivileges_def addUserAdminDbPrivileges_def addDbAdminDbPrivileges_def
  by (rule uniform_addAll, simp, rule uniform_push, simp, rule uniform_addAll, simp)

lemma uniform_readWrite: "uniform (addReadWriteDbPrivileges db)"
  unfolding addReadWriteDbPrivileges_def by (rule uniform_addAll_comp [OF _ uniform_db(1)]) simp

lemma uniform_dbOwner: "uniform (addDbOwnerPrivileges db)"
  unfolding addDbOwnerPrivileges_def by (rule uniform_comp [OF uniform_db(2) uniform_comp [OF uniform_db(3) uniform_readWrite]])

lemma uniform_any: "uniform addEnableShardingPrivileges" "uniform addReadOnlyAnyDbPrivileges"
  "uniform addUserAdminAnyDbPrivileges" "uniform addDbAdminAnyDbPrivileges" "uniform addHostManagerPrivileges"
  "uniform addBackupPrivileges" "uniform addRestorePrivileges"
  unfolding addEnableShardingPrivileges_def addReadOnlyAnyDbPrivileges_def addUserAdminAnyDbPrivileges_def
    addDbAdminAnyDbPrivileges_def addHostManagerPrivileges_def addBackupPrivileges_def addRestorePrivileges_def Let_def
  by (rule uniform_addAll, simp add: actions_ok_addAction ActionSet_new_def)+

lemma uniform_universal: "uniform generateUniversalPrivileges"
  unfolding generateUniversalPrivileges_def by (rule uniform_push) simp

lemma uniform_readWriteAny: "uniform addReadWriteAnyDbPrivileges"
  unfolding addReadWriteAnyDbPrivileges_def by (rule uniform_addAll_comp [OF _ uniform_any(2)]) simp

lemma uniform_clusterMonitor: "uniform addClusterMonitorPrivileges"
  unfolding addClusterMonitorPrivileges_def
  by (rule uniform_addAll_comp [OF _ uniform_comp [OF uniform_db(1) uniform_comp [OF uniform_db(1) uniform_addAll]]]) simp_all

lemma uniform_clusterManager: "uniform addClusterManagerPrivileges"
  unfolding addClusterManagerPrivileges_def
  by (rule uniform_addAll_comp [OF _ uniform_comp [OF uniform_db(1) uniform_addAll]]) simp_all

lemma uniform_clusterAdmin: "uniform addClusterAdminPrivileges"
  unfolding addClusterAdminPrivileges_def
  by (rule uniform_addAll_comp [OF _ uniform_comp [OF uniform_clusterManager uniform_comp [OF uniform_any(5) uniform_clusterMonitor]]]) simp

lemma uniform_root: "uniform addRootRolePrivileges"
  unfolding addRootRolePrivileges_def
  by (rule uniform_addAll_comp [OF _ uniform_comp [OF uniform_any(7) uniform_comp [OF uniform_any(6)
        uniform_comp [OF uniform_readWriteAny uniform_comp [OF uniform_any(4) uniform_comp [OF uniform_any(3) uniform_clusterAdmin]]]]]]) simp

lemmas uniform_roles = uniform_db uniform_readWrite uniform_dbOwner uniform_any uniform_universal uniform_readWriteAny
  uniform_clusterMonitor uniform_clusterManager uniform_clusterAdmin uniform_root

text \<open>What a built-in role grants.\<close>

definition builtinPrivileges :: "RoleName \<Rightarrow> PrivilegeVector" where
  "builtinPrivileges r = (case addPrivilegesForBuiltinRole r [] of None \<Rightarrow> [] | Some pv \<Rightarrow> pv)"

lemma builtin_adder:
  assumes "addPrivilegesForBuiltinRole r pv = Some pv'"
  obtains f where "uniform f" "\<And>pv. addPrivilegesForBuiltinRole r pv = Some (f pv)"
proof -
  have "\<exists>f. uniform f \<and> (\<forall>pv. addPrivilegesForBuiltinRole r pv = Some (f pv))"
    using assms uniform_roles unfolding addPrivilegesForBuiltinRole_def Let_def
    by (simp split del: if_split split: if_split_asm) blast+
  then show ?thesis using that by blast
qed

lemma builtin_effect:
  assumes "addPrivilegesForBuiltinRole r pv = Some pv'" "list_all privilege_ok pv"
  shows "list_all privilege_ok pv'" "grants pv' x = grants pv x \<union> grants (builtinPrivileges r) x"
proof -
  obtain f where f: "uniform f" "\<And>pv. addPrivilegesForBuiltinRole r pv = Some (f pv)"
    using builtin_adder [OF assms(1)] by blast
  have pv': "pv' = f pv" using assms(1) f(2) by simp
  show "list_all privilege_ok pv'" using f(1) assms(2) unfolding uniform_def pv' by blast
  have "grants (f pv) x = grants pv x \<union> grants (f []) x" using f(1) assms(2) unfolding uniform_def by blast
  then show "grants pv' x = grants pv x \<union> grants (builtinPrivileges r) x"
    by (simp only: pv' builtinPrivileges_def f(2) option.case)
qed

lemma builtinPrivileges_ok: "list_all privilege_ok (builtinPrivileges r)"
  using builtin_effect(1) [of r "[]"] by (auto simp: builtinPrivileges_def split: option.split)

lemma builtin_defined: "isBuiltinRole r \<Longrightarrow> addPrivilegesForBuiltinRole r pv \<noteq> None"
  by (cases r) (auto simp: isBuiltinRole_def addPrivilegesForBuiltinRole_def Let_def databaseRoles_def adminRoles_def split: if_split_asm)

text \<open>Every role name that counts as built in has a table (the check in \<open>_createBuiltinRoleIfNeeded\<close>
  never fails), and the table adds the same privileges, well-formed ones, to every vector.
\<close>

theorem builtin_roles_total:
  assumes "isBuiltinRole r" "list_all privilege_ok pv"
  shows "\<exists>pv'. addPrivilegesForBuiltinRole r pv = Some pv' \<and> list_all privilege_ok pv' \<and>
    (\<forall>x. grants pv' x = grants pv x \<union> grants (builtinPrivileges r) x)"
  using builtin_defined [OF assms(1), of pv] builtin_effect [OF _ assms(2)] by blast

theorem builtin_roles_total_witness:
  "isBuiltinRole (RoleName ''backup'' ''admin'') \<and>
   (\<exists>pv'. addPrivilegesForBuiltinRole (RoleName ''backup'' ''admin'') [] = Some pv' \<and> list_all privilege_ok pv' \<and>
     (\<forall>x. grants pv' x = grants [] x \<union> grants (builtinPrivileges (RoleName ''backup'' ''admin'')) x))"
proof -
  have "isBuiltinRole (RoleName ''backup'' ''admin'')" by code_simp
  with builtin_roles_total [OF this, of "[]"] show ?thesis by simp
qed

section \<open>Roles confined to one database\<close>

fun inDatabase :: "string \<Rightarrow> ResourcePattern \<Rightarrow> bool" where
  "inDatabase db (DatabaseName d) \<longleftrightarrow> d = db"
| "inDatabase db (ExactNamespace ns) \<longleftrightarrow> fst ns = db"
| "inDatabase db _ \<longleftrightarrow> False"

definition confined :: "string \<Rightarrow> PrivilegeVector \<Rightarrow> bool" where
  "confined db pv = list_all (\<lambda>p. inDatabase db (resource p)) pv"

lemma confined_simps [simp]: "confined db []" "confined db (p # pv) \<longleftrightarrow> inDatabase db (resource p) \<and> confined db pv"
  "confined db (pv @ qv) \<longleftrightarrow> confined db pv \<and> confined db qv"
  by (simp_all add: confined_def)

lemma confined_add: "confined db pv \<Longrightarrow> inDatabase db (resource p) \<Longrightarrow> confined db (addPrivilegeToPrivilegeVector pv p)"
  by (induction pv) (auto simp: addActions_def)

lemma confined_addAll: "confined db pv \<Longrightarrow> confined db ps \<Longrightarrow> confined db (addAll pv ps)"
  unfolding addAll_def by (induction ps arbitrary: pv) (auto intro: confined_add)

definition singleDatabaseRoles :: "string list" where
  "singleDatabaseRoles = [''read'', ''readWrite'', ''userAdmin'', ''dbAdmin'', ''dbOwner'']"

lemma confined_db: "confined db (addReadOnlyDbPrivileges db [])" "confined db (addReadWriteDbPrivileges db [])"
  "confined db (addUserAdminDbPrivileges db [])" "confined db (addDbAdminDbPrivileges db [])" "confined db (addDbOwnerPrivileges db [])"
  by (simp_all add: addReadOnlyDbPrivileges_def addReadWriteDbPrivileges_def addUserAdminDbPrivileges_def
      addDbAdminDbPrivileges_def addDbOwnerPrivileges_def confined_addAll)

lemma builtinPrivileges_db:
  "builtinPrivileges (RoleName ''read'' db) = addReadOnlyDbPrivileges db []"
  "builtinPrivileges (RoleName ''readWrite'' db) = addReadWriteDbPrivileges db []"
  "builtinPrivileges (RoleName ''userAdmin'' db) = addUserAdminDbPrivileges db []"
  "builtinPrivileges (RoleName ''dbAdmin'' db) = addDbAdminDbPrivileges db []"
  "builtinPrivileges (RoleName ''dbOwner'' db) = addDbOwnerPrivileges db []"
  by (simp_all add: builtinPrivileges_def addPrivilegesForBuiltinRole_def Let_def)

lemma builtin_confined:
  assumes "getRole r \<in> set singleDatabaseRoles"
  shows "confined (getDB r) (builtinPrivileges r)"
proof (cases r)
  case (RoleName role db)
  then have "role = ''read'' \<or> role = ''readWrite'' \<or> role = ''userAdmin'' \<or> role = ''dbAdmin'' \<or> role = ''dbOwner''"
    using assms by (simp add: singleDatabaseRoles_def)
  then show ?thesis using RoleName builtinPrivileges_db [of db] confined_db [of db] by (elim disjE) simp_all
qed

lemma confined_grants: "confined db pv \<Longrightarrow> \<not> inDatabase db x \<Longrightarrow> grants pv x = {}"
  by (induction pv) auto

section \<open>The role hierarchy\<close>

lemma uniform_dom: "uniform f \<Longrightarrow> list_all privilege_ok pv \<Longrightarrow> grants pv x \<subseteq> grants (f pv) x \<and> grants (f []) x \<subseteq> grants (f pv) x"
  unfolding uniform_def by blast

lemma uniform_ok: "uniform f \<Longrightarrow> list_all privilege_ok pv \<Longrightarrow> list_all privilege_ok (f pv)"
  unfolding uniform_def by blast

text \<open>A role adder is below another if whatever the second is added to, the first grants no more.\<close>

definition below :: "(PrivilegeVector \<Rightarrow> PrivilegeVector) \<Rightarrow> (PrivilegeVector \<Rightarrow> PrivilegeVector) \<Rightarrow> bool" where
  "below f h \<longleftrightarrow> (\<forall>x. grants (f []) x \<subseteq> grants (h []) x)"

lemma below_refl: "below f f"
  by (simp add: below_def)

lemma below_outer: "uniform f \<Longrightarrow> uniform g \<Longrightarrow> below f (\<lambda>pv. f (g pv))"
  unfolding below_def using uniform_dom [of f "g []"] uniform_ok [of g "[]"] by simp

lemma below_inner: "uniform f \<Longrightarrow> uniform g \<Longrightarrow> below h g \<Longrightarrow> below h (\<lambda>pv. f (g pv))"
  unfolding below_def using uniform_dom [of f "g []"] uniform_ok [of g "[]"] by simp blast

lemma below_addAll: "list_all privilege_ok ps \<Longrightarrow> uniform g \<Longrightarrow> below h g \<Longrightarrow> below h (\<lambda>pv. addAll (g pv) ps)"
  using below_inner [OF uniform_addAll] by blast

lemma below_trans: "below f g \<Longrightarrow> below g h \<Longrightarrow> below f h"
  unfolding below_def by blast

lemma below_readWriteAny: "below addReadOnlyAnyDbPrivileges addReadWriteAnyDbPrivileges"
  unfolding addReadWriteAnyDbPrivileges_def by (rule below_addAll [OF _ uniform_any(2) below_refl]) simp

lemma below_clusterAdmin:
  "below addClusterMonitorPrivileges addClusterAdminPrivileges" "below addHostManagerPrivileges addClusterAdminPrivileges"
  "below addClusterManagerPrivileges addClusterAdminPrivileges"
proof -
  note hm = uniform_comp [OF uniform_any(5) uniform_clusterMonitor]
  note all = below_addAll [OF _ uniform_comp [OF uniform_clusterManager hm]]
  show "below addClusterMonitorPrivileges addClusterAdminPrivileges" unfolding addClusterAdminPrivileges_def
    by (rule all [OF _ below_inner [OF uniform_clusterManager hm below_inner [OF uniform_any(5) uniform_clusterMonitor below_refl]]]) simp
  show "below addHostManagerPrivileges addClusterAdminPrivileges" unfolding addClusterAdminPrivileges_def
    by (rule all [OF _ below_inner [OF uniform_clusterManager hm below_outer [OF uniform_any(5) uniform_clusterMonitor]]]) simp
  show "below addClusterManagerPrivileges addClusterAdminPrivileges" unfolding addClusterAdminPrivileges_def
    by (rule all [OF _ below_outer [OF uniform_clusterManager hm]]) simp
qed

lemma below_root:
  "below addClusterAdminPrivileges addRootRolePrivileges" "below addUserAdminAnyDbPrivileges addRootRolePrivileges"
  "below addDbAdminAnyDbPrivileges addRootRolePrivileges" "below addReadWriteAnyDbPrivileges addRootRolePrivileges"
  "below addBackupPrivileges addRootRolePrivileges" "below addRestorePrivileges addRootRolePrivileges"
proof -
  note u1 = uniform_comp [OF uniform_any(3) uniform_clusterAdmin]
  note u2 = uniform_comp [OF uniform_any(4) u1]
  note u3 = uniform_comp [OF uniform_readWriteAny u2]
  note u4 = uniform_comp [OF uniform_any(6) u3]
  note u5 = uniform_comp [OF uniform_any(7) u4]
  note b5 = below_addAll [OF _ u5]
  note b4 = below_inner [OF uniform_any(7) u4]
  note b3 = below_inner [OF uniform_any(6) u3]
  note b2 = below_inner [OF uniform_readWriteAny u2]
  note b1 = below_inner [OF uniform_any(4) u1]
  note b0 = below_inner [OF uniform_any(3) uniform_clusterAdmin]
  note simps = addRootRolePrivileges_def
  show "below addClusterAdminPrivileges addRootRolePrivileges" unfolding simps by (rule b5 [OF _ b4 [OF b3 [OF b2 [OF b1 [OF b0 [OF below_refl]]]]]]) simp
  show "below addUserAdminAnyDbPrivileges addRootRolePrivileges" unfolding simps
    by (rule b5 [OF _ b4 [OF b3 [OF b2 [OF b1 [OF below_outer [OF uniform_any(3) uniform_clusterAdmin]]]]]]) simp
  show "below addDbAdminAnyDbPrivileges addRootRolePrivileges" unfolding simps
    by (rule b5 [OF _ b4 [OF b3 [OF b2 [OF below_outer [OF uniform_any(4) u1]]]]]) simp
  show "below addReadWriteAnyDbPrivileges addRootRolePrivileges" unfolding simps
    by (rule b5 [OF _ b4 [OF b3 [OF below_outer [OF uniform_readWriteAny u2]]]]) simp
  show "below addBackupPrivileges addRootRolePrivileges" unfolding simps
    by (rule b5 [OF _ b4 [OF below_outer [OF uniform_any(6) u3]]]) simp
  show "below addRestorePrivileges addRootRolePrivileges" unfolding simps
    by (rule b5 [OF _ below_outer [OF uniform_any(7) u4]]) simp
qed

lemma builtinPrivileges_admin:
  "builtinPrivileges (RoleName ''readAnyDatabase'' ''admin'') = addReadOnlyAnyDbPrivileges []"
  "builtinPrivileges (RoleName ''readWriteAnyDatabase'' ''admin'') = addReadWriteAnyDbPrivileges []"
  "builtinPrivileges (RoleName ''userAdminAnyDatabase'' ''admin'') = addUserAdminAnyDbPrivileges []"
  "builtinPrivileges (RoleName ''dbAdminAnyDatabase'' ''admin'') = addDbAdminAnyDbPrivileges []"
  "builtinPrivileges (RoleName ''clusterMonitor'' ''admin'') = addClusterMonitorPrivileges []"
  "builtinPrivileges (RoleName ''hostManager'' ''admin'') = addHostManagerPrivileges []"
  "builtinPrivileges (RoleName ''clusterManager'' ''admin'') = addClusterManagerPrivileges []"
  "builtinPrivileges (RoleName ''clusterAdmin'' ''admin'') = addClusterAdminPrivileges []"
  "builtinPrivileges (RoleName ''backup'' ''admin'') = addBackupPrivileges []"
  "builtinPrivileges (RoleName ''restore'' ''admin'') = addRestorePrivileges []"
  "builtinPrivileges (RoleName ''root'' ''admin'') = addRootRolePrivileges []"
  by (simp_all add: builtinPrivileges_def addPrivilegesForBuiltinRole_def Let_def)

text \<open>
  The role \<open>root\<close> grants, resource by resource, every action that any other role of the admin database
  grants, except for the internal role \<open>__system\<close>.
\<close>

theorem root_dominates:
  assumes "role \<in> set adminRoles" "role \<noteq> ''__system''"
  shows "grants (builtinPrivileges (RoleName role ''admin'')) x \<subseteq> grants (builtinPrivileges (RoleName ''root'' ''admin'')) x"
proof -
  note all = below_root below_trans [OF below_readWriteAny below_root(4)] below_clusterAdmin [THEN below_trans, OF below_root(1)]
    below_refl [of addRootRolePrivileges]
  have "role = ''readAnyDatabase'' \<or> role = ''readWriteAnyDatabase'' \<or> role = ''userAdminAnyDatabase'' \<or>
    role = ''dbAdminAnyDatabase'' \<or> role = ''clusterMonitor'' \<or> role = ''hostManager'' \<or> role = ''clusterManager'' \<or>
    role = ''clusterAdmin'' \<or> role = ''backup'' \<or> role = ''restore'' \<or> role = ''root''"
    using assms by (simp add: adminRoles_def)
  then show ?thesis
    using all [unfolded below_def] by (elim disjE; simp only: builtinPrivileges_admin)
qed

theorem root_dominates_witness:
  "''clusterMonitor'' \<in> set adminRoles \<and> ''shardingState'' \<in> grants (builtinPrivileges (RoleName ''clusterMonitor'' ''admin'')) ClusterResource \<and>
   grants (builtinPrivileges (RoleName ''clusterMonitor'' ''admin'')) ClusterResource
     \<subseteq> grants (builtinPrivileges (RoleName ''root'' ''admin'')) ClusterResource"
proof -
  have "''clusterMonitor'' \<in> set adminRoles" "''clusterMonitor'' \<noteq> ''__system''"
    "''shardingState'' \<in> grants (builtinPrivileges (RoleName ''clusterMonitor'' ''admin'')) ClusterResource"
    by code_simp+
  with root_dominates [OF this(1,2), of ClusterResource] show ?thesis by simp
qed

end
