(* ===== verification/Role_Graph.thy ===== *)
theory Role_Graph
  imports Builtin_Roles
begin

text \<open>
  The graph of roles, \<^verbatim>\<open>src/mongo/db/auth/role_graph.cpp\<close>: which roles a role has been granted, which
  roles are members of it, its direct privileges, and the derived data that
  \<open>recomputePrivilegeData\<close> fills in.  The hash maps of the source are association lists or maps;
  built-in roles appear in them the first time they are looked up, as in the code.  A failed
  \<^verbatim>\<open>fassert\<close>, and the erasure of an element that is not there, is \<^term>\<open>None\<close>.

  The second half gives the contract: an abstract graph in which the built-in roles are always
  there, one abstract operation per operation of the class, and the refinement: on every graph that
  operations have built no check fails, the statuses are those of the abstract operation, and so is
  the graph.
\<close>

section \<open>Definitions\<close>

datatype RoleStatus =
    RoleOK | DuplicateKey | RoleNotFound | InvalidRoleModification | RolesNotRelated | PrivilegeNotFound | GraphContainsCycle
  | NoSuchKey | TypeMismatch | FailedToParse | BadValue | InternalError | OplogOperationUnsupported | UnsupportedFormat
  | NoMatchingDocument | UserNotFound

record RoleGraph =
  roleToSubordinates :: "(RoleName \<times> RoleName list) list"
  roleToIndirectSubordinates :: "RoleName \<rightharpoonup> RoleName set"
  roleToMembers :: "RoleName \<rightharpoonup> RoleName list"
  directPrivilegesForRole :: "RoleName \<rightharpoonup> PrivilegeVector"
  allPrivilegesForRole :: "RoleName \<rightharpoonup> PrivilegeVector"
  allRoles :: "RoleName set"

definition RoleGraph_new :: RoleGraph where
  "RoleGraph_new = \<lparr>roleToSubordinates = [], roleToIndirectSubordinates = Map.empty, roleToMembers = Map.empty,
     directPrivilegesForRole = Map.empty, allPrivilegesForRole = Map.empty, allRoles = {}\<rparr>"

text \<open>Reading through \<open>operator[]\<close>, which creates an empty entry, and writing back.\<close>

definition listAt :: "(RoleName \<rightharpoonup> 'v list) \<Rightarrow> RoleName \<Rightarrow> 'v list" where
  "listAt m r = (case m r of None \<Rightarrow> [] | Some xs \<Rightarrow> xs)"

definition touch :: "(RoleName \<rightharpoonup> 'v list) \<Rightarrow> RoleName \<Rightarrow> (RoleName \<rightharpoonup> 'v list)" where
  "touch m r = m(r \<mapsto> listAt m r)"

definition subordinates :: "RoleGraph \<Rightarrow> RoleName \<Rightarrow> RoleName list" where
  "subordinates g r = listAt (map_of (roleToSubordinates g)) r"

definition members :: "RoleGraph \<Rightarrow> RoleName \<Rightarrow> RoleName list" where
  "members g r = listAt (roleToMembers g) r"

definition directPrivileges :: "RoleGraph \<Rightarrow> RoleName \<Rightarrow> PrivilegeVector" where
  "directPrivileges g r = listAt (directPrivilegesForRole g) r"

definition allPrivileges :: "RoleGraph \<Rightarrow> RoleName \<Rightarrow> PrivilegeVector" where
  "allPrivileges g r = listAt (allPrivilegesForRole g) r"

definition indirectSubordinates :: "RoleGraph \<Rightarrow> RoleName \<Rightarrow> RoleName set" where
  "indirectSubordinates g r = (case roleToIndirectSubordinates g r of None \<Rightarrow> {} | Some s \<Rightarrow> s)"

definition setSubordinates :: "RoleName \<Rightarrow> RoleName list \<Rightarrow> RoleGraph \<Rightarrow> RoleGraph" where
  "setSubordinates r xs g = g\<lparr>roleToSubordinates := AList.update r xs (roleToSubordinates g)\<rparr>"

definition setMembers :: "RoleName \<Rightarrow> RoleName list \<Rightarrow> RoleGraph \<Rightarrow> RoleGraph" where
  "setMembers r xs g = g\<lparr>roleToMembers := (roleToMembers g)(r \<mapsto> xs)\<rparr>"

definition setDirect :: "RoleName \<Rightarrow> PrivilegeVector \<Rightarrow> RoleGraph \<Rightarrow> RoleGraph" where
  "setDirect r pv g = g\<lparr>directPrivilegesForRole := (directPrivilegesForRole g)(r \<mapsto> pv)\<rparr>"

definition setAllPrivileges :: "RoleName \<Rightarrow> PrivilegeVector \<Rightarrow> RoleGraph \<Rightarrow> RoleGraph" where
  "setAllPrivileges r pv g = g\<lparr>allPrivilegesForRole := (allPrivilegesForRole g)(r \<mapsto> pv)\<rparr>"

subsection \<open>Existence and built-in roles\<close>

definition roleExistsDontCreateBuiltin :: "RoleName \<Rightarrow> RoleGraph \<Rightarrow> bool option" where
  "roleExistsDontCreateBuiltin role g =
     (case map_of (roleToSubordinates g) role of
        None \<Rightarrow> Some False
      | Some _ \<Rightarrow> do {
          invariant (roleToMembers g role \<noteq> None);
          (case directPrivilegesForRole g role of
             None \<Rightarrow> Some False
           | Some _ \<Rightarrow> do {
               invariant (allPrivilegesForRole g role \<noteq> None);
               Some True
             })
        })"

definition createRoleDontCheckIfRoleExists :: "RoleName \<Rightarrow> RoleGraph \<Rightarrow> RoleGraph" where
  "createRoleDontCheckIfRoleExists role g =
     g\<lparr>roleToSubordinates := AList.update role (subordinates g role) (roleToSubordinates g),
       roleToIndirectSubordinates := (roleToIndirectSubordinates g)(role \<mapsto> indirectSubordinates g role),
       roleToMembers := touch (roleToMembers g) role,
       directPrivilegesForRole := touch (directPrivilegesForRole g) role,
       allPrivilegesForRole := touch (allPrivilegesForRole g) role,
       allRoles := insert role (allRoles g)\<rparr>"

definition addPrivilegeToRoleNoChecks :: "RoleName \<Rightarrow> Privilege \<Rightarrow> RoleGraph \<Rightarrow> RoleGraph" where
  "addPrivilegeToRoleNoChecks role p g = setDirect role (addPrivilegeToPrivilegeVector (directPrivileges g role) p) g"

definition createBuiltinRoleIfNeeded :: "RoleName \<Rightarrow> RoleGraph \<Rightarrow> RoleGraph option" where
  "createBuiltinRoleIfNeeded role g =
     (if \<not> isBuiltinRole role then Some g
      else do {
        ex \<leftarrow> roleExistsDontCreateBuiltin role g;
        if ex then Some g
        else do {
          privileges \<leftarrow> addPrivilegesForBuiltinRole role [];
          Some (fold (\<lambda>p g. let g1 = addPrivilegeToRoleNoChecks role p g
                            in setAllPrivileges role (allPrivileges g1 role @ [p]) g1)
                     privileges (createRoleDontCheckIfRoleExists role g))
        }
      })"

definition roleExists :: "RoleName \<Rightarrow> RoleGraph \<Rightarrow> (bool \<times> RoleGraph) option" where
  "roleExists role g = do {
     g1 \<leftarrow> createBuiltinRoleIfNeeded role g;
     b \<leftarrow> roleExistsDontCreateBuiltin role g1;
     Some (b, g1)
   }"

subsection \<open>Operations\<close>

text \<open>The checks with which every operation that changes a given role begins.\<close>

definition modifying ::
  "RoleName \<Rightarrow> (RoleGraph \<Rightarrow> (RoleStatus \<times> RoleGraph) option) \<Rightarrow> RoleGraph \<Rightarrow> (RoleStatus \<times> RoleGraph) option" where
  "modifying role body g = do {
     (ex, g1) \<leftarrow> roleExists role g;
     if \<not> ex then Some (RoleNotFound, g1)
     else if isBuiltinRole role then Some (InvalidRoleModification, g1)
     else body g1
   }"

definition createRole :: "RoleName \<Rightarrow> RoleGraph \<Rightarrow> (RoleStatus \<times> RoleGraph) option" where
  "createRole role g = do {
     (ex, g1) \<leftarrow> roleExists role g;
     if ex then Some (DuplicateKey, g1)
     else Some (RoleOK, createRoleDontCheckIfRoleExists role g1)
   }"

definition eraseFound :: "RoleName \<Rightarrow> RoleName list \<Rightarrow> RoleName list option" where
  "eraseFound x xs = (if x \<in> set xs then Some (remove1 x xs) else None)"

fun eraseFromMembers :: "RoleName \<Rightarrow> RoleName list \<Rightarrow> RoleGraph \<Rightarrow> RoleGraph option" where
  "eraseFromMembers role [] g = Some g"
| "eraseFromMembers role (it # rest) g = do {
     ms \<leftarrow> eraseFound role (members g it);
     eraseFromMembers role rest (setMembers it ms g)
   }"

fun eraseFromSubordinates :: "RoleName \<Rightarrow> RoleName list \<Rightarrow> RoleGraph \<Rightarrow> RoleGraph option" where
  "eraseFromSubordinates role [] g = Some g"
| "eraseFromSubordinates role (it # rest) g = do {
     ss \<leftarrow> eraseFound role (subordinates g it);
     eraseFromSubordinates role rest (setSubordinates it ss g)
   }"

definition eraseRole :: "RoleName \<Rightarrow> RoleGraph \<Rightarrow> RoleGraph" where
  "eraseRole role g =
     g\<lparr>roleToSubordinates := AList.delete role (roleToSubordinates g),
       roleToIndirectSubordinates := (roleToIndirectSubordinates g)(role := None),
       roleToMembers := (roleToMembers g)(role := None),
       directPrivilegesForRole := (directPrivilegesForRole g)(role := None),
       allPrivilegesForRole := (allPrivilegesForRole g)(role := None),
       allRoles := allRoles g - {role}\<rparr>"

definition deleteRole :: "RoleName \<Rightarrow> RoleGraph \<Rightarrow> (RoleStatus \<times> RoleGraph) option" where
  "deleteRole role g = modifying role (\<lambda>g1.
     do {
       g2 \<leftarrow> eraseFromMembers role (subordinates g1 role) g1;
       g3 \<leftarrow> eraseFromSubordinates role (members g2 role) g2;
       Some (RoleOK, eraseRole role g3)
     }) g"

definition addRoleToRole :: "RoleName \<Rightarrow> RoleName \<Rightarrow> RoleGraph \<Rightarrow> (RoleStatus \<times> RoleGraph) option" where
  "addRoleToRole recipient role g = modifying recipient (\<lambda>g1.
     do {
       (ex2, g2) \<leftarrow> roleExists role g1;
       if \<not> ex2 then Some (RoleNotFound, g2)
       else if role \<in> set (subordinates g2 recipient) then Some (RoleOK, g2)
       else let g3 = setSubordinates recipient (subordinates g2 recipient @ [role]) g2
            in Some (RoleOK, setMembers role (members g3 role @ [recipient]) g3)
     }) g"

definition removeRoleFromRole :: "RoleName \<Rightarrow> RoleName \<Rightarrow> RoleGraph \<Rightarrow> (RoleStatus \<times> RoleGraph) option" where
  "removeRoleFromRole recipient role g = modifying recipient (\<lambda>g1.
     do {
       (ex2, g2) \<leftarrow> roleExists role g1;
       if \<not> ex2 then Some (RoleNotFound, g2)
       else if recipient \<in> set (members g2 role) then do {
         let g3 = setMembers role (remove1 recipient (members g2 role)) g2;
         invariant (role \<in> set (subordinates g3 recipient));
         Some (RoleOK, setSubordinates recipient (remove1 role (subordinates g3 recipient)) g3)
       } else Some (RolesNotRelated, g2)
     }) g"

definition removeAllRolesFromRole :: "RoleName \<Rightarrow> RoleGraph \<Rightarrow> (RoleStatus \<times> RoleGraph) option" where
  "removeAllRolesFromRole victim g = modifying victim (\<lambda>g1.
     do {
       g2 \<leftarrow> eraseFromMembers victim (subordinates g1 victim) g1;
       Some (RoleOK, setSubordinates victim [] g2)
     }) g"

definition addPrivilegesToRole :: "RoleName \<Rightarrow> PrivilegeVector \<Rightarrow> RoleGraph \<Rightarrow> (RoleStatus \<times> RoleGraph) option" where
  "addPrivilegesToRole role privilegesToAdd g = modifying role (\<lambda>g1.
     Some (RoleOK, fold (addPrivilegeToRoleNoChecks role) privilegesToAdd g1)) g"

definition addPrivilegeToRole :: "RoleName \<Rightarrow> Privilege \<Rightarrow> RoleGraph \<Rightarrow> (RoleStatus \<times> RoleGraph) option" where
  "addPrivilegeToRole role p g = modifying role (\<lambda>g1.
     Some (RoleOK, addPrivilegeToRoleNoChecks role p g1)) g"

fun removeFromVector :: "Privilege \<Rightarrow> PrivilegeVector \<Rightarrow> PrivilegeVector option" where
  "removeFromVector p [] = None"
| "removeFromVector p (cur # rest) =
     (if resource cur = resource p then
        if \<not> isSupersetOf (actions cur) (actions p) then None
        else let cur1 = removeActions (actions p) cur
             in if actions cur1 = {} then Some rest else Some (cur1 # rest)
      else map_option ((#) cur) (removeFromVector p rest))"

definition removePrivilegeFromRole :: "RoleName \<Rightarrow> Privilege \<Rightarrow> RoleGraph \<Rightarrow> (RoleStatus \<times> RoleGraph) option" where
  "removePrivilegeFromRole role p g = modifying role (\<lambda>g1.
     (case removeFromVector p (directPrivileges g1 role) of
             None \<Rightarrow> Some (PrivilegeNotFound, g1)
           | Some pv \<Rightarrow> Some (RoleOK, setDirect role pv g1))) g"

fun removePrivilegesFromRole :: "RoleName \<Rightarrow> PrivilegeVector \<Rightarrow> RoleGraph \<Rightarrow> (RoleStatus \<times> RoleGraph) option" where
  "removePrivilegesFromRole role [] g = Some (RoleOK, g)"
| "removePrivilegesFromRole role (p # ps) g = do {
     (status, g1) \<leftarrow> removePrivilegeFromRole role p g;
     if status \<noteq> RoleOK then Some (status, g1) else removePrivilegesFromRole role ps g1
   }"

definition removeAllPrivilegesFromRole :: "RoleName \<Rightarrow> RoleGraph \<Rightarrow> (RoleStatus \<times> RoleGraph) option" where
  "removeAllPrivilegesFromRole role g = modifying role (\<lambda>g1.
     Some (RoleOK, setDirect role [] g1)) g"

fun grantRoles :: "RoleName \<Rightarrow> RoleName list \<Rightarrow> RoleGraph \<Rightarrow> RoleGraph option" where
  "grantRoles roleName [] g = Some g"
| "grantRoles roleName (grantedRole # rest) g = do {
     (status, g1) \<leftarrow> createRole grantedRole g;
     invariant (status = RoleOK \<or> status = DuplicateKey);
     (status2, g2) \<leftarrow> addRoleToRole roleName grantedRole g1;
     invariant (status2 = RoleOK);
     grantRoles roleName rest g2
   }"

definition replaceRole :: "RoleName \<Rightarrow> RoleName list \<Rightarrow> PrivilegeVector \<Rightarrow> RoleGraph \<Rightarrow> (RoleStatus \<times> RoleGraph) option" where
  "replaceRole roleName roles privileges g = do {
     (status, g1) \<leftarrow> removeAllPrivilegesFromRole roleName g;
     if status \<noteq> RoleOK \<and> status \<noteq> RoleNotFound then Some (status, g1)
     else do {
       g2 \<leftarrow> (if status = RoleNotFound then do {
                 (st, g') \<leftarrow> createRole roleName g1;
                 invariant (st = RoleOK);
                 Some g'
               } else Some g1);
       (st3, g3) \<leftarrow> removeAllRolesFromRole roleName g2;
       invariant (st3 = RoleOK);
       g4 \<leftarrow> grantRoles roleName roles g3;
       (st5, g5) \<leftarrow> addPrivilegesToRole roleName privileges g4;
       invariant (st5 = RoleOK);
       Some (RoleOK, g5)
     }
   }"

subsection \<open>Sequences of operations\<close>

datatype RoleOp =
    CreateRole RoleName
  | DeleteRole RoleName
  | AddRoleToRole RoleName RoleName
  | RemoveRoleFromRole RoleName RoleName
  | RemoveAllRolesFromRole RoleName
  | AddPrivilegesToRole RoleName PrivilegeVector
  | RemovePrivilegesFromRole RoleName PrivilegeVector
  | RemoveAllPrivilegesFromRole RoleName
  | ReplaceRole RoleName "RoleName list" PrivilegeVector

fun runRoleOp :: "RoleOp \<Rightarrow> RoleGraph \<Rightarrow> (RoleStatus \<times> RoleGraph) option" where
  "runRoleOp (CreateRole r) g = createRole r g"
| "runRoleOp (DeleteRole r) g = deleteRole r g"
| "runRoleOp (AddRoleToRole r q) g = addRoleToRole r q g"
| "runRoleOp (RemoveRoleFromRole r q) g = removeRoleFromRole r q g"
| "runRoleOp (RemoveAllRolesFromRole r) g = removeAllRolesFromRole r g"
| "runRoleOp (AddPrivilegesToRole r ps) g = addPrivilegesToRole r ps g"
| "runRoleOp (RemovePrivilegesFromRole r ps) g = removePrivilegesFromRole r ps g"
| "runRoleOp (RemoveAllPrivilegesFromRole r) g = removeAllPrivilegesFromRole r g"
| "runRoleOp (ReplaceRole r rs ps) g = replaceRole r rs ps g"

fun runRoleOps :: "RoleOp list \<Rightarrow> RoleGraph \<Rightarrow> (RoleStatus list \<times> RoleGraph) option" where
  "runRoleOps [] g = Some ([], g)"
| "runRoleOps (x # xs) g = do {
     (st, g1) \<leftarrow> runRoleOp x g;
     (sts, g2) \<leftarrow> runRoleOps xs g1;
     Some (st # sts, g2)
   }"

section \<open>The abstract graph\<close>

text \<open>A privilege vector as a map from resource to actions.\<close>

definition privsOf :: "PrivilegeVector \<Rightarrow> ResourcePattern \<rightharpoonup> ActionSet" where
  "privsOf pv = map_of (map (\<lambda>p. (resource p, actions p)) pv)"

record AbsGraph =
  a_roles :: "RoleName set"
  a_edges :: "(RoleName \<times> RoleName) set"
  a_privileges :: "RoleName \<Rightarrow> ResourcePattern \<rightharpoonup> ActionSet"

definition builtinDirect :: "RoleName \<Rightarrow> PrivilegeVector" where
  "builtinDirect r = addAll [] (builtinPrivileges r)"

definition AbsGraph_new :: AbsGraph where
  "AbsGraph_new = \<lparr>a_roles = Collect isBuiltinRole, a_edges = {},
     a_privileges = (\<lambda>r. if isBuiltinRole r then privsOf (builtinDirect r) else Map.empty)\<rparr>"

definition a_modifying :: "RoleName \<Rightarrow> (AbsGraph \<Rightarrow> RoleStatus \<times> AbsGraph) \<Rightarrow> AbsGraph \<Rightarrow> RoleStatus \<times> AbsGraph" where
  "a_modifying r f a =
     (if r \<notin> a_roles a then (RoleNotFound, a)
      else if isBuiltinRole r then (InvalidRoleModification, a)
      else f a)"

definition a_createRole :: "RoleName \<Rightarrow> AbsGraph \<Rightarrow> RoleStatus \<times> AbsGraph" where
  "a_createRole r a = (if r \<in> a_roles a then (DuplicateKey, a) else (RoleOK, a\<lparr>a_roles := insert r (a_roles a)\<rparr>))"

definition a_deleteRole :: "RoleName \<Rightarrow> AbsGraph \<Rightarrow> RoleStatus \<times> AbsGraph" where
  "a_deleteRole r = a_modifying r (\<lambda>a. (RoleOK,
     \<lparr>a_roles = a_roles a - {r}, a_edges = {(x, y) \<in> a_edges a. x \<noteq> r \<and> y \<noteq> r},
      a_privileges = (a_privileges a)(r := Map.empty)\<rparr>))"

definition a_addRoleToRole :: "RoleName \<Rightarrow> RoleName \<Rightarrow> AbsGraph \<Rightarrow> RoleStatus \<times> AbsGraph" where
  "a_addRoleToRole recipient role = a_modifying recipient (\<lambda>a.
     if role \<notin> a_roles a then (RoleNotFound, a) else (RoleOK, a\<lparr>a_edges := insert (recipient, role) (a_edges a)\<rparr>))"

definition a_removeRoleFromRole :: "RoleName \<Rightarrow> RoleName \<Rightarrow> AbsGraph \<Rightarrow> RoleStatus \<times> AbsGraph" where
  "a_removeRoleFromRole recipient role = a_modifying recipient (\<lambda>a.
     if role \<notin> a_roles a then (RoleNotFound, a)
     else if (recipient, role) \<notin> a_edges a then (RolesNotRelated, a)
     else (RoleOK, a\<lparr>a_edges := a_edges a - {(recipient, role)}\<rparr>))"

definition a_removeAllRolesFromRole :: "RoleName \<Rightarrow> AbsGraph \<Rightarrow> RoleStatus \<times> AbsGraph" where
  "a_removeAllRolesFromRole victim = a_modifying victim (\<lambda>a.
     (RoleOK, a\<lparr>a_edges := {(x, y) \<in> a_edges a. x \<noteq> victim}\<rparr>))"

definition a_grant :: "Privilege \<Rightarrow> (ResourcePattern \<rightharpoonup> ActionSet) \<Rightarrow> (ResourcePattern \<rightharpoonup> ActionSet)" where
  "a_grant p m = m(resource p \<mapsto> (case m (resource p) of None \<Rightarrow> actions p | Some as \<Rightarrow> as \<union> actions p))"

definition a_addPrivilegesToRole :: "RoleName \<Rightarrow> PrivilegeVector \<Rightarrow> AbsGraph \<Rightarrow> RoleStatus \<times> AbsGraph" where
  "a_addPrivilegesToRole r ps = a_modifying r (\<lambda>a.
     (RoleOK, a\<lparr>a_privileges := (a_privileges a)(r := fold a_grant ps (a_privileges a r))\<rparr>))"

definition a_removePrivilegeFromRole :: "RoleName \<Rightarrow> Privilege \<Rightarrow> AbsGraph \<Rightarrow> RoleStatus \<times> AbsGraph" where
  "a_removePrivilegeFromRole r p = a_modifying r (\<lambda>a.
     case a_privileges a r (resource p) of
       None \<Rightarrow> (PrivilegeNotFound, a)
     | Some as \<Rightarrow>
         if \<not> actions p \<subseteq> as then (PrivilegeNotFound, a)
         else let rest = removeAllActionsFromSet (actions p) as
              in (RoleOK, a\<lparr>a_privileges := (a_privileges a)(r := (a_privileges a r)
                             (resource p := if rest = {} then None else Some rest))\<rparr>))"

fun a_removePrivilegesFromRole :: "RoleName \<Rightarrow> PrivilegeVector \<Rightarrow> AbsGraph \<Rightarrow> RoleStatus \<times> AbsGraph" where
  "a_removePrivilegesFromRole r [] a = (RoleOK, a)"
| "a_removePrivilegesFromRole r (p # ps) a =
     (case a_removePrivilegeFromRole r p a of
        (status, a1) \<Rightarrow> if status \<noteq> RoleOK then (status, a1) else a_removePrivilegesFromRole r ps a1)"

definition a_removeAllPrivilegesFromRole :: "RoleName \<Rightarrow> AbsGraph \<Rightarrow> RoleStatus \<times> AbsGraph" where
  "a_removeAllPrivilegesFromRole r = a_modifying r (\<lambda>a. (RoleOK, a\<lparr>a_privileges := (a_privileges a)(r := Map.empty)\<rparr>))"

text \<open>
  Replacing a role: built-in roles are refused; otherwise the role exists afterwards with exactly the
  given subordinates, all of which exist, and exactly the given privileges.
\<close>

definition a_replaceRole :: "RoleName \<Rightarrow> RoleName list \<Rightarrow> PrivilegeVector \<Rightarrow> AbsGraph \<Rightarrow> RoleStatus \<times> AbsGraph" where
  "a_replaceRole r rs ps a =
     (if isBuiltinRole r then (InvalidRoleModification, a)
      else (RoleOK, \<lparr>a_roles = insert r (a_roles a \<union> set rs),
                     a_edges = {(x, y) \<in> a_edges a. x \<noteq> r} \<union> {r} \<times> set rs,
                     a_privileges = (a_privileges a)(r := fold a_grant ps Map.empty)\<rparr>))"

fun runAbsOp :: "RoleOp \<Rightarrow> AbsGraph \<Rightarrow> RoleStatus \<times> AbsGraph" where
  "runAbsOp (CreateRole r) a = a_createRole r a"
| "runAbsOp (DeleteRole r) a = a_deleteRole r a"
| "runAbsOp (AddRoleToRole r q) a = a_addRoleToRole r q a"
| "runAbsOp (RemoveRoleFromRole r q) a = a_removeRoleFromRole r q a"
| "runAbsOp (RemoveAllRolesFromRole r) a = a_removeAllRolesFromRole r a"
| "runAbsOp (AddPrivilegesToRole r ps) a = a_addPrivilegesToRole r ps a"
| "runAbsOp (RemovePrivilegesFromRole r ps) a = a_removePrivilegesFromRole r ps a"
| "runAbsOp (RemoveAllPrivilegesFromRole r) a = a_removeAllPrivilegesFromRole r a"
| "runAbsOp (ReplaceRole r rs ps) a = a_replaceRole r rs ps a"

fun runAbsOps :: "RoleOp list \<Rightarrow> AbsGraph \<Rightarrow> RoleStatus list \<times> AbsGraph" where
  "runAbsOps [] a = ([], a)"
| "runAbsOps (x # xs) a = (case runAbsOp x a of (st, a1) \<Rightarrow> case runAbsOps xs a1 of (sts, a2) \<Rightarrow> (st # sts, a2))"

text \<open>The privileges in requests come from the parser and have well-formed action sets.\<close>

fun roleOp_ok :: "RoleOp \<Rightarrow> bool" where
  "roleOp_ok (AddPrivilegesToRole r ps) = list_all privilege_ok ps"
| "roleOp_ok (RemovePrivilegesFromRole r ps) = list_all privilege_ok ps"
| "roleOp_ok (ReplaceRole r rs ps) = list_all privilege_ok ps"
| "roleOp_ok _ = True"

text \<open>An example: an application role that may read one database and insert into one collection of another.\<close>

definition exampleRole :: RoleName where
  "exampleRole = RoleName ''app'' ''shop''"

definition exampleRoleOps :: "RoleOp list" where
  "exampleRoleOps =
     [CreateRole exampleRole, CreateRole exampleRole,
      AddRoleToRole exampleRole (RoleName ''read'' ''shop''),
      AddRoleToRole exampleRole (RoleName ''missing'' ''shop''),
      AddPrivilegesToRole exampleRole [privilegeOn1 (ExactNamespace (''log'', ''events'')) ''insert''],
      DeleteRole (RoleName ''read'' ''shop'')]"

section \<open>Invariant and abstraction\<close>

definition roles :: "RoleGraph \<Rightarrow> RoleName set" where
  "roles g = dom (map_of (roleToSubordinates g))"

definition vector_ok :: "PrivilegeVector \<Rightarrow> bool" where
  "vector_ok pv \<longleftrightarrow> list_all privilege_ok pv \<and> distinct (map resource pv)"

text \<open>The domains of the five maps and of the set of roles, which every operation changes together.\<close>

definition domains_ok :: "RoleGraph \<Rightarrow> bool" where
  "domains_ok g \<longleftrightarrow> distinct (map fst (roleToSubordinates g)) \<and> dom (roleToMembers g) = roles g \<and>
     dom (directPrivilegesForRole g) = roles g \<and> dom (allPrivilegesForRole g) = roles g \<and>
     dom (roleToIndirectSubordinates g) = roles g \<and> allRoles g = roles g"

definition links_ok :: "RoleGraph \<Rightarrow> bool" where
  "links_ok g \<longleftrightarrow> (\<forall>r. distinct (subordinates g r) \<and> set (subordinates g r) \<subseteq> roles g) \<and> (\<forall>r. distinct (members g r)) \<and>
     (\<forall>r s. r \<in> set (members g s) \<longleftrightarrow> s \<in> set (subordinates g r)) \<and> (\<forall>r. isBuiltinRole r \<longrightarrow> subordinates g r = [])"

definition privileges_ok :: "RoleGraph \<Rightarrow> bool" where
  "privileges_ok g \<longleftrightarrow> (\<forall>r. vector_ok (directPrivileges g r)) \<and>
     (\<forall>r \<in> roles g. isBuiltinRole r \<longrightarrow> directPrivileges g r = builtinDirect r) \<and> (\<forall>r. list_all privilege_ok (allPrivileges g r))"

definition rg_ok :: "RoleGraph \<Rightarrow> bool" where
  "rg_ok g \<longleftrightarrow> domains_ok g \<and> links_ok g \<and> privileges_ok g"

definition edges :: "RoleGraph \<Rightarrow> (RoleName \<times> RoleName) set" where
  "edges g = {(r, s). s \<in> set (subordinates g r)}"

definition absGraph :: "RoleGraph \<Rightarrow> AbsGraph" where
  "absGraph g = \<lparr>a_roles = roles g \<union> Collect isBuiltinRole, a_edges = edges g,
     a_privileges = (\<lambda>r. if isBuiltinRole r then privsOf (builtinDirect r) else privsOf (directPrivileges g r))\<rparr>"

definition refines :: "(RoleStatus \<times> RoleGraph) option \<Rightarrow> RoleStatus \<times> AbsGraph \<Rightarrow> bool" where
  "refines m sa \<longleftrightarrow> (\<exists>g'. m = Some (fst sa, g') \<and> rg_ok g' \<and> absGraph g' = snd sa)"

subsection \<open>Reading and writing the maps\<close>

lemma listAt_upd [simp]: "listAt (m(r \<mapsto> xs)) s = (if s = r then xs else listAt m s)"
  "listAt (m(r := None)) s = (if s = r then [] else listAt m s)"
  by (simp_all add: listAt_def)

lemma listAt_touch [simp]: "listAt (touch m r) s = listAt m s" "dom (touch m r) = insert r (dom m)"
  by (auto simp: touch_def)

lemma listAt_notin: "r \<notin> dom m \<Longrightarrow> listAt m r = []"
  by (auto simp: listAt_def domIff)

lemma set_graph_simps [simp]:
  "subordinates (setSubordinates r xs g) s = (if s = r then xs else subordinates g s)"
  "members (setSubordinates r xs g) = members g" "directPrivileges (setSubordinates r xs g) = directPrivileges g"
  "allPrivileges (setSubordinates r xs g) = allPrivileges g" "roles (setSubordinates r xs g) = insert r (roles g)"
  "members (setMembers r xs g) s = (if s = r then xs else members g s)"
  "subordinates (setMembers r xs g) = subordinates g" "directPrivileges (setMembers r xs g) = directPrivileges g"
  "allPrivileges (setMembers r xs g) = allPrivileges g" "roles (setMembers r xs g) = roles g"
  "directPrivileges (setDirect r pv g) s = (if s = r then pv else directPrivileges g s)"
  "subordinates (setDirect r pv g) = subordinates g" "members (setDirect r pv g) = members g"
  "allPrivileges (setDirect r pv g) = allPrivileges g" "roles (setDirect r pv g) = roles g"
  "allPrivileges (setAllPrivileges r pv g) s = (if s = r then pv else allPrivileges g s)"
  "subordinates (setAllPrivileges r pv g) = subordinates g" "members (setAllPrivileges r pv g) = members g"
  "directPrivileges (setAllPrivileges r pv g) = directPrivileges g" "roles (setAllPrivileges r pv g) = roles g"
  by (auto simp: setSubordinates_def setMembers_def setDirect_def setAllPrivileges_def subordinates_def members_def
      directPrivileges_def allPrivileges_def roles_def fun_eq_iff update_conv')

lemma domains_set [simp]:
  "r \<in> roles g \<Longrightarrow> domains_ok g \<Longrightarrow> domains_ok (setSubordinates r xs g)"
  "r \<in> roles g \<Longrightarrow> domains_ok g \<Longrightarrow> domains_ok (setMembers r ms g)"
  "r \<in> roles g \<Longrightarrow> domains_ok g \<Longrightarrow> domains_ok (setDirect r pv g)"
  "r \<in> roles g \<Longrightarrow> domains_ok g \<Longrightarrow> domains_ok (setAllPrivileges r pv g)"
  by (auto simp: domains_ok_def setSubordinates_def setMembers_def setDirect_def setAllPrivileges_def roles_def
      distinct_update update_conv' insert_absorb)

lemma outside_roles:
  assumes "domains_ok g" "r \<notin> roles g"
  shows "subordinates g r = []" "members g r = []" "directPrivileges g r = []" "allPrivileges g r = []"
    "indirectSubordinates g r = {}"
  using assms by (auto simp: domains_ok_def roles_def subordinates_def members_def directPrivileges_def allPrivileges_def
      indirectSubordinates_def intro!: listAt_notin split: option.split)

lemma createRole_simps [simp]:
  "roles (createRoleDontCheckIfRoleExists r g) = insert r (roles g)"
  "subordinates (createRoleDontCheckIfRoleExists r g) = subordinates g"
  "members (createRoleDontCheckIfRoleExists r g) = members g"
  "directPrivileges (createRoleDontCheckIfRoleExists r g) = directPrivileges g"
  "allPrivileges (createRoleDontCheckIfRoleExists r g) = allPrivileges g"
  "indirectSubordinates (createRoleDontCheckIfRoleExists r g) = indirectSubordinates g"
  by (auto simp: createRoleDontCheckIfRoleExists_def roles_def subordinates_def members_def directPrivileges_def
      allPrivileges_def indirectSubordinates_def update_conv' fun_eq_iff listAt_def touch_def split: option.split)

lemma createRole_domains: "domains_ok g \<Longrightarrow> domains_ok (createRoleDontCheckIfRoleExists r g)"
  by (auto simp: domains_ok_def createRoleDontCheckIfRoleExists_def roles_def distinct_update update_conv')

lemma exists_iff:
  assumes "domains_ok g"
  shows "roleExistsDontCreateBuiltin r g = Some (r \<in> roles g)"
proof -
  have "map_of (roleToSubordinates g) r = None \<longleftrightarrow> r \<notin> roles g" by (simp add: roles_def domIff)
  moreover have "roleToMembers g r = None \<longleftrightarrow> r \<notin> roles g" "directPrivilegesForRole g r = None \<longleftrightarrow> r \<notin> roles g"
    "allPrivilegesForRole g r = None \<longleftrightarrow> r \<notin> roles g"
    using assms unfolding domains_ok_def by (metis domIff)+
  ultimately show ?thesis by (auto simp: roleExistsDontCreateBuiltin_def split: option.split)
qed

text \<open>The creation of a built-in role.\<close>

definition builtinStep :: "RoleName \<Rightarrow> Privilege \<Rightarrow> RoleGraph \<Rightarrow> RoleGraph" where
  "builtinStep role p g = (let g1 = addPrivilegeToRoleNoChecks role p g in setAllPrivileges role (allPrivileges g1 role @ [p]) g1)"

lemma builtinStep_simps [simp]:
  "roles (builtinStep r p g) = roles g" "subordinates (builtinStep r p g) = subordinates g"
  "members (builtinStep r p g) = members g"
  "directPrivileges (builtinStep r p g) s =
     (if s = r then addPrivilegeToPrivilegeVector (directPrivileges g r) p else directPrivileges g s)"
  "allPrivileges (builtinStep r p g) s = (if s = r then allPrivileges g r @ [p] else allPrivileges g s)"
  "r \<in> roles g \<Longrightarrow> domains_ok g \<Longrightarrow> domains_ok (builtinStep r p g)"
  by (simp_all add: builtinStep_def addPrivilegeToRoleNoChecks_def Let_def)

lemma builtin_fold:
  "roles (fold (builtinStep r) ps g) = roles g" "subordinates (fold (builtinStep r) ps g) = subordinates g"
  "members (fold (builtinStep r) ps g) = members g"
  "directPrivileges (fold (builtinStep r) ps g) s = (if s = r then addAll (directPrivileges g r) ps else directPrivileges g s)"
  "allPrivileges (fold (builtinStep r) ps g) s = (if s = r then allPrivileges g r @ ps else allPrivileges g s)"
  "r \<in> roles g \<Longrightarrow> domains_ok g \<Longrightarrow> domains_ok (fold (builtinStep r) ps g)"
  by (induction ps arbitrary: g) (simp_all add: addAll_def)

lemma vector_ok_add: "vector_ok pv \<Longrightarrow> privilege_ok p \<Longrightarrow> vector_ok (addPrivilegeToPrivilegeVector pv p)"
proof -
  have "set (map resource (addPrivilegeToPrivilegeVector pv p)) = insert (resource p) (set (map resource pv))"
    "distinct (map resource pv) \<Longrightarrow> distinct (map resource (addPrivilegeToPrivilegeVector pv p))"
    by (induction pv) (auto simp: addActions_def)
  then show "vector_ok pv \<Longrightarrow> privilege_ok p \<Longrightarrow> vector_ok (addPrivilegeToPrivilegeVector pv p)"
    by (simp add: vector_ok_def addPrivilege_vector_ok)
qed

lemma vector_ok_addAll: "vector_ok pv \<Longrightarrow> list_all privilege_ok ps \<Longrightarrow> vector_ok (addAll pv ps)"
  unfolding addAll_def by (induction ps arbitrary: pv) (auto intro: vector_ok_add)

lemma vector_ok_Nil [simp]: "vector_ok []"
  by (simp add: vector_ok_def)

lemma builtinDirect_ok: "vector_ok (builtinDirect r)"
  unfolding builtinDirect_def by (rule vector_ok_addAll) (simp_all add: builtinPrivileges_ok)

lemma rg_okD:
  assumes "rg_ok g"
  shows "domains_ok g" "links_ok g" "privileges_ok g"
    "distinct (subordinates g r)" "set (subordinates g r) \<subseteq> roles g" "distinct (members g r)"
    "r \<in> set (members g s) \<longleftrightarrow> s \<in> set (subordinates g r)" "isBuiltinRole r \<Longrightarrow> subordinates g r = []"
    "vector_ok (directPrivileges g r)" "r \<in> roles g \<Longrightarrow> isBuiltinRole r \<Longrightarrow> directPrivileges g r = builtinDirect r"
    "list_all privilege_ok (allPrivileges g r)"
  using assms by (simp_all add: rg_ok_def links_ok_def privileges_ok_def)

lemma create_ok:
  assumes "rg_ok g" "r \<notin> roles g"
  shows "domains_ok (createRoleDontCheckIfRoleExists r g)" "links_ok (createRoleDontCheckIfRoleExists r g)"
    "\<not> isBuiltinRole r \<Longrightarrow> privileges_ok (createRoleDontCheckIfRoleExists r g)"
  using rg_okD [OF assms(1)] outside_roles [OF rg_okD(1) [OF assms(1)] assms(2)]
  by (auto simp: createRole_domains links_ok_def privileges_ok_def)

lemma builtinStep_indirect [simp]: "indirectSubordinates (builtinStep r p g) = indirectSubordinates g"
  by (simp add: builtinStep_def addPrivilegeToRoleNoChecks_def Let_def setDirect_def setAllPrivileges_def indirectSubordinates_def
      fun_eq_iff)

lemma builtin_fold_indirect: "indirectSubordinates (fold (builtinStep r) ps g) = indirectSubordinates g"
  by (induction ps arbitrary: g) simp_all

lemma builtin_created:
  assumes "rg_ok g" "isBuiltinRole r" "r \<notin> roles g"
  obtains g' where "createBuiltinRoleIfNeeded r g = Some g'" "rg_ok g'" "roles g' = insert r (roles g)"
    "subordinates g' = subordinates g" "members g' = members g" "indirectSubordinates g' = indirectSubordinates g"
    "\<forall>s. directPrivileges g' s = (if s = r then builtinDirect r else directPrivileges g s)"
    "\<forall>s. allPrivileges g' s = (if s = r then builtinPrivileges r else allPrivileges g s)"
proof -
  let ?g0 = "createRoleDontCheckIfRoleExists r g"
  let ?g = "fold (builtinStep r) (builtinPrivileges r) ?g0"
  note out = outside_roles [OF rg_okD(1) [OF assms(1)] assms(3)]
  have some: "addPrivilegesForBuiltinRole r [] = Some (builtinPrivileges r)"
    using builtin_defined [of r "[]"] assms(2) by (auto simp: builtinPrivileges_def split: option.split)
  have dom: "domains_ok ?g" using create_ok(1) [OF assms(1,3)] by (simp add: builtin_fold)
  have dir: "directPrivileges ?g s = (if s = r then builtinDirect r else directPrivileges g s)"
    "allPrivileges ?g s = (if s = r then builtinPrivileges r else allPrivileges g s)" for s
    using out by (simp_all add: builtin_fold builtinDirect_def)
  have "links_ok ?g" using create_ok(2) [OF assms(1,3)] by (simp add: links_ok_def builtin_fold)
  moreover have "privileges_ok ?g"
    using rg_okD(9,10,11) [OF assms(1)] by (auto simp: privileges_ok_def dir builtin_fold(1) builtinDirect_ok builtinPrivileges_ok)
  ultimately have ok: "rg_ok ?g" using dom by (simp add: rg_ok_def)
  have "createBuiltinRoleIfNeeded r g = Some ?g"
    using assms(2,3) exists_iff [OF rg_okD(1) [OF assms(1)]] some
    by (simp add: createBuiltinRoleIfNeeded_def builtinStep_def [abs_def])
  then show thesis by (rule that) (simp_all add: ok dir builtin_fold(1,2,3) builtin_fold_indirect)
qed

lemma builtin_not_created:
  assumes "rg_ok g" "\<not> (isBuiltinRole r \<and> r \<notin> roles g)"
  shows "createBuiltinRoleIfNeeded r g = Some g"
  using assms(2) exists_iff [OF rg_okD(1) [OF assms(1)]] by (auto simp: createBuiltinRoleIfNeeded_def)

lemma roleExists_created: "createBuiltinRoleIfNeeded r g = Some g' \<Longrightarrow> rg_ok g' \<Longrightarrow> roleExists r g = Some (r \<in> roles g', g')"
  using exists_iff [OF rg_okD(1)] by (simp add: roleExists_def)

lemma roleExists_ok:
  assumes "rg_ok g"
  obtains g' where "roleExists r g = Some (r \<in> a_roles (absGraph g), g')" "rg_ok g'" "absGraph g' = absGraph g"
    "r \<in> a_roles (absGraph g) \<Longrightarrow> r \<in> roles g'" "roles g \<subseteq> roles g'" "subordinates g' = subordinates g" "members g' = members g"
proof (cases "isBuiltinRole r \<and> r \<notin> roles g")
  case False
  then have "roleExists r g = Some (r \<in> roles g, g)" using builtin_not_created [OF assms] roleExists_created assms by blast
  moreover have "r \<in> a_roles (absGraph g) \<longleftrightarrow> r \<in> roles g" using False by (auto simp: absGraph_def)
  ultimately show ?thesis using that assms by auto
next
  case True
  obtain g' where g': "createBuiltinRoleIfNeeded r g = Some g'" "rg_ok g'" "roles g' = insert r (roles g)"
    "subordinates g' = subordinates g" "members g' = members g"
    "\<forall>s. directPrivileges g' s = (if s = r then builtinDirect r else directPrivileges g s)"
    using builtin_created [OF assms] True by metis
  have "absGraph g' = absGraph g" using True g' by (auto simp: absGraph_def edges_def fun_eq_iff)
  moreover have "roleExists r g = Some (r \<in> a_roles (absGraph g), g')"
    using roleExists_created [OF g'(1,2)] g'(3) True by (simp add: absGraph_def)
  ultimately show ?thesis using that g' by auto
qed

section \<open>Each operation refines its abstraction\<close>

lemma refinesI: "m = Some (fst sa, g') \<Longrightarrow> rg_ok g' \<Longrightarrow> absGraph g' = snd sa \<Longrightarrow> refines m sa"
  by (auto simp: refines_def)

lemma abs_simps [simp]:
  "a_roles (absGraph g) = roles g \<union> Collect isBuiltinRole" "a_edges (absGraph g) = edges g"
  "a_privileges (absGraph g) r = (if isBuiltinRole r then privsOf (builtinDirect r) else privsOf (directPrivileges g r))"
  by (simp_all add: absGraph_def)

lemma edges_iff [simp]: "(r, s) \<in> edges g \<longleftrightarrow> s \<in> set (subordinates g r)"
  by (simp add: edges_def)

lemma abs_eqI:
  assumes "roles g' \<union> Collect isBuiltinRole = a_roles a" "\<And>r s. s \<in> set (subordinates g' r) \<longleftrightarrow> (r, s) \<in> a_edges a"
    "\<And>r. (if isBuiltinRole r then privsOf (builtinDirect r) else privsOf (directPrivileges g' r)) = a_privileges a r"
  shows "absGraph g' = a"
  using assms by (intro AbsGraph.equality) (auto simp: fun_eq_iff)

lemma modifying_refines:
  assumes "rg_ok g"
    and "\<And>g1. rg_ok g1 \<Longrightarrow> absGraph g1 = absGraph g \<Longrightarrow> r \<in> roles g1 \<Longrightarrow> \<not> isBuiltinRole r \<Longrightarrow> refines (body g1) (f (absGraph g))"
  shows "refines (modifying r body g) (a_modifying r f (absGraph g))"
proof (rule roleExists_ok [OF assms(1), of r])
  fix g' assume *: "roleExists r g = Some (r \<in> a_roles (absGraph g), g')" "rg_ok g'" "absGraph g' = absGraph g"
    "r \<in> a_roles (absGraph g) \<Longrightarrow> r \<in> roles g'"
  show ?thesis
  proof (cases "r \<in> a_roles (absGraph g) \<and> \<not> isBuiltinRole r")
    case True
    then show ?thesis using * assms(2) [of g'] by (auto simp: modifying_def a_modifying_def)
  next
    case False
    then show ?thesis using * by (auto simp: modifying_def a_modifying_def intro!: refinesI)
  qed
qed

lemma createRole_refines:
  assumes "rg_ok g"
  shows "refines (createRole r g) (a_createRole r (absGraph g))"
proof (rule roleExists_ok [OF assms, of r])
  fix g' assume *: "roleExists r g = Some (r \<in> a_roles (absGraph g), g')" "rg_ok g'" "absGraph g' = absGraph g"
  show ?thesis
  proof (cases "r \<in> a_roles (absGraph g)")
    case True
    then show ?thesis using * by (auto simp: createRole_def a_createRole_def intro!: refinesI)
  next
    case False
    then have out: "r \<notin> roles g'" "\<not> isBuiltinRole r" using *(3) by (metis UnI1 UnI2 abs_simps(1) mem_Collect_eq)+
    let ?g = "createRoleDontCheckIfRoleExists r g'"
    have "rg_ok ?g" using create_ok [OF *(2) out(1)] out(2) by (simp add: rg_ok_def)
    moreover have "absGraph ?g = absGraph g\<lparr>a_roles := insert r (a_roles (absGraph g))\<rparr>"
      unfolding *(3) [symmetric] by (rule abs_eqI) auto
    ultimately show ?thesis using False * by (auto simp: createRole_def a_createRole_def intro!: refinesI)
  qed
qed

subsection \<open>Edges\<close>

lemma eraseFromMembers_ok:
  assumes "distinct ss" "\<And>s. s \<in> set ss \<Longrightarrow> r \<in> set (members g s) \<and> s \<in> roles g" "domains_ok g"
  shows "\<exists>g'. eraseFromMembers r ss g = Some g' \<and> domains_ok g' \<and> roles g' = roles g \<and> subordinates g' = subordinates g \<and>
    directPrivileges g' = directPrivileges g \<and> allPrivileges g' = allPrivileges g \<and>
    (\<forall>s. members g' s = (if s \<in> set ss then remove1 r (members g s) else members g s))"
  using assms
proof (induction ss arbitrary: g)
  case (Cons s ss)
  let ?g = "setMembers s (remove1 r (members g s)) g"
  have "\<exists>g'. eraseFromMembers r ss ?g = Some g' \<and> domains_ok g' \<and> roles g' = roles ?g \<and> subordinates g' = subordinates ?g \<and>
    directPrivileges g' = directPrivileges ?g \<and> allPrivileges g' = allPrivileges ?g \<and>
    (\<forall>t. members g' t = (if t \<in> set ss then remove1 r (members ?g t) else members ?g t))"
    using Cons.prems by (intro Cons.IH) auto
  then show ?case using Cons.prems by (auto simp: eraseFound_def)
qed simp

lemma eraseFromSubordinates_ok:
  assumes "distinct ms" "\<And>s. s \<in> set ms \<Longrightarrow> r \<in> set (subordinates g s) \<and> s \<in> roles g" "domains_ok g"
  shows "\<exists>g'. eraseFromSubordinates r ms g = Some g' \<and> domains_ok g' \<and> roles g' = roles g \<and> members g' = members g \<and>
    directPrivileges g' = directPrivileges g \<and> allPrivileges g' = allPrivileges g \<and>
    (\<forall>s. subordinates g' s = (if s \<in> set ms then remove1 r (subordinates g s) else subordinates g s))"
  using assms
proof (induction ms arbitrary: g)
  case (Cons s ms)
  let ?g = "setSubordinates s (remove1 r (subordinates g s)) g"
  have "\<exists>g'. eraseFromSubordinates r ms ?g = Some g' \<and> domains_ok g' \<and> roles g' = roles ?g \<and> members g' = members ?g \<and>
    directPrivileges g' = directPrivileges ?g \<and> allPrivileges g' = allPrivileges ?g \<and>
    (\<forall>t. subordinates g' t = (if t \<in> set ms then remove1 r (subordinates ?g t) else subordinates ?g t))"
    using Cons.prems by (intro Cons.IH) auto
  then show ?case using Cons.prems by (auto simp: eraseFound_def insert_absorb)
qed simp

lemma removeAllRolesFromRole_refines:
  assumes "rg_ok g"
  shows "refines (removeAllRolesFromRole r g) (a_removeAllRolesFromRole r (absGraph g))"
  unfolding removeAllRolesFromRole_def a_removeAllRolesFromRole_def
proof (rule modifying_refines [OF assms])
  fix g1 assume g1: "rg_ok g1" "absGraph g1 = absGraph g" "r \<in> roles g1" "\<not> isBuiltinRole r"
  note d = rg_okD [OF g1(1)]
  obtain g2 where g2: "eraseFromMembers r (subordinates g1 r) g1 = Some g2" "domains_ok g2" "roles g2 = roles g1"
    "subordinates g2 = subordinates g1" "directPrivileges g2 = directPrivileges g1" "allPrivileges g2 = allPrivileges g1"
    "\<And>s. members g2 s = (if s \<in> set (subordinates g1 r) then remove1 r (members g1 s) else members g1 s)"
    using eraseFromMembers_ok [of "subordinates g1 r" r g1] d by blast
  let ?g = "setSubordinates r [] g2"
  have "rg_ok ?g" using d g1(3,4) g2(2-7) unfolding rg_ok_def links_ok_def privileges_ok_def
    by (auto simp: insert_absorb)
  moreover have "absGraph ?g = absGraph g\<lparr>a_edges := {(x, y) \<in> a_edges (absGraph g). x \<noteq> r}\<rparr>"
    unfolding g1(2) [symmetric] using g1(3) g2(3-5) by (intro abs_eqI) auto
  ultimately show "refines (eraseFromMembers r (subordinates g1 r) g1 \<bind> (\<lambda>g2. Some (RoleOK, setSubordinates r [] g2)))
      (RoleOK, absGraph g\<lparr>a_edges := {(x, y) \<in> a_edges (absGraph g). x \<noteq> r}\<rparr>)"
    by (intro refinesI) (simp_all add: g2(1))
qed

lemma eraseRole_simps:
  "roles (eraseRole r g) = roles g - {r}" "domains_ok g \<Longrightarrow> domains_ok (eraseRole r g)"
  "subordinates (eraseRole r g) s = (if s = r then [] else subordinates g s)"
  "members (eraseRole r g) s = (if s = r then [] else members g s)"
  "directPrivileges (eraseRole r g) s = (if s = r then [] else directPrivileges g s)"
  "allPrivileges (eraseRole r g) s = (if s = r then [] else allPrivileges g s)"
  by (auto simp: eraseRole_def roles_def domains_ok_def subordinates_def members_def directPrivileges_def allPrivileges_def
      distinct_delete delete_conv')

text \<open>What the two loops of \<open>deleteRole\<close> leave.\<close>

lemma deleteRole_loops:
  assumes ok: "rg_ok g"
  shows "\<exists>g2 g3. eraseFromMembers r (subordinates g r) g = Some g2 \<and> eraseFromSubordinates r (members g2 r) g2 = Some g3 \<and>
    domains_ok g3 \<and> roles g3 = roles g \<and> directPrivileges g3 = directPrivileges g \<and> allPrivileges g3 = allPrivileges g \<and>
    (\<forall>s. s \<noteq> r \<longrightarrow> subordinates g3 s = remove1 r (subordinates g s) \<and> members g3 s = remove1 r (members g s))"
proof -
  note d = rg_okD [OF ok]
  obtain g2 where g2: "eraseFromMembers r (subordinates g r) g = Some g2" "domains_ok g2" "roles g2 = roles g"
    "subordinates g2 = subordinates g" "directPrivileges g2 = directPrivileges g" "allPrivileges g2 = allPrivileges g"
    "\<And>s. members g2 s = (if s \<in> set (subordinates g r) then remove1 r (members g s) else members g s)"
    using eraseFromMembers_ok [of "subordinates g r" r g] d by blast
  have m2: "members g2 s = remove1 r (members g s)" for s
    using g2(7) [of s] d(7) [of r s] by (simp add: remove1_idem)
  have pre: "r \<in> set (subordinates g2 s) \<and> s \<in> roles g2" if "s \<in> set (members g2 r)" for s
  proof -
    have "r \<in> set (subordinates g s)" using that d(7) [of s r] notin_set_remove1 [of s "members g r" r] unfolding m2 by blast
    then show ?thesis using outside_roles(1) [OF d(1), of s] g2(3,4) by fastforce
  qed
  have "distinct (members g2 r)" using d(6) [of r] by (simp add: m2)
  from eraseFromSubordinates_ok [OF this pre g2(2)]
  obtain g3 where g3: "eraseFromSubordinates r (members g2 r) g2 = Some g3" "domains_ok g3" "roles g3 = roles g"
    "members g3 = members g2" "directPrivileges g3 = directPrivileges g" "allPrivileges g3 = allPrivileges g"
    "\<And>s. subordinates g3 s = (if s \<in> set (members g2 r) then remove1 r (subordinates g s) else subordinates g s)"
    unfolding g2(3-6) by blast
  have "s \<in> set (members g2 r) \<longleftrightarrow> r \<in> set (subordinates g s)" if "s \<noteq> r" for s
    using that d(7) [of s r] unfolding m2 by simp
  then have "subordinates g3 s = remove1 r (subordinates g s)" if "s \<noteq> r" for s
    using that g3(7) [of s] by (simp add: remove1_idem)
  then show ?thesis using g2(1) g3 m2 by auto
qed

lemma deleteRole_refines:
  assumes "rg_ok g"
  shows "refines (deleteRole r g) (a_deleteRole r (absGraph g))"
  unfolding deleteRole_def a_deleteRole_def
proof (rule modifying_refines [OF assms])
  fix g1 assume g1: "rg_ok g1" "absGraph g1 = absGraph g" "r \<in> roles g1" "\<not> isBuiltinRole r"
  note d = rg_okD [OF g1(1)]
  obtain g2 g3 where l: "eraseFromMembers r (subordinates g1 r) g1 = Some g2" "eraseFromSubordinates r (members g2 r) g2 = Some g3"
    and g3: "domains_ok g3" "roles g3 = roles g1" "directPrivileges g3 = directPrivileges g1" "allPrivileges g3 = allPrivileges g1"
    "\<And>s. s \<noteq> r \<Longrightarrow> subordinates g3 s = remove1 r (subordinates g1 s)" "\<And>s. s \<noteq> r \<Longrightarrow> members g3 s = remove1 r (members g1 s)"
    using deleteRole_loops [OF g1(1), of r] by blast
  let ?g = "eraseRole r g3"
  have sub: "set (subordinates ?g s) = (if s = r then {} else set (subordinates g1 s) - {r})" for s
    using g3(5) d(4) by (simp add: eraseRole_simps)
  have mem: "set (members ?g s) = (if s = r then {} else set (members g1 s) - {r})" for s
    using g3(6) d(6) by (simp add: eraseRole_simps)
  have sr: "x \<in> set (subordinates g1 s) \<Longrightarrow> x \<in> roles g1" for s x using d(5) by blast
  have "links_ok ?g"
    unfolding links_ok_def sub mem eraseRole_simps using g3(2,5,6) d(4,6-8) sr by auto
  moreover have "privileges_ok ?g"
    unfolding privileges_ok_def eraseRole_simps using g3(2-4) d(9-11) by auto
  ultimately have "rg_ok ?g" using g3(1) by (simp add: rg_ok_def eraseRole_simps)
  moreover have "absGraph ?g = \<lparr>a_roles = a_roles (absGraph g) - {r}, a_edges = {(x, y) \<in> a_edges (absGraph g). x \<noteq> r \<and> y \<noteq> r},
      a_privileges = (a_privileges (absGraph g))(r := Map.empty)\<rparr>"
    unfolding g1(2) [symmetric] using g1(4) sub g3(2,3) by (intro abs_eqI) (auto simp: eraseRole_simps privsOf_def split: if_splits)
  ultimately show "refines (eraseFromMembers r (subordinates g1 r) g1 \<bind> (\<lambda>g2.
        eraseFromSubordinates r (members g2 r) g2 \<bind> (\<lambda>g3. Some (RoleOK, eraseRole r g3))))
      (RoleOK, \<lparr>a_roles = a_roles (absGraph g) - {r}, a_edges = {(x, y) \<in> a_edges (absGraph g). x \<noteq> r \<and> y \<noteq> r},
      a_privileges = (a_privileges (absGraph g))(r := Map.empty)\<rparr>)"
    by (intro refinesI) (simp_all add: l)
qed

lemma addRoleToRole_refines:
  assumes "rg_ok g"
  shows "refines (addRoleToRole r q g) (a_addRoleToRole r q (absGraph g))"
  unfolding addRoleToRole_def a_addRoleToRole_def
proof (rule modifying_refines [OF assms])
  fix g1 assume g1: "rg_ok g1" "absGraph g1 = absGraph g" "r \<in> roles g1" "\<not> isBuiltinRole r"
  obtain g2 where g2: "roleExists q g1 = Some (q \<in> a_roles (absGraph g1), g2)" "rg_ok g2" "absGraph g2 = absGraph g1"
    "q \<in> a_roles (absGraph g1) \<Longrightarrow> q \<in> roles g2" "roles g1 \<subseteq> roles g2"
    using roleExists_ok [OF g1(1), of q] by metis
  note d = rg_okD [OF g2(2)]
  let ?g3 = "setSubordinates r (subordinates g2 r @ [q]) g2"
  let ?g = "setMembers q (members ?g3 q @ [r]) ?g3"
  have ok: "rg_ok ?g \<and> absGraph ?g = absGraph g\<lparr>a_edges := insert (r, q) (a_edges (absGraph g))\<rparr>"
    if new: "q \<in> roles g2" "q \<notin> set (subordinates g2 r)"
  proof -
    have r: "r \<in> roles g2" using g1(3) g2(5) by blast
    have "links_ok ?g" using d(4,6,8) d(5) d(7) new r g1(4) unfolding links_ok_def by (auto simp: insert_absorb)
    moreover have "privileges_ok ?g" using d(9-11) r unfolding privileges_ok_def by (auto simp: insert_absorb)
    ultimately have "rg_ok ?g" using d(1) r new by (simp add: rg_ok_def)
    moreover have "absGraph ?g = absGraph g\<lparr>a_edges := insert (r, q) (a_edges (absGraph g))\<rparr>"
      unfolding g1(2) [symmetric] g2(3) [symmetric] using r by (intro abs_eqI) auto
    ultimately show ?thesis by blast
  qed
  have same: "absGraph g = absGraph g\<lparr>a_edges := insert (r, q) (a_edges (absGraph g))\<rparr>" if "q \<in> set (subordinates g2 r)"
    using that unfolding g1(2) [symmetric] g2(3) [symmetric] by (intro AbsGraph.equality) auto
  show "refines (do { (ex2, g2) \<leftarrow> roleExists q g1;
       if \<not> ex2 then Some (RoleNotFound, g2)
       else if q \<in> set (subordinates g2 r) then Some (RoleOK, g2)
       else let g3 = setSubordinates r (subordinates g2 r @ [q]) g2
            in Some (RoleOK, setMembers q (members g3 q @ [r]) g3) })
     (if q \<notin> a_roles (absGraph g) then (RoleNotFound, absGraph g)
      else (RoleOK, absGraph g\<lparr>a_edges := insert (r, q) (a_edges (absGraph g))\<rparr>))"
    using g1(2) g2 ok same by (auto simp: refines_def Let_def)
qed

lemma removeRoleFromRole_refines:
  assumes "rg_ok g"
  shows "refines (removeRoleFromRole r q g) (a_removeRoleFromRole r q (absGraph g))"
  unfolding removeRoleFromRole_def a_removeRoleFromRole_def
proof (rule modifying_refines [OF assms])
  fix g1 assume g1: "rg_ok g1" "absGraph g1 = absGraph g" "r \<in> roles g1" "\<not> isBuiltinRole r"
  obtain g2 where g2: "roleExists q g1 = Some (q \<in> a_roles (absGraph g1), g2)" "rg_ok g2" "absGraph g2 = absGraph g1"
    "q \<in> a_roles (absGraph g1) \<Longrightarrow> q \<in> roles g2" "roles g1 \<subseteq> roles g2"
    using roleExists_ok [OF g1(1), of q] by metis
  note d = rg_okD [OF g2(2)]
  let ?g3 = "setMembers q (remove1 r (members g2 q)) g2"
  let ?g = "setSubordinates r (remove1 q (subordinates ?g3 r)) ?g3"
  have r: "r \<in> roles g2" using g1(3) g2(5) by blast
  have ok: "rg_ok ?g \<and> absGraph ?g = absGraph g\<lparr>a_edges := a_edges (absGraph g) - {(r, q)}\<rparr>" if q: "q \<in> roles g2"
  proof -
    have sr: "x \<in> set (subordinates g2 s) \<Longrightarrow> x \<in> roles g2" for s x using d(5) by blast
    have "links_ok ?g" using d(4,6-8) sr q r g1(4) unfolding links_ok_def by (auto simp: insert_absorb)
    moreover have "privileges_ok ?g" using d(9-11) r unfolding privileges_ok_def by (auto simp: insert_absorb)
    ultimately have "rg_ok ?g" using d(1) r q by (simp add: rg_ok_def)
    moreover have "absGraph ?g = absGraph g\<lparr>a_edges := a_edges (absGraph g) - {(r, q)}\<rparr>"
      unfolding g1(2) [symmetric] g2(3) [symmetric] using r d(4) by (intro abs_eqI) auto
    ultimately show ?thesis by blast
  qed
  have edge: "(r, q) \<in> a_edges (absGraph g) \<longleftrightarrow> r \<in> set (members g2 q)"
    unfolding g1(2) [symmetric] g2(3) [symmetric] using d(7) by simp
  have sub: "r \<in> set (members g2 q) \<longleftrightarrow> q \<in> set (subordinates ?g3 r)" using d(7) by simp
  show "refines (do { (ex2, g2) \<leftarrow> roleExists q g1;
       if \<not> ex2 then Some (RoleNotFound, g2)
       else if r \<in> set (members g2 q) then do {
         let g3 = setMembers q (remove1 r (members g2 q)) g2;
         invariant (q \<in> set (subordinates g3 r));
         Some (RoleOK, setSubordinates r (remove1 q (subordinates g3 r)) g3)
       } else Some (RolesNotRelated, g2) })
     (if q \<notin> a_roles (absGraph g) then (RoleNotFound, absGraph g)
      else if (r, q) \<notin> a_edges (absGraph g) then (RolesNotRelated, absGraph g)
      else (RoleOK, absGraph g\<lparr>a_edges := a_edges (absGraph g) - {(r, q)}\<rparr>))"
    unfolding edge using g1(2) g2 ok sub by (auto simp: refines_def Let_def)
qed

subsection \<open>Privileges\<close>

lemma privsOf_add:
  assumes "vector_ok pv" "privilege_ok p"
  shows "privsOf (addPrivilegeToPrivilegeVector pv p) = a_grant p (privsOf pv)"
  using assms
proof (induction pv)
  case (Cons q pv)
  then show ?case
    by (cases "resource q = resource p")
      (auto simp: privsOf_def a_grant_def vector_ok_def addActions_def addAllActionsFromSet_Un privilege_ok_def fun_eq_iff)
qed (simp add: privsOf_def a_grant_def fun_eq_iff)

lemma setDirect_ok:
  assumes "rg_ok g" "r \<in> roles g" "\<not> isBuiltinRole r" "vector_ok pv"
  shows "rg_ok (setDirect r pv g)" "absGraph (setDirect r pv g) = absGraph g\<lparr>a_privileges := (a_privileges (absGraph g))(r := privsOf pv)\<rparr>"
proof -
  show "rg_ok (setDirect r pv g)"
    using rg_okD [OF assms(1)] assms(2-4) unfolding rg_ok_def links_ok_def privileges_ok_def by auto
  show "absGraph (setDirect r pv g) = absGraph g\<lparr>a_privileges := (a_privileges (absGraph g))(r := privsOf pv)\<rparr>"
    using assms(3) by (intro abs_eqI) auto
qed

lemma addPrivileges_fold:
  assumes "list_all privilege_ok ps" "rg_ok g" "r \<in> roles g" "\<not> isBuiltinRole r"
  shows "rg_ok (fold (addPrivilegeToRoleNoChecks r) ps g) \<and> absGraph (fold (addPrivilegeToRoleNoChecks r) ps g) =
     absGraph g\<lparr>a_privileges := (a_privileges (absGraph g))(r := fold a_grant ps (a_privileges (absGraph g) r))\<rparr>"
  using assms
proof (induction ps arbitrary: g)
  case (Cons p ps)
  let ?g = "addPrivilegeToRoleNoChecks r p g"
  have v: "vector_ok (addPrivilegeToPrivilegeVector (directPrivileges g r) p)"
    using Cons.prems rg_okD(9) by (auto intro: vector_ok_add)
  have eq: "absGraph ?g = absGraph g\<lparr>a_privileges := (a_privileges (absGraph g))(r := a_grant p (a_privileges (absGraph g) r))\<rparr>"
    using setDirect_ok(2) [OF Cons.prems(2-4) v] privsOf_add [OF rg_okD(9) [OF Cons.prems(2)]] Cons.prems
    by (simp add: addPrivilegeToRoleNoChecks_def)
  have ok: "rg_ok ?g" "r \<in> roles ?g"
    using setDirect_ok(1) [OF Cons.prems(2-4) v] Cons.prems(3) by (simp_all add: addPrivilegeToRoleNoChecks_def)
  show ?case using Cons.IH [OF _ ok Cons.prems(4)] Cons.prems(1) unfolding eq by (simp del: abs_simps cong: if_cong)
next
  case Nil
  then show ?case by (intro conjI, simp, intro AbsGraph.equality) auto
qed

lemma addPrivilegesToRole_refines:
  assumes "rg_ok g" "list_all privilege_ok ps"
  shows "refines (addPrivilegesToRole r ps g) (a_addPrivilegesToRole r ps (absGraph g))"
  unfolding addPrivilegesToRole_def a_addPrivilegesToRole_def
proof (rule modifying_refines [OF assms(1)])
  fix g1 assume g1: "rg_ok g1" "absGraph g1 = absGraph g" "r \<in> roles g1" "\<not> isBuiltinRole r"
  then show "refines (Some (RoleOK, fold (addPrivilegeToRoleNoChecks r) ps g1))
      (RoleOK, absGraph g\<lparr>a_privileges := (a_privileges (absGraph g))(r := fold a_grant ps (a_privileges (absGraph g) r))\<rparr>)"
    using addPrivileges_fold [OF assms(2) g1(1,3,4)] by (simp add: refines_def g1(2))
qed

lemma addPrivilegeToRole_eq: "addPrivilegeToRole r p g = addPrivilegesToRole r [p] g"
  by (simp add: addPrivilegeToRole_def addPrivilegesToRole_def)

lemma removeAllPrivilegesFromRole_refines:
  assumes "rg_ok g"
  shows "refines (removeAllPrivilegesFromRole r g) (a_removeAllPrivilegesFromRole r (absGraph g))"
  unfolding removeAllPrivilegesFromRole_def a_removeAllPrivilegesFromRole_def
proof (rule modifying_refines [OF assms])
  fix g1 assume g1: "rg_ok g1" "absGraph g1 = absGraph g" "r \<in> roles g1" "\<not> isBuiltinRole r"
  have "privsOf [] = Map.empty" by (simp add: privsOf_def)
  then show "refines (Some (RoleOK, setDirect r [] g1)) (RoleOK, absGraph g\<lparr>a_privileges := (a_privileges (absGraph g))(r := Map.empty)\<rparr>)"
    using setDirect_ok [OF g1(1,3,4), of "[]"] by (simp add: refines_def g1(2))
qed

lemma removeFromVector_privs:
  assumes "vector_ok pv" "privilege_ok p"
  shows "case privsOf pv (resource p) of
      None \<Rightarrow> removeFromVector p pv = None
    | Some as \<Rightarrow>
        if \<not> actions p \<subseteq> as then removeFromVector p pv = None
        else \<exists>pv'. removeFromVector p pv = Some pv' \<and> vector_ok pv' \<and> set (map resource pv') \<subseteq> set (map resource pv) \<and>
               privsOf pv' = (privsOf pv)(resource p := let rest = removeAllActionsFromSet (actions p) as in if rest = {} then None else Some rest)"
  using assms
proof (induction pv)
  case (Cons q pv)
  show ?case
  proof (cases "resource q = resource p")
    case True
    have "resource p \<notin> set (map resource pv)" using Cons.prems True by (auto simp: vector_ok_def)
    then have "privsOf pv (resource p) = None" by (auto simp: privsOf_def map_of_eq_None_iff)
    moreover have "actions_ok (removeAllActionsFromSet (actions p) (actions q))"
      using Cons.prems by (auto simp: vector_ok_def privilege_ok_def intro: actions_ok_intros)
    ultimately show ?thesis using True Cons.prems
      by (auto simp: privsOf_def Let_def removeActions_def vector_ok_def privilege_ok_def fun_eq_iff)
  next
    case False
    then show ?thesis using Cons
      by (auto simp: privsOf_def vector_ok_def fun_eq_iff split: option.splits if_splits)
  qed
qed (simp add: privsOf_def)

lemma removePrivilegeFromRole_refines:
  assumes "rg_ok g" "privilege_ok p"
  shows "refines (removePrivilegeFromRole r p g) (a_removePrivilegeFromRole r p (absGraph g))"
  unfolding removePrivilegeFromRole_def a_removePrivilegeFromRole_def
proof (rule modifying_refines [OF assms(1)])
  fix g1 assume g1: "rg_ok g1" "absGraph g1 = absGraph g" "r \<in> roles g1" "\<not> isBuiltinRole r"
  have pv: "a_privileges (absGraph g) r = privsOf (directPrivileges g1 r)" using g1(4) by (simp add: g1(2) [symmetric])
  note eff = removeFromVector_privs [OF rg_okD(9) [OF g1(1)] assms(2), of r] and ok = setDirect_ok [OF g1(1,3,4)]
  show "refines (case removeFromVector p (directPrivileges g1 r) of None \<Rightarrow> Some (PrivilegeNotFound, g1)
             | Some pv \<Rightarrow> Some (RoleOK, setDirect r pv g1))
     (case a_privileges (absGraph g) r (resource p) of
       None \<Rightarrow> (PrivilegeNotFound, absGraph g)
     | Some as \<Rightarrow>
         if \<not> actions p \<subseteq> as then (PrivilegeNotFound, absGraph g)
         else let rest = removeAllActionsFromSet (actions p) as
              in (RoleOK, absGraph g\<lparr>a_privileges := (a_privileges (absGraph g))(r := (a_privileges (absGraph g) r)
                             (resource p := if rest = {} then None else Some rest))\<rparr>))"
  proof (cases "\<exists>as. privsOf (directPrivileges g1 r) (resource p) = Some as \<and> actions p \<subseteq> as")
    case True
    then obtain as where as: "privsOf (directPrivileges g1 r) (resource p) = Some as" "actions p \<subseteq> as" by blast
    then obtain pv' where pv': "removeFromVector p (directPrivileges g1 r) = Some pv'" "vector_ok pv'"
      "privsOf pv' = (privsOf (directPrivileges g1 r))(resource p := let rest = removeAllActionsFromSet (actions p) as in if rest = {} then None else Some rest)"
      using eff by auto
    show ?thesis using ok [OF pv'(2)] as(2)
      unfolding pv as(1) option.case pv'(1) pv'(3) g1(2) refines_def by (simp add: Let_def)
  next
    case False
    then have "removeFromVector p (directPrivileges g1 r) = None" using eff by (auto split: option.splits if_splits)
    then show ?thesis using False g1(1,2) unfolding pv by (auto simp: refines_def split: option.split)
  qed
qed

lemma removePrivilegesFromRole_refines:
  "rg_ok g \<Longrightarrow> list_all privilege_ok ps \<Longrightarrow> refines (removePrivilegesFromRole r ps g) (a_removePrivilegesFromRole r ps (absGraph g))"
proof (induction ps arbitrary: g)
  case (Cons p ps)
  then have "refines (removePrivilegeFromRole r p g) (a_removePrivilegeFromRole r p (absGraph g))"
    by (intro removePrivilegeFromRole_refines) simp_all
  then show ?case using Cons.IH Cons.prems by (auto simp: refines_def split: prod.splits)
qed (simp add: refines_def)

subsection \<open>Replacing a role\<close>

lemma refines_elim:
  assumes "refines m (st, a)"
  obtains g' where "m = Some (st, g')" "rg_ok g'" "absGraph g' = a"
  using assms by (auto simp: refines_def)

lemma grantRoles_ok:
  assumes "rg_ok g" "r \<in> a_roles (absGraph g)" "\<not> isBuiltinRole r"
  shows "\<exists>g'. grantRoles r rs g = Some g' \<and> rg_ok g' \<and>
    absGraph g' = absGraph g\<lparr>a_roles := a_roles (absGraph g) \<union> set rs, a_edges := a_edges (absGraph g) \<union> {r} \<times> set rs\<rparr>"
  using assms
proof (induction rs arbitrary: g)
  case (Cons q rs)
  let ?a1 = "absGraph g\<lparr>a_roles := insert q (a_roles (absGraph g))\<rparr>"
  have "a_createRole q (absGraph g) = (if q \<in> a_roles (absGraph g) then DuplicateKey else RoleOK, ?a1)"
    by (auto simp: a_createRole_def insert_absorb simp del: abs_simps)
  then obtain g1 where g1: "createRole q g = Some (if q \<in> a_roles (absGraph g) then DuplicateKey else RoleOK, g1)" "rg_ok g1" "absGraph g1 = ?a1"
    using createRole_refines [OF Cons.prems(1), of q] by (auto elim: refines_elim)
  let ?a2 = "?a1\<lparr>a_edges := insert (r, q) (a_edges ?a1)\<rparr>"
  have "a_addRoleToRole r q ?a1 = (RoleOK, ?a2)"
    using Cons.prems(2,3) by (simp add: a_addRoleToRole_def a_modifying_def del: abs_simps)
  then obtain g2 where g2: "addRoleToRole r q g1 = Some (RoleOK, g2)" "rg_ok g2" "absGraph g2 = ?a2"
    using addRoleToRole_refines [OF g1(2), of r q] unfolding g1(3) by (auto elim: refines_elim)
  have "r \<in> a_roles (absGraph g2)" using Cons.prems(2) unfolding g2(3) by simp
  from Cons.IH [OF g2(2) this Cons.prems(3)]
  show ?case unfolding g2(3) using g1(1) g2(1) by (auto simp del: abs_simps simp: insert_commute)
qed (simp del: abs_simps)

lemma replaceRole_refines:
  assumes "rg_ok g" "list_all privilege_ok ps"
  shows "refines (replaceRole r rs ps g) (a_replaceRole r rs ps (absGraph g))"
proof (cases "isBuiltinRole r")
  case True
  then have "a_removeAllPrivilegesFromRole r (absGraph g) = (InvalidRoleModification, absGraph g)"
    by (simp add: a_removeAllPrivilegesFromRole_def a_modifying_def)
  then show ?thesis using removeAllPrivilegesFromRole_refines [OF assms(1), of r] True
    by (auto elim!: refines_elim simp: replaceRole_def a_replaceRole_def refines_def)
next
  case False
  let ?a = "absGraph g" and ?st = "if r \<in> a_roles (absGraph g) then RoleOK else RoleNotFound"
  let ?a1 = "?a\<lparr>a_privileges := (a_privileges ?a)(r := Map.empty)\<rparr>"
  obtain g1 where g1: "removeAllPrivilegesFromRole r g = Some (?st, g1)" "rg_ok g1" "absGraph g1 = (if r \<in> a_roles ?a then ?a1 else ?a)"
    using removeAllPrivilegesFromRole_refines [OF assms(1), of r] False
    by (auto simp: a_removeAllPrivilegesFromRole_def a_modifying_def simp del: abs_simps split: if_splits elim!: refines_elim)
  have none: "r \<notin> a_roles ?a \<Longrightarrow> a_privileges ?a r = Map.empty"
    using outside_roles(3) [OF rg_okD(1) [OF assms(1)], of r] False by (simp add: privsOf_def)
  let ?a2 = "?a1\<lparr>a_roles := insert r (a_roles ?a)\<rparr>"
  obtain g2 where g2: "(if ?st = RoleNotFound then do { (st, g') \<leftarrow> createRole r g1; invariant (st = RoleOK); Some g' } else Some g1) = Some g2"
    "rg_ok g2" "absGraph g2 = ?a2"
  proof (cases "r \<in> a_roles ?a")
    case True
    then have "?a2 = absGraph g1" using g1(3) by (simp add: insert_absorb del: abs_simps)
    then show ?thesis using that [of g1] True g1(2) by (simp del: abs_simps)
  next
    case out: False
    then have a1: "absGraph g1 = ?a" "?a1 = ?a" using g1(3) none by (auto simp del: abs_simps intro!: AbsGraph.equality)
    have "a_createRole r ?a = (RoleOK, ?a2)" using out a1(2) by (simp add: a_createRole_def del: abs_simps)
    then obtain g' where "createRole r g1 = Some (RoleOK, g')" "rg_ok g'" "absGraph g' = ?a2"
      using createRole_refines [OF g1(2), of r] unfolding a1(1) by (auto elim: refines_elim)
    then show ?thesis using that [of g'] out by (simp del: abs_simps)
  qed
  let ?a3 = "?a2\<lparr>a_edges := {(x, y) \<in> a_edges ?a2. x \<noteq> r}\<rparr>"
  obtain g3 where g3: "removeAllRolesFromRole r g2 = Some (RoleOK, g3)" "rg_ok g3" "absGraph g3 = ?a3"
    using removeAllRolesFromRole_refines [OF g2(2), of r] False unfolding g2(3)
    by (auto simp: a_removeAllRolesFromRole_def a_modifying_def simp del: abs_simps elim!: refines_elim)
  let ?a4 = "?a3\<lparr>a_roles := a_roles ?a3 \<union> set rs, a_edges := a_edges ?a3 \<union> {r} \<times> set rs\<rparr>"
  have "r \<in> a_roles (absGraph g3)" unfolding g3(3) by simp
  then obtain g4 where g4: "grantRoles r rs g3 = Some g4" "rg_ok g4" "absGraph g4 = ?a4"
    using grantRoles_ok [OF g3(2) _ False, of rs] unfolding g3(3) by blast
  let ?a5 = "?a4\<lparr>a_privileges := (a_privileges ?a4)(r := fold a_grant ps (a_privileges ?a4 r))\<rparr>"
  obtain g5 where g5: "addPrivilegesToRole r ps g4 = Some (RoleOK, g5)" "rg_ok g5" "absGraph g5 = ?a5"
    using addPrivilegesToRole_refines [OF g4(2) assms(2), of r] False unfolding g4(3)
    by (auto simp: a_addPrivilegesToRole_def a_modifying_def simp del: abs_simps elim!: refines_elim)
  have "a_replaceRole r rs ps ?a = (RoleOK, ?a5)"
    using False by (auto simp: a_replaceRole_def simp del: abs_simps intro!: AbsGraph.equality)
  moreover have "replaceRole r rs ps g = Some (RoleOK, g5)"
    using g1(1) g2(1) g3(1) g4(1) g5(1) by (auto simp: replaceRole_def simp del: abs_simps split: if_splits)
  ultimately show ?thesis using g5(2,3) by (simp add: refines_def)
qed

section \<open>Properties\<close>

lemma runRoleOp_refines:
  assumes "rg_ok g" "roleOp_ok x"
  shows "refines (runRoleOp x g) (runAbsOp x (absGraph g))"
  using assms by (cases x)
    (auto intro: createRole_refines deleteRole_refines addRoleToRole_refines removeRoleFromRole_refines
      removeAllRolesFromRole_refines addPrivilegesToRole_refines removePrivilegesFromRole_refines
      removeAllPrivilegesFromRole_refines replaceRole_refines)

lemma runRoleOps_refines:
  assumes "rg_ok g" "list_all roleOp_ok xs"
  shows "\<exists>g'. runRoleOps xs g = Some (fst (runAbsOps xs (absGraph g)), g') \<and> rg_ok g' \<and> absGraph g' = snd (runAbsOps xs (absGraph g))"
  using assms
proof (induction xs arbitrary: g)
  case (Cons x xs)
  obtain st a1 where r: "runAbsOp x (absGraph g) = (st, a1)" by fastforce
  obtain g1 where g1: "runRoleOp x g = Some (st, g1)" "rg_ok g1" "absGraph g1 = a1"
    using runRoleOp_refines [of g x] Cons.prems r by (auto elim: refines_elim)
  show ?case using Cons.IH [OF g1(2)] Cons.prems(2) r g1(1,3) by (auto split: prod.split)
qed simp

lemma rg_ok_new: "rg_ok RoleGraph_new" "absGraph RoleGraph_new = AbsGraph_new"
proof -
  show "rg_ok RoleGraph_new"
    by (simp add: rg_ok_def domains_ok_def links_ok_def privileges_ok_def RoleGraph_new_def roles_def subordinates_def
        members_def directPrivileges_def allPrivileges_def listAt_def)
  show "absGraph RoleGraph_new = AbsGraph_new"
    by (auto simp: absGraph_def AbsGraph_new_def RoleGraph_new_def roles_def edges_def subordinates_def directPrivileges_def
        listAt_def privsOf_def)
qed

lemma exampleRoleOps_ok: "list_all roleOp_ok exampleRoleOps" "\<not> isBuiltinRole exampleRole"
proof -
  show "list_all roleOp_ok exampleRoleOps"
    by (simp add: exampleRoleOps_def privilegeOn1_def privilege_ok_def addAction_def anyAction_def actions_ok_def)
  show "\<not> isBuiltinRole exampleRole" by code_simp
qed

lemma exampleRoleOps_run:
  obtains a where "runAbsOps exampleRoleOps AbsGraph_new
      = ([RoleOK, DuplicateKey, RoleOK, RoleNotFound, RoleOK, InvalidRoleModification], a)"
    "a_edges a = {(exampleRole, RoleName ''read'' ''shop'')}" "exampleRole \<in> a_roles a"
proof -
  have b: "isBuiltinRole (RoleName ''read'' ''shop'')" "\<not> isBuiltinRole (RoleName ''missing'' ''shop'')" by code_simp+
  have n: "RoleName ''missing'' ''shop'' \<noteq> exampleRole" by (simp add: exampleRole_def)
  show thesis using b n exampleRoleOps_ok(2) that
    by (simp add: exampleRoleOps_def AbsGraph_new_def a_createRole_def a_addRoleToRole_def a_addPrivilegesToRole_def
        a_deleteRole_def a_modifying_def)
qed



end
