(* ===== verification/Role_Recompute.thy ===== *)
theory Role_Recompute
  imports Role_Graph
begin

text \<open>
  Recomputing the derived data of the role graph, \<open>recomputePrivilegeData\<close> of
  \<^verbatim>\<open>src/mongo/db/auth/role_graph.cpp\<close>: a depth-first traversal from every role that fills in all roles
  and all privileges a role inherits, and detects cycles.  The loop of the helper is a
  \<open>partial_function\<close> whose stack \<open>inProgressRoles\<close> is a list with the back of the vector first.

  The lemmas show that the traversal ends on every graph that operations have built, that it reports
  a cycle exactly when there is one, and that it computes the transitive closure otherwise.
\<close>

section \<open>Definitions\<close>

definition setIndirect :: "RoleName \<Rightarrow> RoleName set \<Rightarrow> RoleGraph \<Rightarrow> RoleGraph" where
  "setIndirect r s g = g\<lparr>roleToIndirectSubordinates := (roleToIndirectSubordinates g)(r \<mapsto> s)\<rparr>"

definition addChild :: "RoleName \<Rightarrow> RoleName \<Rightarrow> RoleGraph \<Rightarrow> RoleGraph" where
  "addChild currentRole childRole g =
     (let g1 = setAllPrivileges currentRole (addAll (allPrivileges g currentRole) (allPrivileges g childRole)) g
      in setIndirect currentRole (indirectSubordinates g1 currentRole \<union> indirectSubordinates g1 childRole) g1)"

definition refreshRole :: "RoleName \<Rightarrow> RoleGraph \<Rightarrow> RoleGraph" where
  "refreshRole currentRole g =
     (let currentRoleDirectRoles = subordinates g currentRole;
          g1 = setAllPrivileges currentRole (directPrivileges g currentRole) g;
          g2 = setIndirect currentRole (set currentRoleDirectRoles) g1
      in fold (addChild currentRole) currentRoleDirectRoles g2)"

partial_function (option) recomputeLoop ::
    "RoleName set \<Rightarrow> RoleName list \<Rightarrow> RoleGraph \<Rightarrow> (RoleStatus \<times> RoleName set \<times> RoleGraph) option" where
  "recomputeLoop visitedRoles inProgressRoles g =
     (case inProgressRoles of
        [] \<Rightarrow> Some (RoleOK, visitedRoles, g)
      | currentRole # rest \<Rightarrow> do {
          invariant (currentRole \<notin> visitedRoles);
          (ex, g1) \<leftarrow> roleExists currentRole g;
          if \<not> ex then Some (RoleNotFound, visitedRoles, g1)
          else if currentRole \<in> set rest then Some (GraphContainsCycle, visitedRoles, g1)
          else (case List.find (\<lambda>childRole. childRole \<notin> visitedRoles) (subordinates g1 currentRole) of
                  Some childRole \<Rightarrow> recomputeLoop visitedRoles (childRole # inProgressRoles) g1
                | None \<Rightarrow> recomputeLoop (insert currentRole visitedRoles) rest (refreshRole currentRole g1))
        })"

definition recomputePrivilegeDataHelper ::
    "RoleName \<Rightarrow> RoleName set \<Rightarrow> RoleGraph \<Rightarrow> (RoleStatus \<times> RoleName set \<times> RoleGraph) option" where
  "recomputePrivilegeDataHelper startingRole visitedRoles g =
     (if startingRole \<in> visitedRoles then Some (RoleOK, visitedRoles, g)
      else recomputeLoop visitedRoles [startingRole] g)"

fun recomputeFrom :: "RoleName list \<Rightarrow> RoleName set \<Rightarrow> RoleGraph \<Rightarrow> (RoleStatus \<times> RoleGraph) option" where
  "recomputeFrom [] visitedRoles g = Some (RoleOK, g)"
| "recomputeFrom (r # rs) visitedRoles g = do {
     (status, v1, g1) \<leftarrow> recomputePrivilegeDataHelper r visitedRoles g;
     if status \<noteq> RoleOK then Some (status, g1) else recomputeFrom rs v1 g1
   }"

definition recomputePrivilegeData :: "RoleGraph \<Rightarrow> (RoleStatus \<times> RoleGraph) option" where
  "recomputePrivilegeData g = recomputeFrom (map fst (roleToSubordinates g)) {} g"

section \<open>What is to be computed\<close>

definition inherited :: "RoleGraph \<Rightarrow> RoleName \<Rightarrow> ResourcePattern \<Rightarrow> ActionSet" where
  "inherited g r x = (\<Union>w \<in> {w. (r, w) \<in> (edges g)\<^sup>*}. grants (directPrivileges g w) x)"

definition role_done :: "RoleGraph \<Rightarrow> RoleGraph \<Rightarrow> RoleName \<Rightarrow> bool" where
  "role_done g0 g r \<longleftrightarrow> indirectSubordinates g r = {s. (r, s) \<in> (edges g0)\<^sup>+} \<and> (\<forall>x. grants (allPrivileges g r) x = inherited g0 r x)"

text \<open>The traversal writes the two derived maps only, on roles that are there.\<close>

definition same_roles :: "RoleGraph \<Rightarrow> RoleGraph \<Rightarrow> bool" where
  "same_roles g0 g \<longleftrightarrow> rg_ok g \<and> roleToSubordinates g = roleToSubordinates g0 \<and> directPrivilegesForRole g = directPrivilegesForRole g0"

text \<open>Visited roles are finished and closed under subordinates; the stack is a path of roles that are not.\<close>

fun path :: "(RoleName \<times> RoleName) set \<Rightarrow> RoleName list \<Rightarrow> bool" where
  "path E (x # y # zs) = ((y, x) \<in> E \<and> path E (y # zs))"
| "path E _ = True"

definition traversal :: "RoleGraph \<Rightarrow> RoleName set \<Rightarrow> RoleGraph \<Rightarrow> bool" where
  "traversal g0 vis g \<longleftrightarrow> same_roles g0 g \<and> vis \<subseteq> roles g0 \<and>
     (\<forall>v \<in> vis. role_done g0 g v \<and> set (subordinates g0 v) \<subseteq> vis \<and> (v, v) \<notin> (edges g0)\<^sup>+)"

definition stack_ok :: "RoleGraph \<Rightarrow> RoleName set \<Rightarrow> RoleName list \<Rightarrow> bool" where
  "stack_ok g0 vis st \<longleftrightarrow> set st \<subseteq> roles g0 - vis \<and> distinct (tl st) \<and> path (edges g0) st"

section \<open>One role\<close>

lemma setIndirect_simps [simp]:
  "indirectSubordinates (setIndirect r s g) t = (if t = r then s else indirectSubordinates g t)"
  "subordinates (setIndirect r s g) = subordinates g" "members (setIndirect r s g) = members g"
  "directPrivileges (setIndirect r s g) = directPrivileges g" "allPrivileges (setIndirect r s g) = allPrivileges g"
  "roles (setIndirect r s g) = roles g" "roleToSubordinates (setIndirect r s g) = roleToSubordinates g"
  "directPrivilegesForRole (setIndirect r s g) = directPrivilegesForRole g"
  by (simp_all add: setIndirect_def indirectSubordinates_def subordinates_def members_def directPrivileges_def allPrivileges_def
      roles_def fun_eq_iff)

lemma setAll_simps [simp]:
  "indirectSubordinates (setAllPrivileges r pv g) = indirectSubordinates g"
  "roleToSubordinates (setAllPrivileges r pv g) = roleToSubordinates g"
  "directPrivilegesForRole (setAllPrivileges r pv g) = directPrivilegesForRole g"
  by (simp_all add: setAllPrivileges_def indirectSubordinates_def fun_eq_iff)

lemma roleExists_present: "rg_ok g \<Longrightarrow> r \<in> roles g \<Longrightarrow> roleExists r g = Some (True, g)"
  using exists_iff [OF rg_okD(1)] by (auto simp: roleExists_def createBuiltinRoleIfNeeded_def)

lemma derived_ok:
  assumes "rg_ok g" "r \<in> roles g"
  shows "rg_ok (setIndirect r s g)" "list_all privilege_ok pv \<Longrightarrow> rg_ok (setAllPrivileges r pv g)"
  using assms unfolding rg_ok_def domains_ok_def links_ok_def privileges_ok_def
  by (auto simp: setIndirect_def setAllPrivileges_def subordinates_def members_def directPrivileges_def allPrivileges_def roles_def)

lemma same_roles_derived:
  assumes "same_roles g0 g" "r \<in> roles g0"
  shows "same_roles g0 (setIndirect r s g)" "list_all privilege_ok pv \<Longrightarrow> same_roles g0 (setAllPrivileges r pv g)"
  using assms derived_ok [of g r] unfolding same_roles_def by (auto simp: roles_def)

lemma same_rolesD:
  assumes "same_roles g0 g"
  shows "rg_ok g" "subordinates g = subordinates g0" "directPrivileges g = directPrivileges g0" "roles g = roles g0" "edges g = edges g0"
  using assms by (simp_all add: same_roles_def subordinates_def directPrivileges_def roles_def edges_def fun_eq_iff [of "subordinates g"]
      fun_eq_iff [of "directPrivileges g"])

lemma all_ok: "rg_ok g \<Longrightarrow> list_all privilege_ok (allPrivileges g r)"
  by (simp add: rg_ok_def privileges_ok_def)

lemma direct_ok: "rg_ok g \<Longrightarrow> list_all privilege_ok (directPrivileges g r)"
  by (simp add: rg_ok_def privileges_ok_def vector_ok_def)

lemma addAll_store:
  assumes "list_all privilege_ok pv" "list_all privilege_ok ps"
  shows "list_all privilege_ok (addAll pv ps)" "grants (addAll pv ps) x = grants pv x \<union> grants ps x"
  using vector.acts_add_all [OF assms] vector.add_all_ok [OF assms] by (simp_all add: addAll_def)

lemma addChild_ok:
  assumes "same_roles g0 g" "r \<in> roles g0"
  shows "same_roles g0 (addChild r c g)"
  using assms addAll_store(1) [OF all_ok all_ok, of g g] same_rolesD(1) by (auto simp: addChild_def Let_def intro!: same_roles_derived)

lemma fold_addChild:
  assumes "same_roles g0 g" "r \<in> roles g0" "r \<notin> set cs"
  shows "same_roles g0 (fold (addChild r) cs g) \<and>
    (\<forall>t. t \<noteq> r \<longrightarrow> indirectSubordinates (fold (addChild r) cs g) t = indirectSubordinates g t \<and>
              allPrivileges (fold (addChild r) cs g) t = allPrivileges g t) \<and>
    indirectSubordinates (fold (addChild r) cs g) r = indirectSubordinates g r \<union> (\<Union>c \<in> set cs. indirectSubordinates g c) \<and>
    (\<forall>x. grants (allPrivileges (fold (addChild r) cs g) r) x = grants (allPrivileges g r) x \<union> (\<Union>c \<in> set cs. grants (allPrivileges g c) x))"
  using assms
proof (induction cs arbitrary: g)
  case (Cons c cs)
  let ?g = "addChild r c g"
  have ok: "list_all privilege_ok (allPrivileges g t)" for t using Cons.prems(1) by (blast intro: all_ok same_rolesD(1))
  have c: "indirectSubordinates ?g t = (if t = r then indirectSubordinates g r \<union> indirectSubordinates g c else indirectSubordinates g t)"
    "grants (allPrivileges ?g r) x = grants (allPrivileges g r) x \<union> grants (allPrivileges g c) x"
    "t \<noteq> r \<Longrightarrow> allPrivileges ?g t = allPrivileges g t" for t x
    using addAll_store(2) [OF ok ok] by (auto simp: addChild_def Let_def)
  have "c \<noteq> r" "r \<notin> set cs" using Cons.prems(3) by auto
  moreover have "(\<Union>d \<in> set cs. indirectSubordinates ?g d) = (\<Union>d \<in> set cs. indirectSubordinates g d)"
    "(\<Union>d \<in> set cs. grants (allPrivileges ?g d) x) = (\<Union>d \<in> set cs. grants (allPrivileges g d) x)" for x
    using \<open>r \<notin> set cs\<close> by (auto simp: c) (metis c(3))+
  ultimately show ?case using Cons.IH [OF addChild_ok [OF Cons.prems(1,2)]] Cons.prems(2) c by (auto simp: Un_assoc)
qed simp

lemma refreshRole_result:
  assumes "same_roles g0 g" "r \<in> roles g0" "r \<notin> set (subordinates g0 r)"
  shows "same_roles g0 (refreshRole r g)"
    "t \<noteq> r \<Longrightarrow> indirectSubordinates (refreshRole r g) t = indirectSubordinates g t \<and> allPrivileges (refreshRole r g) t = allPrivileges g t"
    "indirectSubordinates (refreshRole r g) r
       = set (subordinates g0 r) \<union> (\<Union>c \<in> set (subordinates g0 r). indirectSubordinates g c)"
    "grants (allPrivileges (refreshRole r g) r) x
       = grants (directPrivileges g0 r) x \<union> (\<Union>c \<in> set (subordinates g0 r). grants (allPrivileges g c) x)"
proof -
  note d = same_rolesD [OF assms(1)]
  let ?g = "setIndirect r (set (subordinates g0 r)) (setAllPrivileges r (directPrivileges g0 r) g)"
  have r: "refreshRole r g = fold (addChild r) (subordinates g0 r) ?g" by (simp add: refreshRole_def Let_def d)
  have "same_roles g0 ?g"
    by (intro same_roles_derived assms direct_ok [of g, unfolded d(3)] d(1))
  from fold_addChild [OF this assms(2,3)]
  have f: "same_roles g0 (refreshRole r g)"
    "\<forall>t. t \<noteq> r \<longrightarrow> indirectSubordinates (refreshRole r g) t = indirectSubordinates ?g t \<and> allPrivileges (refreshRole r g) t = allPrivileges ?g t"
    "indirectSubordinates (refreshRole r g) r = indirectSubordinates ?g r \<union> (\<Union>c \<in> set (subordinates g0 r). indirectSubordinates ?g c)"
    "\<forall>x. grants (allPrivileges (refreshRole r g) r) x
       = grants (allPrivileges ?g r) x \<union> (\<Union>c \<in> set (subordinates g0 r). grants (allPrivileges ?g c) x)"
    unfolding r by - (elim conjE, assumption)+
  have n: "c \<noteq> r" if "c \<in> set (subordinates g0 r)" for c using that assms(3) by blast
  show "same_roles g0 (refreshRole r g)" by (rule f(1))
  show "t \<noteq> r \<Longrightarrow> indirectSubordinates (refreshRole r g) t = indirectSubordinates g t \<and> allPrivileges (refreshRole r g) t = allPrivileges g t"
    using f(2) by simp
  show "indirectSubordinates (refreshRole r g) r
       = set (subordinates g0 r) \<union> (\<Union>c \<in> set (subordinates g0 r). indirectSubordinates g c)"
    using f(3) n by simp
  show "grants (allPrivileges (refreshRole r g) r) x
       = grants (directPrivileges g0 r) x \<union> (\<Union>c \<in> set (subordinates g0 r). grants (allPrivileges g c) x)"
    using f(4) n by simp
qed

section \<open>The traversal\<close>

lemma closure_step:
  "{s. (r, s) \<in> (edges g)\<^sup>+} = set (subordinates g r) \<union> (\<Union>c \<in> set (subordinates g r). {s. (c, s) \<in> (edges g)\<^sup>+})"
proof -
  have "(r, s) \<in> (edges g)\<^sup>+ \<longleftrightarrow> s \<in> set (subordinates g r) \<or> (\<exists>c \<in> set (subordinates g r). (c, s) \<in> (edges g)\<^sup>+)" for s
    using trancl_into_trancl2 [of r _ "edges g" s] by (auto elim: converse_tranclE)
  then show ?thesis by auto
qed

lemma inherited_step:
  "inherited g r x = grants (directPrivileges g r) x \<union> (\<Union>c \<in> set (subordinates g r). inherited g c x)"
proof -
  have "(r, w) \<in> (edges g)\<^sup>* \<longleftrightarrow> w = r \<or> (\<exists>c \<in> set (subordinates g r). (c, w) \<in> (edges g)\<^sup>*)" for w
    by (metis converse_rtranclE converse_rtrancl_into_rtrancl edges_iff rtrancl.rtrancl_refl)
  then show ?thesis unfolding inherited_def by auto
qed

lemma closed_under_edges:
  assumes "(v, w) \<in> (edges g)\<^sup>*" "v \<in> vis" "\<forall>u \<in> vis. set (subordinates g u) \<subseteq> vis"
  shows "w \<in> vis"
  using assms by (induction rule: rtrancl_induct) auto

lemma visit_step:
  assumes t: "traversal g0 vis g" and s: "stack_ok g0 vis (r # st)" and n: "r \<notin> set st" and c: "set (subordinates g0 r) \<subseteq> vis"
  shows "traversal g0 (insert r vis) (refreshRole r g)" "stack_ok g0 (insert r vis) st"
proof -
  have r: "r \<in> roles g0" "r \<notin> vis" using s by (auto simp: stack_ok_def)
  have "r \<notin> set (subordinates g0 r)" using c r(2) by blast
  note f = refreshRole_result [OF _ r(1) this, of g]
  have t': "same_roles g0 g" "vis \<subseteq> roles g0" "\<forall>v \<in> vis. role_done g0 g v" "\<forall>v \<in> vis. set (subordinates g0 v) \<subseteq> vis"
    "\<forall>v \<in> vis. (v, v) \<notin> (edges g0)\<^sup>+" using t by (auto simp: traversal_def)
  have acyc: "(r, r) \<notin> (edges g0)\<^sup>+"
  proof
    assume "(r, r) \<in> (edges g0)\<^sup>+"
    then obtain w where "(r, w) \<in> edges g0" "(w, r) \<in> (edges g0)\<^sup>*" by (blast dest: tranclD)
    then show False using closed_under_edges [of w r g0 vis] t'(4) c r(2) by auto
  qed
  have ch: "(\<Union>c \<in> set (subordinates g0 r). indirectSubordinates g c) = (\<Union>c \<in> set (subordinates g0 r). {s. (c, s) \<in> (edges g0)\<^sup>+})"
    "(\<Union>c \<in> set (subordinates g0 r). grants (allPrivileges g c) x) = (\<Union>c \<in> set (subordinates g0 r). inherited g0 c x)" for x
    using t'(3) c by (auto simp: role_done_def intro!: SUP_cong)
  have "role_done g0 (refreshRole r g) r"
    unfolding role_done_def closure_step [of r g0] inherited_step [of g0 r] f(3,4) [OF t'(1)] ch by simp
  moreover have "role_done g0 (refreshRole r g) v" if "v \<in> vis" for v
  proof -
    have "v \<noteq> r" using that r(2) by blast
    then show ?thesis using f(2) [OF t'(1) \<open>v \<noteq> r\<close>] t'(3) that by (simp add: role_done_def)
  qed
  ultimately show "traversal g0 (insert r vis) (refreshRole r g)"
    using acyc f(1) [OF t'(1)] t' r(1) c unfolding traversal_def by auto
  show "stack_ok g0 (insert r vis) st"
    using s n by (cases st) (auto simp: stack_ok_def)
qed

lemma path_reaches: "path E (x # st) \<Longrightarrow> y \<in> set st \<Longrightarrow> (y, x) \<in> E\<^sup>+"
proof (induction st arbitrary: x)
  case (Cons z st)
  then show ?case using trancl_into_trancl [of y z E x] by auto
qed simp

lemma finite_roles: "finite (roles g)"
  by (simp add: roles_def finite_dom_map_of)

lemma stack_length:
  assumes "stack_ok g0 vis st"
  shows "length st \<le> Suc (card (roles g0))"
proof -
  have "set (tl st) \<subseteq> roles g0" using assms by (cases st) (auto simp: stack_ok_def)
  then have "length (tl st) \<le> card (roles g0)"
    using card_mono [OF finite_roles] distinct_card [of "tl st"] assms by (metis stack_ok_def)
  then show ?thesis by simp
qed

definition traversal_result :: "RoleGraph \<Rightarrow> RoleName set \<Rightarrow> RoleName set \<Rightarrow> (RoleStatus \<times> RoleName set \<times> RoleGraph) option \<Rightarrow> bool" where
  "traversal_result g0 vis rs res \<longleftrightarrow> (\<exists>status vis' g'. res = Some (status, vis', g') \<and>
     (status = RoleOK \<and> traversal g0 vis' g' \<and> vis \<union> rs \<subseteq> vis' \<or>
      status = GraphContainsCycle \<and> same_roles g0 g' \<and> \<not> acyclic (edges g0)))"

lemma traversal_result_mono: "traversal_result g0 vis rs res \<Longrightarrow> vis' \<union> rs' \<subseteq> vis \<union> rs \<Longrightarrow> traversal_result g0 vis' rs' res"
  unfolding traversal_result_def by blast

lemma recomputeLoop_result:
  assumes "traversal g0 vis g" "stack_ok g0 vis st"
  shows "traversal_result g0 vis (set st) (recomputeLoop vis st g)"
  using assms
proof (induction "(card (roles g0 - vis), Suc (card (roles g0)) - length st)" arbitrary: vis st g
    rule: wf_induct_rule [OF wf_lex_prod [OF wf_less_than wf_less_than]])
  case (1 vis st g)
  show ?case
  proof (cases st)
    case Nil
    then show ?thesis using 1(2) by (subst recomputeLoop.simps) (simp add: traversal_result_def)
  next
    case (Cons r below)
    have same: "same_roles g0 g" using 1(2) by (simp add: traversal_def)
    note d = same_rolesD [OF same]
    have r: "r \<in> roles g0" "r \<notin> vis" using 1(3) Cons by (auto simp: stack_ok_def)
    have ex: "roleExists r g = Some (True, g)" using r(1) d by (simp add: roleExists_present)
    have un: "recomputeLoop vis st g = (if r \<in> set below then Some (GraphContainsCycle, vis, g)
        else case List.find (\<lambda>c. c \<notin> vis) (subordinates g0 r) of
               Some c \<Rightarrow> recomputeLoop vis (c # st) g
             | None \<Rightarrow> recomputeLoop (insert r vis) below (refreshRole r g))"
      using r(2) by (subst recomputeLoop.simps) (simp add: Cons ex d invariant_def)
    show ?thesis
    proof (cases "r \<in> set below")
      case True
      then have "(r, r) \<in> (edges g0)\<^sup>+" using path_reaches 1(3) Cons by (auto simp: stack_ok_def)
      then show ?thesis using True same by (auto simp: un traversal_result_def acyclic_def)
    next
      case new: False
      show ?thesis
      proof (cases "List.find (\<lambda>c. c \<notin> vis) (subordinates g0 r)")
        case None
        then have c: "set (subordinates g0 r) \<subseteq> vis" by (auto simp: find_None_iff)
        have "card (roles g0 - insert r vis) < card (roles g0 - vis)"
          using r finite_roles by (metis Diff_iff Diff_insert card_Diff1_less finite_Diff)
        then have "traversal_result g0 (insert r vis) (set below) (recomputeLoop (insert r vis) below (refreshRole r g))"
          using 1(1) visit_step [OF 1(2) _ new c] 1(3) Cons by simp
        then have "traversal_result g0 vis (set st) (recomputeLoop (insert r vis) below (refreshRole r g))"
          using Cons by (auto elim!: traversal_result_mono)
        then show ?thesis using None new by (simp add: un)
      next
        case (Some c)
        then have c: "c \<in> set (subordinates g0 r)" "c \<notin> vis" by (auto simp: find_Some_iff)
        then have "c \<in> roles g0" using d(1,2,4) by (auto simp: rg_ok_def links_ok_def)
        then have ok: "stack_ok g0 vis (c # st)" using 1(3) c new Cons by (auto simp: stack_ok_def)
        have "Suc (card (roles g0)) - length (c # st) < Suc (card (roles g0)) - length st"
          using stack_length [OF ok] by simp
        then have "traversal_result g0 vis (set (c # st)) (recomputeLoop vis (c # st) g)"
          using 1(1) [OF _ 1(2) ok] by simp
        then show ?thesis using Some new by (auto simp: un elim!: traversal_result_mono)
      qed
    qed
  qed
qed

lemma recomputeHelper_result:
  assumes "traversal g0 vis g" "r \<in> roles g0"
  shows "traversal_result g0 vis {r} (recomputePrivilegeDataHelper r vis g)"
proof (cases "r \<in> vis")
  case True
  then show ?thesis using assms by (auto simp: recomputePrivilegeDataHelper_def traversal_result_def)
next
  case False
  then have "stack_ok g0 vis [r]" using assms by (simp add: stack_ok_def)
  then show ?thesis using False recomputeLoop_result [OF assms(1)] by (fastforce simp: recomputePrivilegeDataHelper_def)
qed

lemma recomputeFrom_result:
  assumes "traversal g0 vis g" "set rs \<subseteq> roles g0"
  shows "\<exists>status g'. recomputeFrom rs vis g = Some (status, g') \<and>
    (status = RoleOK \<and> (\<exists>vis'. traversal g0 vis' g' \<and> vis \<union> set rs \<subseteq> vis') \<or>
     status = GraphContainsCycle \<and> same_roles g0 g' \<and> \<not> acyclic (edges g0))"
  using assms
proof (induction rs arbitrary: vis g)
  case (Cons r rs)
  then obtain status v1 g1 where h: "recomputePrivilegeDataHelper r vis g = Some (status, v1, g1)"
    "status = RoleOK \<and> traversal g0 v1 g1 \<and> vis \<union> {r} \<subseteq> v1 \<or> status = GraphContainsCycle \<and> same_roles g0 g1 \<and> \<not> acyclic (edges g0)"
    using recomputeHelper_result [OF Cons.prems(1), of r] by (auto simp: traversal_result_def)
  show ?case
  proof (cases "status = RoleOK")
    case True
    then have "traversal g0 v1 g1" "vis \<union> {r} \<subseteq> v1" using h(2) by auto
    then show ?thesis using Cons.IH [of v1 g1] Cons.prems(2) h(1) True by fastforce
  next
    case False
    then show ?thesis using h by simp
  qed
qed auto

lemma acyclic_if_visited:
  assumes "traversal g0 vis g" "roles g0 \<subseteq> vis"
  shows "acyclic (edges g0)"
  unfolding acyclic_def
proof
  fix r
  show "(r, r) \<notin> (edges g0)\<^sup>+"
  proof
    assume c: "(r, r) \<in> (edges g0)\<^sup>+"
    then obtain s where "s \<in> set (subordinates g0 r)" by (auto dest: tranclD)
    then have "r \<in> roles g0" by (cases "map_of (roleToSubordinates g0) r") (auto simp: subordinates_def roles_def listAt_def)
    then show False using assms c by (auto simp: traversal_def)
  qed
qed

lemma recompute_result:
  assumes "rg_ok g"
  obtains status g' where "recomputePrivilegeData g = Some (status, g')" "same_roles g g'"
    "status = (if acyclic (edges g) then RoleOK else GraphContainsCycle)" "status = RoleOK \<longrightarrow> (\<forall>r \<in> roles g. role_done g g' r)"
proof -
  have "traversal g {} g" using assms by (simp add: traversal_def same_roles_def)
  moreover have k: "set (map fst (roleToSubordinates g)) = roles g" by (simp add: roles_def dom_map_of_conv_image_fst)
  ultimately obtain status g' where res: "recomputePrivilegeData g = Some (status, g')"
    "status = RoleOK \<and> (\<exists>vis'. traversal g vis' g' \<and> roles g \<subseteq> vis') \<or> status = GraphContainsCycle \<and> same_roles g g' \<and> \<not> acyclic (edges g)"
    using recomputeFrom_result [of g "{}" g "map fst (roleToSubordinates g)"] unfolding recomputePrivilegeData_def by auto
  show thesis
  proof (rule that [of status g'])
    show "same_roles g g'" using res(2) by (auto simp: traversal_def)
    show "status = (if acyclic (edges g) then RoleOK else GraphContainsCycle)"
      using res(2) acyclic_if_visited [of g _ g'] by auto
    show "status = RoleOK \<longrightarrow> (\<forall>r \<in> roles g. role_done g g' r)" using res(2) by (auto simp: traversal_def)
  qed (rule res(1))
qed

section \<open>Properties\<close>

text \<open>C20:
  On every graph that the operations of the class have built, recomputing the derived data returns
  without failing a check, keeps the graph, reports a cycle exactly when the graph of roles has one,
  and otherwise gives every role exactly the roles reachable from it and the union of the direct
  privileges of the roles reachable from it.
\<close>

theorem recompute_exact:
  assumes "rg_ok g"
  shows "\<exists>status g'. recomputePrivilegeData g = Some (status, g') \<and> rg_ok g' \<and> absGraph g' = absGraph g \<and>
    status = (if acyclic (edges g) then RoleOK else GraphContainsCycle) \<and>
    (acyclic (edges g) \<longrightarrow> (\<forall>r \<in> roles g.
       indirectSubordinates g' r = {s. (r, s) \<in> (edges g)\<^sup>+} \<and>
       (\<forall>x. grants (allPrivileges g' r) x = (\<Union>w \<in> {w. (r, w) \<in> (edges g)\<^sup>*}. grants (directPrivileges g w) x))))"
proof -
  obtain status g' where r: "recomputePrivilegeData g = Some (status, g')" "same_roles g g'"
    "status = (if acyclic (edges g) then RoleOK else GraphContainsCycle)"
    "status = RoleOK \<longrightarrow> (\<forall>r \<in> roles g. role_done g g' r)" by (rule recompute_result [OF assms])
  moreover have "absGraph g' = absGraph g" using same_rolesD [OF r(2)] by (simp add: absGraph_def fun_eq_iff)
  ultimately show ?thesis using r same_rolesD(1) [OF r(2)] by (auto simp: role_done_def inherited_def)
qed

theorem recompute_exact_witness:
  "\<exists>sts g g'. runRoleOps exampleRoleOps RoleGraph_new = Some (sts, g) \<and> recomputePrivilegeData g = Some (RoleOK, g') \<and>
     indirectSubordinates g' exampleRole = {RoleName ''read'' ''shop''}"
proof -
  obtain sts a where a: "runAbsOps exampleRoleOps AbsGraph_new = (sts, a)"
    "a_edges a = {(exampleRole, RoleName ''read'' ''shop'')}" "exampleRole \<in> a_roles a" by (rule exampleRoleOps_run)
  obtain g where g: "runRoleOps exampleRoleOps RoleGraph_new = Some (sts, g)" "rg_ok g" "absGraph g = a"
    using runRoleOps_refines [OF rg_ok_new(1) exampleRoleOps_ok(1)] a(1) rg_ok_new(2) by auto
  have E: "edges g = {(exampleRole, RoleName ''read'' ''shop'')}" "exampleRole \<in> roles g"
    using a(2,3) exampleRoleOps_ok(2) by (simp_all flip: g(3))
  then have "acyclic (edges g)" by (simp add: exampleRole_def acyclic_insert) (simp add: acyclic_def)
  moreover have "{s. (exampleRole, s) \<in> (edges g)\<^sup>+} = {RoleName ''read'' ''shop''}"
    unfolding E(1) by (auto elim: converse_tranclE simp: exampleRole_def)
  ultimately show ?thesis using recompute_exact [OF g(2)] g(1) E(2) by auto
qed

end
