(* ===== verification/Privilege_Parser.thy ===== *)
theory Privilege_Parser
  imports Role_Graph
begin

text \<open>
  Documents that describe privileges, \<^verbatim>\<open>src/mongo/db/auth/privilege_parser.cpp\<close>, and the extraction of
  typed fields from documents they use, \<^verbatim>\<open>src/mongo/db/field_parser.cpp\<close>.  A document is a list of named
  elements, and looking a field up finds the first element of that name; elements of types the
  parsers never accept are \<open>bsonOther\<close>.  A field of a parsed structure together with its \<open>isSet\<close> flag
  is an option.  \<^term>\<open>None\<close> as the result of a whole function is a \<^verbatim>\<open>uassert\<close> that fails, in the
  constructor of a namespace.

  The lemmas show that the parser never throws, accepts well-formed privileges only, and that what
  it accepted can be written to a document that parses to the same privileges.
\<close>

section \<open>Documents\<close>

datatype BSONElement =
    bsonString string
  | bsonBool bool
  | bsonObject "(string \<times> BSONElement) list"
  | bsonArray "(string \<times> BSONElement) list"
  | bsonOther int

type_synonym BSONObj = "(string \<times> BSONElement) list"

definition getField :: "BSONObj \<Rightarrow> string \<Rightarrow> BSONElement option" where
  "getField obj name = map_of obj name"

datatype 'a FieldState = FIELD_INVALID | FIELD_SET 'a | FIELD_NONE

definition extractBool :: "BSONObj \<Rightarrow> string \<Rightarrow> bool FieldState" where
  "extractBool doc field =
     (case getField doc field of
        None \<Rightarrow> FIELD_NONE
      | Some (bsonBool b) \<Rightarrow> FIELD_SET b
      | Some _ \<Rightarrow> FIELD_INVALID)"

fun extractStringElement :: "BSONElement \<Rightarrow> string option" where
  "extractStringElement (bsonString s) = Some s"
| "extractStringElement _ = None"

definition extractString :: "BSONObj \<Rightarrow> string \<Rightarrow> string FieldState" where
  "extractString doc field =
     (case getField doc field of
        None \<Rightarrow> FIELD_NONE
      | Some elem \<Rightarrow> (case extractStringElement elem of None \<Rightarrow> FIELD_INVALID | Some s \<Rightarrow> FIELD_SET s))"

definition extractStringVector :: "BSONObj \<Rightarrow> string \<Rightarrow> string list FieldState" where
  "extractStringVector doc field =
     (case getField doc field of
        None \<Rightarrow> FIELD_NONE
      | Some (bsonArray arr) \<Rightarrow>
          (case those (map (\<lambda>(name, next). extractStringElement next) arr) of None \<Rightarrow> FIELD_INVALID | Some ss \<Rightarrow> FIELD_SET ss)
      | Some _ \<Rightarrow> FIELD_INVALID)"

definition isSet :: "'a FieldState \<Rightarrow> 'a option" where
  "isSet fieldState = (case fieldState of FIELD_SET x \<Rightarrow> Some x | _ \<Rightarrow> None)"

section \<open>Resources and privileges as documents\<close>

record ParsedResource =
  pr_anyResource :: "bool option"
  pr_cluster :: "bool option"
  pr_db :: "string option"
  pr_collection :: "string option"

definition clearResource :: ParsedResource where
  "clearResource = \<lparr>pr_anyResource = None, pr_cluster = None, pr_db = None, pr_collection = None\<rparr>"

definition numCandidateTypes :: "ParsedResource \<Rightarrow> nat" where
  "numCandidateTypes r = ind (pr_anyResource r \<noteq> None) + ind (pr_cluster r \<noteq> None) +
     ind (pr_db r \<noteq> None \<or> pr_collection r \<noteq> None)"

definition validResource :: "ParsedResource \<Rightarrow> bool" where
  "validResource r =
     (if (pr_db r \<noteq> None) \<noteq> (pr_collection r \<noteq> None) then False
      else if numCandidateTypes r \<noteq> 1 then False
      else if pr_anyResource r = Some False then False
      else if pr_cluster r = Some False then False
      else if (case pr_db r of None \<Rightarrow> False | Some d \<Rightarrow> \<not> validDBName True d \<and> d \<noteq> []) then False
      else if (case pr_collection r of None \<Rightarrow> False | Some c \<Rightarrow> \<not> validCollectionName c \<and> c \<noteq> []) \<and>
              \<not> (pr_db r = Some ''local'' \<and> pr_collection r = Some ''oplog.$main'') then False
      else True)"

definition optionalField :: "string \<Rightarrow> ('a \<Rightarrow> BSONElement) \<Rightarrow> 'a option \<Rightarrow> BSONObj" where
  "optionalField name f x = (case x of None \<Rightarrow> [] | Some v \<Rightarrow> [(name, f v)])"

definition resourceToBSON :: "ParsedResource \<Rightarrow> BSONObj" where
  "resourceToBSON r =
     optionalField ''anyResource'' bsonBool (pr_anyResource r) @ optionalField ''cluster'' bsonBool (pr_cluster r) @
     optionalField ''db'' bsonString (pr_db r) @ optionalField ''collection'' bsonString (pr_collection r)"

definition parseResource :: "BSONObj \<Rightarrow> ParsedResource option" where
  "parseResource source =
     (let f1 = extractBool source ''anyResource''; f2 = extractBool source ''cluster'';
          f3 = extractString source ''db''; f4 = extractString source ''collection''
      in if f1 = FIELD_INVALID then None
         else if f2 = FIELD_INVALID then None
         else if f3 = FIELD_INVALID then None
         else if f4 = FIELD_INVALID then None
         else Some \<lparr>pr_anyResource = isSet f1, pr_cluster = isSet f2, pr_db = isSet f3, pr_collection = isSet f4\<rparr>)"

definition extractResource :: "BSONObj \<Rightarrow> string \<Rightarrow> ParsedResource FieldState" where
  "extractResource doc field =
     (let parsed = (\<lambda>obj. case parseResource obj of None \<Rightarrow> FIELD_INVALID | Some r \<Rightarrow> FIELD_SET r)
      in case getField doc field of
           None \<Rightarrow> FIELD_NONE
         | Some (bsonObject obj) \<Rightarrow> parsed obj
         | Some (bsonArray obj) \<Rightarrow> parsed obj
         | Some _ \<Rightarrow> FIELD_INVALID)"

record ParsedPrivilege =
  pp_actions :: "string list option"
  pp_resource :: "ParsedResource option"

definition validPrivilege :: "ParsedPrivilege \<Rightarrow> bool" where
  "validPrivilege p =
     (if pp_actions p = None \<or> pp_actions p = Some [] then False
      else case pp_resource p of None \<Rightarrow> False | Some r \<Rightarrow> validResource r)"

fun decimal :: "nat \<Rightarrow> string" where
  "decimal n = (if n < 10 then [char_of (48 + n)] else decimal (n div 10) @ [char_of (48 + n mod 10)])"

definition arrayOf :: "BSONElement list \<Rightarrow> BSONObj" where
  "arrayOf xs = zip (map decimal [0..<length xs]) xs"

definition privilegeToBSON :: "ParsedPrivilege \<Rightarrow> BSONObj" where
  "privilegeToBSON p =
     optionalField ''resource'' (\<lambda>r. bsonObject (resourceToBSON r)) (pp_resource p) @
     optionalField ''actions'' (\<lambda>as. bsonArray (arrayOf (map bsonString as))) (pp_actions p)"

definition parsePrivilege :: "BSONObj \<Rightarrow> ParsedPrivilege option" where
  "parsePrivilege source =
     (let f1 = extractStringVector source ''actions''; f2 = extractResource source ''resource''
      in if f1 = FIELD_INVALID then None
         else if f2 = FIELD_INVALID then None
         else Some \<lparr>pp_actions = isSet f1, pp_resource = isSet f2\<rparr>)"

section \<open>Privileges from and to parsed privileges\<close>

definition NamespaceString_new :: "string \<Rightarrow> string \<Rightarrow> NamespaceString option" where
  "NamespaceString_new dbName collectionName = do {
     invariant (CHR ''.'' \<notin> set dbName);
     invariant (collectionName = [] \<or> hd collectionName \<noteq> CHR ''.'');
     invariant (CHR 0x00 \<notin> set (dbName @ CHR ''.'' # collectionName));
     Some (dbName, collectionName)
   }"

definition resourceOf :: "ParsedResource \<Rightarrow> ResourcePattern option" where
  "resourceOf r =
     (if pr_anyResource r = Some True then Some AnyResource
      else if pr_cluster r = Some True then Some ClusterResource
      else case pr_db r of
             Some (d # ds) \<Rightarrow>
               (case pr_collection r of
                  Some (c # cs) \<Rightarrow> map_option ExactNamespace (NamespaceString_new (d # ds) (c # cs))
                | _ \<Rightarrow> map_option (\<lambda>ns. DatabaseName (fst ns)) (NamespaceString_new (d # ds) []))
           | _ \<Rightarrow>
               (case pr_collection r of
                  Some (c # cs) \<Rightarrow> map_option (\<lambda>ns. CollectionName (snd ns)) (NamespaceString_new [] (c # cs))
                | _ \<Rightarrow> Some AnyNormalResource))"

definition parsedPrivilegeToPrivilege :: "ParsedPrivilege \<Rightarrow> (RoleStatus + Privilege \<times> string list) option" where
  "parsedPrivilegeToPrivilege parsedPrivilege =
     (case (pp_actions parsedPrivilege, pp_resource parsedPrivilege) of
        (Some parsedActions, Some parsedResource) \<Rightarrow>
          if \<not> validPrivilege parsedPrivilege then Some (Inl FailedToParse)
          else do {
            let (actions, unrecognizedActions) = parseActionSetFromStringVector parsedActions;
            resource \<leftarrow> resourceOf parsedResource;
            Some (Inr (privilegeOn resource actions, unrecognizedActions))
          }
      | _ \<Rightarrow> Some (Inl FailedToParse))"

definition resourceToParsed :: "ResourcePattern \<Rightarrow> ParsedResource option" where
  "resourceToParsed r =
     (case r of
        ExactNamespace ns \<Rightarrow> Some (clearResource\<lparr>pr_db := Some (fst ns), pr_collection := Some (snd ns)\<rparr>)
      | DatabaseName d \<Rightarrow> Some (clearResource\<lparr>pr_db := Some d, pr_collection := Some []\<rparr>)
      | CollectionName c \<Rightarrow> Some (clearResource\<lparr>pr_db := Some [], pr_collection := Some c\<rparr>)
      | AnyNormalResource \<Rightarrow> Some (clearResource\<lparr>pr_db := Some [], pr_collection := Some []\<rparr>)
      | ClusterResource \<Rightarrow> Some (clearResource\<lparr>pr_cluster := Some True\<rparr>)
      | AnyResource \<Rightarrow> Some (clearResource\<lparr>pr_anyResource := Some True\<rparr>)
      | Never \<Rightarrow> None)"

definition privilegeToParsedPrivilege :: "Privilege \<Rightarrow> ParsedPrivilege option" where
  "privilegeToParsedPrivilege privilege = do {
     parsedResource \<leftarrow> resourceToParsed (resource privilege);
     let as = getActionsAsStrings (actions privilege);
     let result = \<lparr>pp_actions = (if as = [] then None else Some as), pp_resource = Some parsedResource\<rparr>;
     if validPrivilege result then Some result else None
   }"

fun parseAndValidatePrivilegeArray :: "BSONObj \<Rightarrow> (RoleStatus + PrivilegeVector) option" where
  "parseAndValidatePrivilegeArray [] = Some (Inr [])"
| "parseAndValidatePrivilegeArray ((name, bsonObject obj) # rest) =
     (case parsePrivilege obj of
        None \<Rightarrow> Some (Inl FailedToParse)
      | Some parsedPrivilege \<Rightarrow>
          if \<not> validPrivilege parsedPrivilege then Some (Inl FailedToParse)
          else do {
            r \<leftarrow> parsedPrivilegeToPrivilege parsedPrivilege;
            (case r of
               Inl status \<Rightarrow> Some (Inl status)
             | Inr (privilege, unrecognizedActions) \<Rightarrow>
                 if unrecognizedActions \<noteq> [] then Some (Inl FailedToParse)
                 else do {
                   r \<leftarrow> parseAndValidatePrivilegeArray rest;
                   Some (case r of Inl status \<Rightarrow> Inl status | Inr ps \<Rightarrow> Inr (privilege # ps))
                 })
          })"
| "parseAndValidatePrivilegeArray (_ # rest) = Some (Inl FailedToParse)"

fun getBSONForPrivileges :: "PrivilegeVector \<Rightarrow> RoleStatus + BSONObj" where
  "getBSONForPrivileges [] = Inr []"
| "getBSONForPrivileges (p # ps) =
     (case privilegeToParsedPrivilege p of
        None \<Rightarrow> Inl BadValue
      | Some privilege \<Rightarrow>
          (case getBSONForPrivileges ps of
             Inl status \<Rightarrow> Inl status
           | Inr docs \<Rightarrow> Inr ((''privileges'', bsonObject (privilegeToBSON privilege)) # docs)))"

section \<open>Printing and parsing\<close>

lemma parseResource_print: "parseResource (resourceToBSON r) = Some r"
  by (cases r; cases "pr_anyResource r"; cases "pr_cluster r"; cases "pr_db r"; cases "pr_collection r")
    (simp_all add: parseResource_def resourceToBSON_def optionalField_def extractBool_def extractString_def getField_def isSet_def)

lemma map_arrayOf [simp]: "map (\<lambda>(name, x). f x) (arrayOf xs) = map f xs"
  by (rule nth_equalityI) (simp_all add: arrayOf_def)

lemma those_map_Some [simp]: "those (map Some xs) = Some xs"
  by (induction xs) simp_all

lemma parsePrivilege_print: "parsePrivilege (privilegeToBSON p) = Some p"
  by (cases p; cases "pp_actions p"; cases "pp_resource p")
    (simp_all add: parsePrivilege_def privilegeToBSON_def optionalField_def extractStringVector_def extractResource_def getField_def
      isSet_def parseResource_print comp_def)

lemma valid_namespace:
  "validDBName True d \<Longrightarrow> CHR ''.'' \<notin> set d \<and> CHR 0x00 \<notin> set d"
  "validCollectionName c \<or> c = ''oplog.$main'' \<Longrightarrow> hd c \<noteq> CHR ''.'' \<and> CHR 0x00 \<notin> set c"
  by (auto simp: validDBName_def validCollectionName_def list_all_iff)

lemma resourceOf_valid:
  assumes "validResource r"
  obtains x where "resourceOf r = Some x" "resourceToParsed x = Some r"
proof (cases "pr_db r")
  case None
  then consider "r = clearResource\<lparr>pr_anyResource := Some True\<rparr>" | "r = clearResource\<lparr>pr_cluster := Some True\<rparr>"
    using assms by (cases r; cases "pr_anyResource r"; cases "pr_cluster r")
      (auto simp: validResource_def numCandidateTypes_def clearResource_def split: if_splits)
  then show ?thesis using that by cases (auto simp: resourceOf_def resourceToParsed_def clearResource_def)
next
  case (Some d)
  then obtain c where r: "r = clearResource\<lparr>pr_db := Some d, pr_collection := Some c\<rparr>"
    "d = [] \<or> validDBName True d" "c = [] \<or> validCollectionName c \<or> c = ''oplog.$main''"
    using assms by (cases r; cases "pr_anyResource r"; cases "pr_cluster r"; cases "pr_collection r")
      (auto simp: validResource_def numCandidateTypes_def clearResource_def split: if_splits)
  then show ?thesis using that valid_namespace(1) [of d] valid_namespace(2) [of c]
    by (cases d; cases c) (auto simp: resourceOf_def resourceToParsed_def clearResource_def NamespaceString_new_def invariant_def)
qed

lemma parseActions_bad: "parseActions result bad as = (s, bad') \<Longrightarrow> \<exists>w. bad' = bad @ w"
  by (induction result bad as rule: parseActions.induct) (fastforce split: option.splits if_splits)+

lemma parseActions_ok:
  assumes "parseActions result [] as = (s, [])" "actions_ok result"
  shows "actions_ok s \<and> result \<subseteq> s \<and> (as \<noteq> [] \<longrightarrow> s \<noteq> {})"
  using assms
proof (induction as arbitrary: result)
  case (Cons a as)
  have known: "a \<in> addAllActions"
    using Cons.prems(1) parseActions_bad [of result "[a]" as s "[]"]
    by (auto simp: parseActionFromString_def addAllActions_def split: if_splits)
  show ?case
  proof (cases "a = anyAction")
    case True
    then show ?thesis using Cons.prems known
      by (auto simp: parseActionFromString_def addAllActions_def actions_ok_def split: if_splits)
  next
    case False
    then have "parseActions (addAction a result) [] as = (s, [])"
      using Cons.prems(1) known by (simp add: parseActionFromString_def addAllActions_def)
    from Cons.IH [OF this actions_ok_addAction [OF known Cons.prems(2)]] show ?thesis using False by (auto simp: addAction_def)
  qed
qed simp

lemma printed_actions: "actions_ok s \<Longrightarrow> s \<noteq> {} \<Longrightarrow> getActionsAsStrings s \<noteq> []"
  by (auto simp: getActionsAsStrings_def actions_ok_def addAllActions_def filter_empty_conv)

text \<open>The privileges that requests and documents may grant.\<close>

definition printable :: "ResourcePattern \<Rightarrow> bool" where
  "printable x \<longleftrightarrow> (\<exists>r. validResource r \<and> resourceToParsed x = Some r \<and> resourceOf r = Some x)"

definition storable :: "Privilege \<Rightarrow> bool" where
  "storable p \<longleftrightarrow> actions_ok (actions p) \<and> actions p \<noteq> {} \<and> printable (resource p)"

lemma parsed_storable:
  assumes "validPrivilege pp"
  obtains p bad where "parsedPrivilegeToPrivilege pp = Some (Inr (p, bad))" "bad = [] \<longrightarrow> storable p"
proof -
  obtain as r where pp: "pp_actions pp = Some as" "pp_resource pp = Some r" "as \<noteq> []" "validResource r"
    using assms by (auto simp: validPrivilege_def split: if_splits option.splits)
  obtain x where x: "resourceOf r = Some x" "resourceToParsed x = Some r" by (rule resourceOf_valid [OF pp(4)])
  obtain s bad where s: "parseActionSetFromStringVector as = (s, bad)" by fastforce
  show thesis
  proof (rule that [of "privilegeOn x s" bad])
    show "parsedPrivilegeToPrivilege pp = Some (Inr (privilegeOn x s, bad))"
      using pp s x assms by (simp add: parsedPrivilegeToPrivilege_def)
    show "bad = [] \<longrightarrow> storable (privilegeOn x s)"
      using s parseActions_ok [of "{}" as s] pp x by (auto simp: storable_def printable_def privilegeOn_def parseActionSetFromStringVector_def)
  qed
qed

lemma storable_print:
  assumes "storable p"
  obtains pp where "privilegeToParsedPrivilege p = Some pp" "validPrivilege pp" "parsedPrivilegeToPrivilege pp = Some (Inr (p, []))"
proof -
  obtain r where r: "validResource r" "resourceToParsed (resource p) = Some r" "resourceOf r = Some (resource p)"
    and a: "actions_ok (actions p)" "actions p \<noteq> {}" using assms by (auto simp: storable_def printable_def)
  let ?pp = "\<lparr>pp_actions = Some (getActionsAsStrings (actions p)), pp_resource = Some r\<rparr>"
  have v: "validPrivilege ?pp" using r(1) printed_actions [OF a] by (simp add: validPrivilege_def)
  show thesis
  proof (rule that [of ?pp])
    show "privilegeToParsedPrivilege p = Some ?pp" using r v printed_actions [OF a] by (simp add: privilegeToParsedPrivilege_def)
    show "parsedPrivilegeToPrivilege ?pp = Some (Inr (p, []))"
      using v r actions_roundtrip [OF a(1)] by (simp add: parsedPrivilegeToPrivilege_def privilegeOn_def)
  qed (rule v)
qed

lemma parse_array_total:
  "\<exists>res. parseAndValidatePrivilegeArray arr = Some res \<and> (case res of Inl st \<Rightarrow> st = FailedToParse | Inr ps \<Rightarrow> list_all storable ps)"
proof (induction arr)
  case (Cons e rest)
  obtain name el where e: "e = (name, el)" by fastforce
  obtain res where IH: "parseAndValidatePrivilegeArray rest = Some res"
    "case res of Inl st \<Rightarrow> st = FailedToParse | Inr ps \<Rightarrow> list_all storable ps" using Cons.IH by blast
  show ?case
  proof (cases "\<exists>obj pp. el = bsonObject obj \<and> parsePrivilege obj = Some pp \<and> validPrivilege pp")
    case True
    then obtain obj pp where pp: "el = bsonObject obj" "parsePrivilege obj = Some pp" "validPrivilege pp" by blast
    obtain p bad where p: "parsedPrivilegeToPrivilege pp = Some (Inr (p, bad))" "bad = [] \<longrightarrow> storable p"
      by (rule parsed_storable [OF pp(3)])
    show ?thesis using IH e pp p by (cases res) auto
  next
    case False
    then show ?thesis using e by (cases el) (auto split: option.split)
  qed
qed simp

lemma print_privileges:
  assumes "list_all storable ps"
  obtains docs where "getBSONForPrivileges ps = Inr docs" "parseAndValidatePrivilegeArray docs = Some (Inr ps)"
  using assms
proof (induction ps arbitrary: thesis)
  case (Cons p ps)
  obtain docs where d: "getBSONForPrivileges ps = Inr docs" "parseAndValidatePrivilegeArray docs = Some (Inr ps)"
    using Cons.IH Cons.prems(2) by auto
  have "storable p" using Cons.prems(2) by simp
  then obtain pp where pp: "privilegeToParsedPrivilege p = Some pp" "validPrivilege pp" "parsedPrivilegeToPrivilege pp = Some (Inr (p, []))"
    by (rule storable_print)
  show ?case
  proof (rule Cons.prems(1))
    show "getBSONForPrivileges (p # ps) = Inr ((''privileges'', bsonObject (privilegeToBSON pp)) # docs)" using d pp by simp
    show "parseAndValidatePrivilegeArray ((''privileges'', bsonObject (privilegeToBSON pp)) # docs) = Some (Inr (p # ps))"
      using d pp by (simp add: parsePrivilege_print)
  qed
qed simp

section \<open>The privileges of built-in roles\<close>

lemma printable_simps [simp]:
  "printable AnyResource" "printable ClusterResource" "printable AnyNormalResource"
  "validDBName True d \<Longrightarrow> printable (DatabaseName d)"
  "validCollectionName c \<Longrightarrow> printable (CollectionName c)"
  "validDBName True d \<Longrightarrow> validCollectionName c \<Longrightarrow> printable (ExactNamespace (d, c))"
  using valid_namespace(1) [of d] valid_namespace(2) [of c]
  by (cases d; cases c; auto simp: printable_def resourceToParsed_def resourceOf_def validResource_def numCandidateTypes_def
      clearResource_def NamespaceString_new_def invariant_def validDBName_def validCollectionName_def)+

lemma addAction_nonempty [simp]: "addAction a s \<noteq> {}" "as \<noteq> [] \<Longrightarrow> fold addAction as s \<noteq> {}"
proof -
  show n: "addAction a s \<noteq> {}" for a s using anyAction_all by (auto simp: addAction_def simp del: anyAction_all)
  show "as \<noteq> [] \<Longrightarrow> fold addAction as s \<noteq> {}" by (induction as arbitrary: s rule: rev_induct) (simp_all add: n)
qed

lemma storable_on: "storable (privilegeOn x s) \<longleftrightarrow> actions_ok s \<and> s \<noteq> {} \<and> printable x"
  "a \<in> addAllActions \<Longrightarrow> storable (privilegeOn1 x a) \<longleftrightarrow> printable x"
  by (auto simp: storable_def privilegeOn_def privilegeOn1_def actions_ok_addAction)

lemma storable_add: "list_all storable pv \<Longrightarrow> storable p \<Longrightarrow> list_all storable (addPrivilegeToPrivilegeVector pv p)"
  by (induction pv) (auto simp: storable_def addActions_def addAllActionsFromSet_Un intro: actions_ok_intros)

lemma storable_addAll: "list_all storable pv \<Longrightarrow> list_all storable ps \<Longrightarrow> list_all storable (addAll pv ps)"
  unfolding addAll_def by (induction ps arbitrary: pv) (auto intro: storable_add)

lemma role_actions_nonempty [simp]:
  "readRoleActions \<noteq> {}" "readWriteRoleActions \<noteq> {}" "userAdminRoleActions \<noteq> {}" "dbAdminRoleActions \<noteq> {}" "addAllActions \<noteq> {}"
  "clusterMonitorRoleClusterActions \<noteq> {}" "clusterMonitorRoleDatabaseActions \<noteq> {}" "hostManagerRoleClusterActions \<noteq> {}"
  "hostManagerRoleDatabaseActions \<noteq> {}" "clusterManagerRoleClusterActions \<noteq> {}" "clusterManagerRoleDatabaseActions \<noteq> {}"
  "profileActions \<noteq> {}" "readRoleAndIndexActions \<noteq> {}" "writeActions \<noteq> {}" "restoreActions \<noteq> {}"
  unfolding readRoleActions_def readWriteRoleActions_def userAdminRoleActions_def dbAdminRoleActions_def
    clusterMonitorRoleClusterActions_def clusterMonitorRoleDatabaseActions_def hostManagerRoleClusterActions_def
    hostManagerRoleDatabaseActions_def clusterManagerRoleClusterActions_def clusterManagerRoleDatabaseActions_def
    profileActions_def readRoleAndIndexActions_def writeActions_def restoreActions_def ActionSet_new_def
  using anyAction_all by (auto simp del: fold_simps anyAction_all)

lemma names_valid [simp]:
  "validDBName True ''config''" "validDBName True ''local''" "validDBName True ''admin''"
  "validDBName True ''$setFeatureCompatibilityVersion''"
  "validCollectionName ''system.indexes''" "validCollectionName ''system.js''" "validCollectionName ''system.namespaces''"
  "validCollectionName ''system.profile''" "validCollectionName ''system.users''" "validCollectionName ''system.replset''"
  "validCollectionName ''system.roles''" "validCollectionName ''system.new_users''" "validCollectionName ''system.backup_users''"
  "validCollectionName ''system.version''" "validCollectionName ''tempusers''" "validCollectionName ''temproles''"
  "validCollectionName ''version''" "validCollectionName ''settings''"
  by (simp_all add: validDBName_def validCollectionName_def)

lemmas collection_names = rolesCollectionNamespace_def usersAltCollectionNamespace_def usersBackupCollectionNamespace_def
  usersCollectionNamespace_def versionCollectionNamespace_def defaultTempUsersCollectionNamespace_def
  defaultTempRolesCollectionNamespace_def

definition storing :: "(PrivilegeVector \<Rightarrow> PrivilegeVector) \<Rightarrow> bool" where
  "storing f \<longleftrightarrow> (\<forall>pv. list_all storable pv \<longrightarrow> list_all storable (f pv))"

lemma storing_db:
  assumes "validDBName True db"
  shows "storing (addReadOnlyDbPrivileges db)" "storing (addReadWriteDbPrivileges db)" "storing (addUserAdminDbPrivileges db)"
    "storing (addDbAdminDbPrivileges db)" "storing (addDbOwnerPrivileges db)"
  using assms unfolding storing_def addDbOwnerPrivileges_def addReadWriteDbPrivileges_def addReadOnlyDbPrivileges_def
    addUserAdminDbPrivileges_def addDbAdminDbPrivileges_def
  by (auto intro!: storable_addAll simp: storable_on)

lemma storing_any:
  "storing addEnableShardingPrivileges" "storing addReadOnlyAnyDbPrivileges" "storing addUserAdminAnyDbPrivileges"
  "storing addDbAdminAnyDbPrivileges" "storing addHostManagerPrivileges" "storing addBackupPrivileges" "storing addRestorePrivileges"
  "storing generateUniversalPrivileges"
  unfolding storing_def addEnableShardingPrivileges_def addReadOnlyAnyDbPrivileges_def addUserAdminAnyDbPrivileges_def
    addDbAdminAnyDbPrivileges_def addHostManagerPrivileges_def addBackupPrivileges_def addRestorePrivileges_def Let_def
    generateUniversalPrivileges_def
  by (auto intro!: storable_addAll simp: storable_on collection_names ActionSet_new_def actions_ok_addAction)

lemma storing_comp: "storing f \<Longrightarrow> storing g \<Longrightarrow> storing (\<lambda>pv. f (g pv))"
  by (simp add: storing_def)

lemma storing_addAll: "list_all storable ps \<Longrightarrow> storing f \<Longrightarrow> storing (\<lambda>pv. addAll (f pv) ps)"
  "list_all storable ps \<Longrightarrow> storing (\<lambda>pv. addAll pv ps)"
  by (simp_all add: storing_def storable_addAll)

lemma storing_cluster:
  "storing addReadWriteAnyDbPrivileges" "storing addClusterMonitorPrivileges" "storing addClusterManagerPrivileges"
  "storing addClusterAdminPrivileges" "storing addRootRolePrivileges"
proof -
  show rw: "storing addReadWriteAnyDbPrivileges" unfolding addReadWriteAnyDbPrivileges_def
    by (rule storing_addAll(1) [OF _ storing_any(2)]) (simp add: storable_on)
  show m: "storing addClusterMonitorPrivileges" unfolding addClusterMonitorPrivileges_def
    by (rule storing_addAll(1) [OF _ storing_comp [OF storing_db(1) storing_comp [OF storing_db(1) storing_addAll(2)]]])
      (simp_all add: storable_on)
  show n: "storing addClusterManagerPrivileges" unfolding addClusterManagerPrivileges_def
    by (rule storing_addAll(1) [OF _ storing_comp [OF storing_db(1) storing_addAll(2)]]) (simp_all add: storable_on)
  show a: "storing addClusterAdminPrivileges" unfolding addClusterAdminPrivileges_def
    by (rule storing_addAll(1) [OF _ storing_comp [OF n storing_comp [OF storing_any(5) m]]]) (simp add: storable_on)
  show "storing addRootRolePrivileges" unfolding addRootRolePrivileges_def
    by (rule storing_addAll(1) [OF _ storing_comp [OF storing_any(7) storing_comp [OF storing_any(6) storing_comp [OF rw
      storing_comp [OF storing_any(4) storing_comp [OF storing_any(3) a]]]]]]) (simp add: storable_on)
qed

lemma builtin_storable:
  assumes "isBuiltinRole r"
  shows "list_all storable (builtinPrivileges r)" "list_all storable (builtinDirect r)"
proof -
  have v: "validDBName True (getDB r)" using assms by (simp add: isBuiltinRole_def split: if_splits)
  have base: "storing f \<Longrightarrow> list_all storable (f [])" for f by (simp add: storing_def)
  note tables = storing_db [OF v, THEN base] storing_any [THEN base] storing_cluster [THEN base]
  have "list_all storable pv" if "addPrivilegesForBuiltinRole r [] = Some pv" for pv
    using that tables unfolding addPrivilegesForBuiltinRole_def Let_def by (simp split: if_split_asm)
  then show s: "list_all storable (builtinPrivileges r)" unfolding builtinPrivileges_def by (simp split: option.split)
  show "list_all storable (builtinDirect r)" unfolding builtinDirect_def by (rule storable_addAll) (simp_all add: s)
qed

section \<open>Properties\<close>

text \<open>C25:
  Parsing an array of privilege documents never throws and ends in the privileges or the status
  \<open>FailedToParse\<close>; the privileges it accepts have well-formed, non-empty action sets, and writing them to
  documents succeeds and parses back to the same privileges.
\<close>

theorem privilege_documents:
  "\<exists>res. parseAndValidatePrivilegeArray arr = Some res \<and>
     (case res of
        Inl status \<Rightarrow> status = FailedToParse
      | Inr ps \<Rightarrow> list_all privilege_ok ps \<and> list_all (\<lambda>p. actions p \<noteq> {}) ps \<and>
          (\<exists>docs. getBSONForPrivileges ps = Inr docs \<and> parseAndValidatePrivilegeArray docs = Some (Inr ps)))"
proof -
  obtain res where r: "parseAndValidatePrivilegeArray arr = Some res"
    "case res of Inl st \<Rightarrow> st = FailedToParse | Inr ps \<Rightarrow> list_all storable ps" using parse_array_total by blast
  have "list_all privilege_ok ps \<and> list_all (\<lambda>p. actions p \<noteq> {}) ps \<and>
      (\<exists>docs. getBSONForPrivileges ps = Inr docs \<and> parseAndValidatePrivilegeArray docs = Some (Inr ps))" if "list_all storable ps" for ps
    using that print_privileges [OF that] by (auto simp: list_all_iff storable_def privilege_ok_def)
  then show ?thesis using r by (auto split: sum.splits)
qed

end
