(* ===== verification/Role_Documents.thy ===== *)
theory Role_Documents
  imports Role_Recompute Privilege_Parser
begin

text \<open>
  Roles as documents of \<^verbatim>\<open>admin.system.roles\<close> and the application of oplog entries to the role graph,
  \<^verbatim>\<open>src/mongo/db/auth/role_graph_update.cpp\<close> and \<open>getBSONForRole\<close> of \<^verbatim>\<open>authorization_manager.cpp\<close>.  The
  driver that applies update operators to a document is a parameter of the functions that use it;
  nothing is assumed of it.  A handler returns \<^term>\<open>None\<close> when a check of the graph fails or an exception
  escapes, and otherwise its status and the graph.

  The lemmas show that no entry makes a handler fail a check, whatever its documents contain, that the
  graph stays well-formed, and that the document of a role parses back to that role.
\<close>

section \<open>Definitions\<close>

subsection \<open>Fields of role documents\<close>

definition bsonExtractField :: "BSONObj \<Rightarrow> string \<Rightarrow> RoleStatus + BSONElement" where
  "bsonExtractField object fieldName = (case getField object fieldName of None \<Rightarrow> Inl NoSuchKey | Some e \<Rightarrow> Inr e)"

definition bsonExtractString :: "BSONObj \<Rightarrow> string \<Rightarrow> RoleStatus + string" where
  "bsonExtractString object fieldName =
     (case bsonExtractField object fieldName of
        Inl st \<Rightarrow> Inl st
      | Inr (bsonString s) \<Rightarrow> Inr s
      | Inr _ \<Rightarrow> Inl TypeMismatch)"

definition bsonExtractArray :: "BSONObj \<Rightarrow> string \<Rightarrow> RoleStatus + BSONObj" where
  "bsonExtractArray object fieldName =
     (case bsonExtractField object fieldName of
        Inl st \<Rightarrow> Inl st
      | Inr (bsonArray a) \<Rightarrow> Inr a
      | Inr _ \<Rightarrow> Inl TypeMismatch)"

record RoleInfo =
  ri_name :: RoleName
  ri_roles :: "RoleName list"
  ri_privileges :: PrivilegeVector

definition parseRoleNameFromDocument :: "BSONObj \<Rightarrow> RoleStatus + RoleName" where
  "parseRoleNameFromDocument doc =
     (case bsonExtractString doc ''role'' of
        Inl st \<Rightarrow> Inl st
      | Inr nameElement \<Rightarrow>
          (case bsonExtractString doc ''db'' of
             Inl st \<Rightarrow> Inl st
           | Inr sourceElement \<Rightarrow> Inr (RoleName nameElement sourceElement)))"

text \<open>Splitting at the first dot; \<^term>\<open>None\<close> when there is none.\<close>

definition splitAtDot :: "string \<Rightarrow> (string \<times> string) option" where
  "splitAtDot s =
     (if CHR ''.'' \<in> set s then Some (takeWhile (\<lambda>c. c \<noteq> CHR ''.'') s, tl (dropWhile (\<lambda>c. c \<noteq> CHR ''.'') s)) else None)"

definition checkIdMatchesRoleName :: "BSONElement option \<Rightarrow> RoleName \<Rightarrow> RoleStatus" where
  "checkIdMatchesRoleName idElement roleName =
     (case idElement of
        Some (bsonString idField) \<Rightarrow>
          if splitAtDot idField = Some (getDB roleName, getRole roleName) then RoleOK else FailedToParse
      | _ \<Rightarrow> TypeMismatch)"

definition getRoleNameFromIdField :: "BSONElement option \<Rightarrow> RoleStatus + RoleName" where
  "getRoleNameFromIdField idElement =
     (case idElement of
        Some (bsonString idField) \<Rightarrow>
          (case splitAtDot idField of None \<Rightarrow> Inl BadValue | Some (d, r) \<Rightarrow> Inr (RoleName r d))
      | _ \<Rightarrow> Inl TypeMismatch)"

fun parsePossessedRoles :: "BSONObj \<Rightarrow> RoleStatus + RoleName list" where
  "parsePossessedRoles [] = Inr []"
| "parsePossessedRoles ((name, bsonObject obj) # rest) =
     (case parseRoleNameFromDocument obj of
        Inl st \<Rightarrow> Inl st
      | Inr r \<Rightarrow> (case parsePossessedRoles rest of Inl st \<Rightarrow> Inl st | Inr rs \<Rightarrow> Inr (r # rs)))"
| "parsePossessedRoles (_ # rest) = Inl TypeMismatch"

definition parseRoleFromDocument :: "BSONObj \<Rightarrow> (RoleStatus + RoleInfo) option" where
  "parseRoleFromDocument doc =
     (case parseRoleNameFromDocument doc of
        Inl st \<Rightarrow> Some (Inl st)
      | Inr name \<Rightarrow>
          if checkIdMatchesRoleName (getField doc ''_id'') name \<noteq> RoleOK
          then Some (Inl (checkIdMatchesRoleName (getField doc ''_id'') name))
          else (case bsonExtractArray doc ''roles'' of
                  Inl st \<Rightarrow> Some (Inl st)
                | Inr rolesElement \<Rightarrow>
                    (case parsePossessedRoles rolesElement of
                       Inl st \<Rightarrow> Some (Inl st)
                     | Inr rs \<Rightarrow>
                         (case bsonExtractArray doc ''privileges'' of
                            Inl st \<Rightarrow> Some (Inl st)
                          | Inr privilegesElement \<Rightarrow> do {
                              r \<leftarrow> parseAndValidatePrivilegeArray privilegesElement;
                              Some (case r of
                                      Inl st \<Rightarrow> Inl st
                                    | Inr ps \<Rightarrow> Inr \<lparr>ri_name = name, ri_roles = rs, ri_privileges = ps\<rparr>)
                            }))))"

subsection \<open>The document of a role\<close>

definition getDirectSubordinates :: "RoleName \<Rightarrow> RoleGraph \<Rightarrow> (RoleName list \<times> RoleGraph) option" where
  "getDirectSubordinates role g = do {
     (ex, g1) \<leftarrow> roleExists role g;
     Some (if \<not> ex then [] else subordinates g1 role, g1)
   }"

definition getIndirectSubordinates :: "RoleName \<Rightarrow> RoleGraph \<Rightarrow> (RoleName set \<times> RoleGraph) option" where
  "getIndirectSubordinates role g = do {
     (ex, g1) \<leftarrow> roleExists role g;
     Some (if \<not> ex then {} else indirectSubordinates g1 role, g1)
   }"

definition getDirectPrivileges :: "RoleName \<Rightarrow> RoleGraph \<Rightarrow> (PrivilegeVector \<times> RoleGraph) option" where
  "getDirectPrivileges role g = do {
     (ex, g1) \<leftarrow> roleExists role g;
     Some (if \<not> ex then [] else directPrivileges g1 role, g1)
   }"

definition getAllPrivileges :: "RoleName \<Rightarrow> RoleGraph \<Rightarrow> (PrivilegeVector \<times> RoleGraph) option" where
  "getAllPrivileges role g = do {
     (ex, g1) \<leftarrow> roleExists role g;
     Some (if \<not> ex then [] else allPrivileges g1 role, g1)
   }"

definition roleNameObject :: "RoleName \<Rightarrow> BSONElement" where
  "roleNameObject r = bsonObject [(''role'', bsonString (getRole r)), (''db'', bsonString (getDB r))]"

definition getBSONForRole :: "RoleName \<Rightarrow> RoleGraph \<Rightarrow> ((RoleStatus + BSONObj) \<times> RoleGraph) option" where
  "getBSONForRole roleName g = do {
     (ex, g1) \<leftarrow> roleExists roleName g;
     if \<not> ex then Some (Inl RoleNotFound, g1)
     else do {
       (privileges, g2) \<leftarrow> getDirectPrivileges roleName g1;
       (case getBSONForPrivileges privileges of
          Inl st \<Rightarrow> Some (Inl st, g2)
        | Inr privilegesArray \<Rightarrow> do {
            (rs, g3) \<leftarrow> getDirectSubordinates roleName g2;
            Some (Inr [(''_id'', bsonString (getDB roleName @ ''.'' @ getRole roleName)),
                       (''role'', bsonString (getRole roleName)), (''db'', bsonString (getDB roleName)),
                       (''privileges'', bsonArray privilegesArray),
                       (''roles'', bsonArray (map (\<lambda>r. ([], roleNameObject r)) rs))], g3)
          })
     }
   }"

subsection \<open>Oplog entries\<close>

definition addRoleFromDocument :: "BSONObj \<Rightarrow> RoleGraph \<Rightarrow> (RoleStatus \<times> RoleGraph) option" where
  "addRoleFromDocument doc g = do {
     r \<leftarrow> parseRoleFromDocument doc;
     (case r of
        Inl st \<Rightarrow> Some (st, g)
      | Inr role \<Rightarrow> replaceRole (ri_name role) (ri_roles role) (ri_privileges role) g)
   }"

definition handleOplogInsert :: "BSONObj \<Rightarrow> RoleGraph \<Rightarrow> (RoleStatus \<times> RoleGraph) option" where
  "handleOplogInsert insertedObj g = do {
     r \<leftarrow> parseRoleFromDocument insertedObj;
     (case r of
        Inl st \<Rightarrow> Some (st, g)
      | Inr role \<Rightarrow> replaceRole (ri_name role) (ri_roles role) (ri_privileges role) g)
   }"

record 'm UpdateDriver =
  ud_parse :: "BSONObj \<Rightarrow> RoleStatus + 'm"
  ud_populate :: "BSONObj \<Rightarrow> RoleStatus + BSONObj"
  ud_update :: "'m \<Rightarrow> BSONObj \<Rightarrow> RoleStatus + BSONObj"

definition handleOplogUpdate ::
    "'m UpdateDriver \<Rightarrow> BSONObj \<Rightarrow> BSONObj \<Rightarrow> RoleGraph \<Rightarrow> (RoleStatus \<times> RoleGraph) option" where
  "handleOplogUpdate driver updatePattern queryPattern g =
     (case getRoleNameFromIdField (getField queryPattern ''_id'') of
        Inl st \<Rightarrow> Some (st, g)
      | Inr roleToUpdate \<Rightarrow>
          (case ud_parse driver updatePattern of
             Inl st \<Rightarrow> Some (st, g)
           | Inr mods \<Rightarrow> do {
               (r, g1) \<leftarrow> getBSONForRole roleToUpdate g;
               (case (if r = Inl RoleNotFound then ud_populate driver queryPattern else r) of
                  Inl st \<Rightarrow> Some (st, g1)
                | Inr roleDocument \<Rightarrow>
                    (case ud_update driver mods roleDocument of
                       Inl st \<Rightarrow> Some (st, g1)
                     | Inr updated \<Rightarrow> do {
                         r \<leftarrow> parseRoleFromDocument updated;
                         (case r of
                            Inl st \<Rightarrow> Some (st, g1)
                          | Inr role \<Rightarrow> replaceRole (ri_name role) (ri_roles role) (ri_privileges role) g1)
                       }))
             }))"

definition handleOplogDelete :: "BSONObj \<Rightarrow> RoleGraph \<Rightarrow> (RoleStatus \<times> RoleGraph) option" where
  "handleOplogDelete deletePattern g =
     (case getRoleNameFromIdField (getField deletePattern ''_id'') of
        Inl st \<Rightarrow> Some (st, g)
      | Inr roleToDelete \<Rightarrow> do {
          (st, g1) \<leftarrow> deleteRole roleToDelete g;
          Some (if st = RoleNotFound then RoleOK else st, g1)
        })"

definition elementStr :: "BSONElement option \<Rightarrow> string" where
  "elementStr e = (case e of Some (bsonString s) \<Rightarrow> s | _ \<Rightarrow> [])"

definition rolesColl :: string where "rolesColl = ''system.roles''"
definition rolesNs :: string where "rolesNs = ''admin.system.roles''"

definition handleOplogCommand :: "BSONObj \<Rightarrow> RoleGraph \<Rightarrow> RoleStatus \<times> RoleGraph" where
  "handleOplogCommand cmdObj g =
     (let cmdName = (case cmdObj of [] \<Rightarrow> [] | (name, _) # _ \<Rightarrow> name);
          firstStr = elementStr (case cmdObj of [] \<Rightarrow> None | (_, e) # _ \<Rightarrow> Some e)
      in if cmdName = ''applyOps'' then (RoleOK, g)
         else if cmdName = ''create'' then (RoleOK, g)
         else if cmdName = ''drop'' then (if firstStr = rolesColl then (RoleOK, RoleGraph_new) else (RoleOK, g))
         else if cmdName = ''dropDatabase'' then (RoleOK, RoleGraph_new)
         else if cmdName = ''renameCollection'' then
           (if firstStr = rolesNs then (RoleOK, RoleGraph_new)
            else if elementStr (getField cmdObj ''to'') = rolesNs then (OplogOperationUnsupported, RoleGraph_new)
            else (RoleOK, g))
         else if cmdName = ''dropIndexes'' \<or> cmdName = ''deleteIndexes'' then (RoleOK, g)
         else if (cmdName = ''collMod'' \<or> cmdName = ''emptycapped'') \<and> firstStr \<noteq> rolesColl then (RoleOK, g)
         else (OplogOperationUnsupported, g))"

text \<open>The namespace of an entry is a full name; without a dot both parts are empty.\<close>

definition handleLogOp ::
    "'m UpdateDriver \<Rightarrow> string \<Rightarrow> string \<Rightarrow> BSONObj \<Rightarrow> BSONObj option \<Rightarrow> RoleGraph \<Rightarrow> (RoleStatus \<times> RoleGraph) option" where
  "handleLogOp driver op ns o1 o2 g =
     (let (nsDb, nsColl) = (case splitAtDot ns of None \<Rightarrow> ([], []) | Some p \<Rightarrow> p)
      in if op = ''db'' then Some (RoleOK, g)
         else if length op \<noteq> 1 then Some (BadValue, g)
         else if nsDb \<noteq> ''admin'' then Some (RoleOK, g)
         else if nsColl = ''$cmd'' then
           (if op = ''c'' then Some (handleOplogCommand o1 g) else Some (BadValue, g))
         else if nsColl \<noteq> rolesColl then Some (RoleOK, g)
         else if op = ''i'' then handleOplogInsert o1 g
         else if op = ''u'' then
           (case o2 of None \<Rightarrow> Some (InternalError, g) | Some q \<Rightarrow> handleOplogUpdate driver o1 q g)
         else if op = ''d'' then handleOplogDelete o1 g
         else if op = ''n'' then Some (RoleOK, g)
         else if op = ''c'' then Some (BadValue, g)
         else Some (BadValue, g))"

section \<open>Handlers keep the graph well-formed\<close>

definition map_storable :: "(ResourcePattern \<rightharpoonup> ActionSet) \<Rightarrow> bool" where
  "map_storable m \<longleftrightarrow> (\<forall>x s. m x = Some s \<longrightarrow> actions_ok s \<and> s \<noteq> {} \<and> printable x)"

definition a_storable :: "AbsGraph \<Rightarrow> bool" where
  "a_storable a \<longleftrightarrow> (\<forall>r. map_storable (a_privileges a r))"

definition graph_ok :: "RoleGraph \<Rightarrow> bool" where
  "graph_ok g \<longleftrightarrow> rg_ok g \<and> a_storable (absGraph g)"

definition safe :: "(RoleStatus \<times> RoleGraph) option \<Rightarrow> bool" where
  "safe res \<longleftrightarrow> (\<exists>st g. res = Some (st, g) \<and> graph_ok g)"

lemma safeI [intro]: "graph_ok g \<Longrightarrow> safe (Some (st, g))"
  by (simp add: safe_def)

lemma refines_safe: "refines m sa \<Longrightarrow> a_storable (snd sa) \<Longrightarrow> safe m"
  by (auto simp: refines_def safe_def graph_ok_def)

lemma map_storable_empty [simp]: "map_storable Map.empty"
  by (simp add: map_storable_def)

lemma privsOf_storable: "list_all storable pv \<Longrightarrow> map_storable (privsOf pv)"
  by (fastforce simp: map_storable_def privsOf_def list_all_iff storable_def dest!: map_of_SomeD)

lemma storable_privsOf:
  assumes "map_storable (privsOf pv)" "distinct (map resource pv)"
  shows "list_all storable pv"
proof -
  have "privsOf pv (resource p) = Some (actions p)" if "p \<in> set pv" for p
    using that assms(2) by (auto simp: privsOf_def comp_def intro: map_of_is_SomeI)
  then show ?thesis using assms(1) by (auto simp: list_all_iff map_storable_def storable_def)
qed

lemma graph_ok_new: "graph_ok RoleGraph_new"
  using privsOf_storable [OF builtin_storable(2)] by (simp add: graph_ok_def rg_ok_new a_storable_def AbsGraph_new_def)

lemma map_storable_grant:
  assumes "map_storable m" "storable p"
  shows "map_storable (a_grant p m)"
proof -
  have "actions_ok s \<and> s \<noteq> {} \<and> printable x" if "a_grant p m x = Some s" for x s
  proof (cases "x = resource p")
    case True
    then show ?thesis using that assms actions_ok_Un [of _ "actions p"]
      by (auto simp: a_grant_def map_storable_def storable_def split: option.splits)
  next
    case False
    then show ?thesis using that assms(1) by (simp add: a_grant_def map_storable_def)
  qed
  then show ?thesis by (simp add: map_storable_def)
qed

lemma map_storable_grants: "map_storable m \<Longrightarrow> list_all storable ps \<Longrightarrow> map_storable (fold a_grant ps m)"
  by (induction ps arbitrary: m) (simp_all add: map_storable_grant)

lemma storable_ok: "list_all storable ps \<Longrightarrow> list_all privilege_ok ps"
  by (auto simp: list_all_iff storable_def privilege_ok_def)

lemma parseRole_total:
  "\<exists>res. parseRoleFromDocument doc = Some res \<and> (\<forall>role. res = Inr role \<longrightarrow> list_all storable (ri_privileges role))"
proof -
  have "\<exists>res. parseAndValidatePrivilegeArray arr = Some res \<and> (\<forall>ps. res = Inr ps \<longrightarrow> list_all storable ps)" for arr
    using parse_array_total [of arr] by auto
  then obtain pr where pr: "parseAndValidatePrivilegeArray arr = Some (pr arr)" "pr arr = Inr ps \<Longrightarrow> list_all storable ps" for arr ps
    by metis
  show ?thesis by (auto simp: parseRoleFromDocument_def pr split: sum.split)
qed

lemma a_storable_replace: "a_storable a \<Longrightarrow> list_all storable ps \<Longrightarrow> a_storable (snd (a_replaceRole r rs ps a))"
  by (simp add: a_storable_def a_replaceRole_def map_storable_grants)

lemma a_storable_delete: "a_storable a \<Longrightarrow> a_storable (snd (a_deleteRole r a))"
  by (simp add: a_storable_def a_deleteRole_def a_modifying_def)

lemma replaceRole_safe:
  assumes "graph_ok g" "list_all storable ps"
  shows "safe (replaceRole r rs ps g)"
  using assms storable_ok [OF assms(2)] unfolding graph_ok_def by (blast intro: refines_safe [OF replaceRole_refines] a_storable_replace)

lemma insert_safe:
  assumes "graph_ok g"
  shows "safe (addRoleFromDocument doc g)" "safe (handleOplogInsert doc g)"
proof -
  obtain res where "parseRoleFromDocument doc = Some res" "\<forall>role. res = Inr role \<longrightarrow> list_all storable (ri_privileges role)"
    using parseRole_total [of doc] by blast
  then show "safe (addRoleFromDocument doc g)" "safe (handleOplogInsert doc g)"
    using assms by (auto simp: addRoleFromDocument_def handleOplogInsert_def intro!: replaceRole_safe split: sum.split)
qed

lemma getters_ok:
  assumes "graph_ok g"
  obtains g' where "roleExists r g = Some (r \<in> a_roles (absGraph g), g')" "graph_ok g'"
    "getDirectPrivileges r g = Some (if r \<in> a_roles (absGraph g) then directPrivileges g' r else [], g')"
    "getDirectSubordinates r g = Some (if r \<in> a_roles (absGraph g) then subordinates g' r else [], g')"
proof -
  obtain g' where "roleExists r g = Some (r \<in> a_roles (absGraph g), g')" "graph_ok g'"
    using roleExists_ok [of g r] assms by (metis graph_ok_def)
  then show thesis using that by (simp add: getDirectPrivileges_def getDirectSubordinates_def)
qed

lemma getBSONForRole_ok:
  assumes "graph_ok g"
  obtains res g' where "getBSONForRole r g = Some (res, g')" "graph_ok g'"
proof (rule getters_ok [OF assms, of r])
  fix g1 assume 1: "roleExists r g = Some (r \<in> a_roles (absGraph g), g1)" "graph_ok g1"
  obtain p2 g2 where 2: "getDirectPrivileges r g1 = Some (p2, g2)" "graph_ok g2" by (rule getters_ok [OF 1(2), of r])
  obtain p3 g3 where 3: "getDirectSubordinates r g2 = Some (p3, g3)" "graph_ok g3" by (rule getters_ok [OF 2(2), of r])
  show thesis using that 1 2 3 by (cases "getBSONForPrivileges p2"; cases "r \<in> a_roles (absGraph g)") (auto simp: getBSONForRole_def)
qed

lemma update_safe:
  assumes "graph_ok g"
  shows "safe (handleOplogUpdate driver updatePattern queryPattern g)"
proof (cases "getRoleNameFromIdField (getField queryPattern ''_id'')")
  case (Inr r)
  obtain res g1 where g1: "getBSONForRole r g = Some (res, g1)" "graph_ok g1" by (rule getBSONForRole_ok [OF assms])
  have "safe (do { x \<leftarrow> parseRoleFromDocument doc; (case x of Inl st \<Rightarrow> Some (st, g1)
      | Inr role \<Rightarrow> replaceRole (ri_name role) (ri_roles role) (ri_privileges role) g1) })" for doc
    using insert_safe(2) [OF g1(2)] by (simp add: handleOplogInsert_def)
  then show ?thesis using Inr g1 assms by (auto simp: handleOplogUpdate_def split: sum.split)
qed (use assms in \<open>auto simp: handleOplogUpdate_def\<close>)

lemma delete_safe:
  assumes "graph_ok g"
  shows "safe (handleOplogDelete deletePattern g)"
proof (cases "getRoleNameFromIdField (getField deletePattern ''_id'')")
  case (Inr r)
  obtain st g1 where "deleteRole r g = Some (st, g1)" "graph_ok g1"
    using refines_safe [OF deleteRole_refines a_storable_delete, of g r] assms by (auto simp: safe_def graph_ok_def simp del: abs_simps)
  then show ?thesis using Inr by (auto simp: handleOplogDelete_def)
qed (use assms in \<open>auto simp: handleOplogDelete_def\<close>)

lemma command_safe: "graph_ok g \<Longrightarrow> safe (Some (handleOplogCommand cmdObj g))"
  unfolding handleOplogCommand_def Let_def by (simp add: safe_def graph_ok_new)

lemma handleLogOp_safe:
  assumes "graph_ok g"
  shows "safe (handleLogOp driver op ns o1 o2 g)"
proof -
  have ok: "safe (Some (st, g))" for st using assms by blast
  have u: "safe (case o2 of None \<Rightarrow> Some (InternalError, g) | Some q \<Rightarrow> handleOplogUpdate driver o1 q g)"
    using update_safe [OF assms, of driver] ok by (simp split: option.split)
  show ?thesis unfolding handleLogOp_def Let_def prod.case_distrib
    using ok u insert_safe(2) [OF assms] delete_safe [OF assms] command_safe [OF assms] by (simp split: prod.split)
qed

section \<open>Round trip\<close>

lemma splitAtDot_append: "CHR ''.'' \<notin> set d \<Longrightarrow> splitAtDot (d @ ''.'' @ r) = Some (d, r)"
  by (auto simp: splitAtDot_def takeWhile_append dropWhile_append)

lemma parsePossessed_print: "parsePossessedRoles (map (\<lambda>r. ([], roleNameObject r)) rs) = Inr rs"
  by (induction rs) (simp_all add: roleNameObject_def parseRoleNameFromDocument_def bsonExtractString_def bsonExtractField_def getField_def)

lemma grant_all:
  assumes "distinct (map resource ps)" "\<forall>p \<in> set ps. m (resource p) = None"
  shows "fold a_grant ps m = m ++ privsOf ps"
  using assms
proof (induction ps arbitrary: m)
  case (Cons p ps)
  have "a_grant p m = m(resource p \<mapsto> actions p)" using Cons.prems(2) by (simp add: a_grant_def)
  moreover have "fold a_grant ps (m(resource p \<mapsto> actions p)) = m(resource p \<mapsto> actions p) ++ privsOf ps"
    using Cons.prems by (intro Cons.IH) (auto, metis imageI)
  moreover have "privsOf ps (resource p) = None" using Cons.prems(1) by (auto simp: privsOf_def map_of_eq_None_iff)
  moreover have "m(resource p \<mapsto> actions p) ++ privsOf ps = m ++ privsOf (p # ps)"
    using \<open>privsOf ps (resource p) = None\<close> by (auto simp: privsOf_def map_add_def fun_eq_iff split: option.split)
  ultimately show ?case by simp
qed (simp add: privsOf_def)

lemma role_document:
  assumes "rg_ok g" "r \<in> roles g" "list_all storable (directPrivileges g r)" "CHR ''.'' \<notin> set (getDB r)"
  obtains doc where "getBSONForRole r g = Some (Inr doc, g)"
    "parseRoleFromDocument doc = Some (Inr \<lparr>ri_name = r, ri_roles = subordinates g r, ri_privileges = directPrivileges g r\<rparr>)"
proof -
  note ex = roleExists_present [OF assms(1,2)]
  obtain docs where d: "getBSONForPrivileges (directPrivileges g r) = Inr docs"
    "parseAndValidatePrivilegeArray docs = Some (Inr (directPrivileges g r))" by (rule print_privileges [OF assms(3)])
  have "RoleName (getRole r) (getDB r) = r" by simp
  then show thesis using that ex d splitAtDot_append [OF assms(4), of "getRole r"]
    by (simp add: getBSONForRole_def getDirectPrivileges_def getDirectSubordinates_def parseRoleFromDocument_def
        parseRoleNameFromDocument_def bsonExtractString_def bsonExtractArray_def bsonExtractField_def getField_def
        checkIdMatchesRoleName_def parsePossessed_print)
qed

section \<open>Properties\<close>

text \<open>C24:
  The document written for a user-defined role parses back to exactly that role, and a graph rebuilt
  from it gives the role the same subordinates and the same privileges.
\<close>

theorem role_document_roundtrip:
  assumes "rg_ok g" "r \<in> roles g" "\<not> isBuiltinRole r" "list_all storable (directPrivileges g r)" "CHR ''.'' \<notin> set (getDB r)"
  shows "\<exists>doc g'. getBSONForRole r g = Some (Inr doc, g) \<and>
    parseRoleFromDocument doc = Some (Inr \<lparr>ri_name = r, ri_roles = subordinates g r, ri_privileges = directPrivileges g r\<rparr>) \<and>
    addRoleFromDocument doc RoleGraph_new = Some (RoleOK, g') \<and> set (subordinates g' r) = set (subordinates g r) \<and>
    privsOf (directPrivileges g' r) = privsOf (directPrivileges g r)"
proof -
  obtain doc where doc: "getBSONForRole r g = Some (Inr doc, g)"
    "parseRoleFromDocument doc = Some (Inr \<lparr>ri_name = r, ri_roles = subordinates g r, ri_privileges = directPrivileges g r\<rparr>)"
    by (rule role_document [OF assms(1,2,4,5)])
  have d: "distinct (map resource (directPrivileges g r))" using assms(1) by (auto simp: rg_ok_def privileges_ok_def vector_ok_def)
  let ?a = "a_replaceRole r (subordinates g r) (directPrivileges g r) AbsGraph_new"
  have a: "fst ?a = RoleOK" "a_edges (snd ?a) = {r} \<times> set (subordinates g r)"
    "a_privileges (snd ?a) r = privsOf (directPrivileges g r)"
    using grant_all [OF d, of Map.empty] assms(3) by (simp_all add: a_replaceRole_def AbsGraph_new_def)
  obtain g' where g': "replaceRole r (subordinates g r) (directPrivileges g r) RoleGraph_new = Some (RoleOK, g')"
    "absGraph g' = snd ?a"
    using replaceRole_refines [OF rg_ok_new(1) storable_ok [OF assms(4)], of r "subordinates g r"] a(1)
    by (auto simp: refines_def rg_ok_new(2))
  have "set (subordinates g' r) = {s. (r, s) \<in> a_edges (absGraph g')}" by simp
  also have "\<dots> = set (subordinates g r)" unfolding g'(2) a(2) by auto
  finally have "set (subordinates g' r) = set (subordinates g r)" .
  moreover have "privsOf (directPrivileges g' r) = a_privileges (absGraph g') r" using assms(3) by simp
  ultimately show ?thesis using doc g' a(3) by (auto simp: addRoleFromDocument_def)
qed

definition documentedRoleOps :: "RoleOp list" where
  "documentedRoleOps = [CreateRole exampleRole, CreateRole (RoleName ''audit'' ''shop''),
     AddRoleToRole exampleRole (RoleName ''audit'' ''shop''),
     AddPrivilegesToRole exampleRole [privilegeOn1 (ExactNamespace (''log'', ''events'')) ''insert'']]"

theorem role_document_roundtrip_witness:
  "\<exists>sts g doc g'. runRoleOps documentedRoleOps RoleGraph_new = Some (sts, g) \<and> subordinates g exampleRole = [RoleName ''audit'' ''shop''] \<and>
    getBSONForRole exampleRole g = Some (Inr doc, g) \<and>
    addRoleFromDocument doc RoleGraph_new = Some (RoleOK, g') \<and> set (subordinates g' exampleRole) = {RoleName ''audit'' ''shop''}"
proof -
  have ok: "list_all roleOp_ok documentedRoleOps"
    by (simp add: documentedRoleOps_def privilegeOn1_def privilege_ok_def addAction_def anyAction_def actions_ok_def)
  obtain sts g where g: "runRoleOps documentedRoleOps RoleGraph_new = Some (sts, g)" "rg_ok g"
    using runRoleOps_refines [OF rg_ok_new(1) ok] by auto
  let ?p = "privilegeOn1 (ExactNamespace (''log'', ''events'')) ''insert''"
  have "map_option (\<lambda>(sts, g). (map_of (roleToSubordinates g) exampleRole, directPrivileges g exampleRole))
      (runRoleOps documentedRoleOps RoleGraph_new) = Some (Some [RoleName ''audit'' ''shop''], [?p])" by code_simp
  then have r: "map_of (roleToSubordinates g) exampleRole = Some [RoleName ''audit'' ''shop'']" "directPrivileges g exampleRole = [?p]"
    using g(1) by auto
  have sub: "subordinates g exampleRole = [RoleName ''audit'' ''shop'']" "exampleRole \<in> roles g"
    using r(1) by (auto simp: subordinates_def listAt_def roles_def)
  have "list_all storable (directPrivileges g exampleRole)"
    by (simp add: r(2) storable_on validDBName_def validCollectionName_def)
  from role_document_roundtrip [OF g(2) sub(2) exampleRoleOps_ok(2) this] sub(1) g(1)
  show ?thesis by (fastforce simp: exampleRole_def)
qed

end
