(* ===== verification/Authz_State.thy ===== *)
theory Authz_State
  imports Role_Documents
begin

text \<open>
  The part of \<^verbatim>\<open>src/mongo/db/auth/authz_manager_external_state_local.cpp\<close> that owns the role graph: it is
  built from the documents of \<^verbatim>\<open>admin.system.roles\<close> when the server starts, follows the oplog, and resolves
  the roles of a user.  The documents a query returns, its status and the entries of the log are
  arguments; every method runs under the mutex of the graph and is one step.

  The invariant says what the state \<open>roleGraphStateConsistent\<close> promises: the derived data of every role
  is that of the graph.  The property is that resolving the roles of a user gives exactly the
  privileges of all roles reachable from them, after any sequence of steps, and that no step aborts.
\<close>

section \<open>Definitions\<close>

datatype RoleGraphState = roleGraphStateInitial | roleGraphStateConsistent | roleGraphStateHasCycle

record ExternalState =
  es_roleGraph :: RoleGraph
  es_roleGraphState :: RoleGraphState

definition ExternalState_new :: ExternalState where
  "ExternalState_new = \<lparr>es_roleGraph = RoleGraph_new, es_roleGraphState = roleGraphStateInitial\<rparr>"

definition addRoleFromDocumentOrWarn :: "BSONObj \<Rightarrow> RoleGraph \<Rightarrow> RoleGraph option" where
  "addRoleFromDocumentOrWarn doc roleGraph = do {
     (status, roleGraph1) \<leftarrow> addRoleFromDocument doc roleGraph;
     Some roleGraph1
   }"

fun addRolesFromDocuments :: "BSONObj list \<Rightarrow> RoleGraph \<Rightarrow> RoleGraph option" where
  "addRolesFromDocuments [] g = Some g"
| "addRolesFromDocuments (doc # docs) g = do {
     g1 \<leftarrow> addRoleFromDocumentOrWarn doc g;
     addRolesFromDocuments docs g1
   }"

definition initializeRoleGraph :: "RoleStatus \<Rightarrow> BSONObj list \<Rightarrow> ExternalState \<Rightarrow> (RoleStatus \<times> ExternalState) option" where
  "initializeRoleGraph queryStatus docs es = do {
     let es0 = \<lparr>es_roleGraph = RoleGraph_new, es_roleGraphState = roleGraphStateInitial\<rparr>;
     newRoleGraph \<leftarrow> addRolesFromDocuments docs RoleGraph_new;
     if queryStatus \<noteq> RoleOK then Some (queryStatus, es0)
     else do {
       (status, g) \<leftarrow> recomputePrivilegeData newRoleGraph;
       Some (if status = GraphContainsCycle then
               (RoleOK, \<lparr>es_roleGraph = g, es_roleGraphState = roleGraphStateHasCycle\<rparr>)
             else if status = RoleOK then
               (RoleOK, \<lparr>es_roleGraph = g, es_roleGraphState = roleGraphStateConsistent\<rparr>)
             else (status, es0))
     }
   }"

definition logOpCommit ::
    "'m UpdateDriver \<Rightarrow> string \<Rightarrow> string \<Rightarrow> BSONObj \<Rightarrow> BSONObj option \<Rightarrow> ExternalState \<Rightarrow> ExternalState option" where
  "logOpCommit driver op ns o1 o2 es = do {
     (status, g) \<leftarrow> handleLogOp driver op ns o1 o2 (es_roleGraph es);
     let es1 = (if status = OplogOperationUnsupported
                then \<lparr>es_roleGraph = RoleGraph_new, es_roleGraphState = roleGraphStateInitial\<rparr>
                else es\<lparr>es_roleGraph := g\<rparr>);
     (status, g) \<leftarrow> recomputePrivilegeData (es_roleGraph es1);
     let es2 = es1\<lparr>es_roleGraph := g\<rparr>;
     if status = GraphContainsCycle then Some (es2\<lparr>es_roleGraphState := roleGraphStateHasCycle\<rparr>)
     else do {
       invariant (status = RoleOK);
       Some (es2\<lparr>es_roleGraphState := roleGraphStateConsistent\<rparr>)
     }
   }"

definition logOp ::
    "'m UpdateDriver \<Rightarrow> string \<Rightarrow> string \<Rightarrow> BSONObj \<Rightarrow> BSONObj option \<Rightarrow> ExternalState \<Rightarrow> ExternalState option" where
  "logOp driver op ns o1 o2 es =
     (if ns = rolesNs \<or> ns = ''admin.$cmd'' then logOpCommit driver op ns o1 o2 es else Some es)"

fun resolveRoles ::
    "bool \<Rightarrow> RoleName list \<Rightarrow> RoleName set \<times> PrivilegeVector \<times> RoleGraph \<Rightarrow> (RoleName set \<times> PrivilegeVector \<times> RoleGraph) option" where
  "resolveRoles consistent [] acc = Some acc"
| "resolveRoles consistent (role # rest) (indirectRoles, privs, g) = do {
     (inherited, g1) \<leftarrow> (if consistent then getIndirectSubordinates role g else Some ({}, g));
     (rolePrivileges, g2) \<leftarrow> (if consistent then getAllPrivileges role g1 else getDirectPrivileges role g1);
     resolveRoles consistent rest (insert role indirectRoles \<union> inherited, addAll privs rolePrivileges, g2)
   }"

definition resolveUserRoles :: "RoleName list \<Rightarrow> ExternalState \<Rightarrow> ((RoleName set \<times> PrivilegeVector) \<times> ExternalState) option" where
  "resolveUserRoles directRoles es = do {
     (indirectRoles, privs, g) \<leftarrow>
       resolveRoles (es_roleGraphState es = roleGraphStateConsistent) directRoles ({}, [], es_roleGraph es);
     Some ((indirectRoles, privs), es\<lparr>es_roleGraph := g\<rparr>)
   }"

subsection \<open>Histories\<close>

datatype 'm AuthzEvent =
    Initialize RoleStatus "BSONObj list"
  | LogOp "'m UpdateDriver" string string BSONObj "BSONObj option"
  | Resolve "RoleName list"

fun authzStep :: "'m AuthzEvent \<Rightarrow> ExternalState \<Rightarrow> ExternalState option" where
  "authzStep (Initialize queryStatus docs) es = map_option snd (initializeRoleGraph queryStatus docs es)"
| "authzStep (LogOp driver op ns o1 o2) es = logOp driver op ns o1 o2 es"
| "authzStep (Resolve directRoles) es = map_option snd (resolveUserRoles directRoles es)"

fun authzRun :: "'m AuthzEvent list \<Rightarrow> ExternalState \<Rightarrow> ExternalState option" where
  "authzRun [] es = Some es"
| "authzRun (e # evs) es = do { es1 \<leftarrow> authzStep e es; authzRun evs es1 }"

section \<open>What the derived data should be\<close>

text \<open>What a role grants on a resource in the abstract graph: the direct privileges of all roles reachable from it.\<close>

definition absDirect :: "AbsGraph \<Rightarrow> RoleName \<Rightarrow> ResourcePattern \<Rightarrow> ActionSet" where
  "absDirect a r x = (case a_privileges a r x of None \<Rightarrow> {} | Some as \<Rightarrow> as)"

definition absInherited :: "AbsGraph \<Rightarrow> RoleName \<Rightarrow> ResourcePattern \<Rightarrow> ActionSet" where
  "absInherited a r x = (\<Union>w \<in> {w. (r, w) \<in> (a_edges a)\<^sup>*}. absDirect a w x)"

definition derived :: "RoleGraph \<Rightarrow> bool" where
  "derived g \<longleftrightarrow> acyclic (edges g) \<and> (\<forall>r \<in> roles g. role_done g g r)"

definition es_ok :: "ExternalState \<Rightarrow> bool" where
  "es_ok es \<longleftrightarrow> graph_ok (es_roleGraph es) \<and>
     (es_roleGraphState es = roleGraphStateConsistent \<longrightarrow> derived (es_roleGraph es)) \<and>
     (es_roleGraphState es = roleGraphStateHasCycle \<longrightarrow> \<not> acyclic (edges (es_roleGraph es)))"

section \<open>Recomputed graphs\<close>

lemma same_roles_abs: "same_roles g g' \<Longrightarrow> absGraph g' = absGraph g"
  using same_rolesD [of g g'] by (simp add: absGraph_def fun_eq_iff)

lemma role_done_same: "same_roles g g' \<Longrightarrow> role_done g' g' r \<longleftrightarrow> role_done g g' r"
  using same_rolesD [of g g'] by (simp add: role_done_def inherited_def)

lemma recompute_derived:
  assumes "graph_ok g"
  obtains status g' where "recomputePrivilegeData g = Some (status, g')" "graph_ok g'" "absGraph g' = absGraph g"
    "status = RoleOK \<and> derived g' \<or> status = GraphContainsCycle \<and> \<not> acyclic (edges g')"
proof -
  have "rg_ok g" using assms by (simp add: graph_ok_def)
  then obtain status g' where r: "recomputePrivilegeData g = Some (status, g')" "same_roles g g'"
    "status = (if acyclic (edges g) then RoleOK else GraphContainsCycle)" "status = RoleOK \<longrightarrow> (\<forall>r \<in> roles g. role_done g g' r)"
    by (rule recompute_result)
  note d = same_rolesD [OF r(2)]
  have "graph_ok g'" using assms d(1) same_roles_abs [OF r(2)] by (simp add: graph_ok_def)
  moreover have "status = RoleOK \<and> derived g' \<or> status = GraphContainsCycle \<and> \<not> acyclic (edges g')"
    using r(3,4) d role_done_same [OF r(2)] by (simp add: derived_def)
  ultimately show thesis using that r(1) same_roles_abs [OF r(2)] by blast
qed

section \<open>Looking roles up\<close>

lemma grants_privsOf: "distinct (map resource pv) \<Longrightarrow> grants pv x = (case privsOf pv x of None \<Rightarrow> {} | Some s \<Rightarrow> s)"
proof (induction pv)
  case (Cons p pv)
  have "privsOf pv x = None" if "resource p = x" using that Cons.prems by (auto simp: privsOf_def map_of_eq_None_iff)
  then show ?case using Cons by (auto simp: privsOf_def)
qed (simp add: privsOf_def)

lemma reachable_roles:
  assumes "rg_ok g" "(r, w) \<in> (edges g)\<^sup>*" "r \<in> roles g"
  shows "w \<in> roles g"
  using closed_under_edges [OF assms(2,3)] rg_okD(5) [OF assms(1)] by blast

lemma direct_abs: "rg_ok g \<Longrightarrow> w \<in> roles g \<Longrightarrow> grants (directPrivileges g w) x = absDirect (absGraph g) w x"
  using rg_okD(9,10) [of g w] by (auto simp: absDirect_def grants_privsOf vector_ok_def)

lemma inherited_abs:
  assumes "rg_ok g" "r \<in> roles g"
  shows "inherited g r x = absInherited (absGraph g) r x"
  using reachable_roles [OF assms(1) _ assms(2)] direct_abs [OF assms(1)] by (auto simp: inherited_def absInherited_def)

lemma no_edges:
  assumes "rg_ok g" "r \<notin> roles g"
  shows "(r, s) \<notin> (edges g)\<^sup>+" "(r, s) \<in> (edges g)\<^sup>* \<longleftrightarrow> s = r"
  using outside_roles(1) [OF rg_okD(1) [OF assms(1)] assms(2)] by (auto dest: tranclD elim: converse_rtranclE)

lemma absent_role:
  assumes "rg_ok g" "r \<notin> a_roles (absGraph g)"
  shows "absInherited (absGraph g) r x = {}" "absDirect (absGraph g) r x = {}"
proof -
  have r: "r \<notin> roles g" "\<not> isBuiltinRole r" using assms(2) by auto
  then have "a_privileges (absGraph g) r = Map.empty"
    using outside_roles(3) [OF rg_okD(1) [OF assms(1)] r(1)] by (simp add: privsOf_def)
  then show "absInherited (absGraph g) r x = {}" "absDirect (absGraph g) r x = {}"
    using no_edges(2) [OF assms(1) r(1)] by (simp_all add: absInherited_def absDirect_def)
qed

lemma builtin_grants: "grants (builtinPrivileges r) x = grants (builtinDirect r) x"
  using addAll_store(2) [OF _ builtinPrivileges_ok, of "[]"] by (simp add: builtinDirect_def)

lemma derived_created:
  assumes g: "rg_ok g" "derived g" "r \<notin> roles g" "isBuiltinRole r"
    and g': "rg_ok g'" "roles g' = insert r (roles g)" "subordinates g' = subordinates g"
      "indirectSubordinates g' = indirectSubordinates g"
      "\<forall>s. directPrivileges g' s = (if s = r then builtinDirect r else directPrivileges g s)"
      "\<forall>s. allPrivileges g' s = (if s = r then builtinPrivileges r else allPrivileges g s)"
  shows "derived g'"
proof -
  have E: "edges g' = edges g" by (simp add: edges_def g'(3))
  have "role_done g' g' r"
    using no_edges [OF g(1,3)] outside_roles(5) [OF rg_okD(1) [OF g(1)] g(3)]
    by (simp add: role_done_def inherited_def E g'(4,5,6) builtin_grants)
  moreover have "role_done g' g' s" if s: "s \<in> roles g" for s
  proof -
    have "s \<noteq> r" using s g(3) by blast
    have "w \<noteq> r" if "(s, w) \<in> (edges g)\<^sup>*" for w using reachable_roles [OF g(1) that s] g(3) by blast
    then have "inherited g' s x = inherited g s x" for x
      unfolding inherited_def E by (intro SUP_cong refl) (simp add: g'(5))
    then show ?thesis using g(2) s \<open>s \<noteq> r\<close> by (simp add: derived_def role_done_def E g'(4,6))
  qed
  ultimately show ?thesis using g(2) by (simp add: derived_def E g'(2))
qed

lemma lookup_derived:
  assumes "graph_ok g"
  obtains g' where "roleExists r g = Some (r \<in> a_roles (absGraph g), g')" "graph_ok g'" "absGraph g' = absGraph g"
    "r \<in> a_roles (absGraph g) \<longrightarrow> r \<in> roles g'" "derived g \<longrightarrow> derived g'"
proof (cases "isBuiltinRole r \<and> r \<notin> roles g")
  case True
  have ok: "rg_ok g" using assms by (simp add: graph_ok_def)
  obtain g' where g': "createBuiltinRoleIfNeeded r g = Some g'" "rg_ok g'" "roles g' = insert r (roles g)"
    "subordinates g' = subordinates g" "indirectSubordinates g' = indirectSubordinates g"
    "\<forall>s. directPrivileges g' s = (if s = r then builtinDirect r else directPrivileges g s)"
    "\<forall>s. allPrivileges g' s = (if s = r then builtinPrivileges r else allPrivileges g s)"
    using builtin_created [OF ok] True by metis
  have abs: "absGraph g' = absGraph g" using True g' by (auto simp: absGraph_def edges_def fun_eq_iff)
  have "roleExists r g = Some (r \<in> a_roles (absGraph g), g')" using roleExists_created [OF g'(1,2)] g'(3) True by simp
  moreover have "derived g \<longrightarrow> derived g'" using derived_created [OF ok _ _ _ g'(2-)] True by blast
  ultimately show ?thesis using that abs g'(2,3) assms by (simp add: graph_ok_def)
next
  case False
  have ok: "rg_ok g" using assms by (simp add: graph_ok_def)
  have "roleExists r g = Some (r \<in> a_roles (absGraph g), g)"
    using roleExists_created [OF builtin_not_created [OF ok False] ok] False by auto
  then show ?thesis using that assms False by auto
qed

lemma getters_derived:
  assumes "graph_ok g" "derived g"
  obtains g' where "getIndirectSubordinates r g = Some ({s. (r, s) \<in> (a_edges (absGraph g))\<^sup>+}, g')"
    "\<exists>pv. getAllPrivileges r g = Some (pv, g') \<and> list_all privilege_ok pv \<and> (\<forall>x. grants pv x = absInherited (absGraph g) r x)"
    "graph_ok g'" "derived g'" "absGraph g' = absGraph g"
proof -
  obtain g' where g': "roleExists r g = Some (r \<in> a_roles (absGraph g), g')" "graph_ok g'" "absGraph g' = absGraph g"
    "r \<in> a_roles (absGraph g) \<longrightarrow> r \<in> roles g'" "derived g \<longrightarrow> derived g'" by (rule lookup_derived [OF assms(1)])
  have ok: "rg_ok g" "rg_ok g'" "derived g'" using assms g' by (simp_all add: graph_ok_def)
  have E: "edges g' = edges g" using arg_cong [OF g'(3), of a_edges] by simp
  have fin: "role_done g' g' r" if "r \<in> a_roles (absGraph g)" using that g'(4) ok(3) by (simp add: derived_def)
  have ind: "getIndirectSubordinates r g = Some ({s. (r, s) \<in> (a_edges (absGraph g))\<^sup>+}, g')"
  proof (cases "r \<in> a_roles (absGraph g)")
    case True
    then show ?thesis using fin g'(1) by (simp add: getIndirectSubordinates_def role_done_def E)
  next
    case False
    then show ?thesis using no_edges(1) [OF ok(1), of r] g'(1) by (simp add: getIndirectSubordinates_def)
  qed
  have all: "\<exists>pv. getAllPrivileges r g = Some (pv, g') \<and> list_all privilege_ok pv \<and> (\<forall>x. grants pv x = absInherited (absGraph g) r x)"
  proof (cases "r \<in> a_roles (absGraph g)")
    case True
    then show ?thesis using fin g'(1,3,4) inherited_abs [OF ok(2), of r] rg_okD(11) [OF ok(2), of r]
      by (auto simp: getAllPrivileges_def role_done_def simp del: abs_simps)
  next
    case False
    then show ?thesis using absent_role(1) [OF ok(1) False] g'(1) by (simp add: getAllPrivileges_def del: abs_simps)
  qed
  show thesis by (rule that [OF ind all g'(2) ok(3) g'(3)])
qed

lemma getDirect_abs:
  assumes "graph_ok g"
  obtains pv g' where "getDirectPrivileges r g = Some (pv, g')" "list_all privilege_ok pv"
    "\<forall>x. grants pv x = absDirect (absGraph g) r x" "graph_ok g'" "absGraph g' = absGraph g"
proof -
  obtain g' where g': "roleExists r g = Some (r \<in> a_roles (absGraph g), g')" "graph_ok g'" "absGraph g' = absGraph g"
    "r \<in> a_roles (absGraph g) \<longrightarrow> r \<in> roles g'" by (rule lookup_derived [OF assms])
  have ok: "rg_ok g" "rg_ok g'" using assms g' by (simp_all add: graph_ok_def)
  show thesis
  proof (cases "r \<in> a_roles (absGraph g)")
    case True
    then have "\<forall>x. grants (directPrivileges g' r) x = absDirect (absGraph g) r x" using direct_abs [OF ok(2)] g'(3,4) by metis
    then show thesis using that True g'(1,2,3) direct_ok [OF ok(2)] by (simp add: getDirectPrivileges_def del: abs_simps)
  next
    case False
    then show thesis using that g'(1,2,3) absent_role(2) [OF ok(1) False] by (simp add: getDirectPrivileges_def del: abs_simps)
  qed
qed

section \<open>Resolving the roles of a user\<close>

text \<open>What a user with the given roles should get, and with which inherited roles.\<close>

definition granted :: "bool \<Rightarrow> AbsGraph \<Rightarrow> RoleName list \<Rightarrow> ResourcePattern \<Rightarrow> ActionSet" where
  "granted consistent a ds x = (\<Union>d \<in> set ds. if consistent then absInherited a d x else absDirect a d x)"

definition rolesHeld :: "bool \<Rightarrow> AbsGraph \<Rightarrow> RoleName list \<Rightarrow> RoleName set" where
  "rolesHeld consistent a ds = set ds \<union> (if consistent then \<Union>d \<in> set ds. {s. (d, s) \<in> (a_edges a)\<^sup>+} else {})"

lemma resolveRoles_result:
  assumes "graph_ok g" "consistent \<longrightarrow> derived g" "vector_ok pv"
  shows "\<exists>pv' g'. resolveRoles consistent ds (rs, pv, g) = Some (rs \<union> rolesHeld consistent (absGraph g) ds, pv', g') \<and>
    vector_ok pv' \<and> (\<forall>x. grants pv' x = grants pv x \<union> granted consistent (absGraph g) ds x) \<and>
    graph_ok g' \<and> (consistent \<longrightarrow> derived g') \<and> absGraph g' = absGraph g"
  using assms
proof (induction ds arbitrary: rs pv g)
  case Nil
  then show ?case by (simp add: rolesHeld_def granted_def)
next
  case (Cons d ds)
  obtain inh pvd g1 g2 where s: "(if consistent then getIndirectSubordinates d g else Some ({}, g)) = Some (inh, g1)"
    "(if consistent then getAllPrivileges d g1 else getDirectPrivileges d g1) = Some (pvd, g2)"
    "inh = (if consistent then {s. (d, s) \<in> (a_edges (absGraph g))\<^sup>+} else {})" "list_all privilege_ok pvd"
    "\<forall>x. grants pvd x = granted consistent (absGraph g) [d] x" "graph_ok g2" "consistent \<longrightarrow> derived g2" "absGraph g2 = absGraph g"
  proof (cases consistent)
    case True
    obtain g1 where g1: "getIndirectSubordinates d g = Some ({s. (d, s) \<in> (a_edges (absGraph g))\<^sup>+}, g1)"
      "graph_ok g1" "derived g1" "absGraph g1 = absGraph g"
      using getters_derived [OF Cons.prems(1), of d] Cons.prems(2) True by metis
    obtain g2 pvd where g2: "getAllPrivileges d g1 = Some (pvd, g2)" "list_all privilege_ok pvd"
      "\<forall>x. grants pvd x = absInherited (absGraph g1) d x" "graph_ok g2" "derived g2" "absGraph g2 = absGraph g1"
      using getters_derived [OF g1(2,3), of d] by metis
    show thesis by (rule that [of "{s. (d, s) \<in> (a_edges (absGraph g))\<^sup>+}" g1 pvd g2]) (use True g1 g2 in \<open>simp_all add: granted_def\<close>)
  next
    case False
    obtain pvd g2 where g2: "getDirectPrivileges d g = Some (pvd, g2)" "list_all privilege_ok pvd"
      "\<forall>x. grants pvd x = absDirect (absGraph g) d x" "graph_ok g2" "absGraph g2 = absGraph g"
      by (rule getDirect_abs [OF Cons.prems(1)])
    show thesis by (rule that [of "{}" g pvd g2]) (use False g2 in \<open>simp_all add: granted_def\<close>)
  qed
  have v: "vector_ok (addAll pv pvd)" by (rule vector_ok_addAll [OF Cons.prems(3) s(4)])
  have gr: "grants (addAll pv pvd) x = grants pv x \<union> granted consistent (absGraph g) [d] x" for x
    using addAll_store(2) [OF _ s(4), of pv x] Cons.prems(3) s(5) by (simp add: vector_ok_def)
  from Cons.IH [OF s(6,7) v, of "insert d rs \<union> inh"]
  obtain pv' g' where "resolveRoles consistent ds (insert d rs \<union> inh, addAll pv pvd, g2)
      = Some ((insert d rs \<union> inh) \<union> rolesHeld consistent (absGraph g) ds, pv', g')" "vector_ok pv'"
    "\<forall>x. grants pv' x = grants (addAll pv pvd) x \<union> granted consistent (absGraph g) ds x"
    "graph_ok g'" "consistent \<longrightarrow> derived g'" "absGraph g' = absGraph g" unfolding s(8) by metis
  moreover have "(insert d rs \<union> inh) \<union> rolesHeld consistent (absGraph g) ds = rs \<union> rolesHeld consistent (absGraph g) (d # ds)"
    by (auto simp: rolesHeld_def s(3))
  ultimately show ?case using s(1,2) gr by (auto simp: granted_def simp del: abs_simps)
qed

section \<open>Every history\<close>

lemma es_ok_new: "es_ok ExternalState_new"
  by (simp add: es_ok_def ExternalState_new_def graph_ok_new)

lemma addRoles_ok: "graph_ok g \<Longrightarrow> \<exists>g'. addRolesFromDocuments docs g = Some g' \<and> graph_ok g'"
proof (induction docs arbitrary: g)
  case (Cons doc docs)
  obtain st g1 where "addRoleFromDocument doc g = Some (st, g1)" "graph_ok g1"
    using insert_safe(1) [OF Cons.prems, of doc] by (auto simp: safe_def)
  then show ?case using Cons.IH by (simp add: addRoleFromDocumentOrWarn_def)
qed simp

lemma initialize_ok: "\<exists>st es'. initializeRoleGraph q docs es = Some (st, es') \<and> es_ok es'"
proof -
  obtain g where g: "addRolesFromDocuments docs RoleGraph_new = Some g" "graph_ok g" using addRoles_ok [OF graph_ok_new] by blast
  obtain status g' where "recomputePrivilegeData g = Some (status, g')" "graph_ok g'"
    "status = RoleOK \<and> derived g' \<or> status = GraphContainsCycle \<and> \<not> acyclic (edges g')" by (rule recompute_derived [OF g(2)])
  then show ?thesis using g(1) by (cases "q = RoleOK") (auto simp: initializeRoleGraph_def es_ok_def graph_ok_new Let_def)
qed

lemma logOpCommit_result:
  assumes "es_ok es"
  obtains st g es' where "handleLogOp driver op ns o1 o2 (es_roleGraph es) = Some (st, g)" "logOpCommit driver op ns o1 o2 es = Some es'"
    "es_ok es'" "absGraph (es_roleGraph es') = (if st = OplogOperationUnsupported then AbsGraph_new else absGraph g)"
    "es_roleGraphState es' = (if acyclic (edges (es_roleGraph es')) then roleGraphStateConsistent else roleGraphStateHasCycle)"
proof -
  obtain st g where h: "handleLogOp driver op ns o1 o2 (es_roleGraph es) = Some (st, g)" "graph_ok g"
    using handleLogOp_safe [of "es_roleGraph es" driver] assms by (fastforce simp: es_ok_def safe_def)
  let ?g = "if st = OplogOperationUnsupported then RoleGraph_new else g"
  have "graph_ok ?g" using h(2) graph_ok_new by simp
  then obtain status g' where r: "recomputePrivilegeData ?g = Some (status, g')" "graph_ok g'" "absGraph g' = absGraph ?g"
    "status = RoleOK \<and> derived g' \<or> status = GraphContainsCycle \<and> \<not> acyclic (edges g')" by (rule recompute_derived)
  define es' where "es' = \<lparr>es_roleGraph = g', es_roleGraphState = (if status = RoleOK then roleGraphStateConsistent else roleGraphStateHasCycle)\<rparr>"
  have "logOpCommit driver op ns o1 o2 es = Some es'"
    using h(1) r(1,4) by (cases es) (auto simp: logOpCommit_def es'_def invariant_def split: if_splits)
  moreover have "es_ok es'" using r(2,4) by (auto simp: es_ok_def es'_def)
  moreover have "absGraph (es_roleGraph es') = (if st = OplogOperationUnsupported then AbsGraph_new else absGraph g)"
    using r(3) by (simp add: es'_def rg_ok_new(2))
  moreover have "es_roleGraphState es' = (if acyclic (edges (es_roleGraph es')) then roleGraphStateConsistent else roleGraphStateHasCycle)"
    using r(4) by (auto simp: es'_def derived_def)
  ultimately show thesis using that h(1) by blast
qed

lemma resolveUserRoles_result:
  assumes "es_ok es"
  obtains privs es' where "resolveUserRoles ds es = Some ((rolesHeld (es_roleGraphState es = roleGraphStateConsistent)
      (absGraph (es_roleGraph es)) ds, privs), es')" "vector_ok privs"
    "\<forall>x. grants privs x = granted (es_roleGraphState es = roleGraphStateConsistent) (absGraph (es_roleGraph es)) ds x" "es_ok es'"
proof -
  let ?c = "es_roleGraphState es = roleGraphStateConsistent" and ?g = "es_roleGraph es"
  have ok: "graph_ok ?g" "?c \<longrightarrow> derived ?g" using assms by (simp_all add: es_ok_def)
  obtain privs g' where r: "resolveRoles ?c ds ({}, [], ?g) = Some (rolesHeld ?c (absGraph ?g) ds, privs, g')" "vector_ok privs"
    "\<forall>x. grants privs x = granted ?c (absGraph ?g) ds x" "graph_ok g'" "?c \<longrightarrow> derived g'" "absGraph g' = absGraph ?g"
    using resolveRoles_result [OF ok vector_ok_Nil, of ds "{}"] by (auto simp del: abs_simps)
  have "edges g' = edges ?g" using arg_cong [OF r(6), of a_edges] by simp
  then have "es_ok (es\<lparr>es_roleGraph := g'\<rparr>)" using assms r(4,5) by (simp add: es_ok_def)
  then show thesis using that r(1,2,3) by (simp add: resolveUserRoles_def)
qed

lemma authzStep_ok: "es_ok es \<Longrightarrow> \<exists>es'. authzStep e es = Some es' \<and> es_ok es'"
proof (cases e)
  case (Initialize q docs)
  then show ?thesis using initialize_ok [of q docs es] by auto
next
  case (LogOp driver op ns o1 o2)
  assume ok: "es_ok es"
  obtain es' where "logOpCommit driver op ns o1 o2 es = Some es'" "es_ok es'" by (rule logOpCommit_result [OF ok])
  then show ?thesis using LogOp ok by (simp add: logOp_def)
next
  case (Resolve ds)
  assume ok: "es_ok es"
  obtain r es' where "resolveUserRoles ds es = Some (r, es')" "es_ok es'" by (rule resolveUserRoles_result [OF ok])
  then show ?thesis using Resolve by simp
qed

lemma authzRun_ok: "es_ok es \<Longrightarrow> \<exists>es'. authzRun evs es = Some es' \<and> es_ok es'"
proof (induction evs arbitrary: es)
  case (Cons e evs)
  then show ?case using authzStep_ok [OF Cons.prems, of e] by auto
qed simp

section \<open>Properties\<close>


text \<open>C28:
  An oplog entry that the graph does not support discards every user-defined role, and although the
  handler first marks the graph as uninitialized, the state it ends in is \<open>roleGraphStateConsistent\<close>.
\<close>

theorem unsupported_entry_drops_roles:
  assumes "authzRun evs ExternalState_new = Some es"
    "handleLogOp driver op ns o1 o2 (es_roleGraph es) = Some (OplogOperationUnsupported, g)"
  shows "\<exists>es'. logOpCommit driver op ns o1 o2 es = Some es' \<and> absGraph (es_roleGraph es') = AbsGraph_new \<and>
    es_roleGraphState es' = roleGraphStateConsistent"
proof -
  have ok: "es_ok es" using assms(1) authzRun_ok [OF es_ok_new, of evs] by auto
  obtain st g' es' where r: "handleLogOp driver op ns o1 o2 (es_roleGraph es) = Some (st, g')" "logOpCommit driver op ns o1 o2 es = Some es'"
    "absGraph (es_roleGraph es') = (if st = OplogOperationUnsupported then AbsGraph_new else absGraph g')"
    "es_roleGraphState es' = (if acyclic (edges (es_roleGraph es')) then roleGraphStateConsistent else roleGraphStateHasCycle)"
    by (rule logOpCommit_result [OF ok])
  have a: "absGraph (es_roleGraph es') = AbsGraph_new" using r(1,3) assms(2) by simp
  have "edges (es_roleGraph es') = a_edges (absGraph (es_roleGraph es'))" by simp
  also have "\<dots> = {}" unfolding a by (simp add: AbsGraph_new_def)
  finally have "edges (es_roleGraph es') = {}" .
  then have "acyclic (edges (es_roleGraph es'))" by (simp add: acyclic_def)
  then show ?thesis using r(2,4) a by simp
qed

definition noDriver :: "unit UpdateDriver" where
  "noDriver = \<lparr>ud_parse = (\<lambda>_. Inl BadValue), ud_populate = (\<lambda>_. Inl BadValue), ud_update = (\<lambda>_ _. Inl BadValue)\<rparr>"

theorem unsupported_entry_drops_roles_witness:
  "\<exists>es'. logOpCommit noDriver ''c'' ''admin.$cmd'' [(''collMod'', bsonString ''system.roles'')] None ExternalState_new = Some es' \<and>
     absGraph (es_roleGraph es') = AbsGraph_new \<and> es_roleGraphState es' = roleGraphStateConsistent"
proof (rule unsupported_entry_drops_roles)
  show "authzRun ([] :: unit AuthzEvent list) ExternalState_new = Some ExternalState_new" by simp
  show "handleLogOp noDriver ''c'' ''admin.$cmd'' [(''collMod'', bsonString ''system.roles'')] None (es_roleGraph ExternalState_new)
      = Some (OplogOperationUnsupported, RoleGraph_new)"
    by (simp add: handleLogOp_def splitAtDot_def handleOplogCommand_def elementStr_def rolesColl_def ExternalState_new_def)
qed

end
