(* ===== verification/Role_Order.thy ===== *)
theory Role_Order
  imports Role_Graph "HOL-Library.Char_ord" "HOL-Library.List_Lexorder"
begin

text \<open>
  The order of role names, \<open>operator<\<close> of \<^verbatim>\<open>src/mongo/db/auth/role_name.h\<close>, and the operation that rests on it:
  \<open>getRolesForDatabase\<close> of \<^verbatim>\<open>role_graph.cpp\<close> creates the built-in roles of a database and then iterates over
  the ordered set of roles between two bounds.  The bounds select exactly the roles of the database.
\<close>

section \<open>Definitions\<close>

definition roleNameLess :: "RoleName \<Rightarrow> RoleName \<Rightarrow> bool" where
  "roleNameLess lhs rhs = (if getDB lhs = getDB rhs then getRole lhs < getRole rhs else getDB lhs < getDB rhs)"

instantiation RoleName :: linorder
begin

definition less_RoleName :: "RoleName \<Rightarrow> RoleName \<Rightarrow> bool" where
  "less_RoleName = roleNameLess"

definition less_eq_RoleName :: "RoleName \<Rightarrow> RoleName \<Rightarrow> bool" where
  "less_eq_RoleName lhs rhs \<longleftrightarrow> lhs < rhs \<or> lhs = rhs"

instance
proof
  fix x y z :: RoleName
  show "x < y \<longleftrightarrow> x \<le> y \<and> \<not> y \<le> x" by (auto simp: less_RoleName_def roleNameLess_def less_eq_RoleName_def split: if_splits)
  show "x \<le> x" by (simp add: less_eq_RoleName_def)
  show "x \<le> y \<Longrightarrow> y \<le> z \<Longrightarrow> x \<le> z" by (auto simp: less_RoleName_def roleNameLess_def less_eq_RoleName_def split: if_splits)
  show "x \<le> y \<Longrightarrow> y \<le> x \<Longrightarrow> x = y" by (auto simp: less_RoleName_def roleNameLess_def less_eq_RoleName_def split: if_splits)
  show "x \<le> y \<or> y \<le> x" by (cases x; cases y) (auto simp: less_RoleName_def roleNameLess_def less_eq_RoleName_def)
qed

end

fun createBuiltinRoles :: "RoleName list \<Rightarrow> RoleGraph \<Rightarrow> RoleGraph option" where
  "createBuiltinRoles [] g = Some g"
| "createBuiltinRoles (r # rs) g = do {
     g1 \<leftarrow> createBuiltinRoleIfNeeded r g;
     createBuiltinRoles rs g1
   }"

definition createBuiltinRolesForDBIfNeeded :: "string \<Rightarrow> RoleGraph \<Rightarrow> RoleGraph option" where
  "createBuiltinRolesForDBIfNeeded dbname g =
     createBuiltinRoles (map (\<lambda>n. RoleName n dbname) (databaseRoles @ (if dbname = ''admin'' then adminRoles else []))) g"

definition getRolesForDatabase :: "string \<Rightarrow> RoleGraph \<Rightarrow> (RoleName list \<times> RoleGraph) option" where
  "getRolesForDatabase dbname g = do {
     g1 \<leftarrow> createBuiltinRolesForDBIfNeeded dbname g;
     let lower = RoleName [] dbname;
     let upper = RoleName [] (dbname @ [CHR 0x00]);
     Some (filter (\<lambda>r. lower \<le> r \<and> r < upper) (sorted_list_of_set (allRoles g1)), g1)
   }"

section \<open>The bounds\<close>

lemma not_less_char0 [simp]: "\<not> c < CHR 0x00"
  by (simp add: less_char_def)

lemma between_strings: "d \<le> s \<Longrightarrow> s < d @ [CHR 0x00] \<Longrightarrow> s = (d :: string)"
proof (induction d arbitrary: s)
  case Nil
  then show ?case by (cases s) (auto simp: Cons_less_Cons)
next
  case (Cons c d)
  then show ?case by (cases s) (auto simp: Cons_less_Cons)
qed

lemma append_greater: "d < d @ [c :: char]"
  by (induction d) (simp_all add: Cons_less_Cons)

lemma database_bounds: "RoleName [] d \<le> r \<and> r < RoleName [] (d @ [CHR 0x00]) \<longleftrightarrow> getDB r = d"
proof
  assume "RoleName [] d \<le> r \<and> r < RoleName [] (d @ [CHR 0x00])"
  then have "d \<le> getDB r" "getDB r < d @ [CHR 0x00]"
    by (auto simp: less_RoleName_def roleNameLess_def less_eq_RoleName_def split: if_splits)
  then show "getDB r = d" by (rule between_strings)
next
  assume "getDB r = d"
  then show "RoleName [] d \<le> r \<and> r < RoleName [] (d @ [CHR 0x00])"
    using append_greater [of d "CHR 0x00"] by (cases r; cases "getRole r") (auto simp: less_RoleName_def roleNameLess_def less_eq_RoleName_def)
qed

section \<open>The built-in roles of a database\<close>

lemma createBuiltinRoles_ok:
  assumes "rg_ok g"
  shows "\<exists>g'. createBuiltinRoles rs g = Some g' \<and> rg_ok g' \<and> absGraph g' = absGraph g \<and> roles g' = roles g \<union> {r \<in> set rs. isBuiltinRole r}"
  using assms
proof (induction rs arbitrary: g)
  case (Cons r rs)
  obtain g1 where g1: "createBuiltinRoleIfNeeded r g = Some g1" "rg_ok g1" "absGraph g1 = absGraph g"
    "roles g1 = roles g \<union> {s. s = r \<and> isBuiltinRole r}"
  proof (cases "isBuiltinRole r \<and> r \<notin> roles g")
    case True
    obtain g' where g': "createBuiltinRoleIfNeeded r g = Some g'" "rg_ok g'" "roles g' = insert r (roles g)"
      "subordinates g' = subordinates g" "\<forall>s. directPrivileges g' s = (if s = r then builtinDirect r else directPrivileges g s)"
      using builtin_created [OF Cons.prems] True by metis
    have "absGraph g' = absGraph g" using True g' by (auto simp: absGraph_def edges_def fun_eq_iff)
    then show thesis using that g' True by auto
  next
    case False
    then show thesis using that builtin_not_created [OF Cons.prems] Cons.prems by auto
  qed
  show ?case using Cons.IH [OF g1(2)] g1 by (auto simp del: abs_simps)
qed simp

lemma builtin_listed:
  "isBuiltinRole r \<Longrightarrow> r \<in> (\<lambda>n. RoleName n (getDB r)) ` set (databaseRoles @ (if getDB r = ''admin'' then adminRoles else []))"
  by (cases r) (auto simp: isBuiltinRole_def split: if_splits)

section \<open>Properties\<close>

text \<open>The roles listed for a database are exactly the roles of that database, user-defined and built-in,
  each once and in the order of their names.
\<close>

theorem roles_of_database:
  assumes "rg_ok g"
  shows "\<exists>rs g'. getRolesForDatabase d g = Some (rs, g') \<and> rg_ok g' \<and> absGraph g' = absGraph g \<and>
    sorted rs \<and> distinct rs \<and> set rs = {r \<in> a_roles (absGraph g). getDB r = d}"
proof -
  let ?rs = "map (\<lambda>n. RoleName n d) (databaseRoles @ (if d = ''admin'' then adminRoles else []))"
  obtain g' where g': "createBuiltinRolesForDBIfNeeded d g = Some g'" "rg_ok g'" "absGraph g' = absGraph g"
    "roles g' = roles g \<union> {r \<in> set ?rs. isBuiltinRole r}"
    using createBuiltinRoles_ok [OF assms, of ?rs] by (auto simp: createBuiltinRolesForDBIfNeeded_def simp del: abs_simps)
  have all: "allRoles g' = roles g'" "finite (roles g')"
    using rg_okD(1) [OF g'(2)] by (simp_all add: domains_ok_def roles_def finite_dom_map_of)
  let ?l = "filter (\<lambda>r. getDB r = d) (sorted_list_of_set (roles g'))"
  have "getRolesForDatabase d g = Some (?l, g')"
    using g'(1) all(1) by (simp add: getRolesForDatabase_def database_bounds Let_def)
  moreover have "set ?l = {r \<in> a_roles (absGraph g). getDB r = d}"
  proof -
    have "r \<in> set ?rs" if "isBuiltinRole r" "getDB r = d" for r using builtin_listed [OF that(1)] that(2) by auto
    then show ?thesis using all(2) g'(4) by auto
  qed
  moreover have "sorted ?l" "distinct ?l" using sorted_filter [of id] by (simp_all add: sorted_wrt_filter)
  ultimately show ?thesis using g'(2,3) by blast
qed

theorem roles_of_database_witness:
  "\<exists>rs g'. getRolesForDatabase ''shop'' RoleGraph_new = Some (rs, g') \<and> RoleName ''read'' ''shop'' \<in> set rs \<and> sorted rs"
proof -
  have "isBuiltinRole (RoleName ''read'' ''shop'')" by code_simp
  then show ?thesis using roles_of_database [OF rg_ok_new(1), of "''shop''"] by (auto simp: rg_ok_new(2) AbsGraph_new_def)
qed

end
