(* ===== verification/Authorization.thy ===== *)
theory Authorization
  imports Builtin_Roles
begin

text \<open>
  The authorization checks of a client session, \<^verbatim>\<open>src/mongo/db/auth/authorization_session.cpp\<close>: the
  search list of resource patterns that match a target, the decision whether the authenticated users
  hold a privilege, and the checks of the single commands built on it.  What the session asks of its
  external state (are checks disabled, does the localhost exception apply, is the server an arbiter)
  is part of the session here.
\<close>

section \<open>Definitions\<close>

record AuthUser =
  privileges :: UserPrivileges
  userRoles :: "RoleName list"

record Session =
  shouldIgnoreAuthChecks :: bool
  shouldAllowLocalhost :: bool
  serverIsArbiter :: bool
  authenticatedUsers :: "AuthUser list"

datatype AuthStatus = AuthOK | Unauthorized | AuthInternalError | AuthNoSuchKey | AuthTypeMismatch

definition getDefaultPrivileges :: "Session \<Rightarrow> PrivilegeVector" where
  "getDefaultPrivileges s =
     (if shouldAllowLocalhost s then
        let setupAdminUserActionSet = addAction ''grantRole'' (addAction ''createUser'' {});
            setupAdminUserPrivilege = privilegeOn (DatabaseName ''admin'') setupAdminUserActionSet;
            setupExternalUserPrivilege = privilegeOn1 (DatabaseName ''$external'') ''createUser'';
            arbiterActions = (if serverIsArbiter s
              then fold addAction [''getCmdLineOpts'', ''getParameter'', ''serverStatus'', ''shutdown''] {} else {});
            setupServerConfigActionSet = fold addAction [''addShard'', ''replSetConfigure'', ''replSetGetStatus''] arbiterActions;
            setupServerConfigPrivilege = privilegeOn ClusterResource setupServerConfigActionSet
        in addAll [] [setupAdminUserPrivilege, setupExternalUserPrivilege, setupServerConfigPrivilege]
      else [])"

definition buildResourceSearchList :: "ResourcePattern \<Rightarrow> ResourcePattern list" where
  "buildResourceSearchList target =
     [AnyResource] @
     (case target of
        ExactNamespace ns \<Rightarrow>
          (if \<not> isSystem ns then
             (if fst ns \<noteq> ''local'' \<and> fst ns \<noteq> ''config'' then [AnyNormalResource] else []) @ [DatabaseName (fst ns)]
           else []) @ [CollectionName (snd ns)]
      | DatabaseName db \<Rightarrow> [AnyNormalResource]
      | _ \<Rightarrow> []) @
     [target]"

text \<open>
  The loop over action sets: \<open>None\<close> is the early return, otherwise the requirements still unmet.
\<close>

fun removeUntilMet :: "ActionSet list \<Rightarrow> ActionSet \<Rightarrow> ActionSet option" where
  "removeUntilMet [] unmet = Some unmet"
| "removeUntilMet (as # rest) unmet =
     (let unmet1 = removeAllActionsFromSet as unmet in if unmet1 = {} then None else removeUntilMet rest unmet1)"

definition defaultActions :: "PrivilegeVector \<Rightarrow> ResourcePattern list \<Rightarrow> ActionSet list" where
  "defaultActions defaultPrivileges resourceSearchList =
     concat (map (\<lambda>it. concat (map (\<lambda>r. if resource it = r then [actions it] else []) resourceSearchList)) defaultPrivileges)"

definition userActions :: "AuthUser list \<Rightarrow> ResourcePattern list \<Rightarrow> ActionSet list" where
  "userActions us resourceSearchList =
     concat (map (\<lambda>u. map (\<lambda>r. getActionsForResource (privileges u) r) resourceSearchList) us)"

definition isAuthorizedForPrivilege_checked :: "Session \<Rightarrow> Privilege \<Rightarrow> bool" where
  "isAuthorizedForPrivilege_checked s p =
     (let resourceSearchList = buildResourceSearchList (resource p)
      in case removeUntilMet (defaultActions (getDefaultPrivileges s) resourceSearchList) (actions p) of
           None \<Rightarrow> True
         | Some unmet \<Rightarrow> removeUntilMet (userActions (authenticatedUsers s) resourceSearchList) unmet = None)"

definition isAuthorizedForPrivilege :: "Session \<Rightarrow> Privilege \<Rightarrow> bool" where
  "isAuthorizedForPrivilege s p = (if shouldIgnoreAuthChecks s then True else isAuthorizedForPrivilege_checked s p)"

definition isAuthorizedForPrivileges :: "Session \<Rightarrow> Privilege list \<Rightarrow> bool" where
  "isAuthorizedForPrivileges s ps =
     (if shouldIgnoreAuthChecks s then True else list_all (isAuthorizedForPrivilege_checked s) ps)"

definition isAuthorizedForActionOnResource :: "Session \<Rightarrow> ResourcePattern \<Rightarrow> ActionType \<Rightarrow> bool" where
  "isAuthorizedForActionOnResource s r a = isAuthorizedForPrivilege s (privilegeOn1 r a)"

definition isAuthorizedForActionsOnResource :: "Session \<Rightarrow> ResourcePattern \<Rightarrow> ActionSet \<Rightarrow> bool" where
  "isAuthorizedForActionsOnResource s r as = isAuthorizedForPrivilege s (privilegeOn r as)"

definition isAuthorizedForActionOnNamespace :: "Session \<Rightarrow> NamespaceString \<Rightarrow> ActionType \<Rightarrow> bool" where
  "isAuthorizedForActionOnNamespace s ns a = isAuthorizedForPrivilege s (privilegeOn1 (ExactNamespace ns) a)"

definition isAuthorizedForActionsOnNamespace :: "Session \<Rightarrow> NamespaceString \<Rightarrow> ActionSet \<Rightarrow> bool" where
  "isAuthorizedForActionsOnNamespace s ns as = isAuthorizedForPrivilege s (privilegeOn (ExactNamespace ns) as)"

definition isAuthorizedToChangeAsUser :: "AuthUser option \<Rightarrow> string \<Rightarrow> ActionType \<Rightarrow> bool" where
  "isAuthorizedToChangeAsUser user userDB actionType =
     (case user of
        None \<Rightarrow> False
      | Some u \<Rightarrow>
          actionType \<in> fold (\<lambda>r as. addAllActionsFromSet (getActionsForResource (privileges u) r) as)
                            (buildResourceSearchList (DatabaseName userDB)) {})"

subsection \<open>Checks of the commands\<close>

definition isListCollectionsCursorNS :: "NamespaceString \<Rightarrow> bool" where
  "isListCollectionsCursorNS ns \<longleftrightarrow> snd ns = ''$cmd.listCollections''"

definition listIndexesCursorNSPrefix :: string where
  "listIndexesCursorNSPrefix = ''$cmd.listIndexes.''"

definition isListIndexesCursorNS :: "NamespaceString \<Rightarrow> bool" where
  "isListIndexesCursorNS ns \<longleftrightarrow>
     length (snd ns) > length listIndexesCursorNSPrefix \<and>
     take (length listIndexesCursorNSPrefix) (snd ns) = listIndexesCursorNSPrefix"

definition getTargetNSForListIndexes :: "NamespaceString \<Rightarrow> NamespaceString" where
  "getTargetNSForListIndexes ns = (fst ns, drop (length listIndexesCursorNSPrefix) (snd ns))"

definition checkAuthForFind :: "Session \<Rightarrow> NamespaceString \<Rightarrow> bool \<Rightarrow> AuthStatus" where
  "checkAuthForFind s ns hasTerm =
     (if snd ns = ''$cmd'' then AuthInternalError
      else if \<not> isAuthorizedForActionOnNamespace s ns ''find'' then Unauthorized
      else if hasTerm \<and> \<not> isAuthorizedForActionOnResource s ClusterResource ''internal'' then Unauthorized
      else AuthOK)"

definition checkAuthForGetMore :: "Session \<Rightarrow> NamespaceString \<Rightarrow> bool \<Rightarrow> AuthStatus" where
  "checkAuthForGetMore s ns hasTerm =
     (let allowed = (if isListCollectionsCursorNS ns
                       then isAuthorizedForActionOnResource s (DatabaseName (fst ns)) ''listCollections''
                     else if isListIndexesCursorNS ns
                       then isAuthorizedForActionOnNamespace s (getTargetNSForListIndexes ns) ''listIndexes''
                     else isAuthorizedForActionOnNamespace s ns ''find'')
      in if \<not> allowed then Unauthorized
         else if hasTerm \<and> \<not> isAuthorizedForActionOnResource s ClusterResource ''internal'' then Unauthorized
         else AuthOK)"

text \<open>The field \<open>ns\<close> of a document inserted into \<open>system.indexes\<close>.\<close>

datatype NsElement = NsMissing | NsString NamespaceString | NsOther

definition checkAuthForInsert :: "Session \<Rightarrow> bool \<Rightarrow> NamespaceString \<Rightarrow> NsElement \<Rightarrow> AuthStatus" where
  "checkAuthForInsert s documentValidationDisabled ns nsElement =
     (if snd ns = ''system.indexes'' then
        (case nsElement of
           NsMissing \<Rightarrow> AuthNoSuchKey
         | NsOther \<Rightarrow> AuthTypeMismatch
         | NsString indexNS \<Rightarrow>
             if \<not> isAuthorizedForActionOnNamespace s indexNS ''createIndex'' then Unauthorized else AuthOK)
      else
        let required = addAction ''insert'' {};
            required1 = (if documentValidationDisabled then addAction ''bypassDocumentValidation'' required else required)
        in if \<not> isAuthorizedForActionsOnNamespace s ns required1 then Unauthorized else AuthOK)"

definition checkAuthForUpdate :: "Session \<Rightarrow> bool \<Rightarrow> NamespaceString \<Rightarrow> bool \<Rightarrow> AuthStatus" where
  "checkAuthForUpdate s documentValidationDisabled ns upsert =
     (let required = addAction ''update'' {};
          required1 = (if upsert then addAction ''insert'' required else required);
          required2 = (if documentValidationDisabled then addAction ''bypassDocumentValidation'' required1 else required1)
      in if \<not> isAuthorizedForActionsOnNamespace s ns required2 then Unauthorized else AuthOK)"

definition checkAuthForDelete :: "Session \<Rightarrow> NamespaceString \<Rightarrow> AuthStatus" where
  "checkAuthForDelete s ns = (if \<not> isAuthorizedForActionOnNamespace s ns ''remove'' then Unauthorized else AuthOK)"

definition checkAuthForKillCursors :: "Session \<Rightarrow> NamespaceString \<Rightarrow> AuthStatus" where
  "checkAuthForKillCursors s ns =
     (let allowed = (if isListCollectionsCursorNS ns
                       then isAuthorizedForActionOnResource s (DatabaseName (fst ns)) ''killCursors'' \<or>
                            isAuthorizedForActionOnResource s (DatabaseName (fst ns)) ''listCollections''
                     else if isListIndexesCursorNS ns
                       then isAuthorizedForActionOnNamespace s (getTargetNSForListIndexes ns) ''killCursors'' \<or>
                            isAuthorizedForActionOnNamespace s (getTargetNSForListIndexes ns) ''listIndexes''
                     else isAuthorizedForActionOnNamespace s ns ''killCursors'' \<or>
                          isAuthorizedForActionOnNamespace s ns ''find'')
      in if \<not> allowed then Unauthorized else AuthOK)"

definition grantDatabase :: "ResourcePattern \<Rightarrow> string" where
  "grantDatabase r = (case r of DatabaseName db \<Rightarrow> db | ExactNamespace ns \<Rightarrow> fst ns | _ \<Rightarrow> ''admin'')"

definition checkAuthorizedToGrantPrivilege :: "Session \<Rightarrow> Privilege \<Rightarrow> AuthStatus" where
  "checkAuthorizedToGrantPrivilege s p =
     (if \<not> isAuthorizedForActionOnResource s (DatabaseName (grantDatabase (resource p))) ''grantRole''
      then Unauthorized else AuthOK)"

definition checkAuthorizedToRevokePrivilege :: "Session \<Rightarrow> Privilege \<Rightarrow> AuthStatus" where
  "checkAuthorizedToRevokePrivilege s p =
     (if \<not> isAuthorizedForActionOnResource s (DatabaseName (grantDatabase (resource p))) ''revokeRole''
      then Unauthorized else AuthOK)"

definition isAuthorizedToCreateRole :: "Session \<Rightarrow> RoleName \<Rightarrow> bool" where
  "isAuthorizedToCreateRole s roleName =
     (if isAuthorizedForActionOnResource s (DatabaseName (getDB roleName)) ''createRole'' then True
      else if shouldAllowLocalhost s then list_ex (\<lambda>u. roleName \<in> set (userRoles u)) (authenticatedUsers s)
      else False)"

definition isAuthorizedToGrantRole :: "Session \<Rightarrow> RoleName \<Rightarrow> bool" where
  "isAuthorizedToGrantRole s role = isAuthorizedForActionOnResource s (DatabaseName (getDB role)) ''grantRole''"

definition isAuthorizedToRevokeRole :: "Session \<Rightarrow> RoleName \<Rightarrow> bool" where
  "isAuthorizedToRevokeRole s role = isAuthorizedForActionOnResource s (DatabaseName (getDB role)) ''revokeRole''"

text \<open>A user that holds the given built-in roles, and the session of such users.\<close>

definition userWithRoles :: "RoleName list \<Rightarrow> AuthUser" where
  "userWithRoles roles = \<lparr>privileges = addPrivileges (concat (map builtinPrivileges roles)) [], userRoles = roles\<rparr>"

definition sessionOf :: "RoleName list list \<Rightarrow> Session" where
  "sessionOf rss = \<lparr>shouldIgnoreAuthChecks = False, shouldAllowLocalhost = False, serverIsArbiter = False,
     authenticatedUsers = map userWithRoles rss\<rparr>"

section \<open>The decision\<close>

text \<open>The actions the session holds on a resource pattern, and on all patterns that match a target.\<close>

definition heldOn :: "Session \<Rightarrow> ResourcePattern \<Rightarrow> ActionSet" where
  "heldOn s r = grants (getDefaultPrivileges s) r \<union> (\<Union>u \<in> set (authenticatedUsers s). getActionsForResource (privileges u) r)"

definition held :: "Session \<Rightarrow> ResourcePattern \<Rightarrow> ActionSet" where
  "held s target = (\<Union>r \<in> set (buildResourceSearchList target). heldOn s r)"

definition remaining :: "ActionSet list \<Rightarrow> ActionSet \<Rightarrow> ActionSet" where
  "remaining ass unmet = unmet - \<Union>(set ass) - (if \<Union>(set ass) = {} then {} else {anyAction})"

lemma remaining_Nil [simp]: "remaining [] unmet = unmet"
  by (simp add: remaining_def)

lemma remaining_Cons [simp]: "remaining (as # rest) unmet = remaining rest (removeAllActionsFromSet as unmet)"
  by (cases "as = {}"; cases "\<Union>(set rest) = {}") (auto simp: remaining_def removeAllActionsFromSet_def)

lemma remaining_append: "remaining (as @ bs) unmet = remaining bs (remaining as unmet)"
  by (induction as arbitrary: unmet) simp_all

lemma remaining_empty [simp]: "remaining ass {} = {}"
  by (simp add: remaining_def)

lemma removeUntilMet_None: "removeUntilMet ass unmet = None \<longleftrightarrow> ass \<noteq> [] \<and> remaining ass unmet = {}"
proof (induction ass arbitrary: unmet)
  case (Cons as rest)
  then show ?case by (cases "removeAllActionsFromSet as unmet = {}"; cases rest) (simp_all add: Let_def)
qed simp

lemma removeUntilMet_Some: "removeUntilMet ass unmet = Some u \<Longrightarrow> u = remaining ass unmet"
  by (induction ass arbitrary: unmet) (simp_all add: Let_def split: if_split_asm)

lemma defaultActions_Union: "\<Union>(set (defaultActions pv rs)) = (\<Union>r \<in> set rs. grants pv r)"
  by (auto simp: defaultActions_def grants_def split: if_splits)

lemma userActions_Union:
  "\<Union>(set (userActions us rs)) = (\<Union>r \<in> set rs. \<Union>u \<in> set us. getActionsForResource (privileges u) r)"
  by (auto simp: userActions_def)

lemma searchList_nonempty [simp]: "buildResourceSearchList target \<noteq> []"
  by (simp add: buildResourceSearchList_def)

lemma userActions_empty: "userActions us (buildResourceSearchList target) = [] \<longleftrightarrow> us = []"
  by (auto simp: userActions_def)

text \<open>
  The decision is exact: with at least one user, a well-formed non-empty requirement is met iff every
  action of it is held on some pattern that matches the target.  (The special action \<open>anyAction\<close> is
  met by holding anything: a well-formed requirement with it contains all actions.)
\<close>

lemma authorized_iff:
  "isAuthorizedForPrivilege_checked s p \<longleftrightarrow>
     (defaultActions (getDefaultPrivileges s) (buildResourceSearchList (resource p)) \<noteq> [] \<or> authenticatedUsers s \<noteq> []) \<and>
     actions p - held s (resource p) - (if held s (resource p) = {} then {} else {anyAction}) = {}"
proof -
  let ?rs = "buildResourceSearchList (resource p)"
  let ?d = "defaultActions (getDefaultPrivileges s) ?rs" and ?u = "userActions (authenticatedUsers s) ?rs"
  have un: "\<Union>(set (?d @ ?u)) = held s (resource p)"
    unfolding held_def heldOn_def set_append Union_Un_distrib defaultActions_Union userActions_Union by auto
  have "isAuthorizedForPrivilege_checked s p \<longleftrightarrow> removeUntilMet (?d @ ?u) (actions p) = None"
  proof (cases "removeUntilMet ?d (actions p)")
    case None
    then have "isAuthorizedForPrivilege_checked s p" by (simp add: isAuthorizedForPrivilege_checked_def Let_def)
    with None show ?thesis by (simp add: removeUntilMet_None remaining_append)
  next
    case (Some u)
    then have u: "u = remaining ?d (actions p)" by (rule removeUntilMet_Some)
    have "removeUntilMet ?d (actions p) \<noteq> None" using Some by simp
    then have "?d = [] \<or> u \<noteq> {}" unfolding removeUntilMet_None u by blast
    then show ?thesis
      using Some u by (auto simp: isAuthorizedForPrivilege_checked_def Let_def removeUntilMet_None remaining_append)
  qed
  also have "\<dots> \<longleftrightarrow> ?d @ ?u \<noteq> [] \<and> remaining (?d @ ?u) (actions p) = {}" by (rule removeUntilMet_None)
  finally show ?thesis unfolding remaining_def un by (auto simp: userActions_empty)
qed

lemma authorization_decision:
  assumes "\<not> shouldIgnoreAuthChecks s" "authenticatedUsers s \<noteq> []" "privilege_ok p"
  shows "isAuthorizedForPrivilege s p \<longleftrightarrow> actions p - {anyAction} \<subseteq> held s (resource p)"
proof -
  have "(if held s (resource p) = {} then {} else {anyAction}) = {anyAction} \<or> anyAction \<notin> actions p \<or>
      \<not> actions p - {anyAction} \<subseteq> held s (resource p)"
  proof (cases "held s (resource p) = {} \<and> anyAction \<in> actions p")
    case True
    then have "actions p = addAllActions" using assms(3) by (simp add: privilege_ok_def actions_ok_def)
    moreover have "''find'' \<noteq> anyAction" by (simp add: anyAction_def)
    ultimately have "''find'' \<in> actions p - {anyAction}" by simp
    then show ?thesis using True by blast
  qed auto
  then show ?thesis
    using assms(1,2) by (auto simp: isAuthorizedForPrivilege_def authorized_iff split: if_splits)
qed

text \<open>C19:
  The loop with its early returns decides exactly what it should: with checks enabled and at least
  one authenticated user, a privilege with a well-formed action set is granted iff every action of
  it other than \<open>anyAction\<close> is held on some resource pattern of the search list of its target.
\<close>

theorem authorization_exact:
  assumes "\<not> shouldIgnoreAuthChecks s" "authenticatedUsers s \<noteq> []" "privilege_ok p"
  shows "isAuthorizedForPrivilege s p \<longleftrightarrow> actions p - {anyAction} \<subseteq> held s (resource p)"
  using assms by (rule authorization_decision)

theorem authorization_exact_witness:
  "isAuthorizedForPrivilege (sessionOf [[RoleName ''read'' ''a''], [RoleName ''readWrite'' ''b'']])
     (privilegeOn (ExactNamespace (''a'', ''c'')) {''find''}) \<and>
   {''find''} - {anyAction} \<subseteq> held (sessionOf [[RoleName ''read'' ''a''], [RoleName ''readWrite'' ''b'']]) (ExactNamespace (''a'', ''c''))"
proof -
  let ?s = "sessionOf [[RoleName ''read'' ''a''], [RoleName ''readWrite'' ''b'']]"
  have "\<not> shouldIgnoreAuthChecks ?s" "authenticatedUsers ?s \<noteq> []" "privilege_ok (privilegeOn (ExactNamespace (''a'', ''c'')) {''find''})"
    by (simp_all add: sessionOf_def privilegeOn_def privilege_ok_def actions_ok_def anyAction_def)
  from authorization_exact [OF this]
  have "isAuthorizedForPrivilege ?s (privilegeOn (ExactNamespace (''a'', ''c'')) {''find''}) \<longleftrightarrow>
      {''find''} - {anyAction} \<subseteq> held ?s (ExactNamespace (''a'', ''c''))" by (simp add: privilegeOn_def)
  moreover have "isAuthorizedForPrivilege ?s (privilegeOn (ExactNamespace (''a'', ''c'')) {''find''})" by code_simp
  ultimately show ?thesis by blast
qed

section \<open>Users with built-in roles\<close>

lemma concat_ok: "list_all privilege_ok (concat (map builtinPrivileges rs))"
  by (induction rs) (simp_all add: builtinPrivileges_ok)

lemma grants_concat: "grants (concat (map builtinPrivileges rs)) x = (\<Union>r \<in> set rs. grants (builtinPrivileges r) x)"
  by (induction rs) simp_all

lemma userWithRoles_acts: "getActionsForResource (privileges (userWithRoles rs)) x = (\<Union>r \<in> set rs. grants (builtinPrivileges r) x)"
  using user.acts_add_all [of "[]", OF _ concat_ok] by (simp add: userWithRoles_def addPrivileges_def grants_concat)

lemma held_sessionOf:
  "held (sessionOf rss) target =
     (\<Union>x \<in> set (buildResourceSearchList target). \<Union>rs \<in> set rss. \<Union>r \<in> set rs. grants (builtinPrivileges r) x)"
  by (simp add: held_def heldOn_def sessionOf_def getDefaultPrivileges_def userWithRoles_acts)

lemma not_authorized:
  assumes "a \<in> actions p" "a \<noteq> anyAction" "a \<notin> held (sessionOf rss) (resource p)"
  shows "\<not> isAuthorizedForPrivilege (sessionOf rss) p"
  using assms by (auto simp: isAuthorizedForPrivilege_def authorized_iff sessionOf_def [of rss] split: if_splits)

lemma searchList_outside:
  "\<not> inDatabase db target \<Longrightarrow> x \<in> set (buildResourceSearchList target) \<Longrightarrow> \<not> inDatabase db x"
  by (cases target) (auto simp: buildResourceSearchList_def split: if_splits)



text \<open>Vectors whose privileges stay within a set of actions.\<close>

definition onlyActions :: "ActionSet \<Rightarrow> PrivilegeVector \<Rightarrow> bool" where
  "onlyActions A pv = list_all (\<lambda>p. actions p \<subseteq> A) pv"

lemma onlyActions_simps [simp]: "onlyActions A []" "onlyActions A (p # pv) \<longleftrightarrow> actions p \<subseteq> A \<and> onlyActions A pv"
  by (simp_all add: onlyActions_def)

lemma onlyActions_add:
  "anyAction \<notin> A \<Longrightarrow> onlyActions A pv \<Longrightarrow> actions p \<subseteq> A \<Longrightarrow> onlyActions A (addPrivilegeToPrivilegeVector pv p)"
  by (induction pv) (auto simp: addActions_def addAllActionsFromSet_def)

lemma onlyActions_addAll:
  "anyAction \<notin> A \<Longrightarrow> onlyActions A pv \<Longrightarrow> onlyActions A ps \<Longrightarrow> onlyActions A (addAll pv ps)"
  unfolding addAll_def by (induction ps arbitrary: pv) (auto intro: onlyActions_add)

lemma onlyActions_grants: "onlyActions A pv \<Longrightarrow> grants pv x \<subseteq> A"
  by (induction pv) auto

definition readOnlyActions :: ActionSet where
  "readOnlyActions = insert ''listDatabases'' readRoleActions"

lemma readOnlyActions_not: "anyAction \<notin> readOnlyActions" "''insert'' \<notin> readOnlyActions" "''update'' \<notin> readOnlyActions"
  "''remove'' \<notin> readOnlyActions" "''createIndex'' \<notin> readOnlyActions"
  by code_simp+

definition readOnlyRole :: "RoleName \<Rightarrow> bool" where
  "readOnlyRole r \<longleftrightarrow> getRole r = ''read'' \<or> r = RoleName ''readAnyDatabase'' ''admin''"

lemma readOnlyRole_grants:
  assumes "readOnlyRole r"
  shows "grants (builtinPrivileges r) x \<subseteq> readOnlyActions"
proof -
  have "readRoleActions \<subseteq> readOnlyActions" "{''listDatabases''} \<subseteq> readOnlyActions" by (auto simp: readOnlyActions_def)
  then have "onlyActions readOnlyActions (addReadOnlyDbPrivileges db [])" "onlyActions readOnlyActions (addReadOnlyAnyDbPrivileges [])" for db
    unfolding addReadOnlyDbPrivileges_def addReadOnlyAnyDbPrivileges_def
    by (intro onlyActions_addAll readOnlyActions_not(1); simp add: privilegeOn_def privilegeOn1_def addAction_def anyAction_def)+
  moreover have "builtinPrivileges r = addReadOnlyDbPrivileges (getDB r) [] \<or> builtinPrivileges r = addReadOnlyAnyDbPrivileges []"
    using assms by (cases r) (auto simp: readOnlyRole_def builtinPrivileges_db builtinPrivileges_admin)
  ultimately show ?thesis using onlyActions_grants by metis
qed

lemma readOnly_refused:
  assumes "list_all (list_all readOnlyRole) rss" "a \<in> actions p" "a \<in> {''insert'', ''update'', ''remove'', ''createIndex''}"
  shows "\<not> isAuthorizedForPrivilege (sessionOf rss) p"
proof (rule not_authorized [OF assms(2)])
  show "a \<noteq> anyAction" using assms(3) by (auto simp: anyAction_def)
  have "held (sessionOf rss) (resource p) \<subseteq> readOnlyActions"
    using assms(1) readOnlyRole_grants by (fastforce simp: held_sessionOf list_all_iff)
  then show "a \<notin> held (sessionOf rss) (resource p)" using assms(3) readOnlyActions_not by auto
qed

text \<open>C23:
  Users who hold only read roles (\<open>read\<close> of any databases, \<open>readAnyDatabase\<close>) can write nowhere: the
  checks of insert (also into \<open>system.indexes\<close>), update, upsert and delete all refuse, on every namespace.
\<close>

theorem read_only_users_cannot_write:
  assumes "list_all (list_all readOnlyRole) rss"
  shows "checkAuthForInsert (sessionOf rss) nv ns el \<noteq> AuthOK \<and>
    checkAuthForUpdate (sessionOf rss) nv ns upsert \<noteq> AuthOK \<and>
    checkAuthForDelete (sessionOf rss) ns \<noteq> AuthOK"
proof -
  note refused = readOnly_refused [OF assms]
  have ins: "\<not> isAuthorizedForActionsOnNamespace (sessionOf rss) n as" if "''insert'' \<in> as \<or> ''update'' \<in> as" for n as
    using that refused unfolding isAuthorizedForActionsOnNamespace_def by (fastforce simp: privilegeOn_def)
  have one: "\<not> isAuthorizedForActionOnNamespace (sessionOf rss) n a" if "a = ''remove'' \<or> a = ''createIndex''" for n a
    using that refused [of a] unfolding isAuthorizedForActionOnNamespace_def
    by (fastforce simp: privilegeOn1_def addAction_def anyAction_def)
  show ?thesis
    by (simp add: checkAuthForInsert_def checkAuthForUpdate_def checkAuthForDelete_def Let_def ins one addAction_def anyAction_def
        split: NsElement.split)
qed

theorem read_only_users_cannot_write_witness:
  "checkAuthForFind (sessionOf [[RoleName ''read'' ''a'']]) (''a'', ''c'') False = AuthOK \<and>
   checkAuthForInsert (sessionOf [[RoleName ''read'' ''a'']]) False (''a'', ''c'') NsMissing \<noteq> AuthOK \<and>
   checkAuthForUpdate (sessionOf [[RoleName ''read'' ''a'']]) False (''a'', ''c'') True \<noteq> AuthOK \<and>
   checkAuthForDelete (sessionOf [[RoleName ''read'' ''a'']]) (''a'', ''c'') \<noteq> AuthOK"
proof -
  have "checkAuthForFind (sessionOf [[RoleName ''read'' ''a'']]) (''a'', ''c'') False = AuthOK" by code_simp
  moreover have "list_all (list_all readOnlyRole) [[RoleName ''read'' ''a'']]" by (simp add: readOnlyRole_def)
  from read_only_users_cannot_write [OF this, of False "(''a'', ''c'')" NsMissing True]
  have "checkAuthForInsert (sessionOf [[RoleName ''read'' ''a'']]) False (''a'', ''c'') NsMissing \<noteq> AuthOK"
    "checkAuthForUpdate (sessionOf [[RoleName ''read'' ''a'']]) False (''a'', ''c'') True \<noteq> AuthOK"
    "checkAuthForDelete (sessionOf [[RoleName ''read'' ''a'']]) (''a'', ''c'') \<noteq> AuthOK" by simp_all
  ultimately show ?thesis by simp
qed

end
