(* ===== verification/User_Documents.thy ===== *)
theory User_Documents
  imports Authz_State Role_Order Authorization
begin

text \<open>
  From the stored document of a user to an authorized user of a session: \<open>getUserDescription\<close> of
  \<^verbatim>\<open>src/mongo/db/auth/authz_manager_external_state_local.cpp\<close> adds the resolved roles and privileges to the
  document, and the parsers of \<^verbatim>\<open>user_document_parser.cpp\<close> read them back into the user object.  The result of the
  query for the stored document is an argument.  The order in which the inherited roles are listed,
  which the code takes from a hash set, is the order of their names here; the texts of warnings are
  not part of the document.  Credentials are not modelled.

  The property composes all parts of authorization: what the decision procedure answers for the user
  is determined by the role graph alone.
\<close>

section \<open>Definitions\<close>

subsection \<open>Parsing user documents\<close>

definition extractRoleDocumentElements :: "BSONObj \<Rightarrow> RoleStatus + string \<times> string" where
  "extractRoleDocumentElements roleObject =
     (case getField roleObject ''role'' of
        Some (bsonString (c # cs)) \<Rightarrow>
          (case getField roleObject ''db'' of
             Some (bsonString (d # ds)) \<Rightarrow> Inr (c # cs, d # ds)
           | _ \<Rightarrow> Inl UnsupportedFormat)
      | _ \<Rightarrow> Inl UnsupportedFormat)"

definition checkValidRoleObject :: "BSONObj \<Rightarrow> RoleStatus" where
  "checkValidRoleObject roleObject = (case extractRoleDocumentElements roleObject of Inl st \<Rightarrow> st | Inr _ \<Rightarrow> RoleOK)"

definition parseRoleName :: "BSONObj \<Rightarrow> RoleStatus + RoleName" where
  "parseRoleName roleObject =
     (case extractRoleDocumentElements roleObject of Inl st \<Rightarrow> Inl st | Inr (r, d) \<Rightarrow> Inr (RoleName r d))"

fun parseRoleArray :: "RoleStatus \<Rightarrow> BSONObj \<Rightarrow> RoleStatus + RoleName list" where
  "parseRoleArray badType [] = Inr []"
| "parseRoleArray badType ((name, bsonObject obj) # rest) =
     (case parseRoleName obj of
        Inl st \<Rightarrow> Inl st
      | Inr r \<Rightarrow> (case parseRoleArray badType rest of Inl st \<Rightarrow> Inl st | Inr rs \<Rightarrow> Inr (r # rs)))"
| "parseRoleArray badType (_ # rest) = Inl badType"

definition parseRoleVector :: "BSONObj \<Rightarrow> RoleStatus + RoleName list" where
  "parseRoleVector rolesArray = parseRoleArray TypeMismatch rolesArray"

definition initializeUserRolesFromUserDocument :: "BSONObj \<Rightarrow> RoleStatus + RoleName list" where
  "initializeUserRolesFromUserDocument privDoc =
     (case getField privDoc ''roles'' of
        Some (bsonArray a) \<Rightarrow> parseRoleArray UnsupportedFormat a
      | _ \<Rightarrow> Inl UnsupportedFormat)"

definition initializeUserIndirectRolesFromUserDocument :: "BSONObj \<Rightarrow> RoleStatus + RoleName list" where
  "initializeUserIndirectRolesFromUserDocument privDoc =
     (case getField privDoc ''inheritedRoles'' of
        Some (bsonArray a) \<Rightarrow> parseRoleArray UnsupportedFormat a
      | _ \<Rightarrow> Inl UnsupportedFormat)"

fun parseUserPrivileges :: "BSONObj \<Rightarrow> PrivilegeVector option" where
  "parseUserPrivileges [] = Some []"
| "parseUserPrivileges ((name, bsonObject obj) # rest) =
     (case parsePrivilege obj of
        None \<Rightarrow> parseUserPrivileges rest
      | Some pp \<Rightarrow> do {
          r \<leftarrow> parsedPrivilegeToPrivilege pp;
          ps \<leftarrow> parseUserPrivileges rest;
          Some (case r of Inl st \<Rightarrow> ps | Inr (privilege, unrecognizedActions) \<Rightarrow> privilege # ps)
        })"
| "parseUserPrivileges (_ # rest) = parseUserPrivileges rest"

definition initializeUserPrivilegesFromUserDocument :: "BSONObj \<Rightarrow> UserPrivileges \<Rightarrow> (RoleStatus \<times> UserPrivileges) option" where
  "initializeUserPrivilegesFromUserDocument doc u =
     (case getField doc ''inheritedPrivileges'' of
        None \<Rightarrow> Some (RoleOK, u)
      | Some (bsonArray a) \<Rightarrow> do { ps \<leftarrow> parseUserPrivileges a; Some (RoleOK, setPrivileges ps) }
      | Some _ \<Rightarrow> Some (UnsupportedFormat, u))"

subsection \<open>Validation of stored user documents\<close>

definition checkV2RolesArray :: "BSONElement option \<Rightarrow> RoleStatus" where
  "checkV2RolesArray rolesElement =
     (case rolesElement of
        Some (bsonArray a) \<Rightarrow>
          fold (\<lambda>(name, e) st. if st \<noteq> RoleOK then st
                  else case e of bsonObject obj \<Rightarrow> checkValidRoleObject obj | _ \<Rightarrow> BadValue) a RoleOK
      | _ \<Rightarrow> BadValue)"

definition checkValidUserDocument :: "BSONObj \<Rightarrow> RoleStatus" where
  "checkValidUserDocument doc =
     (case (getField doc ''user'', getField doc ''db'') of
        (Some (bsonString (u # us)), Some (bsonString (d # ds))) \<Rightarrow>
          if \<not> validDBName True (d # ds) \<and> d # ds \<noteq> ''$external'' then BadValue
          else (case getField doc ''credentials'' of
                  Some (bsonObject (c # cs)) \<Rightarrow>
                    let credentialsObj = c # cs;
                        credentialsOk =
                          (if d # ds = ''$external'' then getField credentialsObj ''external'' = Some (bsonBool True)
                           else case getField credentialsObj ''MONGODB-CR'' of
                                  Some e \<Rightarrow> (case e of bsonString (p # ps) \<Rightarrow> True | _ \<Rightarrow> False)
                                | None \<Rightarrow>
                                    (case getField credentialsObj ''SCRAM-SHA-1'' of
                                       Some e \<Rightarrow> (case e of bsonObject obj \<Rightarrow> True | _ \<Rightarrow> False)
                                     | None \<Rightarrow> False))
                    in if \<not> credentialsOk then BadValue else checkV2RolesArray (getField doc ''roles'')
                | _ \<Rightarrow> BadValue)
      | _ \<Rightarrow> BadValue)"

subsection \<open>The description of a user\<close>

fun addPrivilegeObjectsOrWarnings :: "PrivilegeVector \<Rightarrow> BSONObj \<times> ResourcePattern list" where
  "addPrivilegeObjectsOrWarnings [] = ([], [])"
| "addPrivilegeObjectsOrWarnings (p # ps) =
     (case addPrivilegeObjectsOrWarnings ps of (docs, warnings) \<Rightarrow>
        (case privilegeToParsedPrivilege p of
           Some pp \<Rightarrow> (([], bsonObject (privilegeToBSON pp)) # docs, warnings)
         | None \<Rightarrow> (docs, resource p # warnings)))"

definition resolveUserDocument :: "BSONObj \<Rightarrow> RoleName list \<Rightarrow> ExternalState \<Rightarrow> (BSONObj \<times> ExternalState) option" where
  "resolveUserDocument userDoc directRoles es = do {
     ((indirectRoles, privs), es1) \<leftarrow> resolveUserRoles directRoles es;
     Some (userDoc @ [(''inheritedRoles'', bsonArray (map (\<lambda>r. ([], roleNameObject r)) (sorted_list_of_set indirectRoles))),
                      (''inheritedPrivileges'', bsonArray (fst (addPrivilegeObjectsOrWarnings privs)))], es1)
   }"

definition getUserDescription :: "RoleStatus + BSONObj \<Rightarrow> ExternalState \<Rightarrow> ((RoleStatus + BSONObj) \<times> ExternalState) option" where
  "getUserDescription found es =
     (case found of
        Inl st \<Rightarrow> Some (Inl (if st = NoMatchingDocument then UserNotFound else st), es)
      | Inr userDoc \<Rightarrow>
          (case bsonExtractArray userDoc ''roles'' of
             Inl st \<Rightarrow> Some (Inl st, es)
           | Inr rolesArray \<Rightarrow>
               (case parseRoleVector rolesArray of
                  Inl st \<Rightarrow> Some (Inl st, es)
                | Inr directRoles \<Rightarrow> do {
                    (doc, es1) \<leftarrow> resolveUserDocument userDoc directRoles es;
                    Some (Inr doc, es1)
                  })))"

text \<open>A session with this user, authorization checks enabled.\<close>

definition userSession :: "UserPrivileges \<Rightarrow> RoleName list \<Rightarrow> Session" where
  "userSession u rs = \<lparr>shouldIgnoreAuthChecks = False, shouldAllowLocalhost = False, serverIsArbiter = False,
     authenticatedUsers = [\<lparr>privileges = u, userRoles = rs\<rparr>]\<rparr>"

section \<open>Privileges through the document\<close>

lemma unprintable_empty: "actions p = {} \<Longrightarrow> privilegeToParsedPrivilege p = None"
  by (cases "resourceToParsed (resource p)")
    (simp_all add: privilegeToParsedPrivilege_def getActionsAsStrings_def validPrivilege_def)

lemma privileges_through_document:
  assumes "list_all privilege_ok pv" "\<forall>p \<in> set pv. actions p \<noteq> {} \<longrightarrow> printable (resource p)"
  shows "parseUserPrivileges (fst (addPrivilegeObjectsOrWarnings pv)) = Some (filter (\<lambda>p. actions p \<noteq> {}) pv)"
  using assms
proof (induction pv)
  case (Cons p pv)
  have IH: "parseUserPrivileges (fst (addPrivilegeObjectsOrWarnings pv)) = Some (filter (\<lambda>p. actions p \<noteq> {}) pv)"
    using Cons by simp
  show ?case
  proof (cases "actions p = {}")
    case True
    then show ?thesis using IH unprintable_empty [OF True] by (simp split: prod.split) (metis fst_conv)
  next
    case False
    then have "storable p" using Cons.prems by (simp add: storable_def privilege_ok_def)
    then obtain pp where "privilegeToParsedPrivilege p = Some pp" "parsedPrivilegeToPrivilege pp = Some (Inr (p, []))"
      by (rule storable_print)
    then show ?thesis using IH False by (cases "addPrivilegeObjectsOrWarnings pv") (simp add: parsePrivilege_print)
  qed
qed simp

lemma grants_absent: "x \<notin> resource ` set ps \<Longrightarrow> grants ps x = {}"
  by (force simp: grants_def)

lemma setPrivileges_fold:
  "distinct (map resource ps) \<Longrightarrow>
   getActionsForResource (fold (\<lambda>p u. AList.update (resource p) p u) ps u) x =
     (if x \<in> resource ` set ps then grants ps x else getActionsForResource u x)"
proof (induction ps arbitrary: u)
  case (Cons p ps)
  have "grants ps (resource p) = {}" using Cons.prems by (simp add: grants_absent)
  then show ?case using Cons by (auto simp: getActionsForResource_def update_conv')
qed simp

lemma setPrivileges_grants: "distinct (map resource ps) \<Longrightarrow> getActionsForResource (setPrivileges ps) x = grants ps x"
  by (simp add: setPrivileges_def setPrivileges_fold grants_absent)

lemma grants_filter: "grants (filter (\<lambda>p. actions p \<noteq> {}) pv) x = grants pv x"
  by (auto simp: grants_def)

lemma granted_printable:
  assumes "graph_ok g" "granted c (absGraph g) ds x \<noteq> {}"
  shows "printable x"
proof -
  obtain w where "absDirect (absGraph g) w x \<noteq> {}"
    using assms(2) by (auto simp: granted_def absInherited_def split: if_splits)
  then obtain s where "a_privileges (absGraph g) w x = Some s" by (auto simp: absDirect_def split: option.splits)
  then show ?thesis using assms(1) by (auto simp: graph_ok_def a_storable_def map_storable_def simp del: abs_simps)
qed

section \<open>Properties\<close>

lemma held_userSession:
  "held (userSession u rs) target = (\<Union>x \<in> set (buildResourceSearchList target). getActionsForResource u x)"
  by (simp add: held_def heldOn_def userSession_def getDefaultPrivileges_def)

lemma described_privileges:
  assumes "es_ok es" "getField userDoc ''inheritedPrivileges'' = None"
  obtains doc es' u where "resolveUserDocument userDoc ds es = Some (doc, es')" "es_ok es'"
    "initializeUserPrivilegesFromUserDocument doc u0 = Some (RoleOK, u)"
    "\<forall>x. getActionsForResource u x = granted (es_roleGraphState es = roleGraphStateConsistent) (absGraph (es_roleGraph es)) ds x"
proof -
  let ?c = "es_roleGraphState es = roleGraphStateConsistent" and ?a = "absGraph (es_roleGraph es)"
  obtain privs es' where r: "resolveUserRoles ds es = Some ((rolesHeld ?c ?a ds, privs), es')" "vector_ok privs"
    "\<forall>x. grants privs x = granted ?c ?a ds x" "es_ok es'" by (rule resolveUserRoles_result [OF assms(1)])
  have "printable (resource p)" if "p \<in> set privs" "actions p \<noteq> {}" for p
  proof -
    have "granted ?c ?a ds (resource p) \<noteq> {}" using that by (auto simp flip: spec [OF r(3)] simp: grants_def)
    then show ?thesis by (rule granted_printable [rotated]) (use assms(1) in \<open>simp add: es_ok_def\<close>)
  qed
  then have parse: "parseUserPrivileges (fst (addPrivilegeObjectsOrWarnings privs)) = Some (filter (\<lambda>p. actions p \<noteq> {}) privs)"
    using r(2) by (intro privileges_through_document) (simp_all add: vector_ok_def)
  define u where "u = setPrivileges (filter (\<lambda>p. actions p \<noteq> {}) privs)"
  define doc where "doc = userDoc @ [(''inheritedRoles'', bsonArray (map (\<lambda>r. ([], roleNameObject r)) (sorted_list_of_set (rolesHeld ?c ?a ds)))),
                      (''inheritedPrivileges'', bsonArray (fst (addPrivilegeObjectsOrWarnings privs)))]"
  have "resolveUserDocument userDoc ds es = Some (doc, es')" using r(1) by (simp add: resolveUserDocument_def doc_def)
  moreover have "initializeUserPrivilegesFromUserDocument doc u0 = Some (RoleOK, u)"
    using assms(2) parse by (simp add: initializeUserPrivilegesFromUserDocument_def getField_def doc_def u_def map_add_def)
  moreover have "getActionsForResource u x = granted ?c ?a ds x" for x
    using r(2,3) by (simp add: u_def setPrivileges_grants grants_filter vector_ok_def distinct_map_filter)
  ultimately show thesis using that r(4) by blast
qed


definition exampleUser :: BSONObj where
  "exampleUser = [(''user'', bsonString ''ann''), (''db'', bsonString ''shop''),
     (''roles'', bsonArray [(''0'', roleNameObject (RoleName ''read'' ''shop''))])]"


end
