(* ===== verification/Bson_Format.thy ===== *)
theory Bson_Format
  imports Prelude
begin

text \<open>
  The BSON byte format (\<^verbatim>\<open>bson/bsontypes.h\<close>, and the format comment of \<^verbatim>\<open>bson/bsonobj.h\<close>).

  \<open>BSONType\<close> is the enumeration of the source and \<open>typeCode\<close> its values.  A document is a sequence
  of named values that ends with the EOO element; \<open>Value\<close> and \<open>Doc\<close> hold that tree, with every
  number at its width and every string as the bytes it has in the buffer.  \<open>encodeObj\<close> is the byte
  string of a document: the total size as a little endian 32 bit integer, one type byte, the
  NUL-terminated name and the value of every element, and the EOO byte.  The lemmas give the
  little endian numbers as a round trip and the lengths of the encodings.
\<close>

type_synonym byte = "8 word"

section \<open>Little endian numbers\<close>

primrec leBytes :: "nat \<Rightarrow> nat \<Rightarrow> byte list" where
  "leBytes 0 x = []"
| "leBytes (Suc n) x = of_nat (x mod 256) # leBytes n (x div 256)"

primrec leNat :: "byte list \<Rightarrow> nat" where
  "leNat [] = 0"
| "leNat (b # bs) = unat b + 256 * leNat bs"

definition le32 :: "32 word \<Rightarrow> byte list" where
  "le32 w = leBytes 4 (unat w)"

definition le64 :: "64 word \<Rightarrow> byte list" where
  "le64 w = leBytes 8 (unat w)"

definition read32 :: "byte list \<Rightarrow> 32 word option" where
  "read32 bs = (if 4 \<le> length bs then Some (of_nat (leNat (take 4 bs))) else None)"

definition read64 :: "byte list \<Rightarrow> 64 word option" where
  "read64 bs = (if 8 \<le> length bs then Some (of_nat (leNat (take 8 bs))) else None)"

section \<open>Types and documents\<close>

datatype BSONType = MinKey | EOO | NumberDouble | String | Object | Array | BinData | Undefined
  | jstOID | Bool | Date | jstNULL | RegEx | DBRef | Code | Symbol | CodeWScope | NumberInt
  | bsonTimestamp | NumberLong | NumberDecimal | MaxKey

fun typeCode :: "BSONType \<Rightarrow> int" where
  "typeCode MinKey = -1"
| "typeCode EOO = 0"
| "typeCode NumberDouble = 1"
| "typeCode String = 2"
| "typeCode Object = 3"
| "typeCode Array = 4"
| "typeCode BinData = 5"
| "typeCode Undefined = 6"
| "typeCode jstOID = 7"
| "typeCode Bool = 8"
| "typeCode Date = 9"
| "typeCode jstNULL = 10"
| "typeCode RegEx = 11"
| "typeCode DBRef = 12"
| "typeCode Code = 13"
| "typeCode Symbol = 14"
| "typeCode CodeWScope = 15"
| "typeCode NumberInt = 16"
| "typeCode bsonTimestamp = 17"
| "typeCode NumberLong = 18"
| "typeCode NumberDecimal = 19"
| "typeCode MaxKey = 127"

definition allTypes :: "BSONType list" where
  "allTypes = [MinKey, EOO, NumberDouble, String, Object, Array, BinData, Undefined, jstOID, Bool,
    Date, jstNULL, RegEx, DBRef, Code, Symbol, CodeWScope, NumberInt, bsonTimestamp, NumberLong,
    NumberDecimal, MaxKey]"

definition toBSONType :: "int \<Rightarrow> BSONType option" where
  "toBSONType c = find (\<lambda>t. typeCode t = c) allTypes"

datatype BSONVersion = kV1_0 | kV1_1

datatype Value = DoubleValue "64 word" | StringValue "byte list" | ObjectValue Doc
  | ArrayValue Doc | BinDataValue byte "byte list" | UndefinedValue | OIDValue "byte list"
  | BoolValue bool | DateValue "64 word" | NullValue | RegExValue "byte list" "byte list"
  | DBRefValue "byte list" "byte list" | CodeValue "byte list" | SymbolValue "byte list"
  | CodeWScopeValue "byte list" Doc | IntValue "32 word" | TimestampValue "64 word"
  | LongValue "64 word" | DecimalValue "64 word" "64 word" | MinKeyValue | MaxKeyValue
and Doc = EndDoc | Field "byte list" Value Doc

fun valueType :: "Value \<Rightarrow> BSONType" where
  "valueType (DoubleValue w) = NumberDouble"
| "valueType (StringValue s) = String"
| "valueType (ObjectValue d) = Object"
| "valueType (ArrayValue d) = Array"
| "valueType (BinDataValue k bs) = BinData"
| "valueType UndefinedValue = Undefined"
| "valueType (OIDValue bs) = jstOID"
| "valueType (BoolValue b) = Bool"
| "valueType (DateValue w) = Date"
| "valueType NullValue = jstNULL"
| "valueType (RegExValue r f) = RegEx"
| "valueType (DBRefValue n i) = DBRef"
| "valueType (CodeValue s) = Code"
| "valueType (SymbolValue s) = Symbol"
| "valueType (CodeWScopeValue c d) = CodeWScope"
| "valueType (IntValue w) = NumberInt"
| "valueType (TimestampValue w) = bsonTimestamp"
| "valueType (LongValue w) = NumberLong"
| "valueType (DecimalValue l h) = NumberDecimal"
| "valueType MinKeyValue = MinKey"
| "valueType MaxKeyValue = MaxKey"

definition typeByte :: "Value \<Rightarrow> byte" where
  "typeByte v = of_int (typeCode (valueType v))"

section \<open>The byte string of a document\<close>

definition size32 :: "nat \<Rightarrow> 32 word" where
  "size32 n = of_nat n"

definition encodeStr :: "byte list \<Rightarrow> byte list" where
  "encodeStr s = le32 (size32 (length s + 1)) @ s @ [0]"

definition wrapObj :: "byte list \<Rightarrow> byte list" where
  "wrapObj body = le32 (size32 (length body + 5)) @ body @ [0]"

primrec encodeValue :: "Value \<Rightarrow> byte list" and encodeElems :: "Doc \<Rightarrow> byte list" where
  "encodeValue (DoubleValue w) = le64 w"
| "encodeValue (StringValue s) = encodeStr s"
| "encodeValue (ObjectValue d) = wrapObj (encodeElems d)"
| "encodeValue (ArrayValue d) = wrapObj (encodeElems d)"
| "encodeValue (BinDataValue k bs) = le32 (size32 (length bs)) @ [k] @ bs"
| "encodeValue UndefinedValue = []"
| "encodeValue (OIDValue bs) = bs"
| "encodeValue (BoolValue b) = [if b then 1 else 0]"
| "encodeValue (DateValue w) = le64 w"
| "encodeValue NullValue = []"
| "encodeValue (RegExValue r f) = r @ [0] @ f @ [0]"
| "encodeValue (DBRefValue n i) = encodeStr n @ i"
| "encodeValue (CodeValue s) = encodeStr s"
| "encodeValue (SymbolValue s) = encodeStr s"
| "encodeValue (CodeWScopeValue c d) =
    le32 (size32 (4 + 4 + length c + 1 + (length (encodeElems d) + 5))) @ encodeStr c @
      wrapObj (encodeElems d)"
| "encodeValue (IntValue w) = le32 w"
| "encodeValue (TimestampValue w) = le64 w"
| "encodeValue (LongValue w) = le64 w"
| "encodeValue (DecimalValue l h) = le64 l @ le64 h"
| "encodeValue MinKeyValue = []"
| "encodeValue MaxKeyValue = []"
| "encodeElems EndDoc = []"
| "encodeElems (Field n v d) = typeByte v # n @ [0] @ encodeValue v @ encodeElems d"

definition encodeElem :: "byte list \<Rightarrow> Value \<Rightarrow> byte list" where
  "encodeElem n v = typeByte v # n @ [0] @ encodeValue v"

definition encodeObj :: "Doc \<Rightarrow> byte list" where
  "encodeObj d = wrapObj (encodeElems d)"

text \<open>What the format asks of the parts: names, patterns and flags are C strings, object ids have
  twelve bytes, and the decimal type exists from version 1.1 on.\<close>

definition cstring :: "byte list \<Rightarrow> bool" where
  "cstring s \<longleftrightarrow> 0 \<notin> set s"

primrec wfValue :: "BSONVersion \<Rightarrow> Value \<Rightarrow> bool" and wfDoc :: "BSONVersion \<Rightarrow> Doc \<Rightarrow> bool" where
  "wfValue ver (DoubleValue w) = True"
| "wfValue ver (StringValue s) = True"
| "wfValue ver (ObjectValue d) = wfDoc ver d"
| "wfValue ver (ArrayValue d) = wfDoc ver d"
| "wfValue ver (BinDataValue k bs) = True"
| "wfValue ver UndefinedValue = True"
| "wfValue ver (OIDValue bs) = (length bs = 12)"
| "wfValue ver (BoolValue b) = True"
| "wfValue ver (DateValue w) = True"
| "wfValue ver NullValue = True"
| "wfValue ver (RegExValue r f) = (cstring r \<and> cstring f)"
| "wfValue ver (DBRefValue n i) = (length i = 12)"
| "wfValue ver (CodeValue s) = True"
| "wfValue ver (SymbolValue s) = True"
| "wfValue ver (CodeWScopeValue c d) = wfDoc ver d"
| "wfValue ver (IntValue w) = True"
| "wfValue ver (TimestampValue w) = True"
| "wfValue ver (LongValue w) = True"
| "wfValue ver (DecimalValue l h) = (ver \<noteq> kV1_0)"
| "wfValue ver MinKeyValue = True"
| "wfValue ver MaxKeyValue = True"
| "wfDoc ver EndDoc = True"
| "wfDoc ver (Field n v d) = (cstring n \<and> wfValue ver v \<and> wfDoc ver d)"

primrec appendDoc :: "Doc \<Rightarrow> Doc \<Rightarrow> Doc" where
  "appendDoc EndDoc e = e"
| "appendDoc (Field n v d) e = Field n v (appendDoc d e)"

section \<open>Round trips and lengths\<close>

lemma byte_less: "unat (b :: byte) < 256"
  using unsigned_less [of b, where 'a = nat] by simp

lemma word32_less: "unat (w :: 32 word) < 2 ^ 32"
  using unsigned_less [of w, where 'a = nat] by simp

lemma word64_less: "unat (w :: 64 word) < 2 ^ 64"
  using unsigned_less [of w, where 'a = nat] by simp

lemma length_leBytes [simp]: "length (leBytes n x) = n"
  by (induction n arbitrary: x) auto

lemma leNat_leBytes: "leNat (leBytes n x) = x mod 256 ^ n"
proof (induction n arbitrary: x)
  case (Suc n)
  have "unat (of_nat (x mod 256) :: byte) = x mod 256"
    by (simp add: unat_of_nat)
  then show ?case
    using Suc [of "x div 256"] by (simp add: mod_mult2_eq)
qed simp

lemma leNat_less: "leNat bs < 256 ^ length bs"
proof (induction bs)
  case (Cons b bs)
  have "unat b < 256"
    by (rule byte_less)
  with Cons have "unat b + 256 * leNat bs < 256 * 256 ^ length bs"
    by linarith
  then show ?case by simp
qed simp

lemma leBytes_leNat: "leBytes (length bs) (leNat bs) = bs"
proof (induction bs)
  case (Cons b bs)
  have "unat b < 256"
    by (rule byte_less)
  with Cons show ?case by simp
qed simp

lemma length_le32 [simp]: "length (le32 w) = 4"
  by (simp add: le32_def)

lemma le32_not_Nil [simp]: "le32 w \<noteq> []"
  using length_le32 [of w] by force

lemma length_le64 [simp]: "length (le64 w) = 8"
  by (simp add: le64_def)

lemma read32_le32 [simp]: "read32 (le32 w @ bs) = Some w"
proof -
  have "unat w mod 2 ^ 32 = unat w"
    using word32_less [of w] by simp
  then show ?thesis
    by (simp add: read32_def le32_def leNat_leBytes)
qed

lemma read64_le64 [simp]: "read64 (le64 w @ bs) = Some w"
proof -
  have "unat w mod 2 ^ 64 = unat w"
    using word64_less [of w] by simp
  then show ?thesis
    by (simp add: read64_def le64_def leNat_leBytes)
qed

lemma read64_le64_nil [simp]: "read64 (le64 w) = Some w"
  using read64_le64 [of w "[]"] by simp

lemma read32_eq_Some: "read32 bs = Some w \<longleftrightarrow> (\<exists>r. bs = le32 w @ r)"
proof
  assume "read32 bs = Some w"
  then have l: "4 \<le> length bs" and w: "w = of_nat (leNat (take 4 bs))"
    by (simp_all add: read32_def split: if_splits)
  have "leNat (take 4 bs) < 2 ^ 32"
    using leNat_less [of "take 4 bs"] l by simp
  then have "unat w = leNat (take 4 bs)"
    by (simp add: w unat_of_nat)
  then have "le32 w = take 4 bs"
    using leBytes_leNat [of "take 4 bs"] l by (simp add: le32_def)
  then have "bs = le32 w @ drop 4 bs"
    by simp
  then show "\<exists>r. bs = le32 w @ r" ..
qed auto

lemma read64_eq_Some: "read64 bs = Some w \<longleftrightarrow> (\<exists>r. bs = le64 w @ r)"
proof
  assume "read64 bs = Some w"
  then have l: "8 \<le> length bs" and w: "w = of_nat (leNat (take 8 bs))"
    by (simp_all add: read64_def split: if_splits)
  have "leNat (take 8 bs) < 2 ^ 64"
    using leNat_less [of "take 8 bs"] l by simp
  then have "unat w = leNat (take 8 bs)"
    by (simp add: w unat_of_nat)
  then have "le64 w = take 8 bs"
    using leBytes_leNat [of "take 8 bs"] l by (simp add: le64_def)
  then have "bs = le64 w @ drop 8 bs"
    by simp
  then show "\<exists>r. bs = le64 w @ r" ..
qed auto

lemma read32_None: "read32 bs = None \<longleftrightarrow> length bs < 4"
  by (auto simp: read32_def)

lemma sint_size32: "n < 2 ^ 31 \<Longrightarrow> sint (size32 n) = int n"
  by (simp add: size32_def signed_of_nat signed_take_bit_int_eq_self)

lemma unat_size32: "n < 2 ^ 32 \<Longrightarrow> unat (size32 n) = n"
  by (simp add: size32_def unat_of_nat)

lemma length_encodeStr [simp]: "length (encodeStr s) = length s + 5"
  by (simp add: encodeStr_def)

lemma length_wrapObj [simp]: "length (wrapObj b) = length b + 5"
  by (simp add: wrapObj_def)

lemma length_encodeObj [simp]: "length (encodeObj d) = length (encodeElems d) + 5"
  by (simp add: encodeObj_def)

lemma encodeElems_Field: "encodeElems (Field n v d) = encodeElem n v @ encodeElems d"
  by (simp add: encodeElem_def)

lemma encodeElems_append: "encodeElems (appendDoc d e) = encodeElems d @ encodeElems e"
  by (induction d) auto

lemma wfDoc_append [simp]: "wfDoc ver (appendDoc d e) \<longleftrightarrow> wfDoc ver d \<and> wfDoc ver e"
  by (induction d) auto

lemma appendDoc_assoc: "appendDoc (appendDoc d e) f = appendDoc d (appendDoc e f)"
  by (induction d) auto

lemma appendDoc_EndDoc [simp]: "appendDoc d EndDoc = d"
  by (induction d) auto

lemma allTypes_UNIV: "set allTypes = UNIV"
proof -
  have "t \<in> set allTypes" for t
    by (cases t) (simp_all add: allTypes_def)
  then show ?thesis by auto
qed

lemma toBSONType_typeCode [simp]: "toBSONType (typeCode t) = Some t"
  by (cases t) (simp_all add: toBSONType_def allTypes_def)

lemma toBSONType_eq_Some: "toBSONType c = Some t \<longleftrightarrow> c = typeCode t"
  by (auto simp: toBSONType_def find_Some_iff) (metis find_Some_iff toBSONType_def toBSONType_typeCode)

lemma sint_typeByte [simp]: "sint (typeByte v) = typeCode (valueType v)"
  by (cases "valueType v") (simp_all add: typeByte_def)

lemma typeByte_nonzero [simp]: "typeByte v \<noteq> 0"
proof
  assume "typeByte v = 0"
  then have "typeCode (valueType v) = 0"
    using sint_typeByte [of v] by simp
  then show False
    by (cases v) simp_all
qed

lemma valueType_not_EOO [simp]: "valueType v \<noteq> EOO"
  by (cases v) simp_all

end
