(* ===== verification/Bson_Element.thy ===== *)
theory Bson_Element
  imports Bson_Format
begin

text \<open>
  Reading BSON in place: \<^verbatim>\<open>BSONElement\<close> (\<^verbatim>\<open>bson/bsonelement.h\<close>, \<^verbatim>\<open>bson/bsonelement.cpp\<close>) and
  \<^verbatim>\<open>BSONObjIterator\<close> (\<^verbatim>\<open>bson/bsonobj.h\<close>).

  An element is a pointer into a buffer, modelled as the bytes from the pointer to the end of the
  buffer; a read past the end, a failed assertion and an overflow of \<^verbatim>\<open>int\<close> are \<^term>\<open>None\<close>.
  \<open>elemSizeMax\<close> is \<^verbatim>\<open>size(int maxLen)\<close> and \<open>elemSize\<close> the table driven \<^verbatim>\<open>size()\<close>.  The table
  \<^verbatim>\<open>kFixedSizes\<close> is indexed with the signed type before the range of the type is checked, so its
  first argument \<open>oob\<close> is what the memory before the table holds.  \<open>decode\<close> walks a document with
  the iterator and the accessors of every type and rebuilds the tree.  The lemmas show that the two
  sizes agree and that reading the byte string of a document returns the document.
\<close>

definition BSONObjMaxInternalSize :: int where
  "BSONObjMaxInternalSize = 16 * 1024 * 1024 + 16 * 1024"

section \<open>C strings and machine integers\<close>

definition strlen :: "byte list \<Rightarrow> nat option" where
  "strlen bs = (if 0 \<in> set bs then Some (length (takeWhile (\<lambda>b. b \<noteq> 0) bs)) else None)"

definition strnlen :: "byte list \<Rightarrow> nat \<Rightarrow> nat option" where
  "strnlen bs k = (if 0 \<in> set (take k bs) \<or> k \<le> length bs
     then Some (length (takeWhile (\<lambda>b. b \<noteq> 0) (take k bs))) else None)"

definition checkInt :: "int \<Rightarrow> int option" where
  "checkInt x = (if - (2 ^ 31) \<le> x \<and> x < 2 ^ 31 then Some x else None)"

section \<open>The parts of an element\<close>

definition elemType :: "byte list \<Rightarrow> int option" where
  "elemType e = (case e of [] \<Rightarrow> None | b # r \<Rightarrow> Some (sint b))"

definition fieldNameSize :: "byte list \<Rightarrow> int option" where
  "fieldNameSize e = do {
     t \<leftarrow> elemType e;
     if t = typeCode EOO then Some 0 else do { n \<leftarrow> strlen (tl e); Some (int n + 1) }
   }"

definition fieldName :: "byte list \<Rightarrow> byte list option" where
  "fieldName e = do {
     t \<leftarrow> elemType e;
     if t = typeCode EOO then Some [] else do { n \<leftarrow> strlen (tl e); Some (take n (tl e)) }
   }"

definition elemValue :: "byte list \<Rightarrow> byte list option" where
  "elemValue e = do { n \<leftarrow> fieldNameSize e; Some (drop (nat n + 1) e) }"

definition valuestrsize :: "byte list \<Rightarrow> int option" where
  "valuestrsize e = do { v \<leftarrow> elemValue e; w \<leftarrow> read32 v; Some (sint w) }"

definition objsize :: "byte list \<Rightarrow> nat option" where
  "objsize e = do { v \<leftarrow> elemValue e; w \<leftarrow> read32 v; Some (unat w) }"

definition intOfSize :: "nat \<Rightarrow> int" where
  "intOfSize n = sint (size32 n)"

section \<open>The size of an element\<close>

definition kFixedSizes :: "nat list" where
  "kFixedSizes = [0, 8, 0, 0, 0, 0, 0, 12, 1, 8, 0, 0, 0, 0, 0, 0, 4, 8, 8, 16,
    0, 0, 0, 0, 0, 0, 0, 0, 0, 0, 0, 0]"

definition kStringSizeMask :: "32 word" where
  "kStringSizeMask = push_bit 2 1 OR push_bit 13 1 OR push_bit 14 1"

definition kObjectSizeMask :: "32 word" where
  "kObjectSizeMask = push_bit 3 1 OR push_bit 4 1 OR push_bit 15 1"

definition fixedSizeAt :: "(int \<Rightarrow> nat) \<Rightarrow> int \<Rightarrow> nat" where
  "fixedSizeAt oob t = (if 0 \<le> t then kFixedSizes ! nat t else oob t)"

definition elemSize :: "(int \<Rightarrow> nat) \<Rightarrow> byte list \<Rightarrow> int option" where
  "elemSize oob e = do {
     t \<leftarrow> elemType e;
     if t = typeCode EOO then Some 1 else do {
       x \<leftarrow> (if t < 32 \<and> fixedSizeAt oob t \<noteq> 0 then Some (int (fixedSizeAt oob t))
         else if t < 0 \<or> 32 \<le> t then Some 0
         else let typeBit = push_bit (nat t) 1 :: 32 word in
           if typeBit AND kStringSizeMask \<noteq> 0 then do { n \<leftarrow> valuestrsize e; checkInt (n + 4) }
           else if typeBit AND kObjectSizeMask \<noteq> 0 then do { n \<leftarrow> objsize e; Some (intOfSize n) }
           else if t = typeCode BinData then do { n \<leftarrow> valuestrsize e; checkInt (n + 4 + 1) }
           else if t = typeCode DBRef then do { n \<leftarrow> valuestrsize e; checkInt (n + 4 + 12) }
           else if t = typeCode RegEx then do {
             p \<leftarrow> elemValue e;
             len1 \<leftarrow> strlen p;
             len2 \<leftarrow> strlen (drop (len1 + 1) p);
             Some (intOfSize (len1 + 1 + len2 + 1))
           } else Some 0);
       n \<leftarrow> fieldNameSize e;
       checkInt (x + n + 1)
     }
   }"

definition fieldNameSizeMax :: "int \<Rightarrow> byte list \<Rightarrow> int option" where
  "fieldNameSizeMax maxLen e =
     (if maxLen = -1 then fieldNameSize e
      else do {
        n \<leftarrow> strnlen (tl e) (nat (maxLen - 1));
        invariant (int n < maxLen - 1);
        Some (int n + 1)
      })"

definition regexSizeMax :: "int \<Rightarrow> int \<Rightarrow> byte list \<Rightarrow> int option" where
  "regexSizeMax maxLen remain p = do {
     len1 \<leftarrow> (if maxLen = -1 then strlen p else strnlen p (nat remain));
     invariant (maxLen = -1 \<or> int len1 < remain);
     len2 \<leftarrow> (if maxLen = -1 then strlen (drop (len1 + 1) p)
       else do {
         len2 \<leftarrow> strnlen (drop (len1 + 1) p) (nat (remain - int len1 - 1));
         invariant (int len2 < remain - int len1 - 1);
         Some len2
       });
     Some (intOfSize (len1 + 1 + len2 + 1))
   }"

definition elemSizeMax :: "int \<Rightarrow> byte list \<Rightarrow> int option" where
  "elemSizeMax maxLen e = do {
     t \<leftarrow> elemType e;
     if t = typeCode EOO then Some 1 else do {
       n \<leftarrow> fieldNameSizeMax maxLen e;
       let remain = maxLen - n - 1;
       ty \<leftarrow> toBSONType t;
       x \<leftarrow> (case ty of
           EOO \<Rightarrow> Some 0 | Undefined \<Rightarrow> Some 0 | jstNULL \<Rightarrow> Some 0 | MaxKey \<Rightarrow> Some 0 | MinKey \<Rightarrow> Some 0
         | Bool \<Rightarrow> Some 1
         | NumberInt \<Rightarrow> Some 4
         | bsonTimestamp \<Rightarrow> Some 8 | Date \<Rightarrow> Some 8 | NumberDouble \<Rightarrow> Some 8 | NumberLong \<Rightarrow> Some 8
         | NumberDecimal \<Rightarrow> Some 16
         | jstOID \<Rightarrow> Some 12
         | RegEx \<Rightarrow> do { p \<leftarrow> elemValue e; regexSizeMax maxLen remain p }
         | _ \<Rightarrow> do {
             invariant (maxLen = -1 \<or> remain > 3);
             if ty \<in> {Symbol, Code, String} then do { k \<leftarrow> valuestrsize e; checkInt (k + 4) }
             else if ty = DBRef then do { k \<leftarrow> valuestrsize e; checkInt (k + 4 + 12) }
             else if ty = BinData then do { k \<leftarrow> valuestrsize e; checkInt (k + 4 + 1) }
             else do { k \<leftarrow> objsize e; Some (intOfSize k) }
           });
       checkInt (x + n + 1)
     }
   }"

section \<open>Iteration\<close>

record BSONObjIterator =
  it_pos :: int
  it_theend :: int

definition elemAt :: "byte list \<Rightarrow> int \<Rightarrow> byte list option" where
  "elemAt buf p = (if 0 \<le> p \<and> p \<le> int (length buf) then Some (drop (nat p) buf) else None)"

definition openObj :: "byte list \<Rightarrow> int \<Rightarrow> BSONObjIterator option" where
  "openObj buf p = do {
     e \<leftarrow> elemAt buf p;
     w \<leftarrow> read32 e;
     invariant (0 < sint w \<and> sint w \<le> BSONObjMaxInternalSize);
     Some \<lparr> it_pos = p + 4, it_theend = p + sint w - 1 \<rparr>
   }"

definition more :: "BSONObjIterator \<Rightarrow> bool" where
  "more it \<longleftrightarrow> it_pos it < it_theend it"

definition nextElem ::
  "(int \<Rightarrow> nat) \<Rightarrow> byte list \<Rightarrow> BSONObjIterator \<Rightarrow> (byte list \<times> BSONObjIterator) option" where
  "nextElem oob buf it = do {
     invariant (it_pos it \<le> it_theend it);
     e \<leftarrow> elemAt buf (it_pos it);
     sz \<leftarrow> elemSize oob e;
     Some (e, it \<lparr> it_pos := it_pos it + sz \<rparr>)
   }"

definition takeBytes :: "int \<Rightarrow> byte list \<Rightarrow> byte list option" where
  "takeBytes n bs = (if 0 \<le> n \<and> n \<le> int (length bs) then Some (take (nat n) bs) else None)"

definition readStr :: "byte list \<Rightarrow> byte list option" where
  "readStr v = do { w \<leftarrow> read32 v; takeBytes (sint w - 1) (drop 4 v) }"

definition plainValue :: "BSONType \<Rightarrow> byte list \<Rightarrow> Value option" where
  "plainValue ty v = (case ty of
       NumberDouble \<Rightarrow> map_option DoubleValue (read64 v)
     | String \<Rightarrow> map_option StringValue (readStr v)
     | BinData \<Rightarrow> do {
         w \<leftarrow> read32 v;
         k \<leftarrow> takeBytes 1 (drop 4 v);
         bs \<leftarrow> takeBytes (sint w) (drop 5 v);
         Some (BinDataValue (hd k) bs)
       }
     | Undefined \<Rightarrow> Some UndefinedValue
     | jstOID \<Rightarrow> map_option OIDValue (takeBytes 12 v)
     | Bool \<Rightarrow> map_option (\<lambda>b. BoolValue (hd b \<noteq> 0)) (takeBytes 1 v)
     | Date \<Rightarrow> map_option DateValue (read64 v)
     | jstNULL \<Rightarrow> Some NullValue
     | RegEx \<Rightarrow> do {
         r \<leftarrow> strlen v;
         f \<leftarrow> strlen (drop (r + 1) v);
         Some (RegExValue (take r v) (take f (drop (r + 1) v)))
       }
     | DBRef \<Rightarrow> do {
         w \<leftarrow> read32 v;
         n \<leftarrow> readStr v;
         i \<leftarrow> takeBytes 12 (drop (nat (4 + sint w)) v);
         Some (DBRefValue n i)
       }
     | Code \<Rightarrow> map_option CodeValue (readStr v)
     | Symbol \<Rightarrow> map_option SymbolValue (readStr v)
     | NumberInt \<Rightarrow> map_option IntValue (read32 v)
     | bsonTimestamp \<Rightarrow> map_option TimestampValue (read64 v)
     | NumberLong \<Rightarrow> map_option LongValue (read64 v)
     | NumberDecimal \<Rightarrow> do { l \<leftarrow> read64 v; h \<leftarrow> read64 (drop 8 v); Some (DecimalValue l h) }
     | MinKey \<Rightarrow> Some MinKeyValue
     | MaxKey \<Rightarrow> Some MaxKeyValue
     | _ \<Rightarrow> None)"

partial_function (option) decode ::
  "(int \<Rightarrow> nat) \<Rightarrow> byte list \<Rightarrow> BSONObjIterator \<Rightarrow> Doc option" where
  "decode oob buf it = (if \<not> more it then Some EndDoc else do {
     (e, it') \<leftarrow> nextElem oob buf it;
     t \<leftarrow> elemType e;
     ty \<leftarrow> toBSONType t;
     n \<leftarrow> fieldName e;
     v \<leftarrow> elemValue e;
     let p = it_pos it + 1 + int (length n) + 1;
     x \<leftarrow> (if ty = Object \<or> ty = Array then do {
           sub \<leftarrow> openObj buf p;
           d \<leftarrow> decode oob buf sub;
           Some (if ty = Object then ObjectValue d else ArrayValue d)
         } else if ty = CodeWScope then do {
           code \<leftarrow> readStr (drop 4 v);
           w \<leftarrow> read32 (drop 4 v);
           sub \<leftarrow> openObj buf (p + 4 + 4 + sint w);
           d \<leftarrow> decode oob buf sub;
           Some (CodeWScopeValue code d)
         } else plainValue ty v);
     rest \<leftarrow> decode oob buf it';
     Some (Field n x rest)
   })"

definition decodeObj :: "(int \<Rightarrow> nat) \<Rightarrow> byte list \<Rightarrow> Doc option" where
  "decodeObj oob buf = do { it \<leftarrow> openObj buf 0; decode oob buf it }"

text \<open>The reader depends on the byte before the table only through elements of type MinKey.\<close>

primrec tableSafe :: "(int \<Rightarrow> nat) \<Rightarrow> Value \<Rightarrow> bool" and tableSafeDoc :: "(int \<Rightarrow> nat) \<Rightarrow> Doc \<Rightarrow> bool" where
  "tableSafe oob (DoubleValue w) = True"
| "tableSafe oob (StringValue s) = True"
| "tableSafe oob (ObjectValue d) = tableSafeDoc oob d"
| "tableSafe oob (ArrayValue d) = tableSafeDoc oob d"
| "tableSafe oob (BinDataValue k bs) = True"
| "tableSafe oob UndefinedValue = True"
| "tableSafe oob (OIDValue bs) = True"
| "tableSafe oob (BoolValue b) = True"
| "tableSafe oob (DateValue w) = True"
| "tableSafe oob NullValue = True"
| "tableSafe oob (RegExValue r f) = True"
| "tableSafe oob (DBRefValue n i) = True"
| "tableSafe oob (CodeValue s) = True"
| "tableSafe oob (SymbolValue s) = True"
| "tableSafe oob (CodeWScopeValue c d) = tableSafeDoc oob d"
| "tableSafe oob (IntValue w) = True"
| "tableSafe oob (TimestampValue w) = True"
| "tableSafe oob (LongValue w) = True"
| "tableSafe oob (DecimalValue l h) = True"
| "tableSafe oob MinKeyValue = (oob (-1) = 0)"
| "tableSafe oob MaxKeyValue = True"
| "tableSafeDoc oob EndDoc = True"
| "tableSafeDoc oob (Field n v d) = (tableSafe oob v \<and> tableSafeDoc oob d)"

section \<open>Sizes of encoded elements\<close>

named_theorems elem_simps \<open>the parts of an encoded element\<close>

lemma takeWhile_cstring: "cstring s \<Longrightarrow> takeWhile (\<lambda>b. b \<noteq> 0) (s @ 0 # r) = s"
  by (auto simp: cstring_def takeWhile_append)

lemma strlen_cstring [elem_simps]: "cstring s \<Longrightarrow> strlen (s @ 0 # r) = Some (length s)"
  by (simp add: strlen_def takeWhile_cstring)

lemma elemType_Cons [elem_simps]: "elemType (b # r) = Some (sint b)"
  by (simp add: elemType_def)

lemma typeCode_EOO_iff [simp]: "typeCode t = 0 \<longleftrightarrow> t = EOO"
  by (cases t) simp_all

lemma fieldNameSize_elem [elem_simps]:
  "cstring n \<Longrightarrow> fieldNameSize (typeByte v # n @ 0 # r) = Some (int (length n) + 1)"
  by (simp add: fieldNameSize_def elem_simps)

lemma fieldName_elem [elem_simps]: "cstring n \<Longrightarrow> fieldName (typeByte v # n @ 0 # r) = Some n"
  by (simp add: fieldName_def elem_simps)

lemma elemValue_elem [elem_simps]: "cstring n \<Longrightarrow> elemValue (typeByte v # n @ 0 # r) = Some r"
  by (simp add: elemValue_def elem_simps nat_add_distrib)

lemma intOfSize_small: "n < 2 ^ 31 \<Longrightarrow> intOfSize n = int n"
  by (simp add: intOfSize_def sint_size32)

lemma checkInt_small: "x < 2 ^ 31 \<Longrightarrow> checkInt (int x) = Some (int x)"
  by (simp add: checkInt_def)

lemma read32_encodeStr [elem_simps]:
  "read32 (encodeStr s @ r) = Some (size32 (length s + 1))"
  by (simp add: encodeStr_def)

lemma read32_wrapObj [elem_simps]:
  "read32 (wrapObj b @ r) = Some (size32 (length b + 5))"
  by (simp add: wrapObj_def)

lemma elemSize_encode:
  assumes "cstring n" "wfValue ver v" "tableSafe oob v"
    and "length (encodeElem n v) < 2 ^ 31"
  shows "elemSize oob (encodeElem n v @ r) = Some (int (length (encodeElem n v)))"
proof -
  note s = elemSize_def encodeElem_def elem_simps fixedSizeAt_def kFixedSizes_def kStringSizeMask_def
    kObjectSizeMask_def Let_def valuestrsize_def objsize_def sint_size32 unat_size32 intOfSize_small checkInt_def
  show ?thesis
    using assms by (cases v) (simp_all add: s)
qed

section \<open>Reading back an encoded document\<close>

definition nested :: "Value \<Rightarrow> bool" where
  "nested v \<longleftrightarrow> valueType v \<in> {Object, Array, CodeWScope}"

lemma readStr_encodeStr [elem_simps]:
  "length s + 1 < 2 ^ 31 \<Longrightarrow> readStr (encodeStr s @ r) = Some s"
  by (simp add: readStr_def encodeStr_def sint_size32 takeBytes_def)

lemma plainValue_encode:
  assumes "\<not> nested v" "wfValue ver v" "length (encodeValue v) < 2 ^ 31"
  shows "plainValue (valueType v) (encodeValue v @ r) = Some v"
proof (cases v)
  case (DBRefValue n i)
  then show ?thesis
    using assms by (simp add: plainValue_def elem_simps sint_size32 takeBytes_def nat_add_distrib)
next
  case (RegExValue a b)
  then show ?thesis
    using assms by (simp add: plainValue_def elem_simps)
next
  case (DecimalValue l h)
  then show ?thesis
    using assms by (simp add: plainValue_def)
qed (use assms in \<open>simp_all add: plainValue_def nested_def elem_simps takeBytes_def sint_size32\<close>)

lemma openObj_wrapObj:
  assumes "int (length b) + 5 \<le> BSONObjMaxInternalSize" and "buf = pre @ wrapObj b @ r"
    and "p = int (length pre)"
  shows "openObj buf p = Some \<lparr> it_pos = p + 4, it_theend = p + 4 + int (length b) \<rparr>"
  using assms
  by (simp add: openObj_def elemAt_def elem_simps sint_size32 BSONObjMaxInternalSize_def fail_simps)

lemma nextElem_encode:
  assumes "cstring n" "wfValue ver v" "tableSafe oob v"
    and "length (encodeElem n v) < 2 ^ 31" and "buf = pre @ encodeElem n v @ r"
    and "it_pos it = int (length pre)" and "it_pos it \<le> it_theend it"
  shows "nextElem oob buf it = Some (encodeElem n v @ r,
      it \<lparr> it_pos := int (length pre) + int (length (encodeElem n v)) \<rparr>)"
  using assms elemSize_encode [OF assms(1-4), of r]
  by (simp add: nextElem_def elemAt_def)

definition valueAt :: "(int \<Rightarrow> nat) \<Rightarrow> byte list \<Rightarrow> int \<Rightarrow> BSONType \<Rightarrow> byte list \<Rightarrow> Value option" where
  "valueAt oob buf p ty v =
     (if ty = Object \<or> ty = Array then do {
        sub \<leftarrow> openObj buf p;
        d \<leftarrow> decode oob buf sub;
        Some (if ty = Object then ObjectValue d else ArrayValue d)
      } else if ty = CodeWScope then do {
        code \<leftarrow> readStr (drop 4 v);
        w \<leftarrow> read32 (drop 4 v);
        sub \<leftarrow> openObj buf (p + 4 + 4 + sint w);
        d \<leftarrow> decode oob buf sub;
        Some (CodeWScopeValue code d)
      } else plainValue ty v)"

lemma decode_unfold:
  "decode oob buf it = (if \<not> more it then Some EndDoc else do {
     (e, it') \<leftarrow> nextElem oob buf it;
     t \<leftarrow> elemType e;
     ty \<leftarrow> toBSONType t;
     n \<leftarrow> fieldName e;
     v \<leftarrow> elemValue e;
     x \<leftarrow> valueAt oob buf (it_pos it + 1 + int (length n) + 1) ty v;
     rest \<leftarrow> decode oob buf it';
     Some (Field n x rest)
   })"
  by (subst decode.simps) (simp only: valueAt_def Let_def)

lemma decode_more:
  assumes n: "cstring n" and v: "wfValue ver v" "tableSafe oob v"
    and len: "length (encodeElem n v) < 2 ^ 31" and buf: "buf = pre @ encodeElem n v @ r"
    and it: "it_pos it = int (length pre)" "more it"
    and x: "valueAt oob buf (int (length (pre @ typeByte v # n @ [0]))) (valueType v)
      (encodeValue v @ r) = Some v"
    and rest: "decode oob buf (it \<lparr> it_pos := int (length pre) + int (length (encodeElem n v)) \<rparr>) = Some d"
  shows "decode oob buf it = Some (Field n v d)"
proof -
  have nx: "nextElem oob buf it = Some (encodeElem n v @ r,
      it \<lparr> it_pos := int (length pre) + int (length (encodeElem n v)) \<rparr>)"
    using it by (intro nextElem_encode [OF n v len buf it(1)]) (simp add: more_def)
  have e: "elemType (encodeElem n v @ r) = Some (typeCode (valueType v))"
    "fieldName (encodeElem n v @ r) = Some n" "elemValue (encodeElem n v @ r) = Some (encodeValue v @ r)"
    using n by (simp_all add: encodeElem_def elem_simps)
  have p: "int (length pre) + 1 + int (length n) + 1 = int (length (pre @ typeByte v # n @ [0]))"
    by simp
  show ?thesis
    by (subst decode_unfold) (simp only: nx e p x rest it toBSONType_typeCode bind.bind_lunit
      not_True_eq_False if_False prod.case)
qed

fun subDoc :: "Value \<Rightarrow> Doc option" where
  "subDoc (ObjectValue d) = Some d"
| "subDoc (ArrayValue d) = Some d"
| "subDoc (CodeWScopeValue c d) = Some d"
| "subDoc v = None"

lemma subDoc_props:
  assumes "subDoc v = Some d"
  shows "wfValue ver v \<Longrightarrow> wfDoc ver d" and "tableSafe oob v \<Longrightarrow> tableSafeDoc oob d"
    and "size d < size (Field n v e)" and "length (encodeElems d) + 5 \<le> length (encodeValue v)"
  using assms by (cases v; simp)+

lemma valueAt_encode:
  assumes v: "wfValue ver v" and len: "length (encodeValue v) < 2 ^ 31"
    and buf: "buf = pre @ encodeValue v @ post"
    and sub: "\<And>d p q. subDoc v = Some d \<Longrightarrow> buf = p @ wrapObj (encodeElems d) @ q \<Longrightarrow>
      \<exists>s. openObj buf (int (length p)) = Some s \<and> decode oob buf s = Some d"
  shows "valueAt oob buf (int (length pre)) (valueType v) (encodeValue v @ post) = Some v"
proof (cases "nested v")
  case False
  from plainValue_encode [OF False v len] False show ?thesis
    by (simp add: valueAt_def nested_def)
next
  case True
  then consider d where "v = ObjectValue d" | d where "v = ArrayValue d"
    | c d where "v = CodeWScopeValue c d"
    by (cases v) (auto simp: nested_def)
  then show ?thesis
  proof cases
    case (1 d)
    with sub [of d pre post] buf show ?thesis
      by (auto simp: valueAt_def)
  next
    case (2 d)
    with sub [of d pre post] buf show ?thesis
      by (auto simp: valueAt_def)
  next
    case (3 c d)
    let ?k = "le32 (size32 (4 + 4 + length c + 1 + (length (encodeElems d) + 5)))"
    have lc: "length c + 1 < 2 ^ 31"
      using len 3 by simp
    have "buf = (pre @ ?k @ encodeStr c) @ wrapObj (encodeElems d) @ post"
      using buf 3 by simp
    from sub [OF _ this] 3 lc show ?thesis
      by (auto simp: valueAt_def elem_simps sint_size32 algebra_simps)
  qed
qed

lemma decode_encode:
  assumes "wfDoc ver d" "tableSafeDoc oob d"
    and "int (length (encodeElems d)) + 5 \<le> BSONObjMaxInternalSize"
    and "buf = pre @ encodeElems d @ 0 # post"
    and "it = \<lparr> it_pos = int (length pre), it_theend = int (length pre) + int (length (encodeElems d)) \<rparr>"
  shows "decode oob buf it = Some d"
  using assms
proof (induction d arbitrary: pre post it rule: measure_induct_rule [of size])
  case (less d)
  show ?case
  proof (cases d)
    case EndDoc
    then show ?thesis
      using less.prems by (subst decode.simps) (simp add: more_def)
  next
    case (Field n v d')
    let ?e = "encodeElem n v" and ?q = "encodeElems d' @ 0 # post"
    have wf: "cstring n" "wfValue ver v" "wfDoc ver d'" "tableSafe oob v" "tableSafeDoc oob d'"
      using less.prems Field by simp_all
    have len: "int (length ?e) + int (length (encodeElems d')) + 5 \<le> BSONObjMaxInternalSize"
      using less.prems(3) Field by (simp add: encodeElem_def)
    have buf: "buf = pre @ ?e @ ?q"
      using less.prems(4) Field by (simp add: encodeElem_def)
    have rest: "decode oob buf (it \<lparr> it_pos := int (length pre) + int (length ?e) \<rparr>) = Some d'"
      using less.prems(5) Field wf len buf
      by (intro less.IH [of d' "pre @ ?e" post]) (simp_all add: encodeElem_def)
    have sub: "\<exists>s. openObj buf (int (length p)) = Some s \<and> decode oob buf s = Some c"
      if c: "subDoc v = Some c" and b: "buf = p @ wrapObj (encodeElems c) @ q" for c p q
    proof -
      let ?p = "p @ le32 (size32 (length (encodeElems c) + 5))"
      have l: "int (length (encodeElems c)) + 5 \<le> BSONObjMaxInternalSize"
        using subDoc_props(4) [OF c] len by (simp add: encodeElem_def)
      have b': "buf = ?p @ encodeElems c @ 0 # q"
        using b by (simp add: wrapObj_def)
      have "size c < size d"
        using subDoc_props(3) [OF c] Field by simp
      from less.IH [OF this subDoc_props(1) [OF c wf(2)] subDoc_props(2) [OF c wf(4)] l b' refl]
      show ?thesis
        by (simp add: openObj_wrapObj [OF l b refl])
    qed
    have l: "length ?e < 2 ^ 31" "length (encodeValue v) < 2 ^ 31"
      using len by (simp_all add: encodeElem_def BSONObjMaxInternalSize_def)
    have m: "it_pos it = int (length pre)" "more it"
      using less.prems(5) Field by (simp_all add: more_def)
    have b: "buf = (pre @ typeByte v # n @ [0]) @ encodeValue v @ ?q"
      using buf by (simp add: encodeElem_def)
    show ?thesis
      unfolding Field
      by (rule decode_more [OF wf(1,2,4) l(1) buf m valueAt_encode [OF wf(2) l(2) b sub] rest])
  qed
qed

lemma decodeObj_encode:
  assumes "wfDoc ver d" "tableSafeDoc oob d" "int (length (encodeObj d)) \<le> BSONObjMaxInternalSize"
  shows "decodeObj oob (encodeObj d @ post) = Some d"
proof -
  let ?b = "encodeElems d"
  have l: "int (length ?b) + 5 \<le> BSONObjMaxInternalSize"
    using assms(3) by simp
  have "openObj (encodeObj d @ post) 0 = Some \<lparr> it_pos = 0 + 4, it_theend = 0 + 4 + int (length ?b) \<rparr>"
    by (rule openObj_wrapObj [OF l, of _ "[]" post]) (simp_all add: encodeObj_def)
  moreover have "decode oob (encodeObj d @ post) \<lparr> it_pos = 4, it_theend = 4 + int (length ?b) \<rparr> = Some d"
    by (rule decode_encode [OF assms(1,2) l, of _ "le32 (size32 (length ?b + 5))" post])
      (simp_all add: encodeObj_def wrapObj_def)
  ultimately show ?thesis
    by (simp add: decodeObj_def)
qed

lemma tableSafe_zero: "oob (-1) = 0 \<Longrightarrow> tableSafe oob v" and tableSafeDoc_zero: "oob (-1) = 0 \<Longrightarrow> tableSafeDoc oob d"
  by (induction v and d) simp_all

section \<open>The two sizes\<close>

lemma strnlen_strlen:
  assumes "strnlen bs k = Some m" "m < k"
  shows "strlen bs = Some m"
proof -
  have z: "0 \<in> set (take k bs)"
  proof (rule ccontr)
    assume n: "0 \<notin> set (take k bs)"
    then have t: "takeWhile (\<lambda>b. b \<noteq> 0) (take k bs) = take k bs"
      by (auto simp: takeWhile_eq_all_conv)
    from assms n show False
      by (simp add: strnlen_def t split: if_splits)
  qed
  then have "takeWhile (\<lambda>b. b \<noteq> 0) (take k bs) = takeWhile (\<lambda>b. b \<noteq> 0) bs"
    using takeWhile_append1 [of 0 "take k bs" "\<lambda>b. b \<noteq> 0" "drop k bs"] by simp
  with assms z show ?thesis
    using set_take_subset [of k bs] by (auto simp: strnlen_def strlen_def split: if_splits)
qed

lemma fieldNameSizeMax_Some:
  assumes "fieldNameSizeMax maxLen e = Some n" "elemType e = Some t" "t \<noteq> 0"
  shows "fieldNameSize e = Some n"
  using assms
  by (auto simp: fieldNameSizeMax_def fieldNameSize_def bind_eq_Some_conv split: if_splits
      dest!: strnlen_strlen)

lemma regexSizeMax_Some:
  assumes "regexSizeMax maxLen remain p = Some x"
  shows "regexSizeMax (-1) k p = Some x"
  using assms
  by (auto simp: regexSizeMax_def bind_eq_Some_conv split: if_splits dest!: strnlen_strlen)

lemma elemSize_unlimited:
  assumes t: "elemType e = Some t" "toBSONType t = Some ty" and m: "ty = MinKey \<longrightarrow> oob (-1) = 0"
  shows "elemSize oob e = elemSizeMax (-1) e"
proof -
  have c: "t = typeCode ty"
    using t(2) by (simp add: toBSONType_eq_Some)
  show ?thesis
  proof (cases "fieldNameSize e")
    case None
    with t c m show ?thesis
      by (cases ty) (simp_all add: elemSize_def elemSizeMax_def fieldNameSizeMax_def fixedSizeAt_def
        kFixedSizes_def valuestrsize_def objsize_def elemValue_def Let_def)
  next
    case (Some n)
    with t c m show ?thesis
      by (cases ty) (simp_all add: elemSize_def elemSizeMax_def fieldNameSizeMax_def fixedSizeAt_def
        kFixedSizes_def kStringSizeMask_def kObjectSizeMask_def Let_def regexSizeMax_def fail_simps)
  qed
qed

lemma elemSizeMax_unlimited:
  assumes s: "elemSizeMax maxLen e = Some s"
  shows "elemSizeMax (-1) e = Some s"
proof -
  obtain t where t: "elemType e = Some t"
    using s by (auto simp: elemSizeMax_def bind_eq_Some_conv)
  show ?thesis
  proof (cases "t = 0")
    case False
    with s t obtain n ty where n: "fieldNameSizeMax maxLen e = Some n" and ty: "toBSONType t = Some ty"
      by (auto simp: elemSizeMax_def bind_eq_Some_conv Let_def)
    have "fieldNameSize e = Some n"
      by (rule fieldNameSizeMax_Some [OF n t False])
    then have n': "fieldNameSizeMax (-1) e = Some n"
      by (simp add: fieldNameSizeMax_def)
    show ?thesis
    proof (cases "ty = RegEx")
      case True
      with s t False n ty obtain p x where "elemValue e = Some p" "checkInt (x + n + 1) = Some s"
        and "regexSizeMax maxLen (maxLen - n - 1) p = Some x"
        by (auto simp: elemSizeMax_def bind_eq_Some_conv Let_def)
      with t False ty n' True regexSizeMax_Some show ?thesis
        by (simp add: elemSizeMax_def Let_def)
    next
      case nr: False
      from s t False n ty n' nr show ?thesis
        by (cases ty) (simp_all add: elemSizeMax_def Let_def fail_simps split: if_splits)
    qed
  qed (use s t in \<open>simp add: elemSizeMax_def\<close>)
qed

text \<open>What goes wrong otherwise: the size of a MinKey element includes the byte that happens to
  lie before the table.\<close>

lemma minKey_size_reads_before_table:
  assumes "cstring n" "length n < 2 ^ 30" "oob (-1) < 256"
  shows "elemSize oob (encodeElem n MinKeyValue @ r) =
    Some (int (length (encodeElem n MinKeyValue)) + int (oob (-1)))"
  using assms by (simp add: elemSize_def encodeElem_def elem_simps fixedSizeAt_def checkInt_def)

section \<open>Properties\<close>





end
