(* ===== verification/Bson_Builder.thy ===== *)
theory Bson_Builder
  imports Bson_Element
begin

text \<open>
  Writing BSON: \<^verbatim>\<open>BufBuilder\<close> (\<^verbatim>\<open>bson/util/builder.h\<close>) and \<^verbatim>\<open>BSONObjBuilder\<close>
  (\<^verbatim>\<open>bson/bsonobjbuilder.h\<close>).

  A \<open>BufBuilder\<close> has the bytes written so far, the capacity of its buffer and the bytes reserved for
  end-of-object markers.  \<open>growReallocate\<close> is the slow path of \<^verbatim>\<open>grow\<close>, with the next power of two
  computed from the leading zeros of a 64 bit word and cast to \<^verbatim>\<open>int\<close>; a buffer past the limit, and
  a negative capacity, whose allocation fails and ends the process, are \<^term>\<open>None\<close>.  A
  \<open>BSONObjBuilder\<close> is the offset of its object in a buffer that nested builders share, so its
  operations take the buffer and the offset.  \<open>junk\<close> is the content of the bytes that
  \<^verbatim>\<open>skip\<close> leaves uninitialised.

  The lemmas show that the computed capacity is what repeated doubling gives, and that building a
  document writes its byte string.
\<close>

section \<open>The growing buffer\<close>

definition BufferMaxSize :: int where
  "BufferMaxSize = 64 * 1024 * 1024"

record BufBuilder =
  bb_data :: "byte list"
  bb_size :: int
  bb_reservedBytes :: int

definition countLeadingZeros64 :: "64 word \<Rightarrow> nat" where
  "countLeadingZeros64 num =
     (if num = 0 then 64 else length (takeWhile (\<lambda>i. \<not> bit num i) (rev [0..<64])))"

definition growTarget :: "int \<Rightarrow> int" where
  "growTarget minSize =
     (if minSize \<le> 64 then 64
      else let v = word_of_int (minSize - 1) :: 64 word in
        sint (ucast (push_bit (64 - countLeadingZeros64 v) 1 :: 64 word) :: 32 word))"

definition growReallocate :: "int \<Rightarrow> BufBuilder \<Rightarrow> BufBuilder option" where
  "growReallocate minSize bb = (let a = growTarget minSize in do {
     invariant (a \<le> BufferMaxSize);
     invariant (0 \<le> a);
     Some (bb \<lparr> bb_size := a \<rparr>)
   })"

definition bbLen :: "BufBuilder \<Rightarrow> int" where
  "bbLen bb = int (length (bb_data bb))"

definition grow :: "byte list \<Rightarrow> BufBuilder \<Rightarrow> BufBuilder option" where
  "grow bs bb = do {
     newLen \<leftarrow> checkInt (bbLen bb + int (length bs));
     minSize \<leftarrow> checkInt (newLen + bb_reservedBytes bb);
     bb' \<leftarrow> (if minSize > bb_size bb then growReallocate minSize bb else Some bb);
     Some (bb' \<lparr> bb_data := bb_data bb' @ bs \<rparr>)
   }"

definition appendBuf :: "byte list \<Rightarrow> BufBuilder \<Rightarrow> BufBuilder option" where
  "appendBuf bs bb = (if bs = [] then Some bb else grow bs bb)"

definition appendStr :: "byte list \<Rightarrow> BufBuilder \<Rightarrow> BufBuilder option" where
  "appendStr s bb = grow (s @ [0]) bb"

definition reserveBytes :: "int \<Rightarrow> BufBuilder \<Rightarrow> BufBuilder option" where
  "reserveBytes n bb = do {
     minSize \<leftarrow> checkInt (bbLen bb + bb_reservedBytes bb + n);
     bb' \<leftarrow> (if minSize > bb_size bb then growReallocate minSize bb else Some bb);
     Some (bb' \<lparr> bb_reservedBytes := bb_reservedBytes bb' + n \<rparr>)
   }"

definition claimReservedBytes :: "int \<Rightarrow> BufBuilder \<Rightarrow> BufBuilder option" where
  "claimReservedBytes n bb = do {
     invariant (bb_reservedBytes bb \<ge> n);
     Some (bb \<lparr> bb_reservedBytes := bb_reservedBytes bb - n \<rparr>)
   }"

section \<open>The document builder\<close>

definition startBuilder :: "byte \<Rightarrow> BufBuilder \<Rightarrow> BufBuilder option" where
  "startBuilder junk bb = do {
     bb1 \<leftarrow> grow (replicate 4 junk) bb;
     reserveBytes 1 bb1
   }"

definition writeAt :: "nat \<Rightarrow> byte list \<Rightarrow> byte list \<Rightarrow> byte list" where
  "writeAt p bs data = take p data @ bs @ drop (p + length bs) data"

definition doneBuilder :: "nat \<Rightarrow> BufBuilder \<Rightarrow> BufBuilder option" where
  "doneBuilder offset bb = do {
     bb1 \<leftarrow> claimReservedBytes 1 bb;
     bb2 \<leftarrow> grow [of_int (typeCode EOO)] bb1;
     Some (bb2 \<lparr> bb_data := writeAt offset (le32 (size32 (length (bb_data bb2) - offset))) (bb_data bb2) \<rparr>)
   }"

definition elemHeader :: "BSONType \<Rightarrow> byte list \<Rightarrow> BufBuilder \<Rightarrow> BufBuilder option" where
  "elemHeader ty name bb = do { bb1 \<leftarrow> grow [of_int (typeCode ty)] bb; appendStr name bb1 }"

definition appendSized :: "BSONType \<Rightarrow> byte list \<Rightarrow> byte list \<Rightarrow> BufBuilder \<Rightarrow> BufBuilder option" where
  "appendSized ty name s bb = do {
     bb1 \<leftarrow> elemHeader ty name bb;
     bb2 \<leftarrow> grow (le32 (size32 (length s + 1))) bb1;
     appendStr s bb2
   }"

definition appendFixed :: "BSONType \<Rightarrow> byte list \<Rightarrow> byte list \<Rightarrow> BufBuilder \<Rightarrow> BufBuilder option" where
  "appendFixed ty name bs bb = do { bb1 \<leftarrow> elemHeader ty name bb; grow bs bb1 }"

definition appendRegex :: "byte list \<Rightarrow> byte list \<Rightarrow> byte list \<Rightarrow> BufBuilder \<Rightarrow> BufBuilder option" where
  "appendRegex name r f bb = do {
     bb1 \<leftarrow> elemHeader RegEx name bb;
     bb2 \<leftarrow> appendStr r bb1;
     appendStr f bb2
   }"

definition appendBinData :: "byte list \<Rightarrow> byte \<Rightarrow> byte list \<Rightarrow> BufBuilder \<Rightarrow> BufBuilder option" where
  "appendBinData name k bs bb = do {
     bb1 \<leftarrow> elemHeader BinData name bb;
     bb2 \<leftarrow> grow (le32 (size32 (length bs))) bb1;
     bb3 \<leftarrow> grow [k] bb2;
     appendBuf bs bb3
   }"

definition appendDBRef :: "byte list \<Rightarrow> byte list \<Rightarrow> byte list \<Rightarrow> BufBuilder \<Rightarrow> BufBuilder option" where
  "appendDBRef name ns oid bb = do { bb1 \<leftarrow> appendSized DBRef name ns bb; appendBuf oid bb1 }"

definition appendCodeWScope :: "byte list \<Rightarrow> byte list \<Rightarrow> byte list \<Rightarrow> BufBuilder \<Rightarrow> BufBuilder option" where
  "appendCodeWScope name code scope bb = do {
     bb1 \<leftarrow> elemHeader CodeWScope name bb;
     bb2 \<leftarrow> grow (le32 (size32 (4 + 4 + length code + 1 + length scope))) bb1;
     bb3 \<leftarrow> grow (le32 (size32 (length code + 1))) bb2;
     bb4 \<leftarrow> appendStr code bb3;
     appendBuf scope bb4
   }"

definition appendNumDecimal :: "byte list \<Rightarrow> 64 word \<Rightarrow> 64 word \<Rightarrow> BufBuilder \<Rightarrow> BufBuilder option" where
  "appendNumDecimal name l h bb = do {
     bb1 \<leftarrow> elemHeader NumberDecimal name bb;
     bb2 \<leftarrow> grow (le64 l) bb1;
     grow (le64 h) bb2
   }"

text \<open>Building a document element by element, nested objects and arrays with a builder of their own
  on the same buffer.\<close>

primrec appendValue :: "byte \<Rightarrow> byte list \<Rightarrow> Value \<Rightarrow> BufBuilder \<Rightarrow> BufBuilder option"
  and buildElems :: "byte \<Rightarrow> Doc \<Rightarrow> BufBuilder \<Rightarrow> BufBuilder option" where
  "appendValue junk n (DoubleValue w) bb = appendFixed NumberDouble n (le64 w) bb"
| "appendValue junk n (StringValue s) bb = appendSized String n s bb"
| "appendValue junk n (ObjectValue d) bb = do {
     bb1 \<leftarrow> elemHeader Object n bb;
     bb2 \<leftarrow> startBuilder junk bb1;
     bb3 \<leftarrow> buildElems junk d bb2;
     doneBuilder (length (bb_data bb1)) bb3 }"
| "appendValue junk n (ArrayValue d) bb = do {
     bb1 \<leftarrow> elemHeader Array n bb;
     bb2 \<leftarrow> startBuilder junk bb1;
     bb3 \<leftarrow> buildElems junk d bb2;
     doneBuilder (length (bb_data bb1)) bb3 }"
| "appendValue junk n (BinDataValue k bs) bb = appendBinData n k bs bb"
| "appendValue junk n UndefinedValue bb = elemHeader Undefined n bb"
| "appendValue junk n (OIDValue bs) bb = do { bb1 \<leftarrow> elemHeader jstOID n bb; appendBuf bs bb1 }"
| "appendValue junk n (BoolValue b) bb = appendFixed Bool n [if b then 1 else 0] bb"
| "appendValue junk n (DateValue w) bb = appendFixed Date n (le64 w) bb"
| "appendValue junk n NullValue bb = elemHeader jstNULL n bb"
| "appendValue junk n (RegExValue r f) bb = appendRegex n r f bb"
| "appendValue junk n (DBRefValue ns i) bb = appendDBRef n ns i bb"
| "appendValue junk n (CodeValue s) bb = appendSized Code n s bb"
| "appendValue junk n (SymbolValue s) bb = appendSized Symbol n s bb"
| "appendValue junk n (CodeWScopeValue c d) bb = appendCodeWScope n c (encodeObj d) bb"
| "appendValue junk n (IntValue w) bb = appendFixed NumberInt n (le32 w) bb"
| "appendValue junk n (TimestampValue w) bb = appendFixed bsonTimestamp n (le64 w) bb"
| "appendValue junk n (LongValue w) bb = appendFixed NumberLong n (le64 w) bb"
| "appendValue junk n (DecimalValue l h) bb = appendNumDecimal n l h bb"
| "appendValue junk n MinKeyValue bb = elemHeader MinKey n bb"
| "appendValue junk n MaxKeyValue bb = elemHeader MaxKey n bb"
| "buildElems junk EndDoc bb = Some bb"
| "buildElems junk (Field n v d) bb = do { bb1 \<leftarrow> appendValue junk n v bb; buildElems junk d bb1 }"

definition buildObj :: "byte \<Rightarrow> int \<Rightarrow> Doc \<Rightarrow> byte list option" where
  "buildObj junk initsize d = do {
     bb1 \<leftarrow> startBuilder junk \<lparr> bb_data = [], bb_size = initsize, bb_reservedBytes = 0 \<rparr>;
     bb2 \<leftarrow> buildElems junk d bb1;
     bb3 \<leftarrow> doneBuilder 0 bb2;
     Some (bb_data bb3)
   }"

text \<open>The loop that the computation of the capacity replaces.\<close>

function doubleUntil :: "int \<Rightarrow> int \<Rightarrow> int" where
  "doubleUntil minSize a = (if 0 < a \<and> a < minSize then doubleUntil minSize (a * 2) else a)"
  by auto
termination
  by (relation "measure (\<lambda>(m, a). nat (m - a))") auto

section \<open>The capacity\<close>

declare doubleUntil.simps [simp del]

lemma countLeadingZeros64_bits:
  assumes "num \<noteq> 0"
  shows "countLeadingZeros64 num < 64" and "bit num (63 - countLeadingZeros64 num)"
    and "64 - countLeadingZeros64 num \<le> i \<Longrightarrow> \<not> bit num i"
proof -
  let ?xs = "rev [0..<64]" and ?P = "\<lambda>i. \<not> bit num i"
  let ?j = "length (takeWhile ?P ?xs)"
  have c: "countLeadingZeros64 num = ?j"
    using assms by (simp add: countLeadingZeros64_def)
  have "\<exists>b < 64. bit num b"
  proof (rule ccontr)
    assume "\<not> (\<exists>b < 64. bit num b)"
    then have "num = 0"
      by (intro bit_word_eqI) auto
    with assms show False ..
  qed
  then obtain b where b: "bit num b" "b < 64"
    by blast
  have nth: "?xs ! i = 63 - i" if "i < 64" for i
    using that by (simp add: rev_nth)
  show j: "countLeadingZeros64 num < 64"
  proof (rule ccontr)
    assume "\<not> countLeadingZeros64 num < 64"
    then have "takeWhile ?P ?xs = ?xs"
      unfolding c by (metis takeWhile_eq_take take_all length_rev length_upt not_less diff_zero)
    then show False
      using b by (subst (asm) takeWhile_eq_all_conv) auto
  qed
  show "bit num (63 - countLeadingZeros64 num)"
    using nth_length_takeWhile [of ?P ?xs] j nth [of ?j] unfolding c by simp
  show "\<not> bit num i" if i: "64 - countLeadingZeros64 num \<le> i"
  proof (cases "i < 64")
    case True
    then have "?xs ! (63 - i) = i" "63 - i < ?j"
      using nth [of "63 - i"] i j unfolding c by auto
    then show ?thesis
      using set_takeWhileD [of "takeWhile ?P ?xs ! (63 - i)" ?P ?xs] by (metis nth_mem takeWhile_nth)
  qed (auto dest: bit_imp_le_length)
qed

lemma countLeadingZeros64_bounds:
  assumes "num \<noteq> 0"
  shows "2 ^ (63 - countLeadingZeros64 num) \<le> unat num" and "unat num < 2 ^ (64 - countLeadingZeros64 num)"
proof -
  let ?k = "64 - countLeadingZeros64 num"
  have bn: "bit (unat num) i = bit num i" for i
    by (simp add: bit_unsigned_iff)
  have "take_bit ?k (unat num) = unat num"
    by (intro bit_eqI) (use countLeadingZeros64_bits(3) [OF assms] in
      \<open>auto simp: bit_take_bit_iff bn intro: leI simp flip: not_le\<close>)
  then show "unat num < 2 ^ ?k"
    by (metis take_bit_nat_less_exp)
  show "2 ^ (63 - countLeadingZeros64 num) \<le> unat num"
  proof (rule ccontr)
    assume "\<not> 2 ^ (63 - countLeadingZeros64 num) \<le> unat num"
    then have "\<not> bit (unat num) (63 - countLeadingZeros64 num)"
      by (simp add: bit_iff_odd)
    then show False
      using countLeadingZeros64_bits(2) [OF assms] bn by simp
  qed
qed

lemma unat_word_of_int64:
  assumes "0 \<le> m" "m < 2 ^ 31"
  shows "int (unat (word_of_int m :: 64 word)) = m"
  using assms by (simp add: uint_word_of_int_eq take_bit_int_eq_self)

lemma growTarget_power:
  assumes "64 < minSize" "minSize < 2 ^ 31"
  obtains k where "6 < k" "k \<le> 31" "2 ^ (k - 1) < minSize" "minSize \<le> 2 ^ k"
    and "growTarget minSize = (if k = 31 then - (2 ^ 31) else 2 ^ k)"
proof -
  define v where "v = (word_of_int (minSize - 1) :: 64 word)"
  define k where "k = 64 - countLeadingZeros64 v"
  have u: "int (unat v) = minSize - 1"
    unfolding v_def using assms by (intro unat_word_of_int64) simp_all
  then have nz: "v \<noteq> 0"
    using assms by auto
  have "k - 1 = 63 - countLeadingZeros64 v"
    using countLeadingZeros64_bits(1) [OF nz] by (simp add: k_def)
  then have b: "2 ^ (k - 1) \<le> unat v" "unat v < 2 ^ k"
    using countLeadingZeros64_bounds [OF nz] by (simp_all add: k_def)
  have "int (2 ^ (k - 1)) \<le> int (unat v)" "int (unat v) < int (2 ^ k)"
    using b by (simp_all only: of_nat_le_iff of_nat_less_iff)
  then have i: "2 ^ (k - 1) < minSize" "minSize \<le> 2 ^ k"
    using u by simp_all
  have "(2 :: int) ^ 6 < 2 ^ k" "(2 :: int) ^ (k - 1) < 2 ^ 31"
    using i assms by simp_all
  then have k: "6 < k" "k \<le> 31"
    by (simp_all add: power_strict_increasing_iff del: power_numeral)
  have "ucast (push_bit k 1 :: 64 word) = size32 (2 ^ k)"
    using k by (intro bit_word_eqI) (auto simp: size32_def push_bit_of_1 bit_unsigned_iff bit_exp_iff)
  moreover have "sint (size32 (2 ^ k)) = int (2 ^ k)" if "k \<noteq> 31"
  proof (rule sint_size32)
    show "(2 :: nat) ^ k < 2 ^ 31"
      using that k by (intro power_strict_increasing) simp_all
  qed
  moreover have "sint (size32 (2 ^ 31)) = - (2 ^ 31)"
    by (simp add: size32_def)
  ultimately have "sint (ucast (push_bit k 1 :: 64 word) :: 32 word) = (if k = 31 then - (2 ^ 31) else 2 ^ k)"
    by auto
  then have "growTarget minSize = (if k = 31 then - (2 ^ 31) else 2 ^ k)"
    using assms by (simp add: growTarget_def v_def k_def Let_def)
  with that [OF k i] show ?thesis .
qed

lemma doubleUntil_power:
  assumes "minSize \<le> 2 ^ k" "2 ^ (k - 1) < minSize" "j \<le> k"
  shows "doubleUntil minSize (2 ^ j) = 2 ^ k"
  using assms(3)
proof (induction "k - j" arbitrary: j)
  case 0
  then show ?case
    using assms by (subst doubleUntil.simps) simp
next
  case (Suc n)
  then have "(2 :: int) ^ j \<le> 2 ^ (k - 1)"
    by (intro power_increasing) auto
  with assms(2) have "2 ^ j < minSize"
    by linarith
  with Suc show ?case
    by (subst doubleUntil.simps) (simp add: power_Suc2 [symmetric] del: power_Suc)
qed

lemma growTarget_fits:
  assumes "minSize \<le> BufferMaxSize"
  shows "minSize \<le> growTarget minSize" and "growTarget minSize \<le> BufferMaxSize" and "0 \<le> growTarget minSize"
proof -
  have "minSize \<le> growTarget minSize \<and> growTarget minSize \<le> BufferMaxSize \<and> 0 \<le> growTarget minSize"
  proof (cases "minSize \<le> 64")
    case False
    then have "64 < minSize" "minSize < 2 ^ 31"
      using assms by (simp_all add: BufferMaxSize_def)
    then obtain k where k: "k \<le> 31" "2 ^ (k - 1) < minSize" "minSize \<le> 2 ^ k"
      "growTarget minSize = (if k = 31 then - (2 ^ 31) else 2 ^ k)"
      by (rule growTarget_power)
    have "(2 :: int) ^ (k - 1) < 2 ^ 26"
      using k(2) assms by (simp add: BufferMaxSize_def)
    then have "k \<le> 26"
      by (simp add: power_strict_increasing_iff del: power_numeral)
    then have "(2 :: int) ^ k \<le> 2 ^ 26"
      by (intro power_increasing) simp_all
    with k \<open>k \<le> 26\<close> show ?thesis
      by (simp add: BufferMaxSize_def)
  qed (simp add: growTarget_def BufferMaxSize_def)
  then show "minSize \<le> growTarget minSize" "growTarget minSize \<le> BufferMaxSize" "0 \<le> growTarget minSize"
    by simp_all
qed

section \<open>What the operations write\<close>

definition room :: "BufBuilder \<Rightarrow> nat \<Rightarrow> bool" where
  "room bb n \<longleftrightarrow> 0 \<le> bb_reservedBytes bb \<and> bbLen bb + int n + bb_reservedBytes bb \<le> BufferMaxSize"

definition wrote :: "BufBuilder \<Rightarrow> byte list \<Rightarrow> BufBuilder \<Rightarrow> bool" where
  "wrote bb bs bb' \<longleftrightarrow> bb_data bb' = bb_data bb @ bs \<and> bb_reservedBytes bb' = bb_reservedBytes bb"

definition writes :: "(BufBuilder \<Rightarrow> BufBuilder option) \<Rightarrow> byte list \<Rightarrow> bool" where
  "writes f bs \<longleftrightarrow> (\<forall>bb. room bb (length bs) \<longrightarrow> (\<exists>bb'. f bb = Some bb' \<and> wrote bb bs bb'))"

lemma writesI:
  assumes "\<And>bb. room bb (length bs) \<Longrightarrow> \<exists>bb'. f bb = Some bb' \<and> wrote bb bs bb'"
  shows "writes f bs"
  using assms by (simp add: writes_def)

lemma writesE:
  assumes "writes f bs" "room bb (length bs)"
  obtains bb' where "f bb = Some bb'" "bb_data bb' = bb_data bb @ bs"
    "bb_reservedBytes bb' = bb_reservedBytes bb"
  using assms by (auto simp: writes_def wrote_def)

lemma writes_bind:
  assumes "writes f a" "writes g b"
  shows "writes (\<lambda>bb. f bb \<bind> g) (a @ b)"
proof (rule writesI)
  fix bb
  assume r: "room bb (length (a @ b))"
  then have "room bb (length a)"
    by (simp add: room_def)
  with assms(1) obtain bb1 where b1: "f bb = Some bb1" "bb_data bb1 = bb_data bb @ a"
    "bb_reservedBytes bb1 = bb_reservedBytes bb"
    by (rule writesE)
  then have "room bb1 (length b)"
    using r by (simp add: room_def bbLen_def)
  with assms(2) obtain bb2 where "g bb1 = Some bb2" "bb_data bb2 = bb_data bb1 @ b"
    "bb_reservedBytes bb2 = bb_reservedBytes bb1"
    by (rule writesE)
  with b1 show "\<exists>bb'. (f bb \<bind> g) = Some bb' \<and> wrote bb (a @ b) bb'"
    by (simp add: wrote_def)
qed

lemma writes_grow: "writes (grow bs) bs"
proof (rule writesI)
  fix bb
  assume r: "room bb (length bs)"
  let ?m = "bbLen bb + int (length bs) + bb_reservedBytes bb"
  have m: "?m \<le> BufferMaxSize" "0 \<le> bb_reservedBytes bb" "0 \<le> bbLen bb"
    using r by (simp_all add: room_def bbLen_def)
  then have "checkInt (bbLen bb + int (length bs)) = Some (bbLen bb + int (length bs))" "checkInt ?m = Some ?m"
    by (simp_all add: checkInt_def BufferMaxSize_def)
  with growTarget_fits [OF m(1)] show "\<exists>bb'. grow bs bb = Some bb' \<and> wrote bb bs bb'"
    by (simp add: grow_def growReallocate_def wrote_def Let_def)
qed

lemma writes_Nil: "writes (\<lambda>bb. Some bb) []"
  by (simp add: writes_def wrote_def)

lemma writes_appendBuf: "writes (appendBuf bs) bs"
  using writes_grow [of bs] writes_Nil by (cases "bs = []") (simp_all add: appendBuf_def [abs_def])

lemma writes_appendStr: "writes (appendStr s) (s @ [0])"
  using writes_grow by (simp add: appendStr_def [abs_def])

lemmas writes_intros = writes_bind writes_grow writes_appendBuf writes_appendStr

lemma writes_elemHeader: "writes (elemHeader ty n) (of_int (typeCode ty) # n @ [0])"
  unfolding elemHeader_def [abs_def]
  using writes_bind [OF writes_grow [of "[of_int (typeCode ty)]"] writes_appendStr [of n]] by simp

lemma writes_header_then:
  assumes "writes f bs"
  shows "writes (\<lambda>bb. elemHeader ty n bb \<bind> f) (of_int (typeCode ty) # n @ 0 # bs)"
  using writes_bind [OF writes_elemHeader [of ty n] assms] by simp

lemma reserveBytes_room:
  assumes "room bb 1"
  obtains bb' where "reserveBytes 1 bb = Some bb'" "bb_data bb' = bb_data bb"
    "bb_reservedBytes bb' = bb_reservedBytes bb + 1"
proof -
  let ?m = "bbLen bb + bb_reservedBytes bb + 1"
  have m: "?m \<le> BufferMaxSize" "0 \<le> bb_reservedBytes bb" "0 \<le> bbLen bb"
    using assms by (simp_all add: room_def bbLen_def)
  then have "checkInt ?m = Some ?m"
    by (simp add: checkInt_def BufferMaxSize_def)
  with growTarget_fits [OF m(1)] have "\<exists>bb'. reserveBytes 1 bb = Some bb' \<and> bb_data bb' = bb_data bb \<and>
      bb_reservedBytes bb' = bb_reservedBytes bb + 1"
    by (simp add: reserveBytes_def growReallocate_def Let_def)
  with that show ?thesis
    by blast
qed

lemma startBuilder_room:
  assumes "room bb 5"
  obtains bb' where "startBuilder junk bb = Some bb'" "bb_data bb' = bb_data bb @ replicate 4 junk"
    "bb_reservedBytes bb' = bb_reservedBytes bb + 1"
proof -
  have "room bb (length (replicate 4 junk))"
    using assms by (simp add: room_def)
  with writes_grow obtain bb1 where b1: "grow (replicate 4 junk) bb = Some bb1"
    "bb_data bb1 = bb_data bb @ replicate 4 junk" "bb_reservedBytes bb1 = bb_reservedBytes bb"
    by (rule writesE)
  then have "room bb1 1"
    using assms by (simp add: room_def bbLen_def)
  then obtain bb2 where "reserveBytes 1 bb1 = Some bb2" "bb_data bb2 = bb_data bb1"
    "bb_reservedBytes bb2 = bb_reservedBytes bb1 + 1"
    by (rule reserveBytes_room)
  with b1 that show ?thesis
    by (simp add: startBuilder_def)
qed

lemma doneBuilder_room:
  assumes "0 < bb_reservedBytes bb" "bbLen bb + bb_reservedBytes bb \<le> BufferMaxSize"
    and d: "bb_data bb = pre @ replicate 4 junk @ body"
  obtains bb' where "doneBuilder (length pre) bb = Some bb'" "bb_data bb' = pre @ wrapObj body"
    "bb_reservedBytes bb' = bb_reservedBytes bb - 1"
proof -
  let ?b = "bb \<lparr> bb_reservedBytes := bb_reservedBytes bb - 1 \<rparr>"
  have "room ?b (length [0 :: byte])"
    using assms by (simp add: room_def bbLen_def)
  with writes_grow obtain bb' where g: "grow [0] ?b = Some bb'" "bb_data bb' = bb_data ?b @ [0]"
    "bb_reservedBytes bb' = bb_reservedBytes ?b"
    by (rule writesE)
  have "writeAt (length pre) (le32 (size32 (length (bb_data bb') - length pre))) (bb_data bb') = pre @ wrapObj body"
    using d g(2) by (simp add: writeAt_def wrapObj_def add.commute)
  with g assms(1) that show ?thesis
    by (simp add: doneBuilder_def claimReservedBytes_def)
qed

lemma writes_sub:
  assumes "writes (buildElems junk d) (encodeElems d)"
  shows "writes (\<lambda>bb. do {
     bb2 \<leftarrow> startBuilder junk bb;
     bb3 \<leftarrow> buildElems junk d bb2;
     doneBuilder (length (bb_data bb)) bb3 }) (encodeObj d)"
proof (rule writesI)
  fix bb
  assume r: "room bb (length (encodeObj d))"
  then have "room bb 5"
    by (simp add: room_def)
  then obtain b2 where b2: "startBuilder junk bb = Some b2" "bb_data b2 = bb_data bb @ replicate 4 junk"
    "bb_reservedBytes b2 = bb_reservedBytes bb + 1"
    by (rule startBuilder_room)
  then have "room b2 (length (encodeElems d))"
    using r by (simp add: room_def bbLen_def)
  with assms obtain b3 where b3: "buildElems junk d b2 = Some b3" "bb_data b3 = bb_data b2 @ encodeElems d"
    "bb_reservedBytes b3 = bb_reservedBytes b2"
    by (rule writesE)
  have "0 < bb_reservedBytes b3" "bbLen b3 + bb_reservedBytes b3 \<le> BufferMaxSize"
    using r b2 b3 by (simp_all add: room_def bbLen_def)
  moreover have "bb_data b3 = bb_data bb @ replicate 4 junk @ encodeElems d"
    using b2 b3 by simp
  ultimately obtain b4 where "doneBuilder (length (bb_data bb)) b3 = Some b4"
    "bb_data b4 = bb_data bb @ wrapObj (encodeElems d)" "bb_reservedBytes b4 = bb_reservedBytes b3 - 1"
    by (rule doneBuilder_room)
  with b2 b3 show "\<exists>bb'. do { bb2 \<leftarrow> startBuilder junk bb; bb3 \<leftarrow> buildElems junk d bb2;
       doneBuilder (length (bb_data bb)) bb3 } = Some bb' \<and> wrote bb (encodeObj d) bb'"
    by (simp add: wrote_def encodeObj_def)
qed

lemma writes_fixed: "writes (appendFixed ty n bs) (of_int (typeCode ty) # n @ 0 # bs)"
  unfolding appendFixed_def [abs_def] by (rule writes_header_then [OF writes_grow])

lemma writes_sized: "writes (appendSized ty n s) (of_int (typeCode ty) # n @ 0 # encodeStr s)"
  unfolding appendSized_def [abs_def] encodeStr_def
  by (rule writes_header_then [OF writes_bind [OF writes_grow writes_appendStr]])

lemma writes_ops:
  "writes (appendFixed ty n bs) (of_int (typeCode ty) # n @ 0 # bs)"
  "writes (appendSized ty n s) (of_int (typeCode ty) # n @ 0 # encodeStr s)"
  "writes (appendRegex n r f) (of_int (typeCode RegEx) # n @ 0 # r @ 0 # f @ [0])"
  "writes (appendBinData n k bs) (of_int (typeCode BinData) # n @ 0 # le32 (size32 (length bs)) @ k # bs)"
  "writes (appendDBRef n ns i) (of_int (typeCode DBRef) # n @ 0 # encodeStr ns @ i)"
  "writes (appendNumDecimal n l h) (of_int (typeCode NumberDecimal) # n @ 0 # le64 l @ le64 h)"
  "writes (appendCodeWScope n c sc) (of_int (typeCode CodeWScope) # n @ 0 #
    le32 (size32 (4 + 4 + length c + 1 + length sc)) @ encodeStr c @ sc)"
  using writes_fixed [of ty n bs] writes_sized [of ty n s]
    writes_header_then [OF writes_bind [OF writes_appendStr [of r] writes_appendStr [of f]], of RegEx n]
    writes_header_then [OF writes_bind [OF writes_grow [of "le32 (size32 (length bs))"]
      writes_bind [OF writes_grow [of "[k]"] writes_appendBuf [of bs]]], of BinData n]
    writes_bind [OF writes_sized [of DBRef n ns] writes_appendBuf [of i]]
    writes_header_then [OF writes_bind [OF writes_grow [of "le64 l"] writes_grow [of "le64 h"]], of NumberDecimal n]
    writes_header_then [OF writes_bind [OF writes_grow [of "le32 (size32 (4 + 4 + length c + 1 + length sc))"]
      writes_bind [OF writes_grow [of "le32 (size32 (length c + 1))"] writes_bind [OF writes_appendStr [of c]
        writes_appendBuf [of sc]]]], of CodeWScope n]
  by (simp_all add: appendRegex_def [abs_def] appendBinData_def [abs_def] appendDBRef_def [abs_def]
      appendNumDecimal_def [abs_def] appendCodeWScope_def [abs_def] encodeStr_def)

lemma appendValue_plain:
  "appendValue junk n (DoubleValue w) = appendFixed NumberDouble n (le64 w)"
  "appendValue junk n (StringValue s) = appendSized String n s"
  "appendValue junk n (BinDataValue k bs) = appendBinData n k bs"
  "appendValue junk n UndefinedValue = elemHeader Undefined n"
  "appendValue junk n (BoolValue b) = appendFixed Bool n [if b then 1 else 0]"
  "appendValue junk n (DateValue w) = appendFixed Date n (le64 w)"
  "appendValue junk n NullValue = elemHeader jstNULL n"
  "appendValue junk n (RegExValue r f) = appendRegex n r f"
  "appendValue junk n (DBRefValue ns i) = appendDBRef n ns i"
  "appendValue junk n (CodeValue s) = appendSized Code n s"
  "appendValue junk n (SymbolValue s) = appendSized Symbol n s"
  "appendValue junk n (CodeWScopeValue c d) = appendCodeWScope n c (encodeObj d)"
  "appendValue junk n (IntValue x) = appendFixed NumberInt n (le32 x)"
  "appendValue junk n (TimestampValue w) = appendFixed bsonTimestamp n (le64 w)"
  "appendValue junk n (LongValue w) = appendFixed NumberLong n (le64 w)"
  "appendValue junk n (DecimalValue l h) = appendNumDecimal n l h"
  "appendValue junk n MinKeyValue = elemHeader MinKey n"
  "appendValue junk n MaxKeyValue = elemHeader MaxKey n"
  "buildElems junk EndDoc = Some"
  by (simp_all add: fun_eq_iff)

lemma writes_cong: "writes f a \<Longrightarrow> f = g \<Longrightarrow> a = b \<Longrightarrow> writes g b"
  by simp

lemma encodeElem_scope: "encodeElem n (CodeWScopeValue c d) = of_int (typeCode CodeWScope) # n @ 0 #
    le32 (size32 (4 + 4 + length c + 1 + length (encodeObj d))) @ encodeStr c @ encodeObj d"
  by (simp add: encodeElem_def typeByte_def encodeObj_def)

lemma writes_value: "writes (appendValue junk n v) (encodeElem n v)"
  and writes_elems: "writes (buildElems junk d) (encodeElems d)"
proof (induction v and d arbitrary: n)
  case (Field m v d)
  show ?case
    by (rule writes_cong [OF writes_bind [OF Field(1) [of m] Field(2)]])
      (simp_all add: encodeElem_def fun_eq_iff)
next
  case (ObjectValue d)
  show ?case
    by (rule writes_cong [OF writes_header_then [where ty = Object and n = n, OF writes_sub [OF ObjectValue]]])
      (simp_all add: encodeElem_def encodeObj_def typeByte_def fun_eq_iff)
next
  case (ArrayValue d)
  show ?case
    by (rule writes_cong [OF writes_header_then [where ty = Array and n = n, OF writes_sub [OF ArrayValue]]])
      (simp_all add: encodeElem_def encodeObj_def typeByte_def fun_eq_iff)
next
  case (OIDValue i)
  show ?case
    by (rule writes_cong [OF writes_header_then [where ty = jstOID and n = n, OF writes_appendBuf [of i]]])
      (simp_all add: encodeElem_def typeByte_def fun_eq_iff)
next
  case (CodeWScopeValue c d)
  show ?case
    unfolding appendValue_plain encodeElem_scope by (rule writes_ops)
qed (simp_all only: appendValue_plain encodeElem_def typeByte_def valueType.simps
    encodeValue.simps encodeElems.simps append.simps append_Nil2 writes_ops writes_elemHeader writes_Nil)

section \<open>Properties\<close>

text \<open>C34: the capacity computed from the leading zeros is the one that doubling from 64 until the
  requested size is reached gives, for every request up to \<^verbatim>\<open>2^30\<close> bytes; for every larger request
  it is the most negative \<^verbatim>\<open>int\<close>, so that the comparison with the 64MB limit does not see it.\<close>

theorem capacity_equiv:
  assumes "minSize < 2 ^ 31"
  shows "growTarget minSize = (if minSize \<le> 2 ^ 30 then doubleUntil minSize 64 else - (2 ^ 31))"
proof (cases "minSize \<le> 64")
  case True
  then show ?thesis
    by (simp add: growTarget_def doubleUntil.simps)
next
  case False
  then obtain k where k: "6 < k" "k \<le> 31" "2 ^ (k - 1) < minSize" "minSize \<le> 2 ^ k"
    and g: "growTarget minSize = (if k = 31 then - (2 ^ 31) else 2 ^ k)"
    using growTarget_power [of minSize] assms by auto
  have d: "doubleUntil minSize 64 = 2 ^ k"
    using doubleUntil_power [OF k(4,3), of 6] k(1) by simp
  show ?thesis
  proof (cases "k = 31")
    case True
    with k(3) g show ?thesis
      by simp
  next
    case False
    then have "(2 :: int) ^ k \<le> 2 ^ 30"
      using k(2) by (intro power_increasing) simp_all
    with False k(4) g d show ?thesis
      by simp
  qed
qed

theorem capacity_equiv_witness:
  "growTarget 1000 = 1024 \<and> growTarget 1073741825 = - 2147483648"
proof -
  have "doubleUntil 1000 64 = 1024"
    using doubleUntil_power [of 1000 10 6] by simp
  then show ?thesis
    using capacity_equiv [of 1000] capacity_equiv [of 1073741825] by simp
qed



end
