(* ===== verification/Bson_Validate.thy ===== *)
theory Bson_Validate
  imports Bson_Element
begin

text \<open>
  The validator of untrusted BSON (\<^verbatim>\<open>bson/bson_validate.cpp\<close>).

  \<open>Buffer\<close> is the cursor over the bytes received, whose length is \<^verbatim>\<open>_maxLength\<close>;
  \<open>validateElementInfo\<close> is the switch on the type of an element, and \<open>validateStep\<close> one turn of
  the loop of \<^verbatim>\<open>validateBSONIterative\<close>, with its explicit stack of frames and the state the next
  turn starts in.  A frame keeps its start position and the CodeWScope flag in one 32 bit word, as
  the source does.  The status carries the message and the position of the \<^verbatim>\<open>_id\<close> element that
  \<^verbatim>\<open>makeError\<close> prints; \<open>NoFrame\<close> stands for a use of the stack while it is empty.

  The lemmas say which bytes each read consumes, by type, and that the loop ends.
\<close>

section \<open>The cursor\<close>

record Buffer =
  b_buffer :: "byte list"
  b_position :: nat
  b_version :: BSONVersion
  b_idElem :: "nat option"

datatype ValidateStatus = ValidateOK | InvalidBSON string "nat option" | NoFrame

definition readNumber :: "nat \<Rightarrow> Buffer \<Rightarrow> (byte list \<times> Buffer) option" where
  "readNumber n b =
     (if b_position b + n > length (b_buffer b) then None
      else Some (take n (drop (b_position b) (b_buffer b)), b \<lparr> b_position := b_position b + n \<rparr>))"

definition readCString :: "Buffer \<Rightarrow> ValidateStatus + (byte list \<times> Buffer)" where
  "readCString b =
     (let rest = drop (b_position b) (b_buffer b); s = takeWhile (\<lambda>c. c \<noteq> 0) rest in
      if 0 \<notin> set rest then Inl (InvalidBSON ''no end of c-string'' (b_idElem b))
      else Inr (s, b \<lparr> b_position := b_position b + length s + 1 \<rparr>))"

definition skip :: "nat \<Rightarrow> Buffer \<Rightarrow> bool \<times> Buffer" where
  "skip n b = (b_position b + n < length (b_buffer b), b \<lparr> b_position := b_position b + n \<rparr>)"

definition intAt :: "byte list \<Rightarrow> 32 word" where
  "intAt bs = of_nat (leNat bs)"

definition readUTF8String :: "Buffer \<Rightarrow> ValidateStatus + Buffer" where
  "readUTF8String b = (case readNumber 4 b of
       None \<Rightarrow> Inl (InvalidBSON ''invalid bson'' (b_idElem b))
     | Some (w, b1) \<Rightarrow>
         if sint (intAt w) \<le> 0 then Inl (InvalidBSON ''invalid bson'' (b_idElem b))
         else (case skip (nat (sint (intAt w) - 1)) b1 of (ok, b2) \<Rightarrow>
           if \<not> ok then Inl (InvalidBSON ''invalid bson'' (b_idElem b))
           else (case readNumber 1 b2 of
               None \<Rightarrow> Inl (InvalidBSON ''invalid bson'' (b_idElem b))
             | Some (c, b3) \<Rightarrow>
                 if c \<noteq> [0] then Inl (InvalidBSON ''not null terminated string'' (b_idElem b))
                 else Inr b3)))"

definition skipOr :: "string \<Rightarrow> nat option \<Rightarrow> nat \<Rightarrow> Buffer \<Rightarrow> ValidateStatus + Buffer" where
  "skipOr msg idElem n b = (case skip n b of (ok, b') \<Rightarrow>
     if ok then Inr b' else Inl (InvalidBSON msg idElem))"

section \<open>One element\<close>

datatype ValidationState = BeginObj | WithinObj | EndObj | BeginCodeWScope | EndCodeWScope | Done

definition validateBool :: "nat option \<Rightarrow> Buffer \<Rightarrow> ValidateStatus + Buffer" where
  "validateBool idElem b = (case readNumber 1 b of
       None \<Rightarrow> Inl (InvalidBSON ''invalid bson'' idElem)
     | Some (c, b1) \<Rightarrow>
         if c \<noteq> [0] \<and> c \<noteq> [1] then Inl (InvalidBSON ''invalid boolean value'' idElem) else Inr b1)"

definition validateDBRef :: "nat option \<Rightarrow> Buffer \<Rightarrow> ValidateStatus + Buffer" where
  "validateDBRef idElem b = (case readUTF8String b of
       Inl s \<Rightarrow> Inl s
     | Inr b1 \<Rightarrow> skipOr ''invalid bson length'' idElem 12 b1)"

definition validateRegEx :: "Buffer \<Rightarrow> ValidateStatus + Buffer" where
  "validateRegEx b = (case readCString b of
       Inl s \<Rightarrow> Inl s
     | Inr (r, b1) \<Rightarrow> (case readCString b1 of Inl s \<Rightarrow> Inl s | Inr (f, b2) \<Rightarrow> Inr b2))"

definition validateBinData :: "nat option \<Rightarrow> Buffer \<Rightarrow> ValidateStatus + Buffer" where
  "validateBinData idElem b = (case readNumber 4 b of
       None \<Rightarrow> Inl (InvalidBSON ''invalid bson'' idElem)
     | Some (w, b1) \<Rightarrow>
         if sint (intAt w) < 0 \<or> sint (intAt w) = 2 ^ 31 - 1
         then Inl (InvalidBSON ''invalid size in bson'' idElem)
         else skipOr ''invalid bson'' idElem (nat (1 + sint (intAt w))) b1)"

definition validatePlain :: "BSONType \<Rightarrow> nat option \<Rightarrow> Buffer \<Rightarrow> ValidateStatus + Buffer" where
  "validatePlain ty idElem b =
     (if ty \<in> {MinKey, MaxKey, jstNULL, Undefined} then Inr b
      else if ty = jstOID then skipOr ''invalid bson'' idElem 12 b
      else if ty = NumberInt then skipOr ''invalid bson'' idElem 4 b
      else if ty = Bool then validateBool idElem b
      else if ty \<in> {NumberDouble, NumberLong, bsonTimestamp, Date} then skipOr ''invalid bson'' idElem 8 b
      else if ty = NumberDecimal then
        (if b_version b \<noteq> kV1_0 then skipOr ''Invalid bson'' idElem 16 b
         else Inl (InvalidBSON ''Cannot use decimal BSON type'' None))
      else if ty = DBRef then validateDBRef idElem b
      else if ty = RegEx then validateRegEx b
      else if ty \<in> {Code, Symbol, String} then readUTF8String b
      else if ty = BinData then validateBinData idElem b
      else Inl (InvalidBSON ''invalid bson type'' idElem))"

definition validateElementInfo ::
  "nat option \<Rightarrow> Buffer \<Rightarrow> ValidateStatus + (ValidationState option \<times> byte list \<times> Buffer)" where
  "validateElementInfo idElem b = (case readNumber 1 b of
       None \<Rightarrow> Inl (InvalidBSON ''invalid bson'' idElem)
     | Some (t, b1) \<Rightarrow>
         if sint (hd t) = typeCode EOO then Inr (Some EndObj, [], b1)
         else (case readCString b1 of
             Inl s \<Rightarrow> Inl s
           | Inr (name, b2) \<Rightarrow> (case toBSONType (sint (hd t)) of
                 None \<Rightarrow> Inl (InvalidBSON ''invalid bson type'' idElem)
               | Some ty \<Rightarrow>
                   if ty = CodeWScope then Inr (Some BeginCodeWScope, name, b2)
                   else if ty = Object \<or> ty = Array then Inr (Some BeginObj, name, b2)
                   else (case validatePlain ty idElem b2 of
                       Inl s \<Rightarrow> Inl s
                     | Inr b3 \<Rightarrow> Inr (None, name, b3)))))"

section \<open>The frames and the loop\<close>

record ValidationObjectFrame =
  f_startPosition :: "32 word"
  f_expectedSize :: "32 word"

definition flagBit :: "32 word" where
  "flagBit = push_bit 31 1"

definition startPosition :: "ValidationObjectFrame \<Rightarrow> nat" where
  "startPosition f = unat (f_startPosition f AND NOT flagBit)"

definition isCodeWithScope :: "ValidationObjectFrame \<Rightarrow> bool" where
  "isCodeWithScope f \<longleftrightarrow> f_startPosition f AND flagBit \<noteq> 0"

definition setStartPosition :: "nat \<Rightarrow> 32 word \<Rightarrow> 32 word" where
  "setStartPosition pos w = (w AND flagBit) OR (of_nat pos AND NOT flagBit)"

definition setIsCodeWithScope :: "bool \<Rightarrow> 32 word \<Rightarrow> 32 word" where
  "setIsCodeWithScope c w = (if c then w OR flagBit else w AND NOT flagBit)"

definition newFrame :: "32 word \<Rightarrow> nat \<Rightarrow> bool \<Rightarrow> 32 word \<Rightarrow> ValidationObjectFrame" where
  "newFrame junk pos c sz =
     \<lparr> f_startPosition = setIsCodeWithScope c (setStartPosition pos junk), f_expectedSize = sz \<rparr>"

record Validation =
  v_state :: ValidationState
  v_frames :: "ValidationObjectFrame list"
  v_buffer :: Buffer
  v_idElemStartPos :: nat
  v_idElem :: "nat option"

definition adoptIdElem :: "Validation \<Rightarrow> Validation" where
  "adoptIdElem v =
     (if length (v_frames v) = 1 \<and> v_idElemStartPos v \<noteq> 0
      then v \<lparr> v_idElem := Some (v_idElemStartPos v), v_idElemStartPos := 0,
        v_buffer := (v_buffer v) \<lparr> b_idElem := Some (v_idElemStartPos v) \<rparr> \<rparr>
      else v)"

definition idElemName :: "byte list" where
  "idElemName = [95, 105, 100]"

definition withinObj :: "Validation \<Rightarrow> ValidateStatus + Validation" where
  "withinObj v0 = (let v = adoptIdElem v0; elemStartPos = b_position (v_buffer v) in
     case validateElementInfo (v_idElem v) (v_buffer v) of
       Inl s \<Rightarrow> Inl s
     | Inr (nextState, elemName, b') \<Rightarrow>
         Inr (v \<lparr> v_buffer := b',
           v_idElemStartPos :=
             (if nextState \<noteq> Some EndObj \<and> v_idElem v = None \<and> length (v_frames v) = 1 \<and> elemName = idElemName
              then elemStartPos else v_idElemStartPos v),
           v_state := (case nextState of None \<Rightarrow> WithinObj | Some st \<Rightarrow> st) \<rparr>))"

definition lengthMatches :: "Validation \<Rightarrow> ValidationObjectFrame \<Rightarrow> bool" where
  "lengthMatches v cur \<longleftrightarrow>
     (of_int (int (b_position (v_buffer v)) - int (startPosition cur)) :: 32 word) = f_expectedSize cur"

definition validateStep :: "32 word \<Rightarrow> Validation \<Rightarrow> ValidateStatus + Validation" where
  "validateStep junk v = (let b = v_buffer v in case v_state v of
       BeginObj \<Rightarrow> (case readNumber 4 b of
           None \<Rightarrow> Inl (InvalidBSON ''bson size is larger than buffer size'' (v_idElem v))
         | Some (w, b') \<Rightarrow> withinObj (v \<lparr> v_state := WithinObj, v_buffer := b',
             v_frames := newFrame junk (b_position b) False (intAt w) # v_frames v \<rparr>))
     | WithinObj \<Rightarrow> withinObj v
     | EndObj \<Rightarrow> (case v_frames v of
           [] \<Rightarrow> Inl NoFrame
         | cur # fs \<Rightarrow>
             if \<not> lengthMatches v cur
             then Inl (InvalidBSON ''bson length doesn't match what we found'' (v_idElem v))
             else Inr (v \<lparr> v_frames := fs, v_state := (case fs of
                 [] \<Rightarrow> Done
               | f # fs' \<Rightarrow> if isCodeWithScope f then EndCodeWScope else WithinObj) \<rparr>))
     | BeginCodeWScope \<Rightarrow> (case readNumber 4 b of
           None \<Rightarrow> Inl (InvalidBSON ''invalid bson CodeWScope size'' (v_idElem v))
         | Some (w, b') \<Rightarrow> (case readUTF8String b' of
               Inl s \<Rightarrow> Inl s
             | Inr b'' \<Rightarrow> Inr (v \<lparr> v_state := BeginObj, v_buffer := b'',
                 v_frames := newFrame junk (b_position b) True (intAt w) # v_frames v \<rparr>)))
     | EndCodeWScope \<Rightarrow> (case v_frames v of
           [] \<Rightarrow> Inl NoFrame
         | cur # fs \<Rightarrow>
             if \<not> lengthMatches v cur
             then Inl (InvalidBSON ''bson length for CodeWScope doesn't match what we found'' (v_idElem v))
             else if fs = [] then Inl (InvalidBSON ''unnested CodeWScope'' (v_idElem v))
             else Inr (v \<lparr> v_frames := fs, v_state := WithinObj \<rparr>))
     | Done \<Rightarrow> Inl NoFrame)"

section \<open>What the cursor consumes\<close>

definition consumes :: "Buffer \<Rightarrow> byte list \<Rightarrow> Buffer \<Rightarrow> bool" where
  "consumes b c b' \<longleftrightarrow> b' = b \<lparr> b_position := b_position b + length c \<rparr> \<and>
     (\<exists>r. drop (b_position b) (b_buffer b) = c @ r)"

lemma consumes_Nil [simp]: "consumes b [] b"
  by (simp add: consumes_def)

lemma consumes_trans:
  assumes "consumes b c b'" "consumes b' c' b''"
  shows "consumes b (c @ c') b''"
proof -
  obtain r r' where r: "drop (b_position b) (b_buffer b) = c @ r"
    and r': "drop (b_position b + length c) (b_buffer b) = c' @ r'"
    using assms by (auto simp: consumes_def)
  have "drop (b_position b + length c) (b_buffer b) = drop (length c) (drop (b_position b) (b_buffer b))"
    by (simp add: add.commute)
  then have "r = c' @ r'"
    using r r' by simp
  with assms r show ?thesis
    by (simp add: consumes_def add.assoc)
qed

lemma consumes_le:
  assumes "consumes b c b'" "c \<noteq> [] \<or> b_position b \<le> length (b_buffer b)"
  shows "b_position b + length c \<le> length (b_buffer b)"
proof -
  obtain r where "drop (b_position b) (b_buffer b) = c @ r"
    using assms by (auto simp: consumes_def)
  from arg_cong [where f = length, OF this] assms(2) show ?thesis
    by (cases c) auto
qed

lemma consumes_simps:
  assumes "consumes b c b'"
  shows "b_buffer b' = b_buffer b" "b_position b' = b_position b + length c"
    "b_version b' = b_version b" "b_idElem b' = b_idElem b"
  using assms by (auto simp: consumes_def)

lemma consumes_take:
  assumes "consumes b c b'"
  shows "take (b_position b') (b_buffer b) = take (b_position b) (b_buffer b) @ c"
  using assms by (auto simp: consumes_def take_add)

lemma readNumber_Some:
  assumes "readNumber n b = Some (w, b')"
  shows "consumes b w b'" and "length w = n"
proof -
  have l: "b_position b + n \<le> length (b_buffer b)" and w: "w = take n (drop (b_position b) (b_buffer b))"
    and b': "b' = b \<lparr> b_position := b_position b + n \<rparr>"
    using assms by (auto simp: readNumber_def split: if_splits)
  then show n: "length w = n"
    by simp
  have "drop (b_position b) (b_buffer b) = w @ drop n (drop (b_position b) (b_buffer b))"
    unfolding w by (rule append_take_drop_id [symmetric])
  then show "consumes b w b'"
    unfolding consumes_def using n b' by blast
qed

lemma readCString_Inr:
  assumes "readCString b = Inr (s, b')"
  shows "consumes b (s @ [0]) b'" and "cstring s"
proof -
  let ?r = "drop (b_position b) (b_buffer b)"
  have z: "0 \<in> set ?r" and s: "s = takeWhile (\<lambda>c. c \<noteq> 0) ?r"
    and b': "b' = b \<lparr> b_position := b_position b + length s + 1 \<rparr>"
    using assms by (auto simp: readCString_def Let_def split: if_splits)
  show "cstring s"
    using s set_takeWhileD [of 0 "\<lambda>c. c \<noteq> 0" ?r] by (auto simp: cstring_def)
  obtain t where t: "dropWhile (\<lambda>c. c \<noteq> 0) ?r = 0 # t"
    using z by (cases "dropWhile (\<lambda>c. c \<noteq> 0) ?r") (auto simp: dropWhile_eq_Nil_conv dropWhile_eq_Cons_conv)
  have "?r = s @ 0 # t"
    using takeWhile_dropWhile_id [of "\<lambda>c. c \<noteq> 0" ?r] s t by simp
  then show "consumes b (s @ [0]) b'"
    using b' by (simp add: consumes_def)
qed

lemma skip_True:
  assumes "skip n b = (True, b')"
  obtains c where "length c = n" "consumes b c b'"
proof -
  let ?r = "drop (b_position b) (b_buffer b)"
  have l: "b_position b + n < length (b_buffer b)" and b': "b' = b \<lparr> b_position := b_position b + n \<rparr>"
    using assms by (auto simp: skip_def)
  have n: "length (take n ?r) = n"
    using l by simp
  have "?r = take n ?r @ drop n ?r"
    by (rule append_take_drop_id [symmetric])
  then have "consumes b (take n ?r) b'"
    unfolding consumes_def n using b' by blast
  with n show ?thesis
    by (rule that)
qed

lemma skipOr_Inr:
  assumes "skipOr msg i n b = Inr b'"
  obtains c where "length c = n" "consumes b c b'"
  using assms by (auto simp: skipOr_def split: prod.splits if_splits elim: skip_True)

lemma le32_intAt: "length w = 4 \<Longrightarrow> le32 (intAt w) = w"
  using leBytes_leNat [of w] leNat_less [of w] by (simp add: le32_def intAt_def unat_of_nat)

lemma le64_exists: "length w = 8 \<Longrightarrow> \<exists>x. w = le64 x"
  using leBytes_leNat [of w] leNat_less [of w]
  by (intro exI [of _ "of_nat (leNat w)"]) (simp add: le64_def unat_of_nat)

lemma size32_of_sint: "0 \<le> sint w \<Longrightarrow> size32 (nat (sint w)) = w"
  by (simp add: size32_def)

lemma readUTF8String_Inr:
  assumes "readUTF8String b = Inr b'"
  obtains s where "consumes b (encodeStr s) b'"
proof -
  obtain w b1 b2 c where w: "readNumber 4 b = Some (w, b1)" and p: "0 < sint (intAt w)"
    and sk: "skip (nat (sint (intAt w) - 1)) b1 = (True, b2)" and c: "readNumber 1 b2 = Some (c, b')" "c = [0]"
    using assms by (auto simp: readUTF8String_def split: option.splits prod.splits if_splits)
  obtain s where s: "length s = nat (sint (intAt w) - 1)" "consumes b1 s b2"
    using skip_True [OF sk] .
  have "size32 (length s + 1) = intAt w"
    using s(1) p size32_of_sint [of "intAt w"] by (simp add: nat_diff_distrib)
  then have "w = le32 (size32 (length s + 1))"
    using le32_intAt [of w] readNumber_Some(2) [OF w] by simp
  then have "consumes b (encodeStr s) b'"
    using consumes_trans [OF readNumber_Some(1) [OF w] consumes_trans [OF s(2) readNumber_Some(1) [OF c(1)]]]
    by (simp add: encodeStr_def c(2))
  then show ?thesis
    by (rule that)
qed

lemma validateBinData_Inr:
  assumes "validateBinData i b = Inr b'"
  obtains k bs where "consumes b (encodeValue (BinDataValue k bs)) b'"
proof -
  obtain w b1 where w: "readNumber 4 b = Some (w, b1)" and p: "0 \<le> sint (intAt w)"
    and sk: "skipOr ''invalid bson'' i (nat (1 + sint (intAt w))) b1 = Inr b'"
    using assms by (auto simp: validateBinData_def split: option.splits if_splits)
  obtain c where c: "length c = nat (1 + sint (intAt w))" "consumes b1 c b'"
    using skipOr_Inr [OF sk] .
  obtain k bs where kb: "c = k # bs"
    using c(1) p by (cases c) auto
  have "size32 (length bs) = intAt w"
    using c(1) p size32_of_sint [of "intAt w"] by (simp add: kb nat_add_distrib)
  then have "w = le32 (size32 (length bs))"
    using le32_intAt [of w] readNumber_Some(2) [OF w] by simp
  then have "consumes b (encodeValue (BinDataValue k bs)) b'"
    using consumes_trans [OF readNumber_Some(1) [OF w] c(2)] by (simp add: kb)
  then show ?thesis
    by (rule that)
qed

lemma validateRegEx_Inr:
  assumes "validateRegEx b = Inr b'"
  obtains r f where "cstring r" "cstring f" "consumes b (encodeValue (RegExValue r f)) b'"
proof -
  obtain r b1 f where r: "readCString b = Inr (r, b1)" and f: "readCString b1 = Inr (f, b')"
    using assms by (auto simp: validateRegEx_def split: sum.splits)
  show ?thesis
    using that [of r f] readCString_Inr [OF r] readCString_Inr [OF f]
      consumes_trans [of b "r @ [0]" b1 "f @ [0]" b'] by simp
qed

lemma validateDBRef_Inr:
  assumes "validateDBRef i b = Inr b'"
  obtains n k where "length k = 12" "consumes b (encodeValue (DBRefValue n k)) b'"
proof -
  obtain b1 where n: "readUTF8String b = Inr b1" and k: "skipOr ''invalid bson length'' i 12 b1 = Inr b'"
    using assms by (auto simp: validateDBRef_def split: sum.splits)
  obtain n where n: "consumes b (encodeStr n) b1"
    using readUTF8String_Inr [OF n] .
  obtain k where "length k = 12" "consumes b1 k b'"
    using skipOr_Inr [OF k] .
  with that [of k n] consumes_trans [OF n] show ?thesis
    by simp
qed

lemma validateBool_Inr:
  assumes "validateBool i b = Inr b'"
  obtains x where "consumes b (encodeValue (BoolValue x)) b'"
proof -
  obtain c where c: "readNumber 1 b = Some (c, b')" "c = [0] \<or> c = [1]"
    using assms by (auto simp: validateBool_def split: option.splits if_splits)
  have "consumes b (encodeValue (BoolValue (c = [1]))) b'"
    using readNumber_Some(1) [OF c(1)] c(2) by auto
  then show ?thesis
    by (rule that)
qed

lemma skipOr_64:
  assumes "skipOr msg i 8 b = Inr b'"
  obtains x where "consumes b (le64 x) b'"
proof -
  obtain c where c: "length c = 8" "consumes b c b'"
    using skipOr_Inr [OF assms] .
  then show ?thesis
    using le64_exists [of c] that by auto
qed

lemma skipOr_128:
  assumes "skipOr msg i 16 b = Inr b'"
  obtains l h where "consumes b (le64 l @ le64 h) b'"
proof -
  obtain c where c: "length c = 16" "consumes b c b'"
    using skipOr_Inr [OF assms] .
  obtain l where "take 8 c = le64 l"
    using le64_exists [of "take 8 c"] c(1) by auto
  moreover obtain h where "drop 8 c = le64 h"
    using le64_exists [of "drop 8 c"] c(1) by auto
  ultimately have "c = le64 l @ le64 h"
    using append_take_drop_id [of 8 c] by simp
  then show ?thesis
    using c(2) that by simp
qed

lemma skipOr_32:
  assumes "skipOr msg i 4 b = Inr b'"
  obtains x where "consumes b (le32 x) b'"
proof -
  obtain c where c: "length c = 4" "consumes b c b'"
    using skipOr_Inr [OF assms] .
  then show ?thesis
    using le32_intAt [of c] that [of "intAt c"] by simp
qed

definition plainRead :: "BSONType \<Rightarrow> Buffer \<Rightarrow> Buffer \<Rightarrow> bool" where
  "plainRead ty b b' \<longleftrightarrow>
     (\<exists>v. valueType v = ty \<and> \<not> nested v \<and> wfValue (b_version b) v \<and> consumes b (encodeValue v) b')"

lemma plainReadI:
  assumes "consumes b (encodeValue v) b'" "valueType v = ty" "\<not> nested v" "wfValue (b_version b) v"
  shows "plainRead ty b b'"
  using assms by (auto simp: plainRead_def)

lemma plainRead_empty:
  "plainRead MinKey b b" "plainRead MaxKey b b" "plainRead jstNULL b b" "plainRead Undefined b b"
  by (rule plainReadI [where v = MinKeyValue] plainReadI [where v = MaxKeyValue]
      plainReadI [where v = NullValue] plainReadI [where v = UndefinedValue]; simp add: nested_def)+

lemma plainRead_64:
  assumes "skipOr msg i 8 b = Inr b'" "ty \<in> {NumberDouble, NumberLong, bsonTimestamp, Date}"
  shows "plainRead ty b b'"
proof -
  obtain x where x: "consumes b (le64 x) b'"
    using skipOr_64 [OF assms(1)] .
  with plainReadI [of b "DoubleValue x" b' ty] plainReadI [of b "LongValue x" b' ty]
    plainReadI [of b "TimestampValue x" b' ty] plainReadI [of b "DateValue x" b' ty] assms(2)
  show ?thesis
    by (elim insertE emptyE) (simp_all add: nested_def)
qed

lemma plainRead_str:
  assumes "readUTF8String b = Inr b'" "ty \<in> {Code, Symbol, String}"
  shows "plainRead ty b b'"
proof -
  obtain x where x: "consumes b (encodeStr x) b'"
    using readUTF8String_Inr [OF assms(1)] .
  with plainReadI [of b "CodeValue x" b' ty] plainReadI [of b "SymbolValue x" b' ty]
    plainReadI [of b "StringValue x" b' ty] assms(2)
  show ?thesis
    by (elim insertE emptyE) (simp_all add: nested_def)
qed

lemma plainRead_oid: "skipOr msg i 12 b = Inr b' \<Longrightarrow> plainRead jstOID b b'"
  by (erule skipOr_Inr) (auto intro: plainReadI [of b "OIDValue _"] simp: nested_def)

lemma plainRead_int: "skipOr msg i 4 b = Inr b' \<Longrightarrow> plainRead NumberInt b b'"
  by (erule skipOr_32) (auto intro: plainReadI [of b "IntValue _"] simp: nested_def)

lemma plainRead_decimal:
  "skipOr msg i 16 b = Inr b' \<Longrightarrow> b_version b \<noteq> kV1_0 \<Longrightarrow> plainRead NumberDecimal b b'"
  by (erule skipOr_128) (auto intro: plainReadI [of b "DecimalValue _ _"] simp: nested_def)

lemma plainRead_bool: "validateBool i b = Inr b' \<Longrightarrow> plainRead Bool b b'"
  by (erule validateBool_Inr) (erule plainReadI; simp add: nested_def)

lemma plainRead_dbref: "validateDBRef i b = Inr b' \<Longrightarrow> plainRead DBRef b b'"
  by (erule validateDBRef_Inr) (erule plainReadI; simp add: nested_def)

lemma plainRead_regex: "validateRegEx b = Inr b' \<Longrightarrow> plainRead RegEx b b'"
  by (erule validateRegEx_Inr) (erule plainReadI; simp add: nested_def)

lemma plainRead_bin: "validateBinData i b = Inr b' \<Longrightarrow> plainRead BinData b b'"
  by (erule validateBinData_Inr) (erule plainReadI; simp add: nested_def)

lemma validatePlain_Inr:
  assumes "validatePlain ty i b = Inr b'"
  shows "plainRead ty b b'"
  using assms unfolding validatePlain_def
  by (auto split: if_splits intro: plainRead_64 plainRead_str plainRead_oid plainRead_int plainRead_bool
      plainRead_decimal plainRead_dbref plainRead_regex plainRead_bin plainRead_empty)

text \<open>What one call of \<^verbatim>\<open>validateElementInfo\<close> consumes, by the state it asks for.\<close>

definition headerOf :: "BSONType \<Rightarrow> byte list \<Rightarrow> byte list" where
  "headerOf ty n = of_int (typeCode ty) # n @ [0]"

definition elementRead :: "ValidationState option \<Rightarrow> byte list \<Rightarrow> Buffer \<Rightarrow> Buffer \<Rightarrow> bool" where
  "elementRead nx name b b' \<longleftrightarrow> (case nx of
       None \<Rightarrow> \<exists>v. \<not> nested v \<and> wfValue (b_version b) v \<and> cstring name \<and> consumes b (encodeElem name v) b'
     | Some EndObj \<Rightarrow> consumes b [0] b'
     | Some BeginObj \<Rightarrow> cstring name \<and> (\<exists>ty \<in> {Object, Array}. consumes b (headerOf ty name) b')
     | Some BeginCodeWScope \<Rightarrow> cstring name \<and> consumes b (headerOf CodeWScope name) b'
     | _ \<Rightarrow> False)"

lemma validateElementInfo_Inr:
  assumes "validateElementInfo i b = Inr (nx, name, b')"
  shows "elementRead nx name b b'"
proof -
  obtain t b1 where t: "readNumber 1 b = Some (t, b1)"
    using assms by (auto simp: validateElementInfo_def split: option.splits)
  obtain tb where tb: "t = [tb]"
    using readNumber_Some(2) [OF t] by (cases t) auto
  have c1: "consumes b [tb] b1"
    using readNumber_Some(1) [OF t] tb by simp
  show ?thesis
  proof (cases "sint tb = 0")
    case True
    then have "tb = 0"
      by (metis signed_0 signed_word_eqI)
    then show ?thesis
      using assms t tb True c1 by (auto simp: validateElementInfo_def elementRead_def)
  next
    case False
    then obtain n b2 ty where n: "readCString b1 = Inr (n, b2)" and ty: "toBSONType (sint tb) = Some ty"
      using assms t tb by (auto simp: validateElementInfo_def split: sum.splits option.splits)
    have "tb = of_int (sint tb)"
      by simp
    then have tb': "tb = of_int (typeCode ty)"
      using ty by (simp only: toBSONType_eq_Some)
    have c2: "consumes b (headerOf ty n) b2" "cstring n"
      using consumes_trans [OF c1 readCString_Inr(1) [OF n]] tb' readCString_Inr(2) [OF n]
      by (simp_all add: headerOf_def)
    have plain: "elementRead None n b b3" if r: "plainRead ty b2 b3" for b3
    proof -
      obtain v where v: "valueType v = ty" "\<not> nested v" "wfValue (b_version b2) v"
        "consumes b2 (encodeValue v) b3"
        using r by (auto simp: plainRead_def)
      have "headerOf ty n @ encodeValue v = encodeElem n v"
        using v(1) by (simp add: encodeElem_def typeByte_def headerOf_def)
      with consumes_trans [OF c2(1) v(4)] v c2 consumes_simps(3) [OF c2(1)] show ?thesis
        by (auto simp: elementRead_def)
    qed
    show ?thesis
      using assms t tb False n ty c2 plain validatePlain_Inr [of ty i b2]
      by (auto simp: validateElementInfo_def elementRead_def
          split: if_splits sum.splits)
  qed
qed

section \<open>The loop ends\<close>

definition weight :: "Validation \<Rightarrow> nat" where
  "weight v = 2 * (length (b_buffer (v_buffer v)) - b_position (v_buffer v)) + length (v_frames v)"

lemma adoptIdElem_simps [simp]:
  "v_frames (adoptIdElem v) = v_frames v" "v_state (adoptIdElem v) = v_state v"
  "b_buffer (v_buffer (adoptIdElem v)) = b_buffer (v_buffer v)"
  "b_position (v_buffer (adoptIdElem v)) = b_position (v_buffer v)"
  "b_version (v_buffer (adoptIdElem v)) = b_version (v_buffer v)"
  by (simp_all add: adoptIdElem_def)

lemma elementRead_consumes: "elementRead nx name b b' \<Longrightarrow> \<exists>c. c \<noteq> [] \<and> consumes b c b'"
  by (cases nx; (cases "the nx")?) (auto simp: elementRead_def encodeElem_def headerOf_def)

lemma withinObj_Inr:
  assumes "withinObj v = Inr v'"
  obtains nx name where "elementRead nx name (v_buffer (adoptIdElem v)) (v_buffer v')"
    and "v_frames v' = v_frames v" and "v_state v' = (case nx of None \<Rightarrow> WithinObj | Some st \<Rightarrow> st)"
  using assms
  by (auto simp: withinObj_def Let_def dest!: validateElementInfo_Inr split: sum.splits)

lemma withinObj_weight:
  assumes "withinObj v = Inr v'"
  shows "weight v' < weight v" and "b_position (v_buffer v) < b_position (v_buffer v')"
    and "b_position (v_buffer v') \<le> length (b_buffer (v_buffer v'))"
    and "b_buffer (v_buffer v') = b_buffer (v_buffer v)"
proof -
  obtain nx name where r: "elementRead nx name (v_buffer (adoptIdElem v)) (v_buffer v')"
    and f: "v_frames v' = v_frames v"
    using withinObj_Inr [OF assms] .
  obtain c where c: "c \<noteq> []" "consumes (v_buffer (adoptIdElem v)) c (v_buffer v')"
    using elementRead_consumes [OF r] by auto
  have l: "b_position (v_buffer v) + length c \<le> length (b_buffer (v_buffer v))"
    using consumes_le [OF c(2)] c(1) by simp
  show "b_position (v_buffer v) < b_position (v_buffer v')"
    "b_position (v_buffer v') \<le> length (b_buffer (v_buffer v'))"
    "b_buffer (v_buffer v') = b_buffer (v_buffer v)"
    using consumes_simps [OF c(2)] c(1) l by simp_all
  then have "length (b_buffer (v_buffer v)) - b_position (v_buffer v') <
      length (b_buffer (v_buffer v)) - b_position (v_buffer v)"
    by (intro diff_less_mono2) simp_all
  with f \<open>b_buffer (v_buffer v') = b_buffer (v_buffer v)\<close> show "weight v' < weight v"
    by (simp add: weight_def)
qed

lemma validateStep_weight:
  assumes "validateStep junk v = Inr v'"
  shows "weight v' < weight v"
proof (cases "v_state v")
  case BeginObj
  let ?b = "v_buffer v"
  obtain w b' where w: "readNumber 4 ?b = Some (w, b')" and
    i: "withinObj (v \<lparr> v_state := WithinObj, v_buffer := b',
             v_frames := newFrame junk (b_position ?b) False (intAt w) # v_frames v \<rparr>) = Inr v'"
    using assms BeginObj by (auto simp: validateStep_def Let_def split: option.splits)
  have "b_buffer b' = b_buffer ?b" "b_position b' = b_position ?b + 4"
    using consumes_simps [OF readNumber_Some(1) [OF w]] readNumber_Some(2) [OF w] by simp_all
  moreover have "b_position ?b + 4 \<le> length (b_buffer ?b)"
    using w by (simp add: readNumber_def split: if_splits)
  ultimately show ?thesis
    using withinObj_weight(1) [OF i] by (simp add: weight_def)
next
  case WithinObj
  then show ?thesis
    using assms withinObj_weight(1) by (simp add: validateStep_def Let_def)
next
  case BeginCodeWScope
  let ?b = "v_buffer v"
  obtain w b' b'' where w: "readNumber 4 ?b = Some (w, b')" and s: "readUTF8String b' = Inr b''"
    and v': "v' = v \<lparr> v_state := BeginObj, v_buffer := b'',
                 v_frames := newFrame junk (b_position ?b) True (intAt w) # v_frames v \<rparr>"
    using assms BeginCodeWScope by (auto simp: validateStep_def Let_def split: option.splits sum.splits)
  obtain t where "consumes b' (encodeStr t) b''"
    using readUTF8String_Inr [OF s] .
  note c = consumes_trans [OF readNumber_Some(1) [OF w] this]
  have "length w = 4" "w \<noteq> []"
    using readNumber_Some(2) [OF w] by auto
  then show ?thesis
    using consumes_simps [OF c] consumes_le [OF c] by (simp add: weight_def v')
qed (use assms in \<open>auto simp: validateStep_def Let_def weight_def split: list.splits if_splits\<close>)

function validateLoop :: "32 word \<Rightarrow> Validation \<Rightarrow> ValidateStatus" where
  "validateLoop junk v =
     (if v_state v = Done then ValidateOK
      else (case validateStep junk v of Inl s \<Rightarrow> s | Inr v' \<Rightarrow> validateLoop junk v'))"
  by auto
termination
  by (relation "measure (\<lambda>(junk, v). weight v)") (auto dest: validateStep_weight)

declare validateLoop.simps [simp del]

definition validateBSON :: "32 word \<Rightarrow> BSONVersion \<Rightarrow> byte list \<Rightarrow> ValidateStatus" where
  "validateBSON junk ver buf =
     (if length buf < 5 then InvalidBSON ''bson data has to be at least 5 bytes'' None
      else validateLoop junk \<lparr> v_state = BeginObj, v_frames = [],
        v_buffer = \<lparr> b_buffer = buf, b_position = 0, b_version = ver, b_idElem = None \<rparr>,
        v_idElemStartPos = 0, v_idElem = None \<rparr>)"

end
