(* ===== verification/Bson_Validate_Exact.thy ===== *)
theory Bson_Validate_Exact
  imports Bson_Validate
begin

text \<open>
  The validator accepts exactly the documents.

  The lemmas follow the stack of frames of \<^verbatim>\<open>validateBSONIterative\<close> with the partial documents the
  frames stand for (\<open>follows\<close>), so that whatever is accepted is an encoding, and run the loop over
  an encoding (\<open>runs\<close>), so that every encoding is accepted.  With the round trip of the reader this
  gives that a validated buffer can be read.
\<close>

section \<open>What the frames stand for\<close>

text \<open>An entry for each frame: the document it has read so far; the same document with the header
  of a nested value after it, once the frame of that value is above; or the code of a CodeWScope.\<close>

datatype Open = OpenDoc "32 word" Doc | Pending "32 word" Doc BSONType "byte list"
  | OpenScope "32 word" "byte list"

fun openBytes :: "Open \<Rightarrow> byte list" where
  "openBytes (OpenDoc e d) = le32 e @ encodeElems d"
| "openBytes (Pending e d ty n) = le32 e @ encodeElems d @ headerOf ty n"
| "openBytes (OpenScope e c) = le32 e @ encodeStr c"

fun openSize :: "Open \<Rightarrow> 32 word" where
  "openSize (OpenDoc e d) = e"
| "openSize (Pending e d ty n) = e"
| "openSize (OpenScope e c) = e"

fun openScope :: "Open \<Rightarrow> bool" where
  "openScope (OpenScope e c) = True"
| "openScope g = False"

primrec stackBytes :: "Open list \<Rightarrow> byte list" where
  "stackBytes [] = []"
| "stackBytes (g # gs) = stackBytes gs @ openBytes g"

fun startable :: "BSONVersion \<Rightarrow> Open list \<Rightarrow> bool" where
  "startable ver [] = True"
| "startable ver (Pending e d ty n # gs) =
    (ty \<in> {Object, Array} \<and> wfDoc ver d \<and> cstring n \<and> startable ver gs)"
| "startable ver (OpenScope e c # Pending e' d ty n # gs) =
    (ty = CodeWScope \<and> wfDoc ver d \<and> cstring n \<and> startable ver gs)"
| "startable ver gs = False"

primrec matches :: "Open list \<Rightarrow> ValidationObjectFrame list \<Rightarrow> bool" where
  "matches [] fs = (fs = [])"
| "matches (g # gs) fs = (case fs of [] \<Rightarrow> False | f # fs' \<Rightarrow>
     startPosition f = length (stackBytes gs) \<and> f_expectedSize f = openSize g \<and>
     isCodeWithScope f = openScope g \<and> matches gs fs')"

fun stateOk :: "BSONVersion \<Rightarrow> ValidationState \<Rightarrow> Open list \<Rightarrow> byte list \<Rightarrow> bool" where
  "stateOk ver BeginObj gs rest = (startable ver gs \<and> rest = [])"
| "stateOk ver WithinObj gs rest =
    (\<exists>e d gs'. gs = OpenDoc e d # gs' \<and> wfDoc ver d \<and> startable ver gs' \<and> rest = [])"
| "stateOk ver EndObj gs rest =
    (\<exists>e d gs'. gs = OpenDoc e d # gs' \<and> wfDoc ver d \<and> startable ver gs' \<and> rest = [0])"
| "stateOk ver BeginCodeWScope gs rest =
    (\<exists>e d n gs'. gs = Pending e d CodeWScope n # gs' \<and> wfDoc ver d \<and> cstring n \<and> startable ver gs' \<and>
      rest = [])"
| "stateOk ver EndCodeWScope gs rest =
    (\<exists>e c e' d n gs' x. gs = OpenScope e c # Pending e' d CodeWScope n # gs' \<and> wfDoc ver d \<and>
      cstring n \<and> startable ver gs' \<and> wfDoc ver x \<and> rest = encodeObj x)"
| "stateOk ver Done gs rest = (gs = [] \<and> (\<exists>d. wfDoc ver d \<and> rest = encodeObj d))"

definition follows :: "BSONVersion \<Rightarrow> byte list \<Rightarrow> Validation \<Rightarrow> bool" where
  "follows ver buf v \<longleftrightarrow> b_buffer (v_buffer v) = buf \<and> b_version (v_buffer v) = ver \<and>
     b_position (v_buffer v) \<le> length buf \<and>
     (\<exists>gs rest. matches gs (v_frames v) \<and> take (b_position (v_buffer v)) buf = stackBytes gs @ rest \<and>
       stateOk ver (v_state v) gs rest)"

lemma bit_mask31: "bit flagBit n \<longleftrightarrow> n = 31"
  by (simp only: flagBit_def push_bit_of_1 bit_exp_iff) auto

lemma flagBit_nonzero: "flagBit \<noteq> 0"
  using bit_mask31 [of 31] by auto

lemma and_not_mask31:
  assumes "pos < 2 ^ 31"
  shows "(of_nat pos :: 32 word) AND NOT flagBit = of_nat pos"
proof (rule bit_word_eqI)
  fix n :: nat
  assume n: "n < LENGTH(32)"
  have "\<not> bit pos 31"
    using assms by (simp add: bit_iff_odd div_less)
  then show "bit ((of_nat pos :: 32 word) AND NOT flagBit) n = bit (of_nat pos :: 32 word) n"
    using n by (auto simp: bit_and_iff bit_not_iff bit_mask31 bit_of_nat_iff)
qed

lemma newFrame_simps:
  assumes "pos < 2 ^ 31"
  shows "startPosition (newFrame junk pos c e) = pos" and "isCodeWithScope (newFrame junk pos c e) = c"
    and "f_expectedSize (newFrame junk pos c e) = e"
proof -
  have "f_startPosition (newFrame junk pos c e) AND NOT flagBit = of_nat pos AND NOT flagBit"
    by (rule bit_word_eqI) (auto simp: newFrame_def setIsCodeWithScope_def setStartPosition_def
      bit_and_iff bit_or_iff bit_not_iff bit_mask31)
  then show "startPosition (newFrame junk pos c e) = pos"
    using assms by (simp add: startPosition_def and_not_mask31 unat_of_nat)
  have "f_startPosition (newFrame junk pos c e) AND flagBit = (if c then flagBit else 0)"
    by (rule bit_word_eqI) (auto simp: newFrame_def setIsCodeWithScope_def setStartPosition_def
      bit_and_iff bit_or_iff bit_not_iff bit_mask31)
  then show "isCodeWithScope (newFrame junk pos c e) = c"
    by (simp add: isCodeWithScope_def flagBit_nonzero)
qed (simp add: newFrame_def)

section \<open>Only encodings are accepted\<close>

lemma followsI:
  assumes "b_buffer (v_buffer v) = buf" "b_version (v_buffer v) = ver" "b_position (v_buffer v) \<le> length buf"
    and "matches gs (v_frames v)" "take (b_position (v_buffer v)) buf = stackBytes gs @ rest"
    and "stateOk ver (v_state v) gs rest"
  shows "follows ver buf v"
  using assms by (auto simp: follows_def)

lemma matches_top: "matches (g # gs) fs \<Longrightarrow> openSize h = openSize g \<Longrightarrow> openScope h = openScope g \<Longrightarrow>
    matches (h # gs) fs"
  by (auto split: list.splits)

lemma withinObj_follows:
  assumes i: "withinObj v = Inr v'"
    and b: "b_buffer (v_buffer v) = buf" "b_version (v_buffer v) = ver"
    and m: "matches (OpenDoc e d # gs) (v_frames v)"
    and t: "take (b_position (v_buffer v)) buf = stackBytes (OpenDoc e d # gs)"
    and ok: "wfDoc ver d" "startable ver gs"
  shows "follows ver buf v'"
proof -
  obtain nx name where r: "elementRead nx name (v_buffer (adoptIdElem v)) (v_buffer v')"
    and f: "v_frames v' = v_frames v" and st: "v_state v' = (case nx of None \<Rightarrow> WithinObj | Some st \<Rightarrow> st)"
    using withinObj_Inr [OF i] .
  have p: "b_position (v_buffer v') \<le> length buf" "b_buffer (v_buffer v') = buf"
    using withinObj_weight(3,4) [OF i] b by simp_all
  have ver: "b_version (v_buffer v') = ver"
    using elementRead_consumes [OF r] consumes_simps(3) b by force
  have tk: "take (b_position (v_buffer v')) buf = stackBytes (OpenDoc e d # gs) @ c"
    if "consumes (v_buffer (adoptIdElem v)) c (v_buffer v')" for c
    using consumes_take [OF that] b t by simp
  note fI = followsI [OF p(2) ver p(1)]
  consider (plain) w where "nx = None" "wfValue ver w" "cstring name"
      "consumes (v_buffer (adoptIdElem v)) (encodeElem name w) (v_buffer v')"
    | (eoo) "nx = Some EndObj" "consumes (v_buffer (adoptIdElem v)) [0] (v_buffer v')"
    | (obj) ty where "nx = Some BeginObj" "cstring name" "ty \<in> {Object, Array}"
      "consumes (v_buffer (adoptIdElem v)) (headerOf ty name) (v_buffer v')"
    | (scope) "nx = Some BeginCodeWScope" "cstring name"
      "consumes (v_buffer (adoptIdElem v)) (headerOf CodeWScope name) (v_buffer v')"
    using r b by (cases nx; (cases "the nx")?) (auto simp: elementRead_def)
  then show ?thesis
  proof cases
    case plain
    let ?d = "appendDoc d (Field name w EndDoc)"
    show ?thesis
      by (rule fI [of "OpenDoc e ?d # gs" "[]"])
        (use m f st plain tk [OF plain(4)] ok in
          \<open>auto simp: encodeElems_append encodeElem_def split: list.splits\<close>)
  next
    case eoo
    show ?thesis
      by (rule fI [of "OpenDoc e d # gs" "[0]"])
        (use m f st eoo tk [OF eoo(2)] ok in \<open>auto split: list.splits\<close>)
  next
    case obj
    show ?thesis
      by (rule fI [of "Pending e d ty name # gs" "[]"])
        (use m f st obj tk [OF obj(4)] ok in \<open>auto split: list.splits\<close>)
  next
    case scope
    show ?thesis
      by (rule fI [of "Pending e d CodeWScope name # gs" "[]"])
        (use m f st scope tk [OF scope(3)] ok in \<open>auto split: list.splits\<close>)
  qed
qed

lemma lengthMatches_iff:
  assumes "startPosition cur = p" "b_position (v_buffer v) = p + n"
  shows "lengthMatches v cur \<longleftrightarrow> f_expectedSize cur = size32 n"
proof -
  have "int (b_position (v_buffer v)) - int (startPosition cur) = int n"
    using assms by simp
  then show ?thesis
    by (auto simp: lengthMatches_def size32_def)
qed

lemma encodeElem_nested:
  "headerOf Object n @ encodeObj d = encodeElem n (ObjectValue d)"
  "headerOf Array n @ encodeObj d = encodeElem n (ArrayValue d)"
  "headerOf CodeWScope n @ le32 (size32 (length (encodeStr c) + length (encodeObj d) + 4)) @ encodeStr c @
    encodeObj d = encodeElem n (CodeWScopeValue c d)"
  by (simp_all add: headerOf_def encodeElem_def encodeObj_def typeByte_def add.commute add.left_commute)

lemma endObj_follows:
  assumes s: "validateStep junk v = Inr v'" "v_state v = EndObj" and b: "b_buffer (v_buffer v) = buf"
      "b_version (v_buffer v) = ver" "b_position (v_buffer v) \<le> length buf"
    and m: "matches (OpenDoc e d # gs) (v_frames v)"
    and t: "take (b_position (v_buffer v)) buf = stackBytes (OpenDoc e d # gs) @ [0]"
    and ok: "wfDoc ver d" "startable ver gs"
  shows "follows ver buf v'"
proof -
  obtain f fs where f: "v_frames v = f # fs" "startPosition f = length (stackBytes gs)"
    "f_expectedSize f = e" "matches gs fs"
    using m by (auto split: list.splits)
  have "b_position (v_buffer v) = length (stackBytes gs) + (length (encodeElems d) + 5)"
    using arg_cong [where f = length, OF t] b(3) by simp
  from lengthMatches_iff [OF f(2) this] s f have e: "e = size32 (length (encodeElems d) + 5)"
    and v': "v' = v \<lparr> v_frames := fs, v_state := (case fs of [] \<Rightarrow> Done
               | f # fs' \<Rightarrow> if isCodeWithScope f then EndCodeWScope else WithinObj) \<rparr>"
    by (auto simp: validateStep_def split: if_splits)
  have t': "take (b_position (v_buffer v)) buf = stackBytes gs @ encodeObj d"
    using t e by (simp add: encodeObj_def wrapObj_def)
  have v'b: "v_buffer v' = v_buffer v" "v_frames v' = fs"
    using v' by simp_all
  from ok(2) show ?thesis
  proof (cases "(ver, gs)" rule: startable.cases)
    case (1 ver')
    then show ?thesis
      using b f(4) t' v' ok by (intro followsI [of v' buf ver "[]" "encodeObj d"]) auto
  next
    case (2 ver' e' d' ty n gs')
    define x where "x = (if ty = Object then ObjectValue d else ArrayValue d)"
    have x: "headerOf ty n @ encodeObj d = encodeElem n x" "wfValue ver x"
      using 2 ok encodeElem_nested(1,2) [of n d] by (auto simp: x_def)
    show ?thesis
      by (rule followsI [of v' buf ver "OpenDoc e' (appendDoc d' (Field n x EndDoc)) # gs'" "[]"])
        (use b f(4) t' v' v'b ok x 2 in \<open>auto simp: encodeElems_append encodeElem_def split: list.splits\<close>)
  next
    case (3 ver' e' c e'' d'' ty n gs')
    show ?thesis
      by (rule followsI [of v' buf ver gs "encodeObj d"])
        (use b f(4) t' v' v'b ok 3 in \<open>auto split: list.splits\<close>)
  qed (use ok in simp_all)
qed

lemma endScope_follows:
  assumes s: "validateStep junk v = Inr v'" "v_state v = EndCodeWScope" and b: "b_buffer (v_buffer v) = buf"
      "b_version (v_buffer v) = ver" "b_position (v_buffer v) \<le> length buf"
    and m: "matches (OpenScope e c # Pending e' d CodeWScope n # gs) (v_frames v)"
    and t: "take (b_position (v_buffer v)) buf =
      stackBytes (OpenScope e c # Pending e' d CodeWScope n # gs) @ encodeObj x"
    and ok: "wfDoc ver d" "cstring n" "startable ver gs" "wfDoc ver x"
  shows "follows ver buf v'"
proof -
  let ?gs = "Pending e' d CodeWScope n # gs" and ?k = "length (encodeStr c) + length (encodeObj x) + 4"
  obtain f fs where f: "v_frames v = f # fs" "startPosition f = length (stackBytes ?gs)"
    "f_expectedSize f = e" "matches ?gs fs"
    using m by (auto split: list.splits)
  have "b_position (v_buffer v) = length (stackBytes ?gs) + ?k"
    using arg_cong [where f = length, OF t] b(3) by simp
  from lengthMatches_iff [OF f(2) this] s f have e: "e = size32 ?k"
    and v': "v' = v \<lparr> v_frames := fs, v_state := WithinObj \<rparr>"
    by (auto simp: validateStep_def split: if_splits)
  have "take (b_position (v_buffer v)) buf =
      stackBytes gs @ le32 e' @ encodeElems d @ encodeElem n (CodeWScopeValue c x)"
    using t unfolding e encodeElem_nested(3) [symmetric] by simp
  then show ?thesis
    by (intro followsI [of v' buf ver "OpenDoc e' (appendDoc d (Field n (CodeWScopeValue c x) EndDoc)) # gs" "[]"])
      (use b f(4) v' ok in \<open>auto simp: encodeElems_append encodeElem_def split: list.splits\<close>)
qed

lemma beginObj_follows:
  assumes s: "validateStep junk v = Inr v'" "v_state v = BeginObj" and b: "b_buffer (v_buffer v) = buf"
      "b_version (v_buffer v) = ver" "b_position (v_buffer v) \<le> length buf" "length buf < 2 ^ 31"
    and m: "matches gs (v_frames v)" and t: "take (b_position (v_buffer v)) buf = stackBytes gs"
    and ok: "startable ver gs"
  shows "follows ver buf v'"
proof -
  let ?b = "v_buffer v"
  obtain w b' where w: "readNumber 4 ?b = Some (w, b')" and
    i: "withinObj (v \<lparr> v_state := WithinObj, v_buffer := b',
             v_frames := newFrame junk (b_position ?b) False (intAt w) # v_frames v \<rparr>) = Inr v'"
    using s by (auto simp: validateStep_def Let_def split: option.splits)
  have w': "w = le32 (intAt w)"
    using le32_intAt [of w] readNumber_Some(2) [OF w] by simp
  note c = readNumber_Some(1) [OF w]
  have p: "b_position ?b = length (stackBytes gs)" "b_position ?b < 2 ^ 31"
    using arg_cong [where f = length, OF t] b by simp_all
  have t': "take (b_position b') buf = stackBytes gs @ le32 (intAt w)"
    using consumes_take [OF c] b t w' by simp
  show ?thesis
    by (rule withinObj_follows [OF i, of buf ver "intAt w" EndDoc gs])
      (use consumes_simps [OF c] b m t' ok p newFrame_simps [OF p(2)] in simp_all)
qed

lemma beginScope_follows:
  assumes s: "validateStep junk v = Inr v'" "v_state v = BeginCodeWScope" and b: "b_buffer (v_buffer v) = buf"
      "b_version (v_buffer v) = ver" "b_position (v_buffer v) \<le> length buf" "length buf < 2 ^ 31"
    and m: "matches (Pending e d CodeWScope n # gs) (v_frames v)"
    and t: "take (b_position (v_buffer v)) buf = stackBytes (Pending e d CodeWScope n # gs)"
    and ok: "wfDoc ver d" "cstring n" "startable ver gs"
  shows "follows ver buf v'"
proof -
  let ?b = "v_buffer v" and ?gs = "Pending e d CodeWScope n # gs"
  obtain w b' b'' where w: "readNumber 4 ?b = Some (w, b')" and r: "readUTF8String b' = Inr b''"
    and v': "v' = v \<lparr> v_state := BeginObj, v_buffer := b'',
                 v_frames := newFrame junk (b_position ?b) True (intAt w) # v_frames v \<rparr>"
    using s by (auto simp: validateStep_def Let_def split: option.splits sum.splits)
  have w': "w = le32 (intAt w)" "w \<noteq> []"
    using le32_intAt [of w] readNumber_Some(2) [OF w] by auto
  obtain x where "consumes b' (encodeStr x) b''"
    using readUTF8String_Inr [OF r] .
  note c = consumes_trans [OF readNumber_Some(1) [OF w] this]
  have p: "b_position ?b = length (stackBytes ?gs)" "b_position ?b < 2 ^ 31"
    using arg_cong [where f = length, OF t] b by simp_all
  have t': "take (b_position b'') buf = stackBytes ?gs @ le32 (intAt w) @ encodeStr x"
    using consumes_take [OF c] b t w' by simp
  have l: "b_position b'' \<le> length buf"
    using consumes_le [OF c] consumes_simps [OF c] w' b by simp
  show ?thesis
    by (rule followsI [of v' buf ver "OpenScope (intAt w) x # ?gs" "[]"])
      (use consumes_simps [OF c] b m t' ok p l v' newFrame_simps [OF p(2)] in simp_all)
qed

lemma validateStep_follows:
  assumes f: "follows ver buf v" and s: "validateStep junk v = Inr v'" and l: "length buf < 2 ^ 31"
  shows "follows ver buf v'"
proof -
  obtain gs rest where b: "b_buffer (v_buffer v) = buf" "b_version (v_buffer v) = ver"
      "b_position (v_buffer v) \<le> length buf"
    and m: "matches gs (v_frames v)" and t: "take (b_position (v_buffer v)) buf = stackBytes gs @ rest"
    and ok: "stateOk ver (v_state v) gs rest"
    using f by (auto simp: follows_def)
  show ?thesis
  proof (cases "v_state v")
    case BeginObj
    with s b m t ok l show ?thesis
      by (auto intro: beginObj_follows)
  next
    case WithinObj
    with ok obtain e d gs' where "gs = OpenDoc e d # gs'" "wfDoc ver d" "startable ver gs'" "rest = []"
      by auto
    moreover have "withinObj v = Inr v'"
      using s WithinObj by (simp add: validateStep_def Let_def)
    ultimately show ?thesis
      using withinObj_follows [of v v' buf ver e d gs'] b m t by simp
  next
    case EndObj
    with ok obtain e d gs' where "gs = OpenDoc e d # gs'" "wfDoc ver d" "startable ver gs'" "rest = [0]"
      by auto
    with endObj_follows [OF s EndObj b] m t show ?thesis
      by simp
  next
    case BeginCodeWScope
    with ok obtain e d n gs' where "gs = Pending e d CodeWScope n # gs'" "wfDoc ver d" "cstring n"
      "startable ver gs'" "rest = []"
      by auto
    with beginScope_follows [OF s BeginCodeWScope b l] m t show ?thesis
      by simp
  next
    case EndCodeWScope
    with ok obtain e c e' d n gs' x where "gs = OpenScope e c # Pending e' d CodeWScope n # gs'"
      "wfDoc ver d" "cstring n" "startable ver gs'" "wfDoc ver x" "rest = encodeObj x"
      by auto
    with endScope_follows [OF s EndCodeWScope b] m t show ?thesis
      by simp
  qed (use s in \<open>simp add: validateStep_def\<close>)
qed

lemma reads_not_OK:
  "readUTF8String b \<noteq> Inl ValidateOK" "readCString b \<noteq> Inl ValidateOK" "skipOr m i n b \<noteq> Inl ValidateOK"
  "readUTF8String b \<noteq> Inl NoFrame" "readCString b \<noteq> Inl NoFrame" "skipOr m i n b \<noteq> Inl NoFrame"
  by (auto simp: readUTF8String_def readCString_def skipOr_def Let_def split: option.splits prod.splits
      if_splits)

lemma plain_not_OK:
  "validateBool i b \<noteq> Inl ValidateOK" "validateDBRef i b \<noteq> Inl ValidateOK"
  "validateRegEx b \<noteq> Inl ValidateOK" "validateBinData i b \<noteq> Inl ValidateOK"
  "validateBool i b \<noteq> Inl NoFrame" "validateDBRef i b \<noteq> Inl NoFrame"
  "validateRegEx b \<noteq> Inl NoFrame" "validateBinData i b \<noteq> Inl NoFrame"
  by (simp_all add: validateBool_def validateDBRef_def validateRegEx_def validateBinData_def reads_not_OK
      split: option.splits sum.splits, insert reads_not_OK) metis+

lemma validatePlain_not_OK: "validatePlain ty i b \<noteq> Inl ValidateOK" "validatePlain ty i b \<noteq> Inl NoFrame"
  by (simp_all add: validatePlain_def reads_not_OK plain_not_OK)

lemma validateElementInfo_not_OK:
  "validateElementInfo i b \<noteq> Inl ValidateOK" "validateElementInfo i b \<noteq> Inl NoFrame"
proof -
  have "validateElementInfo i b = Inl s \<Longrightarrow> s \<noteq> ValidateOK \<and> s \<noteq> NoFrame" for s
    using reads_not_OK(2,5) validatePlain_not_OK
    unfolding validateElementInfo_def
    by (simp split: option.splits prod.splits if_splits; fastforce split: sum.splits option.splits if_splits)
  then show "validateElementInfo i b \<noteq> Inl ValidateOK" "validateElementInfo i b \<noteq> Inl NoFrame"
    by blast+
qed

lemma withinObj_not_OK: "withinObj v \<noteq> Inl ValidateOK" "withinObj v \<noteq> Inl NoFrame"
  using validateElementInfo_not_OK by (auto simp: withinObj_def Let_def split: sum.splits)

lemma validateStep_not_OK: "validateStep junk v \<noteq> Inl ValidateOK"
  using reads_not_OK withinObj_not_OK
  by (auto simp: validateStep_def Let_def split: ValidationState.splits option.splits sum.splits
      list.splits if_splits)

lemma validateStep_framed:
  assumes "follows ver buf v" "v_state v \<noteq> Done"
  shows "validateStep junk v \<noteq> Inl NoFrame"
  using assms reads_not_OK withinObj_not_OK
  by (cases "v_state v") (auto simp: validateStep_def Let_def follows_def split: option.splits sum.splits
      list.splits if_splits)

lemma validateLoop_sound:
  assumes "follows ver buf v" "length buf < 2 ^ 31" "validateLoop junk v = ValidateOK"
  shows "\<exists>d post. wfDoc ver d \<and> buf = encodeObj d @ post"
  using assms
proof (induction junk v rule: validateLoop.induct)
  case (1 junk v)
  show ?case
  proof (cases "v_state v = Done")
    case True
    with 1(2) obtain d where "wfDoc ver d" "take (b_position (v_buffer v)) buf = encodeObj d"
      by (auto simp: follows_def)
    then show ?thesis
      using append_take_drop_id [of "b_position (v_buffer v)" buf] by metis
  next
    case False
    note loop = 1(4) [unfolded validateLoop.simps [of junk v]]
    show ?thesis
    proof (cases "validateStep junk v")
      case (Inl st)
      with loop False validateStep_not_OK [of junk v] show ?thesis
        by simp
    next
      case (Inr v')
      with 1(1) [OF False Inr] loop False 1(2,3) validateStep_follows [OF 1(2) Inr 1(3)] show ?thesis
        by simp
    qed
  qed
qed

section \<open>Every encoding is accepted\<close>

definition reads :: "Buffer \<Rightarrow> byte list \<Rightarrow> byte list \<Rightarrow> bool" where
  "reads b c r \<longleftrightarrow> drop (b_position b) (b_buffer b) = c @ r"

definition after :: "Buffer \<Rightarrow> byte list \<Rightarrow> Buffer" where
  "after b c = b \<lparr> b_position := b_position b + length c \<rparr>"

lemma after_simps [simp]:
  "b_buffer (after b c) = b_buffer b" "b_version (after b c) = b_version b" "b_idElem (after b c) = b_idElem b"
  "b_position (after b c) = b_position b + length c" "after (after b c) c' = after b (c @ c')" "after b [] = b"
  by (simp_all add: after_def add.assoc)

lemma reads_append: "reads b (c @ c') r \<longleftrightarrow> reads b c (c' @ r)"
  by (simp add: reads_def)

lemma reads_after:
  assumes "reads b c (c' @ r)"
  shows "reads (after b c) c' r"
proof -
  have "drop (b_position b + length c) (b_buffer b) = drop (length c) (drop (b_position b) (b_buffer b))"
    by (simp add: add.commute)
  with assms show ?thesis
    by (simp add: reads_def)
qed

lemma reads_less: "reads b c r \<Longrightarrow> r \<noteq> [] \<Longrightarrow> b_position b + length c < length (b_buffer b)"
  by (drule arg_cong [where f = length, OF reads_def [THEN iffD1]]) (cases r; simp)

lemma reads_le: "reads b c r \<Longrightarrow> c \<noteq> [] \<Longrightarrow> b_position b + length c \<le> length (b_buffer b)"
  by (drule arg_cong [where f = length, OF reads_def [THEN iffD1]]) (cases c; simp)

lemma readNumber_reads:
  assumes "reads b c r" "length c = n" "0 < n"
  shows "readNumber n b = Some (c, after b c)"
  using assms reads_le [OF assms(1)] by (auto simp: readNumber_def reads_def after_def)

lemma readCString_reads:
  assumes "reads b (s @ [0]) r" "cstring s"
  shows "readCString b = Inr (s, after b (s @ [0]))"
  using assms takeWhile_cstring [OF assms(2), of r]
  by (simp add: readCString_def Let_def reads_def after_def)

lemma skip_reads:
  assumes "reads b c r" "r \<noteq> []" "length c = n"
  shows "skip n b = (True, after b c)"
  using assms(3) reads_less [OF assms(1,2)] by (simp add: skip_def after_def)

lemma skipOr_reads: "reads b c r \<Longrightarrow> r \<noteq> [] \<Longrightarrow> length c = n \<Longrightarrow> skipOr m i n b = Inr (after b c)"
  by (simp add: skipOr_def skip_reads)

lemma intAt_le32 [simp]: "intAt (le32 w) = w"
  using read32_le32 [of w "[]"] by (simp add: read32_def intAt_def)

lemma readUTF8String_reads:
  assumes r: "reads b (encodeStr s) r" and l: "length s + 1 < 2 ^ 31"
  shows "readUTF8String b = Inr (after b (encodeStr s))"
proof -
  let ?w = "le32 (size32 (length s + 1))"
  have r1: "reads b ?w (s @ 0 # r)"
    using r by (simp add: encodeStr_def reads_append)
  have r2: "reads (after b ?w) s (0 # r)"
    using reads_after [of b ?w s "0 # r"] r1 by simp
  have r3: "reads (after (after b ?w) s) [0] r"
    using reads_after [of "after b ?w" s "[0]" r] r2 by simp
  have n: "sint (size32 (length s + 1)) = int (length s) + 1"
    using sint_size32 [OF l] by simp
  show ?thesis
    using readNumber_reads [OF r1, of 4] skip_reads [OF r2, of "length s"] readNumber_reads [OF r3, of 1] n
    by (simp add: readUTF8String_def encodeStr_def)
qed

lemma validateBinData_reads:
  assumes r: "reads b (encodeValue (BinDataValue k bs)) r" "r \<noteq> []" and l: "length bs + 5 < 2 ^ 31"
  shows "validateBinData i b = Inr (after b (encodeValue (BinDataValue k bs)))"
proof -
  let ?w = "le32 (size32 (length bs))"
  have r1: "reads b ?w ((k # bs) @ r)"
    using r by (simp add: reads_append)
  have n: "sint (size32 (length bs)) = int (length bs)"
    using sint_size32 [of "length bs"] l by simp
  show ?thesis
    using readNumber_reads [OF r1, of 4] skipOr_reads [OF reads_after [OF r1] r(2), of "Suc (length bs)"] n l
    by (simp add: validateBinData_def nat_add_distrib)
qed

lemma validatePlain_reads:
  assumes r: "reads b (encodeValue v) r" "r \<noteq> []" and v: "\<not> nested v" "wfValue (b_version b) v"
    and l: "length (encodeValue v) < 2 ^ 31"
  shows "validatePlain (valueType v) i b = Inr (after b (encodeValue v))"
proof (cases v)
  case (RegExValue x f)
  have "reads b (x @ [0]) ((f @ [0]) @ r)"
    using r(1) RegExValue by (simp add: reads_append)
  from readCString_reads [OF this] readCString_reads [OF reads_after [OF this]] RegExValue v show ?thesis
    by (simp add: validatePlain_def validateRegEx_def)
next
  case (DBRefValue n k)
  have "reads b (encodeStr n) (k @ r)"
    using r(1) DBRefValue by (simp add: reads_append)
  from readUTF8String_reads [OF this] skipOr_reads [OF reads_after [OF this] r(2), of 12] DBRefValue v l
  show ?thesis
    by (simp add: validatePlain_def validateDBRef_def)
next
  case (BinDataValue k bs)
  then show ?thesis
    using r l validateBinData_reads [of b k bs r] by (simp add: validatePlain_def)
next
  case (BoolValue x)
  then show ?thesis
    using readNumber_reads [OF r(1), of 1] by (auto simp: validatePlain_def validateBool_def)
qed (use r v l readUTF8String_reads [of b _ r] skipOr_reads [OF r] in \<open>simp_all add: validatePlain_def nested_def\<close>)

lemma validateElementInfo_end:
  assumes "reads b [0] r"
  shows "validateElementInfo i b = Inr (Some EndObj, [], after b [0])"
  using readNumber_reads [OF assms, of 1] by (simp add: validateElementInfo_def)

lemma sint_typeCode [simp]: "sint (of_int (typeCode ty) :: byte) = typeCode ty"
  by (cases ty) simp_all

lemma validateElementInfo_header:
  assumes r: "reads b (headerOf ty n) r" and n: "cstring n" and ty: "ty \<noteq> EOO"
  shows "validateElementInfo i b =
    (if ty = CodeWScope then Inr (Some BeginCodeWScope, n, after b (headerOf ty n))
     else if ty = Object \<or> ty = Array then Inr (Some BeginObj, n, after b (headerOf ty n))
     else (case validatePlain ty i (after b (headerOf ty n)) of Inl s \<Rightarrow> Inl s | Inr b3 \<Rightarrow> Inr (None, n, b3)))"
proof -
  have r1: "reads b [of_int (typeCode ty)] ((n @ [0]) @ r)"
    using r by (simp add: headerOf_def reads_def)
  show ?thesis
    using readNumber_reads [OF r1, of 1] readCString_reads [OF reads_after [OF r1] n] ty
    by (simp add: validateElementInfo_def headerOf_def)
qed

lemma validateElementInfo_plain:
  assumes r: "reads b (encodeElem n v) r" "r \<noteq> []" and n: "cstring n"
    and v: "\<not> nested v" "wfValue (b_version b) v" "length (encodeValue v) < 2 ^ 31"
  shows "validateElementInfo i b = Inr (None, n, after b (encodeElem n v))"
proof -
  have e: "encodeElem n v = headerOf (valueType v) n @ encodeValue v"
    by (simp add: encodeElem_def headerOf_def typeByte_def)
  have h: "reads b (headerOf (valueType v) n) (encodeValue v @ r)"
    using r(1) by (simp add: e reads_append)
  show ?thesis
    using validateElementInfo_header [OF h n] validatePlain_reads [OF reads_after [OF h] r(2) v(1)] v
    by (simp add: nested_def e)
qed

text \<open>The loop from one configuration to the next; the \<^verbatim>\<open>_id\<close> bookkeeping is left open.\<close>

definition config :: "Validation \<Rightarrow> ValidationState \<Rightarrow> ValidationObjectFrame list \<Rightarrow> byte list \<Rightarrow>
    BSONVersion \<Rightarrow> nat \<Rightarrow> bool" where
  "config v st fs buf ver p \<longleftrightarrow> v_state v = st \<and> v_frames v = fs \<and> b_buffer (v_buffer v) = buf \<and>
     b_version (v_buffer v) = ver \<and> b_position (v_buffer v) = p"

definition runs :: "32 word \<Rightarrow> Validation \<Rightarrow> ValidationState \<Rightarrow> ValidationObjectFrame list \<Rightarrow> byte list \<Rightarrow>
    BSONVersion \<Rightarrow> nat \<Rightarrow> bool" where
  "runs junk v st fs buf ver p \<longleftrightarrow>
     (\<exists>v'. validateLoop junk v = validateLoop junk v' \<and> config v' st fs buf ver p)"

lemma runs_step:
  assumes "validateStep junk v = Inr v'" "v_state v \<noteq> Done" "runs junk v' st fs buf ver p"
  shows "runs junk v st fs buf ver p"
proof -
  have "validateLoop junk v = validateLoop junk v'"
    using assms(1,2) by (subst validateLoop.simps) simp
  with assms(3) show ?thesis
    by (simp add: runs_def)
qed

lemma runs_trans:
  assumes "runs junk v st fs buf ver p"
    and "\<And>v'. config v' st fs buf ver p \<Longrightarrow> runs junk v' st' fs' buf ver p'"
  shows "runs junk v st' fs' buf ver p'"
  using assms unfolding runs_def by metis

lemma config_runs: "config v st fs buf ver p \<Longrightarrow> runs junk v st fs buf ver p"
  by (auto simp: runs_def)

lemma withinObj_config:
  assumes "config v st fs buf ver p"
    and "validateElementInfo (v_idElem (adoptIdElem v)) (v_buffer (adoptIdElem v)) =
      Inr (nx, nm, after (v_buffer (adoptIdElem v)) c)"
  shows "\<exists>v'. withinObj v = Inr v' \<and>
    config v' (case nx of None \<Rightarrow> WithinObj | Some st \<Rightarrow> st) fs buf ver (p + length c)"
  using assms by (auto simp: withinObj_def Let_def config_def)

lemma runs_within:
  assumes c: "config v WithinObj fs buf ver p"
    and i: "\<And>i b. b_buffer b = buf \<Longrightarrow> b_version b = ver \<Longrightarrow> b_position b = p \<Longrightarrow>
      validateElementInfo i b = Inr (nx, nm, after b c)"
  shows "runs junk v (case nx of None \<Rightarrow> WithinObj | Some st \<Rightarrow> st) fs buf ver (p + length c)"
proof -
  have "validateElementInfo (v_idElem (adoptIdElem v)) (v_buffer (adoptIdElem v)) =
      Inr (nx, nm, after (v_buffer (adoptIdElem v)) c)"
    using c by (intro i) (simp_all add: config_def)
  from withinObj_config [OF c this] obtain v' where v': "withinObj v = Inr v'"
    and c': "config v' (case nx of None \<Rightarrow> WithinObj | Some st \<Rightarrow> st) fs buf ver (p + length c)"
    by auto
  show ?thesis
    by (rule runs_step [OF _ _ config_runs [OF c']])
      (use v' c in \<open>simp_all add: validateStep_def config_def Let_def\<close>)
qed

definition popState :: "ValidationObjectFrame list \<Rightarrow> ValidationState" where
  "popState fs = (case fs of [] \<Rightarrow> Done | f # fs' \<Rightarrow> if isCodeWithScope f then EndCodeWScope else WithinObj)"

definition elemsRun :: "32 word \<Rightarrow> BSONVersion \<Rightarrow> byte list \<Rightarrow> Doc \<Rightarrow> bool" where
  "elemsRun junk ver buf d \<longleftrightarrow> (\<forall>v f fs p r. config v WithinObj (f # fs) buf ver p \<longrightarrow> \<not> isCodeWithScope f \<longrightarrow>
     drop p buf = encodeElems d @ 0 # r \<longrightarrow>
     runs junk v EndObj (f # fs) buf ver (p + length (encodeElems d) + 1))"

lemma elemsRunD:
  assumes "elemsRun junk ver buf d" "config v WithinObj (f # fs) buf ver p" "\<not> isCodeWithScope f"
    and "drop p buf = encodeElems d @ 0 # r"
  shows "runs junk v EndObj (f # fs) buf ver (p + length (encodeElems d) + 1)"
  using assms unfolding elemsRun_def by blast

lemma objRun:
  assumes e: "elemsRun junk ver buf d" and c: "config v BeginObj fs buf ver p"
    and b: "drop p buf = encodeObj d @ r" and l: "length buf < 2 ^ 31"
  shows "runs junk v (popState fs) fs buf ver (p + length (encodeObj d))"
proof -
  let ?b = "v_buffer v" and ?k = "size32 (length (encodeElems d) + 5)"
  let ?f = "newFrame junk p False ?k"
  let ?v = "v \<lparr> v_state := WithinObj, v_buffer := after ?b (le32 ?k), v_frames := ?f # fs \<rparr>"
  have rd: "reads ?b (le32 ?k) (encodeElems d @ 0 # r)"
    using b c by (simp add: reads_def config_def encodeObj_def wrapObj_def)
  have p: "p < 2 ^ 31"
    using reads_le [OF rd] c l by (auto simp: config_def)
  have c1: "config ?v WithinObj (?f # fs) buf ver (p + 4)"
    using c by (simp add: config_def)
  have "drop (p + 4) buf = encodeElems d @ 0 # r"
    using reads_after [of ?b "le32 ?k" "encodeElems d" "0 # r"] rd c
    by (simp add: reads_def config_def)
  from elemsRunD [OF e c1 _ this] newFrame_simps [OF p]
  have run: "runs junk ?v EndObj (?f # fs) buf ver (p + 4 + length (encodeElems d) + 1)"
    by simp
  have "validateStep junk v = validateStep junk ?v"
    using readNumber_reads [OF rd, of 4] c by (simp add: validateStep_def config_def Let_def)
  then have "validateLoop junk v = validateLoop junk ?v"
    using c by (subst (1 2) validateLoop.simps) (simp add: config_def)
  with run have run: "runs junk v EndObj (?f # fs) buf ver (p + length (encodeObj d))"
    by (simp add: runs_def algebra_simps)
  show ?thesis
  proof (rule runs_trans [OF run])
    fix v'
    assume c': "config v' EndObj (?f # fs) buf ver (p + length (encodeObj d))"
    then have m: "lengthMatches v' ?f"
      using lengthMatches_iff [of ?f p v' "length (encodeObj d)"] newFrame_simps [OF p] by (simp add: config_def)
    show "runs junk v' (popState fs) fs buf ver (p + length (encodeObj d))"
      by (rule runs_step [of _ _ "v' \<lparr> v_frames := fs, v_state := popState fs \<rparr>", OF _ _ config_runs])
        (use c' m in \<open>simp_all add: validateStep_def config_def popState_def Let_def\<close>)
  qed
qed

lemma drop_config:
  assumes "drop p buf = c @ r" "b_buffer b = buf" "b_position b = p"
  shows "reads b c r"
  using assms by (simp add: reads_def)

lemma drop_further: "drop p buf = c @ r \<Longrightarrow> drop (p + length c) buf = r"
  by (metis append_eq_conv_conj drop_drop add.commute)

lemma scopeRun:
  assumes e: "elemsRun junk ver buf d" and c: "config v BeginCodeWScope (f # fs) buf ver p"
    and b: "drop p buf = encodeValue (CodeWScopeValue x d) @ r" and l: "length buf < 2 ^ 31"
  shows "runs junk v WithinObj (f # fs) buf ver (p + length (encodeValue (CodeWScopeValue x d)))"
proof -
  let ?b = "v_buffer v" and ?k = "size32 (length (encodeStr x) + length (encodeObj d) + 4)"
  let ?f = "newFrame junk p True ?k" and ?c = "le32 ?k @ encodeStr x"
  let ?v = "v \<lparr> v_state := BeginObj, v_buffer := after ?b ?c, v_frames := ?f # f # fs \<rparr>"
  have enc: "encodeValue (CodeWScopeValue x d) = ?c @ encodeObj d"
    by (simp add: encodeObj_def add.commute add.left_commute)
  have rd: "reads ?b (le32 ?k) (encodeStr x @ encodeObj d @ r)"
    using b c unfolding enc by (simp add: reads_def config_def)
  have "length buf = p + length (?c @ encodeObj d @ r) \<or> length buf \<le> p"
    using arg_cong [where f = length, OF b] unfolding enc by simp linarith
  moreover have "p \<noteq> length buf" "\<not> length buf < p"
    using b unfolding enc by auto
  ultimately have p: "p < 2 ^ 31" "length x + 1 < 2 ^ 31"
    using l by (auto simp: le_eq_less_or_eq)
  have c1: "config ?v BeginObj (?f # f # fs) buf ver (p + length ?c)"
    using c by (simp add: config_def)
  have "drop (p + length ?c) buf = encodeObj d @ r"
    using drop_further [of p buf ?c "encodeObj d @ r"] b unfolding enc by simp
  from objRun [OF e c1 this l] newFrame_simps [OF p(1)]
  have run: "runs junk ?v EndCodeWScope (?f # f # fs) buf ver (p + length ?c + length (encodeObj d))"
    by (simp add: popState_def)
  have "validateStep junk v = Inr ?v"
    using readNumber_reads [OF rd, of 4] readUTF8String_reads [OF reads_after [OF rd] p(2)] c
    by (simp add: validateStep_def config_def Let_def)
  from runs_step [OF this _ run] c
  have run: "runs junk v EndCodeWScope (?f # f # fs) buf ver (p + length (?c @ encodeObj d))"
    by (simp add: config_def add.assoc)
  show ?thesis
    unfolding enc
  proof (rule runs_trans [OF run])
    fix v'
    assume c': "config v' EndCodeWScope (?f # f # fs) buf ver (p + length (?c @ encodeObj d))"
    then have m: "lengthMatches v' ?f"
      using lengthMatches_iff [of ?f p v' "length (?c @ encodeObj d)"] newFrame_simps [OF p(1)]
      by (simp add: config_def add.commute add.left_commute)
    show "runs junk v' WithinObj (f # fs) buf ver (p + length (?c @ encodeObj d))"
      by (rule runs_step [of _ _ "v' \<lparr> v_frames := f # fs, v_state := WithinObj \<rparr>", OF _ _ config_runs])
        (use c' m in \<open>simp_all add: validateStep_def config_def Let_def\<close>)
  qed
qed

lemma headerRun:
  assumes c: "config v WithinObj fs buf ver p" and n: "cstring n" and d: "drop p buf = headerOf ty n @ r"
    and ty: "ty \<in> {Object, Array, CodeWScope}"
  shows "runs junk v (if ty = CodeWScope then BeginCodeWScope else BeginObj) fs buf ver
    (p + length (headerOf ty n))"
proof -
  have "validateElementInfo i b = Inr (Some (if ty = CodeWScope then BeginCodeWScope else BeginObj), n,
      after b (headerOf ty n))" if "b_buffer b = buf" "b_position b = p" for i b
    using validateElementInfo_header [OF drop_config [OF d that] n, of i] ty by auto
  from runs_within [OF c this] show ?thesis
    by simp
qed

lemma valueRun:
  assumes c: "config v WithinObj (f # fs) buf ver p" "\<not> isCodeWithScope f" and n: "cstring n"
    and b: "drop p buf = encodeElem n w @ r" "r \<noteq> []" and w: "wfValue ver w" and l: "length buf < 2 ^ 31"
    and sub: "\<And>d. subDoc w = Some d \<Longrightarrow> elemsRun junk ver buf d"
  shows "runs junk v WithinObj (f # fs) buf ver (p + length (encodeElem n w))"
proof (cases "nested w")
  case False
  have "length (encodeValue w) < 2 ^ 31"
    using arg_cong [where f = length, OF b(1)] l by (simp add: encodeElem_def)
  then have i: "validateElementInfo i x = Inr (None, n, after x (encodeElem n w))"
    if "b_buffer x = buf" "b_version x = ver" "b_position x = p" for i x
    using validateElementInfo_plain [OF drop_config [OF b(1) that(1,3)] b(2) n False] w that(2) by simp
  have "runs junk v (case None of None \<Rightarrow> WithinObj | Some st \<Rightarrow> st) (f # fs) buf ver
      (p + length (encodeElem n w))"
    by (rule runs_within [OF c(1)]) (rule i)
  then show ?thesis
    by simp
next
  case True
  let ?h = "headerOf (valueType w) n"
  have e: "encodeElem n w = ?h @ encodeValue w"
    by (simp add: encodeElem_def headerOf_def typeByte_def)
  have d: "drop p buf = ?h @ encodeValue w @ r" "drop (p + length ?h) buf = encodeValue w @ r"
    using b(1) e drop_further [of p buf ?h] by simp_all
  have ty: "valueType w \<in> {Object, Array, CodeWScope}"
    using True by (simp add: nested_def)
  show ?thesis
  proof (rule runs_trans [OF headerRun [OF c(1) n d(1) ty]])
    fix v'
    assume c': "config v' (if valueType w = CodeWScope then BeginCodeWScope else BeginObj) (f # fs) buf ver
      (p + length ?h)"
    show "runs junk v' WithinObj (f # fs) buf ver (p + length (encodeElem n w))"
    proof (cases w)
      case (ObjectValue d)
      with c' objRun [OF sub _ _ l, of d v' "f # fs" "p + length ?h" r] d(2) c(2) show ?thesis
        unfolding e by (simp add: popState_def encodeObj_def add.assoc)
    next
      case (ArrayValue d)
      with c' objRun [OF sub _ _ l, of d v' "f # fs" "p + length ?h" r] d(2) c(2) show ?thesis
        unfolding e by (simp add: popState_def encodeObj_def add.assoc)
    next
      case (CodeWScopeValue x d)
      with c' scopeRun [OF sub _ _ l, of d v' f fs "p + length ?h" x r] d(2) show ?thesis
        unfolding e by (simp add: add.assoc)
    qed (use True in \<open>simp_all add: nested_def\<close>)
  qed
qed

lemma elemsRun_wf:
  assumes "wfDoc ver d" "length buf < 2 ^ 31"
  shows "elemsRun junk ver buf d"
  using assms(1)
proof (induction d rule: measure_induct_rule [of size])
  case (less d)
  show ?case
    unfolding elemsRun_def
  proof (intro allI impI)
    fix v f fs p r
    assume c: "config v WithinObj (f # fs) buf ver p" "\<not> isCodeWithScope f"
      and b: "drop p buf = encodeElems d @ 0 # r"
    show "runs junk v EndObj (f # fs) buf ver (p + length (encodeElems d) + 1)"
    proof (cases d)
      case EndDoc
      have "validateElementInfo i x = Inr (Some EndObj, [], after x [0])"
        if "b_buffer x = buf" "b_position x = p" for i x
        using validateElementInfo_end [OF drop_config [OF _ that, of "[0]" r]] b EndDoc by simp
      from runs_within [OF c(1) this] EndDoc show ?thesis
        by simp
    next
      case (Field n w d')
      have wf: "cstring n" "wfValue ver w" "wfDoc ver d'"
        using less.prems Field by simp_all
      have b': "drop p buf = encodeElem n w @ encodeElems d' @ 0 # r"
        using b Field by (simp add: encodeElem_def)
      have sub: "elemsRun junk ver buf x" if x: "subDoc w = Some x" for x
        using less.IH [of x] subDoc_props(1,3) [OF x] wf(2) Field by simp
      have "runs junk v WithinObj (f # fs) buf ver (p + length (encodeElem n w))"
        by (rule valueRun [OF c wf(1) b' _ wf(2) assms(2) sub]) simp_all
      then show ?thesis
      proof (rule runs_trans)
        fix v'
        assume c': "config v' WithinObj (f # fs) buf ver (p + length (encodeElem n w))"
        have "elemsRun junk ver buf d'"
          using less.IH [of d'] wf(3) Field by simp
        from elemsRunD [OF this c' c(2) drop_further [OF b']] show
          "runs junk v' EndObj (f # fs) buf ver (p + length (encodeElems d) + 1)"
          using Field by (simp add: encodeElem_def add.assoc)
      qed
    qed
  qed
qed

lemma validateLoop_not_NoFrame:
  assumes "follows ver buf v" "length buf < 2 ^ 31"
  shows "validateLoop junk v \<noteq> NoFrame"
  using assms
proof (induction junk v rule: validateLoop.induct)
  case (1 junk v)
  show ?case
  proof (cases "v_state v = Done")
    case False
    with 1 validateStep_framed [OF 1(2) False, of junk] validateStep_follows [OF 1(2) _ 1(3)] show ?thesis
      by (subst validateLoop.simps) (auto split: sum.splits)
  qed (subst validateLoop.simps, simp)
qed

lemma initial_follows:
  "follows ver buf \<lparr> v_state = BeginObj, v_frames = [],
    v_buffer = \<lparr> b_buffer = buf, b_position = 0, b_version = ver, b_idElem = None \<rparr>,
    v_idElemStartPos = 0, v_idElem = None \<rparr>"
  by (rule followsI [where gs = "[]" and rest = "[]"]) simp_all

lemma validateBSON_accepts:
  assumes "wfDoc ver d" "length (encodeObj d @ post) < 2 ^ 31"
  shows "validateBSON junk ver (encodeObj d @ post) = ValidateOK"
proof -
  let ?buf = "encodeObj d @ post"
  let ?v = "\<lparr> v_state = BeginObj, v_frames = [],
    v_buffer = \<lparr> b_buffer = ?buf, b_position = 0, b_version = ver, b_idElem = None \<rparr>,
    v_idElemStartPos = 0, v_idElem = None \<rparr>"
  have "runs junk ?v (popState []) [] ?buf ver (0 + length (encodeObj d))"
    by (rule objRun [OF elemsRun_wf [OF assms]]) (use assms in \<open>simp_all add: config_def\<close>)
  then obtain v' where "validateLoop junk ?v = validateLoop junk v'" "v_state v' = Done"
    by (auto simp: runs_def config_def popState_def)
  then show ?thesis
    by (simp add: validateBSON_def validateLoop.simps [of junk v'])
qed

lemma validateBSON_sound:
  assumes "validateBSON junk ver buf = ValidateOK" "length buf < 2 ^ 31"
  shows "\<exists>d post. wfDoc ver d \<and> buf = encodeObj d @ post"
  using validateLoop_sound [OF initial_follows assms(2)] assms(1)
  by (auto simp: validateBSON_def split: if_splits)

section \<open>Properties\<close>

text \<open>C29: the validator is exact.  For a buffer shorter than two gigabytes, \<^verbatim>\<open>validateBSON\<close> returns
  OK if and only if the buffer starts with the byte string of a document that is well formed for the
  BSON version (NUL-free names and patterns, all sizes right, booleans 0 or 1, decimals only from
  version 1.1 on); it always returns, never uses an empty stack of frames, and does not depend on the
  uninitialised word of a new frame.\<close>

theorem validateBSON_exact:
  assumes "length buf < 2 ^ 31"
  shows "(validateBSON junk ver buf = ValidateOK \<longleftrightarrow> (\<exists>d post. wfDoc ver d \<and> buf = encodeObj d @ post)) \<and>
    validateBSON junk ver buf \<noteq> NoFrame"
proof -
  have "\<exists>d post. wfDoc ver d \<and> buf = encodeObj d @ post" if "validateBSON junk ver buf = ValidateOK"
    by (rule validateBSON_sound [OF that assms])
  moreover have "validateBSON junk ver buf = ValidateOK" if "wfDoc ver d" "buf = encodeObj d @ post" for d post
    using validateBSON_accepts [OF that(1)] that(2) assms by simp
  moreover have "validateBSON junk ver buf \<noteq> NoFrame"
    using validateLoop_not_NoFrame [OF initial_follows assms] by (simp add: validateBSON_def)
  ultimately show ?thesis
    by blast
qed

theorem validateBSON_exact_witness:
  "validateBSON 7 kV1_0 [12, 0, 0, 0, 16, 97, 0, 5, 0, 0, 0, 0, 255] = ValidateOK \<and>
    (\<exists>d post. wfDoc kV1_0 d \<and> [12, 0, 0, 0, 16, 97, 0, 5, 0, 0, 0, 0, 255] = encodeObj d @ post)"
proof -
  let ?buf = "[12, 0, 0, 0, 16, 97, 0, 5, 0, 0, 0, 0, 255] :: byte list"
  have "?buf = encodeObj (Field [97] (IntValue 5) EndDoc) @ [255]"
    by code_simp
  moreover have "wfDoc kV1_0 (Field [97] (IntValue 5) EndDoc)"
    by code_simp
  ultimately show ?thesis
    using validateBSON_exact [of ?buf 7 kV1_0] by fastforce
qed



end
