(* ===== verification/XXHash64.thy ===== *)
theory XXHash64
  imports Bson_Format
begin

text \<open>
  The 64 bit xxHash (\<^verbatim>\<open>third_party/xxhash/xxhash.h\<close>), with which the integrity check fingerprints
  documents.

  The input is the list of its bytes; all arithmetic is on 64 bit words and wraps.  \<open>XXH64_lanes\<close>
  is the loop over blocks of 32 bytes with its four accumulators, \<open>finalizeLanes\<close>, \<open>finalizeWord\<close>
  and \<open>finalizeBytes\<close> are the three loops over the remaining bytes.  The lemmas show that every
  step over the remaining bytes is injective in the hash and in the bytes it mixes in, so that a
  change of one of them always changes the hash.
\<close>

definition XXH_PRIME64_1 :: "64 word" where "XXH_PRIME64_1 = 0x9E3779B185EBCA87"
definition XXH_PRIME64_2 :: "64 word" where "XXH_PRIME64_2 = 0xC2B2AE3D27D4EB4F"
definition XXH_PRIME64_3 :: "64 word" where "XXH_PRIME64_3 = 0x165667B19E3779F9"
definition XXH_PRIME64_4 :: "64 word" where "XXH_PRIME64_4 = 0x85EBCA77C2B2AE63"
definition XXH_PRIME64_5 :: "64 word" where "XXH_PRIME64_5 = 0x27D4EB2F165667C5"

definition XXH_rotl64 :: "64 word \<Rightarrow> nat \<Rightarrow> 64 word" where
  "XXH_rotl64 x r = push_bit r x OR drop_bit (64 - r) x"

definition XXH64_round :: "64 word \<Rightarrow> 64 word \<Rightarrow> 64 word" where
  "XXH64_round acc input = XXH_rotl64 (acc + input * XXH_PRIME64_2) 31 * XXH_PRIME64_1"

definition XXH64_mergeRound :: "64 word \<Rightarrow> 64 word \<Rightarrow> 64 word" where
  "XXH64_mergeRound acc val = (acc XOR XXH64_round 0 val) * XXH_PRIME64_1 + XXH_PRIME64_4"

definition xorShift :: "nat \<Rightarrow> 64 word \<Rightarrow> 64 word" where
  "xorShift n hash = hash XOR drop_bit n hash"

definition XXH64_avalanche :: "64 word \<Rightarrow> 64 word" where
  "XXH64_avalanche hash = xorShift 32 (xorShift 29 (xorShift 33 hash * XXH_PRIME64_2) * XXH_PRIME64_3)"

definition get64bits :: "byte list \<Rightarrow> 64 word" where
  "get64bits bs = of_nat (leNat (take 8 bs))"

definition get32bits :: "byte list \<Rightarrow> 64 word" where
  "get32bits bs = of_nat (leNat (take 4 bs))"

definition mixLane :: "64 word \<Rightarrow> byte list \<Rightarrow> 64 word" where
  "mixLane hash bs = XXH_rotl64 (hash XOR XXH64_round 0 (get64bits bs)) 27 * XXH_PRIME64_1 + XXH_PRIME64_4"

definition mixWord :: "64 word \<Rightarrow> byte list \<Rightarrow> 64 word" where
  "mixWord hash bs = XXH_rotl64 (hash XOR (get32bits bs * XXH_PRIME64_1)) 23 * XXH_PRIME64_2 + XXH_PRIME64_3"

definition mixByte :: "64 word \<Rightarrow> byte \<Rightarrow> 64 word" where
  "mixByte hash b = XXH_rotl64 (hash XOR (ucast b * XXH_PRIME64_5)) 11 * XXH_PRIME64_1"

function finalizeLanes :: "64 word \<Rightarrow> byte list \<Rightarrow> 64 word \<times> byte list" where
  "finalizeLanes hash bs =
     (if 8 \<le> length bs then finalizeLanes (mixLane hash bs) (drop 8 bs) else (hash, bs))"
  by auto
termination
  by (relation "measure (\<lambda>(h, bs). length bs)") auto

declare finalizeLanes.simps [simp del]

definition finalizeWord :: "64 word \<Rightarrow> byte list \<Rightarrow> 64 word \<times> byte list" where
  "finalizeWord hash bs = (if 4 \<le> length bs then (mixWord hash bs, drop 4 bs) else (hash, bs))"

primrec finalizeBytes :: "64 word \<Rightarrow> byte list \<Rightarrow> 64 word" where
  "finalizeBytes hash [] = hash"
| "finalizeBytes hash (b # bs) = finalizeBytes (mixByte hash b) bs"

definition XXH64_finalize :: "64 word \<Rightarrow> byte list \<Rightarrow> nat \<Rightarrow> 64 word" where
  "XXH64_finalize hash ptr len =
     (case finalizeLanes hash (take (len mod 32) ptr) of (h1, bs1) \<Rightarrow>
      case finalizeWord h1 bs1 of (h2, bs2) \<Rightarrow> XXH64_avalanche (finalizeBytes h2 bs2))"

type_synonym accumulators = "64 word \<times> 64 word \<times> 64 word \<times> 64 word"

function XXH64_lanes :: "accumulators \<Rightarrow> byte list \<Rightarrow> accumulators \<times> byte list" where
  "XXH64_lanes (v1, v2, v3, v4) bs =
     (if 32 \<le> length bs
      then XXH64_lanes (XXH64_round v1 (get64bits bs), XXH64_round v2 (get64bits (drop 8 bs)),
        XXH64_round v3 (get64bits (drop 16 bs)), XXH64_round v4 (get64bits (drop 24 bs))) (drop 32 bs)
      else ((v1, v2, v3, v4), bs))"
  by pat_completeness auto
termination
  by (relation "measure (\<lambda>(v, bs). length bs)") auto

declare XXH64_lanes.simps [simp del]

definition mergeAccumulators :: "accumulators \<Rightarrow> 64 word" where
  "mergeAccumulators v = (case v of (v1, v2, v3, v4) \<Rightarrow>
     let h = XXH_rotl64 v1 1 + XXH_rotl64 v2 7 + XXH_rotl64 v3 12 + XXH_rotl64 v4 18 in
     XXH64_mergeRound (XXH64_mergeRound (XXH64_mergeRound (XXH64_mergeRound h v1) v2) v3) v4)"

definition XXH64 :: "byte list \<Rightarrow> 64 word \<Rightarrow> 64 word" where
  "XXH64 input seed = (let len = length input in
     case (if 32 \<le> len
        then (case XXH64_lanes (seed + XXH_PRIME64_1 + XXH_PRIME64_2, seed + XXH_PRIME64_2, seed + 0,
              seed - XXH_PRIME64_1) input of (v, rest) \<Rightarrow> (mergeAccumulators v, rest))
        else (seed + XXH_PRIME64_5, input)) of (h64, rest) \<Rightarrow>
     XXH64_finalize (h64 + of_nat len) rest len)"

section \<open>Injectivity of the steps\<close>

lemma mult_inj:
  fixes x y p q :: "64 word"
  assumes "x * p = y * p" "p * q = 1"
  shows "x = y"
proof -
  have "x = x * p * q" "y = y * p * q"
    using assms(2) by (simp_all add: mult.assoc)
  with assms(1) show ?thesis
    by simp
qed

lemma word_inverse:
  fixes a b k :: int
  assumes "a * b = 1 + k * 2 ^ 64"
  shows "(of_int a :: 64 word) * of_int b = 1"
proof -
  have "(of_int a :: 64 word) * of_int b = of_int (1 + k * 2 ^ 64)"
    using assms by (simp flip: of_int_mult)
  also have "\<dots> = 1 + of_int k * of_int (2 ^ 64)"
    by (simp only: of_int_add of_int_mult of_int_1)
  also have "(of_int (2 ^ 64) :: 64 word) = 0"
    by simp
  finally show ?thesis
    by simp
qed

lemma prime_inverse:
  fixes p :: "64 word"
  assumes "p = numeral n" "numeral n * b = 1 + k * 2 ^ 64"
  shows "p * of_int b = 1"
  using word_inverse [OF assms(2)] unfolding assms(1) of_int_numeral .

lemma prime_inverses:
  "XXH_PRIME64_1 * of_int 0x887493432BADB37 = 1"
  "XXH_PRIME64_2 * of_int 0xBA79078168D4BAF = 1"
  "XXH_PRIME64_3 * of_int 0xE9E9F4C41D6DF849 = 1"
  "XXH_PRIME64_5 * of_int 0xC592C09FDFBA7F0D = 1"
  by (rule prime_inverse [OF XXH_PRIME64_1_def, where k = 379806830464837242], simp)
    (rule prime_inverse [OF XXH_PRIME64_2_def, where k = 638699622168397319], simp,
     rule prime_inverse [OF XXH_PRIME64_3_def, where k = 1470722560960728959], simp,
     rule prime_inverse [OF XXH_PRIME64_5_def, where k = 2215118327355546487], simp)

lemmas prime_injs = prime_inverses [THEN mult_inj [rotated]]

lemma bit_rotl:
  assumes "r < 64" "n < 64"
  shows "bit (XXH_rotl64 x r) n \<longleftrightarrow> (if r \<le> n then bit x (n - r) else bit x (64 - r + n))"
proof (cases "r \<le> n")
  case True
  then have "\<not> bit x (64 - r + n)"
    using assms bit_imp_le_length [of x "64 - r + n"] by auto
  with True assms show ?thesis
    by (simp add: XXH_rotl64_def bit_or_iff bit_push_bit_iff bit_drop_bit_eq)
next
  case False
  with assms show ?thesis
    by (simp add: XXH_rotl64_def bit_or_iff bit_push_bit_iff bit_drop_bit_eq)
qed

lemma rotl_inj:
  assumes eq: "XXH_rotl64 x r = XXH_rotl64 y r" and r: "r < 64"
  shows "x = y"
proof (rule bit_word_eqI)
  fix n :: nat
  assume n: "n < LENGTH(64)"
  show "bit x n = bit y n"
  proof (cases "n + r < 64")
    case True
    then show ?thesis
      using arg_cong [where f = "\<lambda>w. bit w (n + r)", OF eq] r by (simp add: bit_rotl)
  next
    case False
    then have "\<not> r \<le> n + r - 64" "64 - r + (n + r - 64) = n" "n + r - 64 < 64"
      using r n by simp_all
    then show ?thesis
      using arg_cong [where f = "\<lambda>w. bit w (n + r - 64)", OF eq] r by (simp add: bit_rotl)
  qed
qed

lemma xorShift_inj:
  assumes eq: "xorShift n x = xorShift n y" and n: "22 \<le> n"
  shows "x = y"
proof -
  define z where "z = x XOR y"
  have "(x XOR drop_bit n x) XOR (drop_bit n x XOR y) = (y XOR drop_bit n y) XOR (drop_bit n x XOR y)"
    using eq by (simp only: xorShift_def)
  then have "x XOR y = drop_bit n x XOR drop_bit n y"
    by (simp add: xor.assoc xor.left_commute xor.commute)
  then have z: "z = drop_bit n z"
    unfolding z_def drop_bit_xor .
  then have "z = drop_bit n (drop_bit n (drop_bit n z))"
    by simp
  also have "\<dots> = drop_bit (n + n + n) z"
    by (simp add: add.assoc)
  also have "\<dots> = 0"
    using n by (intro bit_word_eqI) (auto simp: bit_drop_bit_eq dest: bit_imp_le_length)
  finally have "(x XOR y) XOR y = y"
    by (simp add: z_def)
  then show ?thesis
    by (simp add: xor.assoc)
qed

lemma xor_inj: "(x :: 64 word) XOR z = y XOR z \<longleftrightarrow> x = y" "(z :: 64 word) XOR x = z XOR y \<longleftrightarrow> x = y"
proof -
  have "x = y" if "x XOR z = y XOR z"
    using arg_cong [where f = "\<lambda>w. w XOR z", OF that] by (simp add: xor.assoc)
  then show "x XOR z = y XOR z \<longleftrightarrow> x = y" "z XOR x = z XOR y \<longleftrightarrow> x = y"
    by (auto simp: xor.commute)
qed

lemma leNat_inj:
  assumes "length bs = length cs" "leNat bs = leNat cs"
  shows "bs = cs"
  using leBytes_leNat [of bs] leBytes_leNat [of cs] assms by metis

lemma of_nat_leNat_inj:
  assumes "length bs = length cs" "length bs \<le> 8" "(of_nat (leNat bs) :: 64 word) = of_nat (leNat cs)"
  shows "bs = cs"
proof -
  have "(256 :: nat) ^ length bs \<le> 256 ^ 8"
    using assms(2) by (intro power_increasing) simp_all
  then have "leNat bs < 2 ^ 64" "leNat cs < 2 ^ 64"
    using leNat_less [of bs] leNat_less [of cs] assms(1) by simp_all
  then have "unat (of_nat (leNat bs) :: 64 word) = leNat bs" "unat (of_nat (leNat cs) :: 64 word) = leNat cs"
    by (simp_all add: unat_of_nat)
  with assms(3) have "leNat bs = leNat cs"
    by metis
  with assms(1) show ?thesis
    by (rule leNat_inj)
qed

lemma round_inj: "XXH64_round a x = XXH64_round a y \<Longrightarrow> x = y"
  unfolding XXH64_round_def
  by (drule prime_injs(1), drule rotl_inj, simp, drule add_left_imp_eq, erule prime_injs(2))

lemma mixLane_inj:
  assumes "mixLane h bs = mixLane h' cs" "length bs = length cs" "8 \<le> length bs"
  shows "h = h' \<longleftrightarrow> take 8 bs = take 8 cs"
proof -
  have "XXH_rotl64 (h XOR XXH64_round 0 (get64bits bs)) 27 =
      XXH_rotl64 (h' XOR XXH64_round 0 (get64bits cs)) 27"
    using assms(1) unfolding mixLane_def by (rule prime_injs(1) [OF add_right_imp_eq])
  then have eq: "h XOR XXH64_round 0 (get64bits bs) = h' XOR XXH64_round 0 (get64bits cs)"
    by (rule rotl_inj) simp
  show ?thesis
  proof
    assume "h = h'"
    with eq have "get64bits bs = get64bits cs"
      by (simp add: xor_inj) (rule round_inj)
    then show "take 8 bs = take 8 cs"
      unfolding get64bits_def by (intro of_nat_leNat_inj) (use assms in simp_all)
  next
    assume "take 8 bs = take 8 cs"
    with eq show "h = h'"
      by (simp add: get64bits_def xor_inj)
  qed
qed

lemma mixWord_inj:
  assumes "mixWord h bs = mixWord h' cs" "length bs = length cs" "4 \<le> length bs"
  shows "h = h' \<longleftrightarrow> take 4 bs = take 4 cs"
proof -
  have "XXH_rotl64 (h XOR (get32bits bs * XXH_PRIME64_1)) 23 = XXH_rotl64 (h' XOR (get32bits cs * XXH_PRIME64_1)) 23"
    using assms(1) unfolding mixWord_def by (rule prime_injs(2) [OF add_right_imp_eq])
  then have eq: "h XOR (get32bits bs * XXH_PRIME64_1) = h' XOR (get32bits cs * XXH_PRIME64_1)"
    by (rule rotl_inj) simp
  show ?thesis
  proof
    assume "h = h'"
    with eq have "get32bits bs = get32bits cs"
      by (simp add: xor_inj) (rule prime_injs(1))
    then show "take 4 bs = take 4 cs"
      unfolding get32bits_def by (intro of_nat_leNat_inj) (use assms in simp_all)
  next
    assume "take 4 bs = take 4 cs"
    with eq show "h = h'"
      by (simp add: get32bits_def xor_inj)
  qed
qed

lemma mixByte_inj:
  assumes "mixByte h b = mixByte h' c"
  shows "h = h' \<longleftrightarrow> b = c"
proof -
  have "XXH_rotl64 (h XOR (ucast b * XXH_PRIME64_5)) 11 = XXH_rotl64 (h' XOR (ucast c * XXH_PRIME64_5)) 11"
    using assms unfolding mixByte_def by (rule prime_injs(1))
  then have eq: "h XOR (ucast b * XXH_PRIME64_5) = h' XOR (ucast c * XXH_PRIME64_5)"
    by (rule rotl_inj) simp
  show ?thesis
  proof
    assume "h = h'"
    with eq have "(ucast b :: 64 word) = ucast c"
      by (simp add: xor_inj) (rule prime_injs(4))
    then have "unat (ucast b :: 64 word) = unat (ucast c :: 64 word)"
      by (rule arg_cong)
    moreover have "take_bit 64 (unat x) = unat x" for x :: byte
      by (rule take_bit_nat_eq_self) (rule less_trans [OF byte_less], simp)
    ultimately show "b = c"
      by (simp add: unsigned_ucast_eq) (metis unsigned_word_eqI)
  next
    assume "b = c"
    with eq show "h = h'"
      by (simp add: xor_inj)
  qed
qed

lemma avalanche_inj: "XXH64_avalanche x = XXH64_avalanche y \<Longrightarrow> x = y"
  unfolding XXH64_avalanche_def
  by (drule xorShift_inj, simp, drule prime_injs(3), drule xorShift_inj, simp, drule prime_injs(2),
      erule xorShift_inj, simp)

text \<open>The published hashes of the empty string and of the three bytes ``abc''.\<close>

lemma XXH64_vectors:
  "XXH64 [] 0 = 0xEF46DB3751D8E999"
  "XXH64 [0x61, 0x62, 0x63] 0 = 0x44BC2CF5AD770999"
  by code_simp+

section \<open>A change of one byte\<close>

text \<open>Lists of the same length that differ in one position.\<close>

fun oneByte :: "byte list \<Rightarrow> byte list \<Rightarrow> bool" where
  "oneByte (x # xs) (y # ys) = (if x = y then oneByte xs ys else xs = ys)"
| "oneByte _ _ = False"

lemma oneByte_length: "oneByte bs cs \<Longrightarrow> length bs = length cs"
  by (induction bs cs rule: oneByte.induct) (auto split: if_splits)

lemma oneByte_irrefl [simp]: "\<not> oneByte bs bs"
  by (induction bs) auto

lemma oneByte_split:
  assumes "oneByte bs cs"
  obtains "take n bs = take n cs" "oneByte (drop n bs) (drop n cs)"
  | "take n bs \<noteq> take n cs" "drop n bs = drop n cs"
  using assms
proof (induction bs cs arbitrary: n thesis rule: oneByte.induct)
  case (1 x xs y ys)
  show ?case
  proof (cases n)
    case 0
    then show ?thesis
      using 1(2,4) by simp
  next
    case (Suc m)
    show ?thesis
    proof (cases "x = y")
      case True
      then show ?thesis
        using 1(1) [of m] 1(2-4) Suc by auto
    next
      case False
      then show ?thesis
        using 1(3,4) Suc by simp
    qed
  qed
qed simp_all

text \<open>Either the hash or one of the bytes that are still to be mixed in differs.\<close>

definition oneDiffers :: "64 word \<times> byte list \<Rightarrow> 64 word \<times> byte list \<Rightarrow> bool" where
  "oneDiffers p q \<longleftrightarrow> fst p \<noteq> fst q \<and> snd p = snd q \<or> fst p = fst q \<and> oneByte (snd p) (snd q)"

lemma oneDiffers_length: "oneDiffers (h, bs) (h', cs) \<Longrightarrow> length bs = length cs"
  by (auto simp: oneDiffers_def dest: oneByte_length)

lemma oneDiffers_mix:
  assumes "oneDiffers (h, bs) (h', cs)"
    and inj: "mix h bs = mix h' cs \<Longrightarrow> h = h' \<longleftrightarrow> take n bs = take n cs"
    and same: "h = h' \<Longrightarrow> take n bs = take n cs \<Longrightarrow> mix h bs = mix h' cs"
  shows "oneDiffers (mix h bs, drop n bs) (mix h' cs, drop n cs)"
  using assms(1) unfolding oneDiffers_def fst_conv snd_conv
proof (elim disjE conjE)
  assume "h \<noteq> h'" "bs = cs"
  then show "mix h bs \<noteq> mix h' cs \<and> drop n bs = drop n cs \<or> mix h bs = mix h' cs \<and> oneByte (drop n bs) (drop n cs)"
    using inj by auto
next
  assume h: "h = h'" and one: "oneByte bs cs"
  show "mix h bs \<noteq> mix h' cs \<and> drop n bs = drop n cs \<or> mix h bs = mix h' cs \<and> oneByte (drop n bs) (drop n cs)"
    by (rule oneByte_split [OF one, of n]) (use h inj same in auto)
qed

lemma finalizeLanes_oneDiffers:
  "oneDiffers (h, bs) (h', cs) \<Longrightarrow> oneDiffers (finalizeLanes h bs) (finalizeLanes h' cs)"
proof (induction h bs arbitrary: h' cs rule: finalizeLanes.induct)
  case (1 h bs)
  note len = oneDiffers_length [OF 1(2)]
  show ?case
  proof (cases "8 \<le> length bs")
    case True
    have "oneDiffers (mixLane h bs, drop 8 bs) (mixLane h' cs, drop 8 cs)"
      by (rule oneDiffers_mix [OF 1(2)]) (use mixLane_inj [OF _ len True] in \<open>auto simp: mixLane_def get64bits_def\<close>)
    then show ?thesis
      using 1(1) [OF True] True len by (simp add: finalizeLanes.simps [of h] finalizeLanes.simps [of h'])
  next
    case False
    then show ?thesis
      using 1(2) len by (simp add: finalizeLanes.simps)
  qed
qed

lemma finalizeWord_oneDiffers:
  assumes "oneDiffers (h, bs) (h', cs)"
  shows "oneDiffers (finalizeWord h bs) (finalizeWord h' cs)"
proof (cases "4 \<le> length bs")
  case True
  note len = oneDiffers_length [OF assms]
  have "oneDiffers (mixWord h bs, drop 4 bs) (mixWord h' cs, drop 4 cs)"
    by (rule oneDiffers_mix [OF assms]) (use mixWord_inj [OF _ len True] in \<open>auto simp: mixWord_def get32bits_def\<close>)
  with True len show ?thesis
    by (simp add: finalizeWord_def)
next
  case False
  with assms oneDiffers_length [OF assms] show ?thesis
    by (simp add: finalizeWord_def)
qed

lemma finalizeBytes_oneDiffers:
  "oneDiffers (h, bs) (h', cs) \<Longrightarrow> finalizeBytes h bs \<noteq> finalizeBytes h' cs"
proof (induction bs arbitrary: h h' cs)
  case (Cons b bs)
  obtain c cs' where cs: "cs = c # cs'"
    using oneDiffers_length [OF Cons(2)] by (cases cs) auto
  have "oneDiffers (mixByte h b, bs) (mixByte h' c, cs')"
    using Cons(2) mixByte_inj [of h b h' c] by (auto simp: cs oneDiffers_def split: if_splits)
  then show ?case
    by (simp add: cs Cons(1))
qed (auto simp: oneDiffers_def)

lemma finalize_oneByte:
  assumes "oneByte bs cs" "length bs = len mod 32"
  shows "XXH64_finalize h bs len \<noteq> XXH64_finalize h cs len"
proof -
  obtain h1 bs1 h1' cs1 where 1: "finalizeLanes h bs = (h1, bs1)" "finalizeLanes h cs = (h1', cs1)"
    by fastforce
  obtain h2 bs2 h2' cs2 where 2: "finalizeWord h1 bs1 = (h2, bs2)" "finalizeWord h1' cs1 = (h2', cs2)"
    by fastforce
  have "oneDiffers (h1, bs1) (h1', cs1)"
    using finalizeLanes_oneDiffers [of h bs h cs] assms(1) by (simp add: 1 oneDiffers_def)
  then have "oneDiffers (h2, bs2) (h2', cs2)"
    using finalizeWord_oneDiffers [of h1 bs1 h1' cs1] by (simp add: 2)
  then have "finalizeBytes h2 bs2 \<noteq> finalizeBytes h2' cs2"
    by (rule finalizeBytes_oneDiffers)
  then show ?thesis
    using assms oneByte_length [OF assms(1)] by (auto simp: XXH64_finalize_def 1 2 dest: avalanche_inj)
qed

lemma XXH64_lanes_prefix:
  assumes "length xs = 32 * n" "length rest < 32"
  shows "\<exists>w. \<forall>r. length r < 32 \<longrightarrow> XXH64_lanes v (xs @ r) = (w, r)"
  using assms(1)
proof (induction n arbitrary: xs v)
  case 0
  then show ?case
    by (cases v) (auto simp: XXH64_lanes.simps)
next
  case (Suc n)
  obtain v1 v2 v3 v4 where v: "v = (v1, v2, v3, v4)"
    by (cases v) auto
  let ?v = "(XXH64_round v1 (get64bits xs), XXH64_round v2 (get64bits (drop 8 xs)),
        XXH64_round v3 (get64bits (drop 16 xs)), XXH64_round v4 (get64bits (drop 24 xs)))"
  obtain w where w: "\<forall>r. length r < 32 \<longrightarrow> XXH64_lanes ?v (drop 32 xs @ r) = (w, r)"
    using Suc(1) [of "drop 32 xs" ?v] Suc(2) by auto
  have "XXH64_lanes v (xs @ r) = XXH64_lanes ?v (drop 32 xs @ r)" for r
    using Suc(2) unfolding v by (subst XXH64_lanes.simps) (simp add: get64bits_def)
  with w show ?case
    by metis
qed

lemma XXH64_tail:
  assumes "length xs = 32 * n" "oneByte bs cs" "length bs < 32"
  shows "XXH64 (xs @ bs) seed \<noteq> XXH64 (xs @ cs) seed"
proof -
  have len: "length cs = length bs" "length (xs @ bs) mod 32 = length bs" "32 \<le> length (xs @ bs) \<longleftrightarrow> n \<noteq> 0"
    using oneByte_length [OF assms(2)] assms by auto
  obtain w where "XXH64_lanes (seed + XXH_PRIME64_1 + XXH_PRIME64_2, seed + XXH_PRIME64_2, seed + 0,
              seed - XXH_PRIME64_1) (xs @ r) = (w, r)" if "length r < 32" for r
    using XXH64_lanes_prefix [OF assms(1,3)] by metis
  note w = this [of bs, OF assms(3)] this [of cs, unfolded len(1), OF assms(3)]
  show ?thesis
    using finalize_oneByte [OF assms(2) len(2) [symmetric]] assms(1) len
    by (cases "n = 0") (auto simp: XXH64_def Let_def w [simplified])
qed

end
