(* ===== verification/XXHash64_Stream.thy ===== *)
theory XXHash64_Stream
  imports XXHash64
begin

text \<open>
  The streaming interface of the 64 bit xxHash: \<^verbatim>\<open>XXH64_reset\<close>, \<^verbatim>\<open>XXH64_update\<close> and \<^verbatim>\<open>XXH64_digest\<close>
  with the state they share, four accumulators and a buffer of 32 bytes of which the first
  \<open>memsize\<close> are in use.  Built for small size, \<^verbatim>\<open>XXH64\<close> itself is these three calls.  The digest after any
  sequence of updates is the hash of the bytes of all of them.
\<close>

record XXH64_state =
  total_len :: "64 word"
  accs :: accumulators
  mem64 :: "byte list"
  memsize :: nat

definition XXH64_initAccs :: "64 word \<Rightarrow> accumulators" where
  "XXH64_initAccs seed =
     (seed + XXH_PRIME64_1 + XXH_PRIME64_2, seed + XXH_PRIME64_2, seed + 0, seed - XXH_PRIME64_1)"

definition XXH64_reset :: "64 word \<Rightarrow> XXH64_state" where
  "XXH64_reset seed = \<lparr>total_len = 0, accs = XXH64_initAccs seed, mem64 = replicate 32 0, memsize = 0\<rparr>"

text \<open>\<^verbatim>\<open>memcpy\<close> of \<open>src\<close> to the position \<open>off\<close> of \<open>dst\<close>.\<close>

definition XXH_memcpy :: "nat \<Rightarrow> byte list \<Rightarrow> byte list \<Rightarrow> byte list" where
  "XXH_memcpy off src dst = take off dst @ src @ drop (off + length src) dst"

definition consumeBlock :: "accumulators \<Rightarrow> byte list \<Rightarrow> accumulators" where
  "consumeBlock v p = (case v of (v1, v2, v3, v4) \<Rightarrow>
     (XXH64_round v1 (get64bits p), XXH64_round v2 (get64bits (drop 8 p)),
      XXH64_round v3 (get64bits (drop 16 p)), XXH64_round v4 (get64bits (drop 24 p))))"

function consumeBlocks :: "accumulators \<Rightarrow> byte list \<Rightarrow> accumulators \<times> byte list" where
  "consumeBlocks v p =
     (let v' = consumeBlock v p; p' = drop 32 p
      in if 32 \<le> length p' then consumeBlocks v' p' else (v', p'))"
  by auto
termination
  by (relation "measure (\<lambda>(v, p). length p)") auto

declare consumeBlocks.simps [simp del]

definition XXH64_update :: "byte list \<Rightarrow> XXH64_state \<Rightarrow> XXH64_state" where
  "XXH64_update input st =
     (let st1 = st\<lparr>total_len := total_len st + of_nat (length input)\<rparr>
      in if memsize st1 + length input < 32
         then st1\<lparr>mem64 := XXH_memcpy (memsize st1) input (mem64 st1), memsize := memsize st1 + length input\<rparr>
         else let (st2, p) =
                (if memsize st1 \<noteq> 0
                 then let m = XXH_memcpy (memsize st1) (take (32 - memsize st1) input) (mem64 st1)
                      in (st1\<lparr>mem64 := m, accs := consumeBlock (accs st1) m, memsize := 0\<rparr>,
                          drop (32 - memsize st1) input)
                 else (st1, input));
              (v, q) = (if 32 \<le> length p then consumeBlocks (accs st2) p else (accs st2, p));
              st3 = st2\<lparr>accs := v\<rparr>
              in if q \<noteq> [] then st3\<lparr>mem64 := XXH_memcpy 0 q (mem64 st3), memsize := length q\<rparr> else st3)"

definition XXH64_digest :: "XXH64_state \<Rightarrow> 64 word" where
  "XXH64_digest st =
     (let h64 = (if 32 \<le> total_len st then mergeAccumulators (accs st)
                 else (case accs st of (v1, v2, v3, v4) \<Rightarrow> v3) + XXH_PRIME64_5)
      in XXH64_finalize (h64 + total_len st) (mem64 st) (unat (total_len st)))"

definition XXH64_stream :: "byte list list \<Rightarrow> 64 word \<Rightarrow> 64 word" where
  "XXH64_stream chunks seed = XXH64_digest (fold XXH64_update chunks (XXH64_reset seed))"

section \<open>Blocks\<close>

lemma XXH64_lanes_short: "length bs < 32 \<Longrightarrow> XXH64_lanes v bs = (v, bs)"
  by (cases v) (simp add: XXH64_lanes.simps)

lemma XXH64_lanes_block:
  "32 \<le> length bs \<Longrightarrow> XXH64_lanes v bs = XXH64_lanes (consumeBlock v bs) (drop 32 bs)"
  by (cases v) (simp add: XXH64_lanes.simps consumeBlock_def)

lemma consumeBlock_append: "32 \<le> length a \<Longrightarrow> consumeBlock v (a @ b) = consumeBlock v a"
  by (cases v) (simp add: consumeBlock_def get64bits_def)

lemma consumeBlocks_lanes: "32 \<le> length p \<Longrightarrow> consumeBlocks v p = XXH64_lanes v p"
proof (induction v p rule: consumeBlocks.induct)
  case (1 v p)
  then show ?case
    by (subst consumeBlocks.simps) (simp add: Let_def XXH64_lanes_block [of p v] XXH64_lanes_short)
qed

lemma XXH64_lanes_append:
  "XXH64_lanes v (a @ b) = (case XXH64_lanes v a of (w, r) \<Rightarrow> XXH64_lanes w (r @ b))"
proof (induction v a rule: XXH64_lanes.induct)
  case (1 v1 v2 v3 v4 bs)
  show ?case
  proof (cases "32 \<le> length bs")
    case True
    let ?v = "(v1, v2, v3, v4)"
    have "XXH64_lanes ?v (bs @ b) = XXH64_lanes (consumeBlock ?v bs) (drop 32 bs @ b)"
      using True by (simp add: XXH64_lanes_block [of "bs @ b"] consumeBlock_append)
    also have "\<dots> = (case XXH64_lanes (consumeBlock ?v bs) (drop 32 bs) of (w, r) \<Rightarrow> XXH64_lanes w (r @ b))"
      using 1 [OF True] by (simp add: consumeBlock_def)
    finally show ?thesis
      by (simp add: XXH64_lanes_block [OF True])
  next
    case False
    then show ?thesis
      by (simp add: XXH64_lanes_short)
  qed
qed

lemma XXH64_lanes_rest: "length (snd (XXH64_lanes v bs)) = length bs mod 32"
proof (induction v bs rule: XXH64_lanes.induct)
  case (1 v1 v2 v3 v4 bs)
  then show ?case
    by (cases "32 \<le> length bs") (simp_all add: XXH64_lanes.simps [of v1] le_mod_geq)
qed

section \<open>The state of a stream\<close>

text \<open>The state after the bytes \<open>bs\<close>.\<close>

definition streamed :: "64 word \<Rightarrow> byte list \<Rightarrow> XXH64_state \<Rightarrow> bool" where
  "streamed seed bs st \<longleftrightarrow>
     total_len st = of_nat (length bs) \<and> length (mem64 st) = 32 \<and> memsize st < 32 \<and>
     XXH64_lanes (XXH64_initAccs seed) bs = (accs st, take (memsize st) (mem64 st))"

lemma streamed_reset: "streamed seed [] (XXH64_reset seed)"
  by (simp add: streamed_def XXH64_reset_def XXH64_lanes_short)

lemma streamedI:
  assumes "streamed seed bs st" "XXH64_lanes (accs st) (take (memsize st) (mem64 st) @ input) = (v, q)"
    "take n m = q" "length m = 32" "n < 32"
  shows "streamed seed (bs @ input) \<lparr>total_len = total_len st + of_nat (length input), accs = v, mem64 = m, memsize = n\<rparr>"
  using assms by (auto simp: streamed_def XXH64_lanes_append [of _ bs])

lemma XXH_memcpy_take:
  "off + length src \<le> length dst \<Longrightarrow> take (off + length src) (XXH_memcpy off src dst) = take off dst @ src"
  by (simp add: XXH_memcpy_def)

lemma XXH_memcpy_length: "off + length src \<le> length dst \<Longrightarrow> length (XXH_memcpy off src dst) = length dst"
  by (simp add: XXH_memcpy_def)

text \<open>The part of an update after the buffer was filled up and emptied.\<close>

lemma update_rest:
  assumes "streamed seed bs st" "XXH64_lanes (accs st) (take (memsize st) (mem64 st) @ input) = XXH64_lanes v p"
    "length m = 32"
  shows "streamed seed (bs @ input)
    (let (w, q) = (if 32 \<le> length p then consumeBlocks v p else (v, p));
         st1 = \<lparr>total_len = total_len st + of_nat (length input), accs = w, mem64 = m, memsize = 0\<rparr>
     in if q \<noteq> [] then st1\<lparr>mem64 := XXH_memcpy 0 q m, memsize := length q\<rparr> else st1)"
proof -
  have eq: "(if 32 \<le> length p then consumeBlocks v p else (v, p)) = XXH64_lanes v p"
    by (simp add: consumeBlocks_lanes XXH64_lanes_short)
  obtain w q where wq: "XXH64_lanes v p = (w, q)"
    by fastforce
  have q: "length q < 32"
    using XXH64_lanes_rest [of v p] by (simp add: wq)
  show ?thesis
    unfolding eq wq
    using streamedI [OF assms(1) assms(2) [unfolded wq], of "length q" "XXH_memcpy 0 q m"]
      streamedI [OF assms(1) assms(2) [unfolded wq], of 0 m]
      XXH_memcpy_take [of 0 q m] XXH_memcpy_length [of 0 q m] assms(3) q
    by (auto simp: Let_def)
qed

lemma update_streamed:
  assumes "streamed seed bs st"
  shows "streamed seed (bs @ input) (XXH64_update input st)"
proof -
  let ?n = "memsize st" and ?m = "mem64 st"
  have inv: "length ?m = 32" "?n < 32"
    using assms by (simp_all add: streamed_def)
  consider "?n + length input < 32" | "32 \<le> ?n + length input" "?n = 0" | "32 \<le> ?n + length input" "?n \<noteq> 0"
    by linarith
  then show ?thesis
  proof cases
    case 1
    then show ?thesis
      using streamedI [OF assms XXH64_lanes_short, of input "?n + length input" "XXH_memcpy ?n input ?m"] inv
      by (cases st) (simp add: XXH64_update_def XXH_memcpy_take XXH_memcpy_length)
  next
    case 2
    then show ?thesis
      using update_rest [OF assms, of input "accs st" input ?m] inv
      by (cases st) (auto simp: XXH64_update_def Let_def case_prod_unfold split: if_splits)
  next
    case 3
    let ?m' = "XXH_memcpy ?n (take (32 - ?n) input) ?m"
    have m': "?m' = take ?n ?m @ take (32 - ?n) input" "length ?m' = 32"
      using 3 inv by (simp_all add: XXH_memcpy_def)
    then have "take ?n ?m @ input = ?m' @ drop (32 - ?n) input"
      by simp
    then have "XXH64_lanes (accs st) (take ?n ?m @ input) = XXH64_lanes (consumeBlock (accs st) ?m') (drop (32 - ?n) input)"
      using m'(2) by (simp add: XXH64_lanes_block consumeBlock_append)
    then show ?thesis
      using update_rest [OF assms _ m'(2), of input "consumeBlock (accs st) ?m'" "drop (32 - ?n) input"] 3
      by (cases st) (auto simp: XXH64_update_def Let_def case_prod_unfold split: if_splits)
  qed
qed

lemma updates_streamed: "streamed seed bs st \<Longrightarrow> streamed seed (bs @ concat chunks) (fold XXH64_update chunks st)"
proof (induction chunks arbitrary: bs st)
  case (Cons c chunks)
  show ?case
    using Cons(1) [OF update_streamed [OF Cons(2), of c]] by simp
qed simp

lemma finalize_take: "XXH64_finalize h (take (len mod 32) bs) len = XXH64_finalize h bs len"
  by (simp add: XXH64_finalize_def)

lemma digest_streamed:
  assumes "streamed seed bs st" "length bs < 2 ^ 64"
  shows "XXH64_digest st = XXH64 bs seed"
proof -
  have total: "unat (total_len st) = length bs" "32 \<le> total_len st \<longleftrightarrow> 32 \<le> length bs"
    using assms by (simp_all add: streamed_def unat_of_nat word_le_nat_alt)
  have lanes: "XXH64_lanes (XXH64_initAccs seed) bs = (accs st, take (memsize st) (mem64 st))"
    and n: "memsize st < 32" "length (mem64 st) = 32" "total_len st = of_nat (length bs)"
    using assms(1) by (simp_all add: streamed_def)
  note total = total [unfolded n(3)]
  have rest: "memsize st = length bs mod 32"
    using XXH64_lanes_rest [of "XXH64_initAccs seed" bs] lanes n by simp
  show ?thesis
  proof (cases "32 \<le> length bs")
    case True
    then show ?thesis
      using lanes by (simp add: XXH64_digest_def XXH64_def Let_def total n rest finalize_take XXH64_initAccs_def)
  next
    case False
    then have "accs st = XXH64_initAccs seed" "take (memsize st) (mem64 st) = bs"
      using lanes by (simp_all add: XXH64_lanes_short)
    then show ?thesis
      using False finalize_take [of _ "length bs" "mem64 st"]
      by (simp add: XXH64_digest_def XXH64_def Let_def total n rest XXH64_initAccs_def)
  qed
qed

section \<open>Properties\<close>

text \<open>C35:
  Hashing a stream gives the hash of the whole input: whatever the bytes are split into, the digest
  after \<^verbatim>\<open>XXH64_reset\<close> and one \<^verbatim>\<open>XXH64_update\<close> per part is \<^verbatim>\<open>XXH64\<close> of their concatenation, for every
  input shorter than 2 to the 64 bytes.
\<close>

theorem xxhash_stream_equiv:
  assumes "length (concat chunks) < 2 ^ 64"
  shows "XXH64_stream chunks seed = XXH64 (concat chunks) seed"
proof -
  have "streamed seed (concat chunks) (fold XXH64_update chunks (XXH64_reset seed))"
    using updates_streamed [OF streamed_reset, of seed chunks] by simp
  then show ?thesis
    unfolding XXH64_stream_def by (rule digest_streamed) (rule assms)
qed

theorem xxhash_stream_equiv_witness:
  "length (concat [replicate 30 7, replicate 40 9, [1 :: byte]]) < 2 ^ 64 \<and>
   XXH64_stream [replicate 30 7, replicate 40 9, [1]] 5 = XXH64 (concat [replicate 30 7, replicate 40 9, [1]]) 5"
  using xxhash_stream_equiv [of "[replicate 30 7, replicate 40 9, [1]]" 5] by simp

end
