(* ===== verification/Insert_Document.thy ===== *)
theory Insert_Document
  imports Document_Integrity Namespace_Names
begin

text \<open>
  What happens to a document before it is inserted (\<^verbatim>\<open>db/ops/insert.cpp\<close>): \<open>fixDocumentForInsert\<close> refuses documents with reserved names or
  unusable ids, puts the id first, adds one where it is missing and fills in empty timestamps; \<open>userAllowedWriteNS\<close>
  says which namespaces a user may write to.  \<open>okForStorage\<close> is the check of embedded documents
  (\<^verbatim>\<open>BSONObj::_okForStorage\<close> in \<^verbatim>\<open>bson/bsonobj.cpp\<close>).

  New object ids and timestamps come from the process wide generators, which are two functions on the
  generators' state here.
\<close>

section \<open>Definitions\<close>

definition startsWithDollar :: "byte list \<Rightarrow> bool" where
  "startsWithDollar name = (case name of [] \<Rightarrow> False | c # _ \<Rightarrow> c = 0x24)"

definition idName :: "byte list" where
  "idName = ascii ''_id''"

definition noRootIdType :: "BSONType \<Rightarrow> bool" where
  "noRootIdType t \<longleftrightarrow> t = RegEx \<or> t = Array \<or> t = Undefined"

text \<open>
  The loop of \<open>okForStorage\<close> over the elements, with the variable \<open>first\<close>; \<open>okField\<close> holds the checks behind the
  treatment of names with a dollar, and \<open>okNested\<close> the recursive call for an embedded document.
\<close>

function okForStorage :: "bool \<Rightarrow> bool \<Rightarrow> bool \<Rightarrow> Doc \<Rightarrow> ErrorCode option"
  and okField :: "bool \<Rightarrow> bool \<Rightarrow> byte list \<Rightarrow> Value \<Rightarrow> Doc \<Rightarrow> ErrorCode option"
  and okNested :: "Value \<Rightarrow> ErrorCode option" where
  "okForStorage root deep first EndDoc = None"
| "okForStorage root deep first (Field name v d) =
     (if startsWithDollar name then
        if first \<and> name = ascii ''$ref'' \<and> valueType v = String then
          (case d of
             EndDoc \<Rightarrow> Some DollarPrefixedFieldName
           | Field name2 v2 d2 \<Rightarrow>
               if name2 = ascii ''$id'' then
                 (case d2 of
                    EndDoc \<Rightarrow> None
                  | Field name3 v3 d3 \<Rightarrow>
                      if name3 = ascii ''$db'' \<and> valueType v3 = String then okForStorage root deep False d3
                      else if startsWithDollar name3 then Some DollarPrefixedFieldName
                      else okField root deep name3 v3 d3)
               else Some DollarPrefixedFieldName)
        else Some DollarPrefixedFieldName
      else okField root deep name v d)"
| "okField root deep name v d =
     (if 0x2E \<in> set name then Some DottedFieldName
      else if root \<and> noRootIdType (valueType v) \<and> name = idName then Some InvalidIdField
      else case (if deep then okNested v else None) of
          Some s \<Rightarrow> Some s
        | None \<Rightarrow> okForStorage root deep False d)"
| "okNested v = (case v of
       ObjectValue d \<Rightarrow> okForStorage False True True d
     | ArrayValue d \<Rightarrow> okForStorage False True True d
     | CodeWScopeValue c d \<Rightarrow> okForStorage False True True d
     | _ \<Rightarrow> None)"
  by pat_completeness auto
termination
  by (relation "measure (case_sum (\<lambda>(r, dp, f, d). 2 * size d)
        (case_sum (\<lambda>(r, dp, n, v, d). 2 * (size v + size d) + 1) (\<lambda>v. 2 * size v)))")
    (auto split: if_splits)

declare okForStorage.simps [simp del] okField.simps [simp del] okNested.simps [simp del]

definition storageValidEmbedded :: "Doc \<Rightarrow> ErrorCode option" where
  "storageValidEmbedded d = okForStorage False True True d"

definition BSONObjMaxUserSize :: int where
  "BSONObjMaxUserSize = 16 * 1024 * 1024"

text \<open>The first loop of \<open>fixDocumentForInsert\<close> with its local variables, one element at a time.\<close>

record FixScan =
  isFirstElement :: bool
  firstElementIsId :: bool
  hasTimestampToFix :: bool
  hadId :: bool

definition checkId :: "Value \<Rightarrow> FixScan \<Rightarrow> ErrorCode + FixScan" where
  "checkId v s =
     (if valueType v = RegEx then Inl BadValue
      else if valueType v = Undefined then Inl BadValue
      else if valueType v = Array then Inl BadValue
      else case (case v of ObjectValue o1 \<Rightarrow> storageValidEmbedded o1 | _ \<Rightarrow> None) of
          Some e \<Rightarrow> Inl e
        | None \<Rightarrow>
            if hadId s then Inl BadValue
            else Inr (s\<lparr>hadId := True, firstElementIsId := isFirstElement s\<rparr>))"

definition fixElement :: "byte list \<Rightarrow> Value \<Rightarrow> FixScan \<Rightarrow> ErrorCode + FixScan" where
  "fixElement n v s =
     (let s1 = (if v = TimestampValue 0 then s\<lparr>hasTimestampToFix := True\<rparr> else s)
      in if startsWithDollar n then Inl BadValue
         else if n = idName then checkId v s1 else Inr s1)"

primrec fixScan :: "Doc \<Rightarrow> FixScan \<Rightarrow> ErrorCode + FixScan" where
  "fixScan EndDoc s = Inr s"
| "fixScan (Field n v d) s =
     (case fixElement n v s of Inl e \<Rightarrow> Inl e | Inr s' \<Rightarrow> fixScan d (s'\<lparr>isFirstElement := False\<rparr>))"

text \<open>The second loop, which copies the elements and replaces empty timestamps.\<close>

primrec fixCopy :: "('g \<Rightarrow> 64 word \<times> 'g) \<Rightarrow> bool \<Rightarrow> Doc \<Rightarrow> 'g \<Rightarrow> Doc \<times> 'g" where
  "fixCopy nextTimestamp had EndDoc g = (EndDoc, g)"
| "fixCopy nextTimestamp had (Field n v d) g =
     (if had \<and> n = idName then fixCopy nextTimestamp had d g
      else if v = TimestampValue 0 then
        (case nextTimestamp g of (t, g1) \<Rightarrow>
         case fixCopy nextTimestamp had d g1 of (r, g2) \<Rightarrow> (Field n (TimestampValue t) r, g2))
      else case fixCopy nextTimestamp had d g of (r, g1) \<Rightarrow> (Field n v r, g1))"

definition fixDocumentForInsert ::
    "('g \<Rightarrow> byte list \<times> 'g) \<Rightarrow> ('g \<Rightarrow> 64 word \<times> 'g) \<Rightarrow> Doc \<Rightarrow> 'g \<Rightarrow> (ErrorCode + Doc) \<times> 'g" where
  "fixDocumentForInsert newOid nextTimestamp doc g =
     (if int (length (encodeObj doc)) > BSONObjMaxUserSize then (Inl BadValue, g)
      else case fixScan doc \<lparr>isFirstElement = True, firstElementIsId = False, hasTimestampToFix = False, hadId = False\<rparr> of
          Inl e \<Rightarrow> (Inl e, g)
        | Inr s \<Rightarrow>
            if firstElementIsId s \<and> \<not> hasTimestampToFix s then (Inr EndDoc, g)
            else case (case (firstElementIsId s, doc) of
                    (True, Field n v d) \<Rightarrow> (n, v, d, g)
                  | _ \<Rightarrow> (case docField doc idName of
                        Some v \<Rightarrow> (idName, v, doc, g)
                      | None \<Rightarrow> (case newOid g of (oid, g1) \<Rightarrow> (idName, OIDValue oid, doc, g1)))) of
                (n, v, d, g1) \<Rightarrow>
                  case fixCopy nextTimestamp (hadId s) d g1 of (r, g2) \<Rightarrow> (Inr (Field n v r), g2))"

section \<open>Namespaces\<close>

definition MaxNsCollectionLen :: nat where
  "MaxNsCollectionLen = 128 - 1 - 7"

primrec containsStr :: "string \<Rightarrow> string \<Rightarrow> bool" where
  "containsStr p [] = (p = [])"
| "containsStr p (c # s) = (take (length p) (c # s) = p \<or> containsStr p s)"

definition userAllowedCreateNS :: "string \<Rightarrow> string \<Rightarrow> ErrorCode option" where
  "userAllowedCreateNS db coll =
     (if length db = 0 then Some BadValue
      else if \<not> validDBName True db then Some BadValue
      else if length coll = 0 then Some BadValue
      else if \<not> validCollectionName coll then Some BadValue
      else if length db + 1 + length coll > MaxNsCollectionLen then Some BadValue
      else if db = ''system'' then Some BadValue
      else if take 7 coll = ''system.'' then
        if coll = ''system.indexes'' then None
        else if coll = ''system.js'' then None
        else if coll = ''system.profile'' then None
        else if coll = ''system.users'' then None
        else if coll = ''system.views'' then None
        else if db = ''admin'' \<and> coll \<in> {''system.version'', ''system.roles'', ''system.new_users'', ''system.backup_users''} then None
        else if db = ''local'' \<and> coll = ''system.replset'' then None
        else Some BadValue
      else if containsStr ''.system.'' coll then Some BadValue
      else None)"

definition userAllowedWriteNS :: "string \<Rightarrow> string \<Rightarrow> ErrorCode option" where
  "userAllowedWriteNS db coll =
     (if coll = ''system.profile'' then Some BadValue else userAllowedCreateNS db coll)"

section \<open>The scan\<close>

primrec fieldList :: "Doc \<Rightarrow> (byte list \<times> Value) list" where
  "fieldList EndDoc = []"
| "fieldList (Field n v d) = (n, v) # fieldList d"

definition idOk :: "Value \<Rightarrow> bool" where
  "idOk v \<longleftrightarrow> \<not> noRootIdType (valueType v) \<and> (\<forall>d. v = ObjectValue d \<longrightarrow> storageValidEmbedded d = None)"

text \<open>The documents that may be inserted.\<close>

definition idFields :: "Doc \<Rightarrow> Value list" where
  "idFields d = map snd (filter (\<lambda>f. fst f = idName) (fieldList d))"

definition fieldsOk :: "Doc \<Rightarrow> bool" where
  "fieldsOk d \<longleftrightarrow> list_all (\<lambda>f. \<not> startsWithDollar (fst f)) (fieldList d) \<and>
     list_all idOk (idFields d)"

definition insertable :: "Doc \<Rightarrow> bool" where
  "insertable d \<longleftrightarrow> int (length (encodeObj d)) \<le> BSONObjMaxUserSize \<and> fieldsOk d \<and> length (idFields d) \<le> 1"

lemma checkId_eq:
  "(case checkId v s of Inl e \<Rightarrow> \<not> (idOk v \<and> \<not> hadId s)
     | Inr s' \<Rightarrow> idOk v \<and> \<not> hadId s \<and> s' = s\<lparr>hadId := True, firstElementIsId := isFirstElement s\<rparr>)"
  by (cases v) (auto simp: checkId_def idOk_def noRootIdType_def split: option.splits)

lemma fixScan_result:
  "(case fixScan d s of
      Inl e \<Rightarrow> \<not> (fieldsOk d \<and> length (idFields d) \<le> (if hadId s then 0 else 1))
    | Inr s' \<Rightarrow> fieldsOk d \<and> length (idFields d) \<le> (if hadId s then 0 else 1) \<and>
        hadId s' = (hadId s \<or> idFields d \<noteq> []) \<and>
        hasTimestampToFix s' = (hasTimestampToFix s \<or> TimestampValue 0 \<in> set (map snd (fieldList d))) \<and>
        firstElementIsId s' = (if idFields d = [] then firstElementIsId s
          else isFirstElement s \<and> fst (hd (fieldList d)) = idName))"
proof (induction d arbitrary: s rule: fields_induct)
  case EndDoc
  show ?case
    by (simp add: fieldsOk_def idFields_def)
next
  case (Field n v d)
  show ?case
  proof (cases "startsWithDollar n")
    case True
    then show ?thesis
      by (simp add: fixElement_def fieldsOk_def)
  next
    case dollar: False
    define s1 where "s1 = (if v = TimestampValue 0 then s\<lparr>hasTimestampToFix := True\<rparr> else s)"
    have s1: "hadId s1 = hadId s" "isFirstElement s1 = isFirstElement s" "firstElementIsId s1 = firstElementIsId s"
      "hasTimestampToFix s1 = (hasTimestampToFix s \<or> v = TimestampValue 0)"
      by (simp_all add: s1_def)
    show ?thesis
    proof (cases "n = idName")
      case True
      show ?thesis
        using checkId_eq [of v s1] Field [of "s1\<lparr>hadId := True, firstElementIsId := isFirstElement s1, isFirstElement := False\<rparr>"] dollar
        by (auto simp: fixElement_def s1_def [symmetric] fieldsOk_def idFields_def True s1 split: sum.splits if_splits)
    next
      case False
      then show ?thesis
        using Field [of "s1\<lparr>isFirstElement := False\<rparr>"] dollar
        by (auto simp: fixElement_def s1_def [symmetric] fieldsOk_def idFields_def s1 split: sum.splits if_splits)
    qed
  qed
qed

section \<open>The copy\<close>

text \<open>The fields with every empty timestamp replaced by the next one of the generator.\<close>

primrec stampZero :: "('g \<Rightarrow> 64 word \<times> 'g) \<Rightarrow> (byte list \<times> Value) list \<Rightarrow> 'g \<Rightarrow> (byte list \<times> Value) list" where
  "stampZero nextTimestamp [] g = []"
| "stampZero nextTimestamp (f # fs) g =
     (if snd f = TimestampValue 0
      then (fst f, TimestampValue (fst (nextTimestamp g))) # stampZero nextTimestamp fs (snd (nextTimestamp g))
      else f # stampZero nextTimestamp fs g)"

definition otherFields :: "Doc \<Rightarrow> (byte list \<times> Value) list" where
  "otherFields d = filter (\<lambda>f. fst f \<noteq> idName) (fieldList d)"

lemma fixCopy_fields:
  assumes "had \<or> idFields d = []"
  shows "fieldList (fst (fixCopy nextTimestamp had d g)) = stampZero nextTimestamp (otherFields d) g"
  using assms
  by (induction d arbitrary: g rule: fields_induct)
    (auto simp: otherFields_def idFields_def case_prod_unfold split: if_splits)

lemma stampZero_id: "TimestampValue 0 \<notin> snd ` set fs \<Longrightarrow> stampZero nextTimestamp fs g = fs"
  by (induction fs) auto

lemma docField_idFields: "docField d idName = (case idFields d of [] \<Rightarrow> None | v # _ \<Rightarrow> Some v)"
  by (induction d rule: fields_induct) (auto simp: idFields_def)

lemma fieldList_first:
  assumes "d = Field idName v d'" "length (idFields d) \<le> 1"
  shows "fieldList d = (idName, v) # otherFields d'" "otherFields d = otherFields d'" "idFields d = [v]"
  using assms by (auto simp: otherFields_def idFields_def filter_empty_conv intro!: filter_True [symmetric])

text \<open>The id the document gets and the state of the generators behind it.\<close>

definition givenId :: "('g \<Rightarrow> byte list \<times> 'g) \<Rightarrow> Doc \<Rightarrow> 'g \<Rightarrow> Value \<times> 'g" where
  "givenId newOid doc g = (case idFields doc of
       v # _ \<Rightarrow> (v, g)
     | [] \<Rightarrow> (OIDValue (fst (newOid g)), snd (newOid g)))"

definition fixedFields ::
    "('g \<Rightarrow> byte list \<times> 'g) \<Rightarrow> ('g \<Rightarrow> 64 word \<times> 'g) \<Rightarrow> Doc \<Rightarrow> 'g \<Rightarrow> (byte list \<times> Value) list" where
  "fixedFields newOid nextTimestamp doc g =
     (case givenId newOid doc g of (v, g1) \<Rightarrow> (idName, v) # stampZero nextTimestamp (otherFields doc) g1)"

lemma fixDocument_error:
  assumes "\<not> insertable doc"
  shows "\<exists>e. fixDocumentForInsert newOid nextTimestamp doc g = (Inl e, g)"
  using assms fixScan_result [of doc "\<lparr>isFirstElement = True, firstElementIsId = False, hasTimestampToFix = False, hadId = False\<rparr>"]
  by (auto simp: fixDocumentForInsert_def insertable_def split: sum.splits)

lemma fixDocument_ok:
  assumes "insertable doc"
  obtains r g' where "fixDocumentForInsert newOid nextTimestamp doc g = (Inr r, g')"
    "fieldList (if r = EndDoc then doc else r) = fixedFields newOid nextTimestamp doc g"
proof -
  let ?s0 = "\<lparr>isFirstElement = True, firstElementIsId = False, hasTimestampToFix = False, hadId = False\<rparr>"
  obtain s where s: "fixScan doc ?s0 = Inr s" and had: "hadId s = (idFields doc \<noteq> [])"
    and ts: "hasTimestampToFix s = (TimestampValue 0 \<in> set (map snd (fieldList doc)))"
    and first: "firstElementIsId s = (idFields doc \<noteq> [] \<and> fst (hd (fieldList doc)) = idName)"
    using fixScan_result [of doc ?s0] assms by (auto simp: insertable_def split: sum.splits)
  have len: "int (length (encodeObj doc)) \<le> BSONObjMaxUserSize" "length (idFields doc) \<le> 1"
    using assms by (simp_all add: insertable_def)
  show ?thesis
  proof (cases "firstElementIsId s")
    case True
    then obtain v d where doc: "doc = Field idName v d"
      using first by (cases doc) (auto simp: idFields_def)
    note f = fieldList_first [OF doc len(2)]
    show ?thesis
    proof (cases "hasTimestampToFix s")
      case False
      then have "TimestampValue 0 \<notin> snd ` set (otherFields doc)"
        using ts by (auto simp: otherFields_def)
      then show ?thesis
        using that [of EndDoc g] True False s len f
        by (simp add: fixDocumentForInsert_def fixedFields_def givenId_def stampZero_id not_less)
    next
      case hasTs: True
      obtain r g' where r: "fixCopy nextTimestamp True d g = (r, g')"
        by fastforce
      then have "fieldList r = stampZero nextTimestamp (otherFields d) g"
        using fixCopy_fields [of True d nextTimestamp g] by simp
      then show ?thesis
        using that [of "Field idName v r" g'] True hasTs s len f r had
        by (simp add: fixDocumentForInsert_def fixedFields_def givenId_def doc not_less)
    qed
  next
    case False
    obtain v g1 where id: "givenId newOid doc g = (v, g1)"
      by fastforce
    obtain r g' where r: "fixCopy nextTimestamp (hadId s) doc g1 = (r, g')"
      by fastforce
    have "fieldList r = stampZero nextTimestamp (otherFields doc) g1"
      using fixCopy_fields [of "hadId s" doc nextTimestamp g1] r had by simp
    moreover have "(case docField doc idName of Some v \<Rightarrow> (idName, v, doc, g)
        | None \<Rightarrow> (case newOid g of (oid, g1) \<Rightarrow> (idName, OIDValue oid, doc, g1))) = (idName, v, doc, g1)"
      using id by (cases "idFields doc") (simp_all add: givenId_def docField_idFields case_prod_unfold)
    then have "fixDocumentForInsert newOid nextTimestamp doc g = (Inr (Field idName v r), g')"
      using False s len(1) r by (simp add: fixDocumentForInsert_def not_less)
    ultimately show ?thesis
      using that [of "Field idName v r" g'] id by (simp add: fixedFields_def)
  qed
qed

lemma stampZero_names: "map fst (stampZero nextTimestamp fs g) = map fst fs"
  by (induction fs arbitrary: g) auto

lemma docField_None: "docField d n = None \<longleftrightarrow> n \<notin> fst ` set (fieldList d)"
  by (induction d rule: fields_induct) auto

lemma fixedFields_hash:
  assumes "fieldList d = fixedFields newOid nextTimestamp (stripHashField doc) g"
  shows "\<not> docHasField d kDocHashFieldName"
proof -
  have "kDocHashFieldName \<notin> set (map fst (stampZero nextTimestamp (otherFields (stripHashField doc)) g1))" for g1
    unfolding stampZero_names using copyWithoutHash_none [of doc, unfolded docField_None]
    by (auto simp: stripHashField_eq otherFields_def)
  moreover have "kDocHashFieldName \<noteq> idName"
    by code_simp
  ultimately show ?thesis
    using assms by (auto simp: docHasField_def docField_None fixedFields_def split: prod.splits)
qed

end
