(* ===== verification/Write_Ops.thy ===== *)
theory Write_Ops
  imports Insert_Document
begin

text \<open>
  Execution of an insert command (\<^verbatim>\<open>db/ops/write_ops_exec.cpp\<close>): every document is verified, stripped of its hash and
  fixed; the prepared documents are collected into batches, a batch is tried in one unit of work and, if
  that fails, document by document with a retry after write conflicts; errors are reported in the
  order of the documents, and an ordered insert stops at the first one.

  Storage is a record of operations on a state of unknown type: acquiring the collection, inserting several documents in
  one unit of work, and creating an index.  An exception is the first component of their result.  The loop that retries after
  a write conflict may run forever, so it is a partial function.  Operation counters and the
  client's last optime are not part of the model.

  The main property says that batches are invisible: with storage that keeps its
  promises the results and the stored documents are those of inserting one document after the other.
\<close>

section \<open>Definitions\<close>

datatype DBException = SendStaleConfigException nat | ExceptionWithCode ErrorCode

record 'c Storage =
  acquireCollection :: "'c \<Rightarrow> DBException option \<times> 'c"
  isCapped :: "'c \<Rightarrow> bool"
  insertDocuments :: "Doc list \<Rightarrow> 'c \<Rightarrow> DBException option \<times> 'c"
  createIndex :: "Doc \<Rightarrow> 'c \<Rightarrow> (DBException + nat) \<times> 'c"

record WriteResult =
  results :: "(ErrorCode + nat) list"
  staleConfigException :: "nat option"

definition addResult :: "ErrorCode + nat \<Rightarrow> WriteResult \<Rightarrow> WriteResult" where
  "addResult r out = out\<lparr>results := results out @ [r]\<rparr>"

fun handleError :: "DBException \<Rightarrow> bool \<Rightarrow> WriteResult \<Rightarrow> (DBException + bool) \<times> WriteResult" where
  "handleError (ExceptionWithCode (Interruption k)) continueOnError out =
     (Inl (ExceptionWithCode (Interruption k)), out)"
| "handleError (ExceptionWithCode (StaleShardingError k)) continueOnError out =
     (Inl (ExceptionWithCode (OtherError 35475)), out)"
| "handleError (SendStaleConfigException k) continueOnError out =
     (Inr False, out\<lparr>staleConfigException := Some k\<rparr>)"
| "handleError (ExceptionWithCode e) continueOnError out = (Inr continueOnError, addResult (Inl e) out)"

fun performCreateIndexes ::
    "'c Storage \<Rightarrow> bool \<Rightarrow> Doc list \<Rightarrow> WriteResult \<Rightarrow> 'c \<Rightarrow> DBException option \<times> WriteResult \<times> 'c" where
  "performCreateIndexes S continueOnError [] out c = (None, out, c)"
| "performCreateIndexes S continueOnError (spec # specs) out c =
     (case createIndex S spec c of
        (Inr n, c1) \<Rightarrow> performCreateIndexes S continueOnError specs (addResult (Inr n) out) c1
      | (Inl ex, c1) \<Rightarrow> (case handleError ex continueOnError out of
            (Inl ex', out1) \<Rightarrow> (Some ex', out1, c1)
          | (Inr canContinue, out1) \<Rightarrow>
              if \<not> canContinue then (None, out1, c1) else performCreateIndexes S continueOnError specs out1 c1))"

text \<open>The attempts to insert one document; \<open>held\<close> says that the collection is locked.\<close>

partial_function (option) retryInsert ::
    "'c Storage \<Rightarrow> Doc \<Rightarrow> bool \<Rightarrow> 'c \<Rightarrow> (DBException option \<times> bool \<times> 'c) option" where
  "retryInsert S d held c =
     (case (if held then (None, c) else acquireCollection S c) of
        (Some ex, c1) \<Rightarrow>
          if ex = ExceptionWithCode WriteConflict then retryInsert S d False c1 else Some (Some ex, False, c1)
      | (None, c1) \<Rightarrow> (case insertDocuments S [d] c1 of
            (None, c2) \<Rightarrow> Some (None, True, c2)
          | (Some ex, c2) \<Rightarrow>
              if ex = ExceptionWithCode WriteConflict then retryInsert S d False c2 else Some (Some ex, False, c2)))"

fun insertOneByOne ::
    "'c Storage \<Rightarrow> bool \<Rightarrow> Doc list \<Rightarrow> bool \<Rightarrow> WriteResult \<Rightarrow> 'c \<Rightarrow> ((DBException + bool) \<times> WriteResult \<times> 'c) option" where
  "insertOneByOne S continueOnError [] held out c = Some (Inr True, out, c)"
| "insertOneByOne S continueOnError (d # ds) held out c =
     (case retryInsert S d held c of
        None \<Rightarrow> None
      | Some (None, held1, c1) \<Rightarrow> insertOneByOne S continueOnError ds held1 (addResult (Inr 1) out) c1
      | Some (Some ex, held1, c1) \<Rightarrow> (case handleError ex continueOnError out of
            (Inl ex', out1) \<Rightarrow> Some (Inl ex', out1, c1)
          | (Inr canContinue, out1) \<Rightarrow>
              if \<not> canContinue then Some (Inr False, out1, c1)
              else insertOneByOne S continueOnError ds held1 out1 c1))"

definition insertBatchAndHandleErrors ::
    "'c Storage \<Rightarrow> bool \<Rightarrow> Doc list \<Rightarrow> WriteResult \<Rightarrow> 'c \<Rightarrow> ((DBException + bool) \<times> WriteResult \<times> 'c) option" where
  "insertBatchAndHandleErrors S continueOnError batch out c =
     (if batch = [] then Some (Inr True, out, c)
      else case acquireCollection S c of
          (Some ex, c1) \<Rightarrow> insertOneByOne S continueOnError batch False out c1
        | (None, c1) \<Rightarrow>
            if \<not> isCapped S c1 \<and> length batch > 1 then
              (case insertDocuments S batch c1 of
                 (None, c2) \<Rightarrow>
                   Some (Inr True, out\<lparr>results := results out @ replicate (length batch) (Inr 1)\<rparr>, c2)
               | (Some ex, c2) \<Rightarrow> insertOneByOne S continueOnError batch False out c2)
            else insertOneByOne S continueOnError batch True out c1)"

text \<open>The first part of the loop of \<^verbatim>\<open>performInserts\<close>: the document to insert, or the error of this one.\<close>

definition prepareDocument ::
    "('g \<Rightarrow> byte list \<times> 'g) \<Rightarrow> ('g \<Rightarrow> 64 word \<times> 'g) \<Rightarrow> Doc \<Rightarrow> 'g \<Rightarrow> (ErrorCode + Doc) \<times> 'g" where
  "prepareDocument newOid nextTimestamp doc g =
     (let hasHash = docHasField doc kDocHashFieldName;
          integrityStatus = (if hasHash then verifyDocumentIntegrity doc else None)
      in case integrityStatus of
          Some e \<Rightarrow> (Inl e, g)
        | None \<Rightarrow>
            let docToInsert = (if hasHash then stripHashField doc else doc)
            in case fixDocumentForInsert newOid nextTimestamp docToInsert g of
                (Inl e, g1) \<Rightarrow> (Inl e, g1)
              | (Inr fixed, g1) \<Rightarrow> (Inr (if fixed = EndDoc then docToInsert else fixed), g1))"

definition insertVectorMaxBytes :: int where
  "insertVectorMaxBytes = 256 * 1024"

text \<open>The second part, when the batch is inserted: \<open>err\<close> is the error of the current document.\<close>

definition flushBatch ::
    "'c Storage \<Rightarrow> bool \<Rightarrow> Doc list \<Rightarrow> ErrorCode option \<Rightarrow> WriteResult \<Rightarrow> 'c \<Rightarrow>
      ((DBException + bool) \<times> WriteResult \<times> 'c) option" where
  "flushBatch S continueOnError batch err out c =
     (case insertBatchAndHandleErrors S continueOnError batch out c of
        Some (Inr True, out1, c1) \<Rightarrow> (case err of
            None \<Rightarrow> Some (Inr True, out1, c1)
          | Some e \<Rightarrow> (case handleError (ExceptionWithCode e) continueOnError out1 of
                (r, out2) \<Rightarrow> Some (r, out2, c1)))
      | r \<Rightarrow> r)"

fun insertLoop ::
    "'c Storage \<Rightarrow> ('g \<Rightarrow> byte list \<times> 'g) \<Rightarrow> ('g \<Rightarrow> 64 word \<times> 'g) \<Rightarrow> bool \<Rightarrow> nat \<Rightarrow>
      Doc list \<Rightarrow> Doc list \<Rightarrow> nat \<Rightarrow> WriteResult \<Rightarrow> 'g \<Rightarrow> 'c \<Rightarrow> (DBException option \<times> WriteResult \<times> 'c) option" where
  "insertLoop S newOid nextTimestamp continueOnError maxBatchSize [] batch bytesInBatch out g c = Some (None, out, c)"
| "insertLoop S newOid nextTimestamp continueOnError maxBatchSize (doc # docs) batch bytesInBatch out g c =
     (let isLastDoc = (docs = []);
          (prepared, g1) = prepareDocument newOid nextTimestamp doc g;
          (batch1, bytes1, err) = (case prepared of
              Inl e \<Rightarrow> (batch, bytesInBatch, Some e)
            | Inr d \<Rightarrow> (batch @ [d], bytesInBatch + length (encodeObj d), None))
      in if err = None \<and> \<not> isLastDoc \<and> length batch1 < maxBatchSize \<and> int bytes1 < insertVectorMaxBytes
         then insertLoop S newOid nextTimestamp continueOnError maxBatchSize docs batch1 bytes1 out g1 c
         else case flushBatch S continueOnError batch1 err out c of
             None \<Rightarrow> None
           | Some (Inl ex, out1, c1) \<Rightarrow> Some (Some ex, out1, c1)
           | Some (Inr canContinue, out1, c1) \<Rightarrow>
               if \<not> canContinue then Some (None, out1, c1)
               else insertLoop S newOid nextTimestamp continueOnError maxBatchSize docs [] 0 out1 g1 c1)"

definition performInserts ::
    "'c Storage \<Rightarrow> ('g \<Rightarrow> byte list \<times> 'g) \<Rightarrow> ('g \<Rightarrow> 64 word \<times> 'g) \<Rightarrow> nat \<Rightarrow>
      string \<Rightarrow> string \<Rightarrow> bool \<Rightarrow> Doc list \<Rightarrow> 'g \<Rightarrow> 'c \<Rightarrow> (DBException option \<times> WriteResult \<times> 'c) option" where
  "performInserts S newOid nextTimestamp maxBatchSize db coll continueOnError docs g c =
     (let out = \<lparr>results = [], staleConfigException = None\<rparr>
      in case userAllowedWriteNS db coll of
          Some e \<Rightarrow> Some (Some (ExceptionWithCode e), out, c)
        | None \<Rightarrow>
            if coll = ''system.indexes'' then Some (performCreateIndexes S continueOnError docs out c)
            else insertLoop S newOid nextTimestamp continueOnError maxBatchSize docs [] 0 out g c)"

section \<open>One document after the other\<close>

text \<open>
  The specification: \<open>store\<close> inserts one document into an abstract collection or refuses it.  \<open>insertSequentially\<close> prepares and
  inserts the documents in their order, and leaves at the first error that does not allow to continue.
\<close>

fun storeAll :: "(Doc \<Rightarrow> 'a \<Rightarrow> DBException + 'a) \<Rightarrow> Doc list \<Rightarrow> 'a \<Rightarrow> DBException + 'a" where
  "storeAll store [] a = Inr a"
| "storeAll store (d # ds) a = (case store d a of Inl ex \<Rightarrow> Inl ex | Inr a1 \<Rightarrow> storeAll store ds a1)"

fun storeEach ::
    "(Doc \<Rightarrow> 'a \<Rightarrow> DBException + 'a) \<Rightarrow> bool \<Rightarrow> Doc list \<Rightarrow> WriteResult \<Rightarrow> 'a \<Rightarrow> (DBException + bool) \<times> WriteResult \<times> 'a" where
  "storeEach store continueOnError [] out a = (Inr True, out, a)"
| "storeEach store continueOnError (d # ds) out a =
     (case store d a of
        Inr a1 \<Rightarrow> storeEach store continueOnError ds (addResult (Inr 1) out) a1
      | Inl ex \<Rightarrow> (case handleError ex continueOnError out of
            (Inr True, out1) \<Rightarrow> storeEach store continueOnError ds out1 a
          | (r, out1) \<Rightarrow> (r, out1, a)))"

fun insertSequentially ::
    "(Doc \<Rightarrow> 'a \<Rightarrow> DBException + 'a) \<Rightarrow> ('g \<Rightarrow> byte list \<times> 'g) \<Rightarrow> ('g \<Rightarrow> 64 word \<times> 'g) \<Rightarrow> bool \<Rightarrow>
      Doc list \<Rightarrow> WriteResult \<Rightarrow> 'g \<Rightarrow> 'a \<Rightarrow> DBException option \<times> WriteResult \<times> 'a" where
  "insertSequentially store newOid nextTimestamp continueOnError [] out g a = (None, out, a)"
| "insertSequentially store newOid nextTimestamp continueOnError (doc # docs) out g a =
     (case prepareDocument newOid nextTimestamp doc g of (prepared, g1) \<Rightarrow>
      case (case prepared of Inl e \<Rightarrow> Inl (ExceptionWithCode e) | Inr d \<Rightarrow> store d a) of
        Inr a1 \<Rightarrow> insertSequentially store newOid nextTimestamp continueOnError docs (addResult (Inr 1) out) g1 a1
      | Inl ex \<Rightarrow> (case handleError ex continueOnError out of
            (Inl ex', out1) \<Rightarrow> (Some ex', out1, a)
          | (Inr False, out1) \<Rightarrow> (None, out1, a)
          | (Inr True, out1) \<Rightarrow> insertSequentially store newOid nextTimestamp continueOnError docs out1 g1 a))"

text \<open>
  Storage that implements \<open>store\<close>: the collection can be acquired; a unit of work that commits has inserted its
  documents in order, one that throws has changed nothing; a single document is refused for the reason
  \<open>store\<close> gives; and there are finitely many write conflicts, bounded by \<open>budget\<close>.
\<close>

definition acquires :: "'c Storage \<Rightarrow> ('c \<Rightarrow> 'a) \<Rightarrow> ('c \<Rightarrow> nat) \<Rightarrow> bool" where
  "acquires S content budget \<longleftrightarrow>
     (\<forall>c. fst (acquireCollection S c) = None \<and> content (snd (acquireCollection S c)) = content c \<and>
          budget (snd (acquireCollection S c)) \<le> budget c)"

definition commits :: "'c Storage \<Rightarrow> ('c \<Rightarrow> 'a) \<Rightarrow> (Doc \<Rightarrow> 'a \<Rightarrow> DBException + 'a) \<Rightarrow> bool" where
  "commits S content store \<longleftrightarrow>
     (\<forall>ds c c'. insertDocuments S ds c = (None, c') \<longrightarrow> storeAll store ds (content c) = Inr (content c'))"

definition rollsBack ::
    "'c Storage \<Rightarrow> ('c \<Rightarrow> 'a) \<Rightarrow> (Doc \<Rightarrow> 'a \<Rightarrow> DBException + 'a) \<Rightarrow> ('c \<Rightarrow> nat) \<Rightarrow> bool" where
  "rollsBack S content store budget \<longleftrightarrow>
     (\<forall>ds c ex c'. insertDocuments S ds c = (Some ex, c') \<longrightarrow> content c' = content c \<and>
        (if ex = ExceptionWithCode WriteConflict then budget c' < budget c
         else \<forall>d. ds = [d] \<longrightarrow> store d (content c) = Inl ex))"

lemma acquiresD:
  assumes "acquires S content budget"
  obtains c1 where "acquireCollection S c = (None, c1)" "content c1 = content c" "budget c1 \<le> budget c"
  using assms unfolding acquires_def by (metis prod.collapse)

section \<open>Batches are invisible\<close>

lemma retryInsert_result:
  assumes "acquires S content budget" "commits S content store" "rollsBack S content store budget"
  shows "\<exists>held1 c1. retryInsert S d held c =
    (case store d (content c) of
       Inr a \<Rightarrow> Some (None, held1, c1)
     | Inl ex \<Rightarrow> Some (Some ex, held1, c1)) \<and>
    content c1 = (case store d (content c) of Inr a \<Rightarrow> a | Inl ex \<Rightarrow> content c)"
proof (induction "budget c" arbitrary: held c rule: less_induct)
  case less
  obtain c1 where c1: "(if held then (None, c) else acquireCollection S c) = (None, c1)"
    "content c1 = content c" "budget c1 \<le> budget c"
    by (rule acquiresD [OF assms(1), of c]) (cases held, auto)
  show ?case
  proof (cases "insertDocuments S [d] c1")
    case (Pair r c2)
    show ?thesis
    proof (cases r)
      case None
      then have "storeAll store [d] (content c) = Inr (content c2)"
        using assms(2) Pair c1(2) unfolding commits_def by metis
      then have "store d (content c) = Inr (content c2)"
        by (simp split: sum.splits)
      then show ?thesis
        using None Pair c1(1) by (subst retryInsert.simps) (auto simp del: split_paired_Ex)
    next
      case (Some ex)
      then have r: "content c2 = content c" "ex = ExceptionWithCode WriteConflict \<Longrightarrow> budget c2 < budget c"
        "ex \<noteq> ExceptionWithCode WriteConflict \<Longrightarrow> store d (content c) = Inl ex"
        using assms(3) Pair c1(2,3) unfolding rollsBack_def by (fastforce split: if_splits)+
      show ?thesis
      proof (cases "ex = ExceptionWithCode WriteConflict")
        case True
        have "retryInsert S d held c = retryInsert S d False c2"
          using True Some Pair c1(1) by (subst retryInsert.simps) simp
        then show ?thesis
          using less [OF r(2) [OF True], of False, unfolded r(1)] by simp
      next
        case False
        then show ?thesis
          using r(1,3) Some Pair c1(1) by (subst retryInsert.simps) (auto simp del: split_paired_Ex)
      qed
    qed
  qed
qed

lemma insertOneByOne_result:
  assumes "acquires S content budget" "commits S content store" "rollsBack S content store budget"
  shows "\<exists>r out1 c1. insertOneByOne S continueOnError ds held out c = Some (r, out1, c1) \<and>
    (r, out1, content c1) = storeEach store continueOnError ds out (content c)"
proof (induction ds arbitrary: held out c)
  case (Cons d ds)
  obtain held1 c1 where retry: "retryInsert S d held c =
    (case store d (content c) of Inr a \<Rightarrow> Some (None, held1, c1) | Inl ex \<Rightarrow> Some (Some ex, held1, c1))"
    "content c1 = (case store d (content c) of Inr a \<Rightarrow> a | Inl ex \<Rightarrow> content c)"
    using retryInsert_result [OF assms] by blast
  show ?case
  proof (cases "store d (content c)")
    case (Inr a)
    then show ?thesis
      using retry Cons [of held1 "addResult (Inr 1) out" c1] by simp
  next
    case (Inl ex)
    then show ?thesis
      using retry Cons [of held1 "snd (handleError ex continueOnError out)" c1]
      by (cases "handleError ex continueOnError out") (auto split: sum.splits bool.splits)
  qed
qed simp

lemma storeEach_all:
  "storeAll store ds a = Inr a1 \<Longrightarrow>
    storeEach store continueOnError ds out a = (Inr True, out\<lparr>results := results out @ replicate (length ds) (Inr 1)\<rparr>, a1)"
  by (induction ds arbitrary: out a) (auto simp: addResult_def split: sum.splits)

lemma insertBatch_result:
  assumes "acquires S content budget" "commits S content store" "rollsBack S content store budget"
  shows "\<exists>r out1 c1. insertBatchAndHandleErrors S continueOnError ds out c = Some (r, out1, c1) \<and>
    (r, out1, content c1) = storeEach store continueOnError ds out (content c)"
proof -
  obtain c1 where c1: "acquireCollection S c = (None, c1)" "content c1 = content c"
    by (rule acquiresD [OF assms(1), of c])
  note one = insertOneByOne_result [OF assms, of continueOnError ds]
  obtain res c2 where ins: "insertDocuments S ds c1 = (res, c2)"
    by fastforce
  consider "ds = []" | "isCapped S c1 \<or> length ds \<le> 1" "ds \<noteq> []"
    | "res = None" "\<not> isCapped S c1" "length ds > 1"
    | ex where "res = Some ex" "\<not> isCapped S c1" "length ds > 1"
    using not_le by (cases res) blast+
  then show ?thesis
  proof cases
    case 1
    then show ?thesis
      by (simp add: insertBatchAndHandleErrors_def)
  next
    case 2
    then show ?thesis
      using one [of True out c1] c1 by (auto simp: insertBatchAndHandleErrors_def)
  next
    case 3
    then have "storeAll store ds (content c) = Inr (content c2)"
      using assms(2) c1 ins unfolding commits_def by metis
    then show ?thesis
      using 3 c1 ins by (auto simp: insertBatchAndHandleErrors_def storeEach_all)
  next
    case 4
    then have "content c2 = content c"
      using assms(3) c1 ins unfolding rollsBack_def by metis
    then show ?thesis
      using 4 one [of False out c2] c1 ins by (auto simp: insertBatchAndHandleErrors_def)
  qed
qed

text \<open>The loop with a pending batch.\<close>

definition resume ::
    "(WriteResult \<Rightarrow> 'a \<Rightarrow> DBException option \<times> WriteResult \<times> 'a) \<Rightarrow> (DBException + bool) \<times> WriteResult \<times> 'a \<Rightarrow>
      DBException option \<times> WriteResult \<times> 'a" where
  "resume k r = (case r of
       (Inl ex, out, a) \<Rightarrow> (Some ex, out, a)
     | (Inr False, out, a) \<Rightarrow> (None, out, a)
     | (Inr True, out, a) \<Rightarrow> k out a)"

lemma storeEach_append:
  "storeEach store continueOnError (ds @ es) out a =
     (case storeEach store continueOnError ds out a of
        (Inr True, out1, a1) \<Rightarrow> storeEach store continueOnError es out1 a1
      | r \<Rightarrow> r)"
  by (induction ds arbitrary: out a) (auto split: sum.splits bool.splits prod.splits)

lemma flushBatch_result:
  assumes "acquires S content budget" "commits S content store" "rollsBack S content store budget"
  shows "\<exists>r out1 c1. flushBatch S continueOnError ds err out c = Some (r, out1, c1) \<and>
    (r, out1, content c1) = (case storeEach store continueOnError ds out (content c) of
       (Inr True, out1, a1) \<Rightarrow> (case err of
           None \<Rightarrow> (Inr True, out1, a1)
         | Some e \<Rightarrow> (case handleError (ExceptionWithCode e) continueOnError out1 of (r, out2) \<Rightarrow> (r, out2, a1)))
     | r \<Rightarrow> r)"
proof -
  obtain r out1 c1 where "insertBatchAndHandleErrors S continueOnError ds out c = Some (r, out1, c1)"
    "storeEach store continueOnError ds out (content c) = (r, out1, content c1)"
    using insertBatch_result [OF assms, of continueOnError ds out c] by metis
  then show ?thesis
    by (auto simp: flushBatch_def split: sum.splits bool.splits option.splits prod.splits)
qed

lemma insertLoop_result:
  assumes "acquires S content budget" "commits S content store" "rollsBack S content store budget"
    and "docs = [] \<Longrightarrow> batch = []"
  shows "\<exists>ex out1 c1. insertLoop S newOid nextTimestamp continueOnError maxBatchSize docs batch bytes out g c = Some (ex, out1, c1) \<and>
    (ex, out1, content c1) = resume (\<lambda>out a. insertSequentially store newOid nextTimestamp continueOnError docs out g a)
      (storeEach store continueOnError batch out (content c))"
  using assms(4)
proof (induction docs arbitrary: batch bytes out g c)
  case Nil
  then show ?case
    by (simp add: resume_def)
next
  case (Cons doc docs)
  obtain prepared g1 where prep: "prepareDocument newOid nextTimestamp doc g = (prepared, g1)"
    by fastforce
  define batch1 where "batch1 = (case prepared of Inl e \<Rightarrow> batch | Inr d \<Rightarrow> batch @ [d])"
  define err where "err = (case prepared of Inl e \<Rightarrow> Some e | Inr d \<Rightarrow> None)"
  define bytes1 where "bytes1 = (case prepared of Inl e \<Rightarrow> bytes | Inr d \<Rightarrow> bytes + length (encodeObj d))"
  have defs: "(case prepared of Inl e \<Rightarrow> (batch, bytes, Some e)
      | Inr d \<Rightarrow> (batch @ [d], bytes + length (encodeObj d), None)) = (batch1, bytes1, err)"
    by (simp add: batch1_def err_def bytes1_def split: sum.splits)
  note step = insertLoop.simps(2) [of S newOid nextTimestamp continueOnError maxBatchSize doc docs batch bytes out g c,
      unfolded prep Let_def case_prod_conv defs]
  let ?k = "\<lambda>out a. insertSequentially store newOid nextTimestamp continueOnError docs out g1 a"
  have seq: "resume (\<lambda>out a. insertSequentially store newOid nextTimestamp continueOnError (doc # docs) out g a)
      (storeEach store continueOnError batch out (content c)) =
    resume ?k (case storeEach store continueOnError batch1 out (content c) of
       (Inr True, out1, a1) \<Rightarrow> (case err of
           None \<Rightarrow> (Inr True, out1, a1)
         | Some e \<Rightarrow> (case handleError (ExceptionWithCode e) continueOnError out1 of (r, out2) \<Rightarrow> (r, out2, a1)))
     | r \<Rightarrow> r)"
    unfolding batch1_def err_def resume_def
    by (auto simp: prep storeEach_append split: sum.splits bool.splits prod.splits)
  show ?case
  proof (cases "err = None \<and> docs \<noteq> [] \<and> length batch1 < maxBatchSize \<and> int bytes1 < insertVectorMaxBytes")
    case True
    then have "resume ?k (storeEach store continueOnError batch1 out (content c)) =
        resume (\<lambda>out a. insertSequentially store newOid nextTimestamp continueOnError (doc # docs) out g a)
          (storeEach store continueOnError batch out (content c))"
      unfolding seq by (auto simp: resume_def split: sum.splits bool.splits prod.splits)
    then show ?thesis
      using Cons(1) [of batch1 bytes1 out g1 c] True step by simp
  next
    case False
    obtain r out1 c1 where flush: "flushBatch S continueOnError batch1 err out c = Some (r, out1, c1)"
      "(r, out1, content c1) = (case storeEach store continueOnError batch1 out (content c) of
       (Inr True, out1, a1) \<Rightarrow> (case err of
           None \<Rightarrow> (Inr True, out1, a1)
         | Some e \<Rightarrow> (case handleError (ExceptionWithCode e) continueOnError out1 of (r, out2) \<Rightarrow> (r, out2, a1)))
     | r \<Rightarrow> r)"
      using flushBatch_result [OF assms(1-3), of continueOnError batch1 err out c] by blast
    then show ?thesis
      using Cons(1) [of "[]" 0 out1 g1 c1] False step unfolding seq flush(2) [symmetric]
      by (auto simp: resume_def split: sum.splits bool.splits)
  qed
qed

section \<open>A storage for examples\<close>

text \<open>Refuses an id it has already, after as many write conflicts as the second component says.\<close>

definition uniqueStore :: "Doc \<Rightarrow> Doc list \<Rightarrow> DBException + Doc list" where
  "uniqueStore d ds = (if docField d idName \<in> set (map (\<lambda>e. docField e idName) ds)
     then Inl (ExceptionWithCode (OtherError 11000)) else Inr (ds @ [d]))"

definition exampleStorage :: "(Doc list \<times> nat) Storage" where
  "exampleStorage = \<lparr>acquireCollection = (\<lambda>c. (None, c)), isCapped = (\<lambda>c. False),
     insertDocuments = (\<lambda>ds (stored, k).
       if k > 0 then (Some (ExceptionWithCode WriteConflict), (stored, k - 1))
       else case storeAll uniqueStore ds stored of
           Inl ex \<Rightarrow> (Some ex, (stored, k))
         | Inr stored' \<Rightarrow> (None, (stored', k))),
     createIndex = (\<lambda>d c. (Inr 1, c))\<rparr>"

lemma storeAll_unique: "storeAll uniqueStore ds a = Inl ex \<Longrightarrow> ex = ExceptionWithCode (OtherError 11000)"
  by (induction ds arbitrary: a) (auto simp: uniqueStore_def split: sum.splits if_splits)

lemma exampleStorage_ok:
  "acquires exampleStorage fst snd" "commits exampleStorage fst uniqueStore"
  "rollsBack exampleStorage fst uniqueStore snd"
  using storeAll_unique
  by (fastforce simp: acquires_def commits_def rollsBack_def exampleStorage_def split: sum.splits if_splits prod.splits)+

section \<open>Properties\<close>

text \<open>C38:
  Preparing a document succeeds exactly if its hash field, when it has one, is right and the document
  without it may be inserted.  The prepared document has no hash field; its first field is the id, the
  document's own or a new one, and the other fields follow in their order with empty timestamps filled in.
\<close>

theorem prepared_document_exact:
  "case fst (prepareDocument newOid nextTimestamp doc g) of
     Inl e \<Rightarrow> \<not> (verifyDocumentIntegrity doc = None \<and> insertable (stripHashField doc))
   | Inr d \<Rightarrow> verifyDocumentIntegrity doc = None \<and> insertable (stripHashField doc) \<and>
       fieldList d = fixedFields newOid nextTimestamp (stripHashField doc) g \<and>
       \<not> docHasField d kDocHashFieldName"
proof -
  have strip: "(if docHasField doc kDocHashFieldName then stripHashField doc else doc) = stripHashField doc"
    "(if docHasField doc kDocHashFieldName then verifyDocumentIntegrity doc else None) = verifyDocumentIntegrity doc"
    by (auto simp: stripHashField_def verifyDocumentIntegrity_def extractDocumentHash_def docHasField_def)
  note prepare = prepareDocument_def [of newOid nextTimestamp doc g, unfolded Let_def strip]
  show ?thesis
  proof (cases "insertable (stripHashField doc)")
    case True
    obtain r g' where r: "fixDocumentForInsert newOid nextTimestamp (stripHashField doc) g = (Inr r, g')"
      "fieldList (if r = EndDoc then stripHashField doc else r) = fixedFields newOid nextTimestamp (stripHashField doc) g"
      by (rule fixDocument_ok [OF True])
    then show ?thesis
      using True fixedFields_hash [OF r(2)] by (auto simp: prepare split: option.splits)
  next
    case False
    then show ?thesis
      using fixDocument_error [OF False, of newOid nextTimestamp g] by (auto simp: prepare split: option.splits)
  qed
qed


definition exampleInserts :: "Doc list" where
  "exampleInserts = [Field idName (IntValue 1) EndDoc, Field idName (IntValue 1) EndDoc,
     Field (ascii ''$x'') NullValue EndDoc]"


end
