(* ===== verification/Global_Timestamp.thy ===== *)
theory Global_Timestamp
  imports Prelude
begin

text \<open>
  The generator of timestamps (\<^verbatim>\<open>db/global_timestamp.cpp\<close>): a counter of 64 bits, seconds above and an increment below,
  that all threads advance with atomic additions; when the clock has moved on, a compare-and-swap sets
  the seconds first.

  A call is a small state machine whose steps are the atomic operations on the counter, and the steps of any number of
  calls interleave.  The properties show that no two calls hand out the same timestamp, that
  timestamps follow the order of the calls, and that they are never null or older than the clock.
\<close>

section \<open>Definitions\<close>

text \<open>\<^verbatim>\<open>Timestamp::getSecs\<close>, \<^verbatim>\<open>Timestamp::getInc\<close> and \<^verbatim>\<open>Timestamp(secs, inc).asULL()\<close>.\<close>

definition getSecs :: "64 word \<Rightarrow> 32 word" where
  "getSecs v = ucast (drop_bit 32 v)"

definition getInc :: "64 word \<Rightarrow> 32 word" where
  "getInc v = ucast v"

definition asULL :: "32 word \<Rightarrow> 32 word \<Rightarrow> 64 word" where
  "asULL secs inc = push_bit 32 (ucast secs) OR ucast inc"

text \<open>
  Where a call of \<^verbatim>\<open>getNextGlobalTimestamp(count)\<close> is: before its first addition, in the loop that fixes the
  seconds with the value it has seen, before its second addition, or done.  \<open>now\<close> is the clock it has read.
\<close>

datatype TsCall = NotCalled
  | Called (callNow: "32 word") (callCount: "32 word")
  | FixingSecs "32 word" "32 word" "64 word"
  | Reserving "32 word" "32 word"
  | Issued "32 word" "32 word" "64 word"

record TsState =
  globalTimestamp :: "64 word"
  tsCalls :: "nat \<Rightarrow> TsCall"

definition TsState_init :: TsState where
  "TsState_init = \<lparr>globalTimestamp = 0, tsCalls = (\<lambda>_. NotCalled)\<rparr>"

datatype TsEvent = SetTimestamp "64 word" | CallNext nat "32 word" "32 word" | FirstAdd nat | Swap nat | SecondAdd nat

definition setTsCall :: "nat \<Rightarrow> TsCall \<Rightarrow> TsState \<Rightarrow> TsState" where
  "setTsCall t k s = s\<lparr>tsCalls := (tsCalls s)(t := k)\<rparr>"

definition setGlobalTimestamp :: "64 word \<Rightarrow> TsState \<Rightarrow> TsState" where
  "setGlobalTimestamp newTime s = s\<lparr>globalTimestamp := newTime + 1\<rparr>"

definition getLastSetTimestamp :: "TsState \<Rightarrow> 64 word" where
  "getLastSetTimestamp s = globalTimestamp s - 1"

definition fetchAndAdd :: "32 word \<Rightarrow> TsState \<Rightarrow> 64 word \<times> TsState" where
  "fetchAndAdd count s = (globalTimestamp s, s\<lparr>globalTimestamp := globalTimestamp s + ucast count\<rparr>)"

definition callNext :: "nat \<Rightarrow> 32 word \<Rightarrow> 32 word \<Rightarrow> TsState \<Rightarrow> TsState option" where
  "callNext t now count s = do {
     invariant (now \<noteq> 0);
     invariant (count \<noteq> 0);
     Some (setTsCall t (Called now count) s)
   }"

definition firstAdd :: "nat \<Rightarrow> 32 word \<Rightarrow> 32 word \<Rightarrow> TsState \<Rightarrow> TsState option" where
  "firstAdd t now count s =
     (case fetchAndAdd count s of (first, s1) \<Rightarrow>
      let currentTimestamp = first + ucast count;
          globalSecs = getSecs currentTimestamp
      in do {
        invariant (\<not> (globalSecs > now \<and> getInc currentTimestamp \<ge> push_bit 31 1));
        Some (setTsCall t (if globalSecs < now then FixingSecs now count currentTimestamp else Issued now count first) s1)
      })"

text \<open>One round of the loop, which is entered with the seconds of \<open>currentTimestamp\<close> below \<open>now\<close>.\<close>

definition swapSecs :: "nat \<Rightarrow> 32 word \<Rightarrow> 32 word \<Rightarrow> 64 word \<Rightarrow> TsState \<Rightarrow> TsState" where
  "swapSecs t now count currentTimestamp s =
     (let desired = asULL now 1; actual = globalTimestamp s
      in if actual = currentTimestamp then setTsCall t (Reserving now count) (s\<lparr>globalTimestamp := desired\<rparr>)
         else if getSecs actual < now then setTsCall t (FixingSecs now count actual) s
         else setTsCall t (Reserving now count) s)"

definition secondAdd :: "nat \<Rightarrow> 32 word \<Rightarrow> 32 word \<Rightarrow> TsState \<Rightarrow> TsState" where
  "secondAdd t now count s = (case fetchAndAdd count s of (first, s1) \<Rightarrow> setTsCall t (Issued now count first) s1)"

text \<open>A step of one of the calls; \<^const>\<open>None\<close> if the event is not possible or the process aborts.\<close>

fun tsStep :: "TsEvent \<Rightarrow> TsState \<Rightarrow> TsState option" where
  "tsStep (SetTimestamp newTime) s = Some (setGlobalTimestamp newTime s)"
| "tsStep (CallNext t now count) s = (case tsCalls s t of NotCalled \<Rightarrow> callNext t now count s | _ \<Rightarrow> None)"
| "tsStep (FirstAdd t) s = (case tsCalls s t of Called now count \<Rightarrow> firstAdd t now count s | _ \<Rightarrow> None)"
| "tsStep (Swap t) s =
     (case tsCalls s t of FixingSecs now count cur \<Rightarrow> Some (swapSecs t now count cur s) | _ \<Rightarrow> None)"
| "tsStep (SecondAdd t) s =
     (case tsCalls s t of Reserving now count \<Rightarrow> Some (secondAdd t now count s) | _ \<Rightarrow> None)"

text \<open>
  The contract under which the properties hold: the time is not set back, and the counter of 64
  bits does not wrap around.
\<close>

definition addFits :: "32 word \<Rightarrow> TsState \<Rightarrow> bool" where
  "addFits count s \<longleftrightarrow> uint (globalTimestamp s) + uint count < 2 ^ 64"

fun tsContract :: "TsEvent \<Rightarrow> TsState \<Rightarrow> bool" where
  "tsContract (SetTimestamp newTime) s = (uint (globalTimestamp s) \<le> uint newTime + 1 \<and> uint newTime + 1 < 2 ^ 64)"
| "tsContract (FirstAdd t) s = (case tsCalls s t of Called now count \<Rightarrow> addFits count s | _ \<Rightarrow> True)"
| "tsContract (SecondAdd t) s = (case tsCalls s t of Reserving now count \<Rightarrow> addFits count s | _ \<Rightarrow> True)"
| "tsContract _ s = True"

inductive tsSteps :: "TsState \<Rightarrow> TsState \<Rightarrow> bool" where
  tsRefl: "tsSteps s s"
| tsMore: "tsSteps s s1 \<Longrightarrow> tsContract e s1 \<Longrightarrow> tsStep e s1 = Some s2 \<Longrightarrow> tsSteps s s2"

fun tsRun :: "TsEvent list \<Rightarrow> TsState \<Rightarrow> TsState option" where
  "tsRun [] s = Some s"
| "tsRun (e # es) s = (if tsContract e s then tsStep e s \<bind> tsRun es else None)"

section \<open>The counter\<close>

lemma word32_bound: "unat (w :: 32 word) < 2 ^ 32"
  using unsigned_less [of w, where 'a = nat] by simp

lemma unat_ucast64 [simp]: "unat (ucast (w :: 32 word) :: 64 word) = unat w"
proof -
  have "unat w < 2 ^ 64"
    using word32_bound [of w] by simp
  then show ?thesis
    by (simp add: unsigned_ucast_eq take_bit_nat_eq_self)
qed

lemma unat_getSecs: "unat (getSecs v) = unat v div 2 ^ 32"
proof -
  have "unat v div 2 ^ 32 < 2 ^ 32"
    using unsigned_less [of v, where 'a = nat] by (simp add: less_mult_imp_div_less)
  then show ?thesis
    by (simp add: getSecs_def unsigned_ucast_eq drop_bit_eq_div take_bit_nat_eq_self unat_div_distrib)
qed

lemma unat_asULL: "unat (asULL secs 1) = unat secs * 2 ^ 32 + 1"
proof -
  have "asULL secs 1 = push_bit 32 (ucast secs) + 1"
    unfolding asULL_def unsigned_1
  proof (rule disjunctive_add_eq_or [symmetric], rule bit_word_eqI)
    show "bit (push_bit 32 (ucast secs) AND 1 :: 64 word) n = bit (0 :: 64 word) n" for n
      unfolding bit_and_iff bit_push_bit_iff bit_1_iff by auto
  qed
  then show ?thesis
    using word32_bound [of secs] by (simp add: unat_word_ariths push_bit_eq_mult)
qed

lemma unat_add_count:
  assumes "addFits count s"
  shows "unat (globalTimestamp s + ucast count) = unat (globalTimestamp s) + unat count"
proof -
  have "int (unat (globalTimestamp s) + unat count) < 2 ^ 64"
    using assms by (simp add: addFits_def)
  then have "unat (globalTimestamp s) + unat count < 2 ^ 64"
    by (simp only: of_nat_less_numeral_power_cancel_iff)
  then show ?thesis
    by (simp add: unat_word_ariths)
qed

lemma setTimestamp_fits:
  assumes "tsContract (SetTimestamp newTime) s"
  shows "unat (newTime + 1) = unat newTime + 1" "unat (globalTimestamp s) \<le> unat newTime + 1"
proof -
  have "int (unat newTime + 1) < 2 ^ 64" "int (unat (globalTimestamp s)) \<le> int (unat newTime + 1)"
    using assms by simp_all
  then have "unat newTime + 1 < 2 ^ 64" "unat (globalTimestamp s) \<le> unat newTime + 1"
    by (simp_all only: of_nat_less_numeral_power_cancel_iff of_nat_le_iff)
  then show "unat (newTime + 1) = unat newTime + 1" "unat (globalTimestamp s) \<le> unat newTime + 1"
    by (simp_all add: unat_word_ariths)
qed

lemma secs_less: "getSecs v < now \<longleftrightarrow> unat v < unat now * 2 ^ 32"
  by (simp add: word_less_nat_alt unat_getSecs less_mult_imp_div_less div_less_iff_less_mult)

section \<open>Calls\<close>

text \<open>What is known of a call when the counter is at \<open>n\<close>.\<close>

fun callOk :: "nat \<Rightarrow> TsCall \<Rightarrow> bool" where
  "callOk n NotCalled = True"
| "callOk n (Called now count) = (now \<noteq> 0 \<and> count \<noteq> 0)"
| "callOk n (FixingSecs now count cur) = (now \<noteq> 0 \<and> count \<noteq> 0 \<and> unat cur < unat now * 2 ^ 32)"
| "callOk n (Reserving now count) = (now \<noteq> 0 \<and> count \<noteq> 0 \<and> unat now * 2 ^ 32 \<le> n)"
| "callOk n (Issued now count first) =
     (now \<noteq> 0 \<and> count \<noteq> 0 \<and> unat first + unat count \<le> n \<and> unat now * 2 ^ 32 \<le> unat first + unat count)"

text \<open>The timestamps a call has handed out, and the least one it may still hand out.\<close>

definition issuedBy :: "TsCall \<Rightarrow> nat set" where
  "issuedBy k = (case k of Issued now count first \<Rightarrow> {unat first ..< unat first + unat count} | _ \<Rightarrow> {})"

lemma issuedBy_simps [simp]:
  "issuedBy NotCalled = {}" "issuedBy (Called now count) = {}" "issuedBy (FixingSecs now count cur) = {}"
  "issuedBy (Reserving now count) = {}"
  by (simp_all add: issuedBy_def)

lemma issuedBy_from: "issuedBy (Issued now count first) \<subseteq> {unat first ..}"
  by (auto simp: issuedBy_def)

definition tsInv :: "TsState \<Rightarrow> bool" where
  "tsInv s \<longleftrightarrow> (\<forall>t. callOk (unat (globalTimestamp s)) (tsCalls s t)) \<and>
     (\<forall>t u. t \<noteq> u \<longrightarrow> issuedBy (tsCalls s t) \<inter> issuedBy (tsCalls s u) = {})"

lemma callOk_mono: "callOk n k \<Longrightarrow> n \<le> m \<Longrightarrow> callOk m k"
  by (cases k) auto

lemma issuedBy_below: "callOk n k \<Longrightarrow> issuedBy k \<subseteq> {..< n}"
  by (cases k) (auto simp: issuedBy_def)

text \<open>A step that only advances the counter and changes one call.\<close>

lemma tsInv_update:
  assumes "tsInv s" "unat (globalTimestamp s) \<le> unat g" "callOk (unat g) k"
    "issuedBy k \<subseteq> {unat (globalTimestamp s) ..}"
  shows "tsInv (setTsCall t k (s\<lparr>globalTimestamp := g\<rparr>))"
proof -
  have ok: "callOk (unat (globalTimestamp s)) (tsCalls s u)" for u
    using assms(1) by (simp add: tsInv_def)
  have mono: "callOk (unat g) (tsCalls s u)" for u
    by (rule callOk_mono [OF ok assms(2)])
  have new: "issuedBy (tsCalls s u) \<inter> issuedBy k = {}" for u
    using issuedBy_below [OF ok, of u] assms(4) by fastforce
  have old: "issuedBy (tsCalls s u) \<inter> issuedBy (tsCalls s v) = {}" if "u \<noteq> v" for u v
    using assms(1) that by (simp add: tsInv_def)
  show ?thesis
    using assms(3) mono new new [unfolded Int_commute [of "issuedBy (tsCalls s _)"]] old
    by (simp add: tsInv_def setTsCall_def)
qed

lemma tsStep_cases:
  assumes "tsStep e s = Some s'" "tsContract e s" "tsInv s"
  obtains g where "unat (globalTimestamp s) \<le> unat g" "s' = s\<lparr>globalTimestamp := g\<rparr>"
  | g t k where "unat (globalTimestamp s) \<le> unat g" "s' = setTsCall t k (s\<lparr>globalTimestamp := g\<rparr>)" "callOk (unat g) k"
      "issuedBy k \<subseteq> {unat (globalTimestamp s) ..}" "issuedBy (tsCalls s t) = {}"
      "issuedBy k \<noteq> {} \<Longrightarrow> tsCalls s t \<noteq> NotCalled"
proof (cases e)
  case (SetTimestamp newTime)
  then show ?thesis
    using that(1) [of "newTime + 1"] setTimestamp_fits [of newTime s] assms(1,2) by (simp add: setGlobalTimestamp_def)
next
  case (CallNext t now count)
  then have "s' = setTsCall t (Called now count) (s\<lparr>globalTimestamp := globalTimestamp s\<rparr>)" "now \<noteq> 0" "count \<noteq> 0"
    "tsCalls s t = NotCalled"
    using assms(1) by (auto simp: callNext_def split: TsCall.splits)
  then show ?thesis
    using that(2) [of "globalTimestamp s" t "Called now count"] by (simp add: issuedBy_from)
next
  case (FirstAdd t)
  then obtain now count where k: "tsCalls s t = Called now count"
    using assms(1) by (auto split: TsCall.splits)
  then have ok: "now \<noteq> 0" "count \<noteq> 0" and fits: "addFits count s"
    using assms(2,3) FirstAdd by (auto simp: tsInv_def dest: spec [of _ t])
  let ?k = "if getSecs (globalTimestamp s + ucast count) < now then FixingSecs now count (globalTimestamp s + ucast count)
    else Issued now count (globalTimestamp s)"
  have "s' = setTsCall t ?k (s\<lparr>globalTimestamp := globalTimestamp s + ucast count\<rparr>)"
    using assms(1) FirstAdd k by (auto simp: firstAdd_def fetchAndAdd_def Let_def)
  then show ?thesis
    using that(2) [of "globalTimestamp s + ucast count" t ?k] ok k unat_add_count [OF fits]
    by (cases "getSecs (globalTimestamp s + ucast count) < now") (auto simp: issuedBy_from secs_less not_less)
next
  case (Swap t)
  then obtain now count cur where k: "tsCalls s t = FixingSecs now count cur"
    and s': "s' = swapSecs t now count cur s"
    using assms(1) by (auto split: TsCall.splits)
  then have ok: "now \<noteq> 0" "count \<noteq> 0" "unat cur < unat now * 2 ^ 32"
    using assms(3) by (auto simp: tsInv_def dest: spec [of _ t])
  show ?thesis
  proof (cases "globalTimestamp s = cur")
    case True
    then show ?thesis
      using that(2) [of "asULL now 1" t "Reserving now count"] s' ok k unat_asULL [of now]
      by (simp add: swapSecs_def issuedBy_from)
  next
    case False
    let ?k = "if getSecs (globalTimestamp s) < now then FixingSecs now count (globalTimestamp s) else Reserving now count"
    have "s' = setTsCall t ?k (s\<lparr>globalTimestamp := globalTimestamp s\<rparr>)"
      using False s' by (simp add: swapSecs_def)
    then show ?thesis
      using that(2) [of "globalTimestamp s" t ?k] ok k
      by (cases "getSecs (globalTimestamp s) < now") (auto simp: issuedBy_from secs_less not_less)
  qed
next
  case (SecondAdd t)
  then obtain now count where k: "tsCalls s t = Reserving now count"
    using assms(1) by (auto split: TsCall.splits)
  then have ok: "now \<noteq> 0" "count \<noteq> 0" "unat now * 2 ^ 32 \<le> unat (globalTimestamp s)" and fits: "addFits count s"
    using assms(2,3) SecondAdd by (auto simp: tsInv_def dest: spec [of _ t])
  have "s' = setTsCall t (Issued now count (globalTimestamp s)) (s\<lparr>globalTimestamp := globalTimestamp s + ucast count\<rparr>)"
    using assms(1) SecondAdd k by (auto simp: secondAdd_def fetchAndAdd_def)
  then show ?thesis
    using that(2) [of "globalTimestamp s + ucast count" t "Issued now count (globalTimestamp s)"] ok k unat_add_count [OF fits]
    by (auto simp: issuedBy_from)
qed

lemma tsStep_inv:
  assumes "tsStep e s = Some s'" "tsContract e s" "tsInv s"
  shows "tsInv s'" "unat (globalTimestamp s) \<le> unat (globalTimestamp s')"
proof -
  have "tsInv s' \<and> unat (globalTimestamp s) \<le> unat (globalTimestamp s')"
  proof (rule tsStep_cases [OF assms])
    fix g
    assume g: "unat (globalTimestamp s) \<le> unat g" "s' = s\<lparr>globalTimestamp := g\<rparr>"
    then show ?thesis
      using assms(3) callOk_mono unfolding tsInv_def by fastforce
  next
    fix g t k
    assume "unat (globalTimestamp s) \<le> unat g" "s' = setTsCall t k (s\<lparr>globalTimestamp := g\<rparr>)" "callOk (unat g) k"
      "issuedBy k \<subseteq> {unat (globalTimestamp s) ..}"
    then show ?thesis
      using tsInv_update [OF assms(3)] by (simp add: setTsCall_def)
  qed
  then show "tsInv s'" "unat (globalTimestamp s) \<le> unat (globalTimestamp s')"
    by simp_all
qed

lemma tsInv_init: "tsInv TsState_init"
  by (simp add: tsInv_def TsState_init_def issuedBy_def)

lemma tsSteps_inv: "tsSteps s s' \<Longrightarrow> tsInv s \<Longrightarrow> tsInv s' \<and> unat (globalTimestamp s) \<le> unat (globalTimestamp s')"
proof (induction rule: tsSteps.induct)
  case (tsMore s s1 e s2)
  then show ?case
    using tsStep_inv [of e s1 s2] by auto
qed simp

text \<open>A call that has not begun hands out only timestamps from the current one on.\<close>

lemma tsSteps_later:
  "tsSteps s s' \<Longrightarrow> tsInv s \<Longrightarrow> issuedBy (tsCalls s u) = {} \<Longrightarrow>
    issuedBy (tsCalls s' u) \<subseteq> {unat (globalTimestamp s) ..}"
proof (induction rule: tsSteps.induct)
  case (tsMore s s1 e s2)
  then have IH: "issuedBy (tsCalls s1 u) \<subseteq> {unat (globalTimestamp s) ..}" "tsInv s1"
    "unat (globalTimestamp s) \<le> unat (globalTimestamp s1)"
    using tsSteps_inv by auto
  show ?case
    by (rule tsStep_cases [OF tsMore(3,2) IH(2)]) (use IH in \<open>auto simp: setTsCall_def\<close>)
qed simp

lemma tsRun_steps: "tsSteps s0 s \<Longrightarrow> tsRun es s = Some s' \<Longrightarrow> tsSteps s0 s'"
  by (induction es arbitrary: s) (auto split: if_splits bind_splits intro: tsSteps.intros)

section \<open>Properties\<close>

text \<open>C39:
  Timestamps are unique and current.  In every state that interleaved calls reach, the ranges that
  two different calls have been given have no timestamp in common; a call's range does not start at the null timestamp, and its
  end is not before the second the call has read from the clock.
\<close>

theorem timestamps_unique:
  assumes "tsSteps TsState_init s" "tsCalls s t = Issued now count first"
  shows "first \<noteq> 0 \<and> unat now * 2 ^ 32 \<le> unat first + unat count \<and>
    (\<forall>u now' count' first'. tsCalls s u = Issued now' count' first' \<and> u \<noteq> t \<longrightarrow>
       {unat first ..< unat first + unat count} \<inter> {unat first' ..< unat first' + unat count'} = {})"
proof -
  have inv: "tsInv s"
    using tsSteps_inv [OF assms(1)] tsInv_init by blast
  then have ok: "callOk (unat (globalTimestamp s)) (Issued now count first)"
    using assms(2) unfolding tsInv_def by metis
  then have "0 < unat now" "unat now * 2 ^ 32 \<le> unat first + unat count"
    using unat_gt_0 [of now] by simp_all
  then have "first \<noteq> 0"
    using word32_bound [of count] by (cases "first = 0") auto
  moreover have "issuedBy (tsCalls s t) \<inter> issuedBy (tsCalls s u) = {}" if "u \<noteq> t" for u
    using inv that unfolding tsInv_def by metis
  ultimately show ?thesis
    using ok assms(2) by (fastforce simp: issuedBy_def)
qed

text \<open>C40:
  Timestamps follow the order of the calls: a call that begins after another one has returned is given later timestamps.
\<close>

theorem timestamps_ordered:
  assumes "tsSteps TsState_init s" "tsCalls s t = Issued now count first" "tsCalls s u = NotCalled"
    and "tsSteps s s'" "tsCalls s' u = Issued now' count' first'"
  shows "unat first + unat count \<le> unat first'"
proof -
  have inv: "tsInv s" "tsInv s'"
    using tsSteps_inv [OF assms(1)] tsSteps_inv [OF assms(4)] tsInv_init by blast+
  then have "callOk (unat (globalTimestamp s)) (Issued now count first)"
    "callOk (unat (globalTimestamp s')) (Issued now' count' first')"
    using assms(2,5) unfolding tsInv_def by metis+
  moreover have "issuedBy (tsCalls s' u) \<subseteq> {unat (globalTimestamp s) ..}"
    using tsSteps_later [OF assms(4) inv(1)] assms(3) by (simp add: issuedBy_def)
  ultimately show ?thesis
    using assms(5) unat_gt_0 [of count'] by (auto simp: issuedBy_def subset_iff dest!: spec [of _ "unat first'"])
qed

text \<open>Two calls that interleave in the first second, and one that begins after them.\<close>

definition exampleTs :: TsState where
  "exampleTs = the (tsRun [CallNext 0 7 1, CallNext 1 7 2, FirstAdd 0, FirstAdd 1, Swap 0, Swap 1, Swap 0, SecondAdd 1, SecondAdd 0]
     TsState_init)"

definition exampleTs2 :: TsState where
  "exampleTs2 = the (tsRun [CallNext 2 7 3, FirstAdd 2] exampleTs)"

lemma exampleTs_steps:
  "tsSteps TsState_init exampleTs" "tsSteps exampleTs exampleTs2"
  "tsCalls exampleTs 0 = Issued 7 1 30064771075" "tsCalls exampleTs 1 = Issued 7 2 30064771073"
  "tsCalls exampleTs 2 = NotCalled" "tsCalls exampleTs2 2 = Issued 7 3 30064771076"
proof -
  have run: "tsRun es s = Some (the (tsRun es s))" if "tsRun es s \<noteq> None" for es s
    using that by simp
  show "tsSteps TsState_init exampleTs"
    unfolding exampleTs_def by (rule tsRun_steps [OF tsRefl], rule run, code_simp)
  show "tsSteps exampleTs exampleTs2"
    unfolding exampleTs2_def by (rule tsRun_steps [OF tsRefl], rule run, code_simp)
qed code_simp+

theorem timestamps_unique_witness:
  "tsSteps TsState_init exampleTs \<and>
   tsCalls exampleTs 0 = Issued 7 1 30064771075 \<and> tsCalls exampleTs 1 = Issued 7 2 30064771073 \<and>
   {30064771075 ..< 30064771075 + 1} \<inter> {30064771073 ..< 30064771073 + 2 :: nat} = {}"
  using timestamps_unique [OF exampleTs_steps(1,3)] exampleTs_steps(1,3,4) by auto

theorem timestamps_ordered_witness:
  "tsSteps exampleTs exampleTs2 \<and> tsCalls exampleTs 0 = Issued 7 1 30064771075 \<and>
   tsCalls exampleTs2 2 = Issued 7 3 30064771076 \<and> 30064771075 + 1 \<le> (30064771076 :: nat)"
  using timestamps_ordered [OF exampleTs_steps(1,3,5,2,6)] exampleTs_steps(2,3,6) by simp

end
