(* ===== verification/Replica_Set_Config.thy ===== *)
theory Replica_Set_Config
  imports Prelude Complex_Main
begin

text \<open>
  The configuration of a replica set (\<^verbatim>\<open>db/repl/member_config.cpp\<close>, \<^verbatim>\<open>db/repl/replica_set_config.cpp\<close>): what
  validation accepts, with the first error in the order of the code, the counts of voters that make a
  majority, and whether a write concern that asks for a number of nodes can be satisfied.  A status is
  \<^const>\<open>None\<close> if it is OK and the error otherwise; the
  code has the one error code \<^verbatim>\<open>BadValue\<close> and a message, which the constructors of the error name.
\<close>

section \<open>Members\<close>

text \<open>A priority is a double, and a double may be not a number; then every comparison with it is false.\<close>

datatype Double = NaN | NegInf | Fin rat | PosInf

fun doubleLess :: "Double \<Rightarrow> Double \<Rightarrow> bool" where
  "doubleLess NaN _ = False"
| "doubleLess _ NaN = False"
| "doubleLess (Fin x) (Fin y) = (x < y)"
| "doubleLess NegInf y = (y \<noteq> NegInf)"
| "doubleLess x PosInf = (x \<noteq> PosInf)"
| "doubleLess _ _ = False"

fun doubleEqual :: "Double \<Rightarrow> Double \<Rightarrow> bool" where
  "doubleEqual NaN _ = False"
| "doubleEqual x y = (x = y)"

record HostAndPort =
  hp_host :: string
  hp_port :: int

definition isLocalHost :: "HostAndPort \<Rightarrow> bool" where
  "isLocalHost h \<longleftrightarrow> hp_host h = ''localhost'' \<or> take 4 (hp_host h) = ''127.'' \<or> hp_host h = ''::1'' \<or>
     hp_host h = ''anonymous unix socket'' \<or> take 1 (hp_host h) = ''/''"

record MemberConfig =
  mc_id :: int
  mc_host :: HostAndPort
  mc_priority :: Double
  mc_votes :: int
  mc_arbiterOnly :: bool
  mc_slaveDelay :: int
  mc_hidden :: bool
  mc_buildIndexes :: bool
  mc_tags :: "(string \<times> string) list"

definition isVoter :: "MemberConfig \<Rightarrow> bool" where
  "isVoter m \<longleftrightarrow> mc_votes m \<noteq> 0"

abbreviation isArbiter :: "MemberConfig \<Rightarrow> bool" where
  "isArbiter \<equiv> mc_arbiterOnly"

definition isElectable :: "MemberConfig \<Rightarrow> bool" where
  "isElectable m \<longleftrightarrow> \<not> isArbiter m \<and> doubleLess (Fin 0) (mc_priority m)"

definition kMaxSlaveDelay :: int where
  "kMaxSlaveDelay = 3600 * 24 * 366"

datatype ConfigError =
    IdOutOfRange | PriorityOutOfRange | VotesNotZeroOrOne | TagsOnArbiter | ArbiterMustVote
  | SlaveDelayOutOfRange | PriorityNonVoting | PrioritySlaveDelay | PriorityHidden | PriorityNoIndexes
  | VersionOutOfRange | EmptySetName | NegativeHeartbeatInterval | BadMemberCount
  | SameId nat nat | SameHost nat nat | MixedLocalhost | BadVoterCount | NoElectableMember
  | ZeroDefaultWriteConcern | UndefinedWriteMode | BadProtocolVersion
  | ConfigServerProtocolZero | ConfigServerArbiter | ConfigServerNoIndexes | ConfigServerSlaveDelay
  | NotStartedAsConfigServer | ConfigServerJournalDefault | MissingConfigServerFlag | InvalidConnectionString

definition validateMember :: "MemberConfig \<Rightarrow> ConfigError option" where
  "validateMember m =
     (if mc_id m < 0 \<or> mc_id m > 255 then Some IdOutOfRange
      else if doubleLess (mc_priority m) (Fin 0) \<or> doubleLess (Fin 1000) (mc_priority m) then Some PriorityOutOfRange
      else if mc_votes m \<noteq> 0 \<and> mc_votes m \<noteq> 1 then Some VotesNotZeroOrOne
      else if isArbiter m \<and> mc_tags m \<noteq> [] then Some TagsOnArbiter
      else if isArbiter m \<and> \<not> isVoter m then Some ArbiterMustVote
      else if mc_slaveDelay m < 0 \<or> mc_slaveDelay m > kMaxSlaveDelay then Some SlaveDelayOutOfRange
      else if \<not> doubleEqual (mc_priority m) (Fin 0) then
        if mc_votes m = 0 then Some PriorityNonVoting
        else if mc_slaveDelay m > 0 then Some PrioritySlaveDelay
        else if mc_hidden m then Some PriorityHidden
        else if \<not> mc_buildIndexes m then Some PriorityNoIndexes
        else None
      else None)"

section \<open>The configuration of the set\<close>

record ReplicaSetConfig =
  rc_version :: int
  rc_replSetName :: string
  rc_heartbeatInterval :: int
  rc_members :: "MemberConfig list"
  rc_defaultWMode :: string
  rc_defaultWNumNodes :: int
  rc_customWriteConcernModes :: "string list"
  rc_protocolVersion :: int
  rc_configServer :: bool
  rc_writeConcernMajorityJournalDefault :: bool

definition kMaxMembers :: nat where
  "kMaxMembers = 50"

definition kMaxVotingMembers :: nat where
  "kMaxVotingMembers = 7"

definition voters :: "ReplicaSetConfig \<Rightarrow> nat" where
  "voters cfg = length (filter isVoter (rc_members cfg))"

definition arbiters :: "ReplicaSetConfig \<Rightarrow> nat" where
  "arbiters cfg = length (filter isArbiter (rc_members cfg))"

definition getMajorityVoteCount :: "ReplicaSetConfig \<Rightarrow> nat" where
  "getMajorityVoteCount cfg = voters cfg div 2 + 1"

definition getWriteMajority :: "ReplicaSetConfig \<Rightarrow> int" where
  "getWriteMajority cfg = min (int (getMajorityVoteCount cfg)) (int (voters cfg) - int (arbiters cfg))"

text \<open>
  The connection string names the members that are neither hidden nor arbiters; it is invalid
  without a set name or without such a member.
\<close>

definition connectionStringValid :: "ReplicaSetConfig \<Rightarrow> bool" where
  "connectionStringValid cfg \<longleftrightarrow>
     rc_replSetName cfg \<noteq> [] \<and> filter (\<lambda>m. \<not> mc_hidden m \<and> \<not> isArbiter m) (rc_members cfg) \<noteq> []"

fun firstError :: "('a \<Rightarrow> ConfigError option) \<Rightarrow> 'a list \<Rightarrow> ConfigError option" where
  "firstError f [] = None"
| "firstError f (x # xs) = (case f x of Some e \<Rightarrow> Some e | None \<Rightarrow> firstError f xs)"

definition compareMembers :: "MemberConfig list \<Rightarrow> nat \<Rightarrow> nat \<Rightarrow> ConfigError option" where
  "compareMembers ms i j =
     (if i = j then None
      else if mc_id (ms ! i) = mc_id (ms ! j) then Some (SameId i j)
      else if mc_host (ms ! i) = mc_host (ms ! j) then Some (SameHost i j)
      else None)"

definition validateMemberAt :: "MemberConfig list \<Rightarrow> nat \<Rightarrow> ConfigError option" where
  "validateMemberAt ms i =
     (case validateMember (ms ! i) of
        Some e \<Rightarrow> Some e
      | None \<Rightarrow> firstError (compareMembers ms i) [0..<length ms])"

definition validateDefaultWriteConcern :: "ReplicaSetConfig \<Rightarrow> ConfigError option" where
  "validateDefaultWriteConcern cfg =
     (if rc_defaultWMode cfg = [] then
        if rc_defaultWNumNodes cfg = 0 then Some ZeroDefaultWriteConcern else None
      else if rc_defaultWMode cfg \<noteq> ''majority'' \<and> rc_defaultWMode cfg \<notin> set (rc_customWriteConcernModes cfg)
      then Some UndefinedWriteMode
      else None)"

definition validateConfigServerMember :: "MemberConfig \<Rightarrow> ConfigError option" where
  "validateConfigServerMember m =
     (if \<not> mc_buildIndexes m then Some ConfigServerNoIndexes
      else if mc_slaveDelay m \<noteq> 0 then Some ConfigServerSlaveDelay
      else None)"

text \<open>\<open>isConfigServer\<close> is the cluster role the node was started with.\<close>

definition validateConfigServer :: "bool \<Rightarrow> ReplicaSetConfig \<Rightarrow> ConfigError option" where
  "validateConfigServer isConfigServer cfg =
     (if rc_configServer cfg then
        if rc_protocolVersion cfg = 0 then Some ConfigServerProtocolZero
        else if arbiters cfg > 0 then Some ConfigServerArbiter
        else (case firstError validateConfigServerMember (rc_members cfg) of
            Some e \<Rightarrow> Some e
          | None \<Rightarrow>
              if \<not> isConfigServer then Some NotStartedAsConfigServer
              else if \<not> rc_writeConcernMajorityJournalDefault cfg then Some ConfigServerJournalDefault
              else None)
      else if isConfigServer then Some MissingConfigServerFlag
      else None)"

definition validate :: "bool \<Rightarrow> ReplicaSetConfig \<Rightarrow> ConfigError option" where
  "validate isConfigServer cfg =
     (let ms = rc_members cfg;
          localhostCount = length (filter (isLocalHost \<circ> mc_host) ms);
          electableCount = length (filter (\<lambda>m. \<not> isArbiter m \<and> doubleLess (Fin 0) (mc_priority m)) ms)
      in firstError id
        [if rc_version cfg \<le> 0 \<or> rc_version cfg > 2 ^ 31 - 1 then Some VersionOutOfRange else None,
         if rc_replSetName cfg = [] then Some EmptySetName else None,
         if rc_heartbeatInterval cfg < 0 then Some NegativeHeartbeatInterval else None,
         if length ms > kMaxMembers \<or> ms = [] then Some BadMemberCount else None,
         firstError (validateMemberAt ms) [0..<length ms],
         if localhostCount \<noteq> 0 \<and> localhostCount \<noteq> length ms then Some MixedLocalhost else None,
         if voters cfg > kMaxVotingMembers \<or> voters cfg = 0 then Some BadVoterCount else None,
         if electableCount = 0 then Some NoElectableMember else None,
         validateDefaultWriteConcern cfg,
         if rc_protocolVersion cfg \<noteq> 0 \<and> rc_protocolVersion cfg \<noteq> 1 then Some BadProtocolVersion else None,
         validateConfigServer isConfigServer cfg,
         if \<not> connectionStringValid cfg then Some InvalidConnectionString else None])"

text \<open>The loop over the data-bearing members for a write concern of \<open>wNumNodes\<close> nodes.\<close>

fun enoughDataBearing :: "MemberConfig list \<Rightarrow> int \<Rightarrow> bool" where
  "enoughDataBearing [] nodesRemaining = False"
| "enoughDataBearing (m # ms) nodesRemaining =
     (if \<not> isArbiter m
      then if nodesRemaining - 1 \<le> 0 then True else enoughDataBearing ms (nodesRemaining - 1)
      else enoughDataBearing ms nodesRemaining)"

section \<open>What validation guarantees\<close>

lemma firstError_None: "firstError f xs = None \<longleftrightarrow> (\<forall>x\<in>set xs. f x = None)"
  by (induction xs) (auto split: option.splits)

lemma validateMember_electable:
  assumes "validateMember m = None" and "isElectable m"
  shows "isVoter m"
proof -
  have "\<not> doubleEqual (mc_priority m) (Fin 0)"
    using assms(2) by (cases "mc_priority m") (auto simp: isElectable_def)
  then show ?thesis
    using assms(1) by (auto simp: validateMember_def isVoter_def split: if_splits)
qed

lemma validateMember_arbiter:
  "validateMember m = None \<Longrightarrow> isArbiter m \<Longrightarrow> isVoter m"
  by (auto simp: validateMember_def split: if_splits)

lemma validate_members:
  assumes "validate c cfg = None" and "m \<in> set (rc_members cfg)"
  shows "validateMember m = None"
proof -
  obtain i where i: "i < length (rc_members cfg)" "m = rc_members cfg ! i"
    using assms(2) by (auto simp: in_set_conv_nth)
  have "validateMemberAt (rc_members cfg) i = None"
    using assms(1) i(1) by (simp add: validate_def Let_def firstError_None del: firstError.simps)
  then show ?thesis
    using i(2) by (simp add: validateMemberAt_def split: option.splits)
qed

lemma validate_distinct:
  assumes "validate c cfg = None" and "i < length (rc_members cfg)" and "j < length (rc_members cfg)" and "i \<noteq> j"
  shows "mc_id (rc_members cfg ! i) \<noteq> mc_id (rc_members cfg ! j)"
    and "mc_host (rc_members cfg ! i) \<noteq> mc_host (rc_members cfg ! j)"
proof -
  have "validateMemberAt (rc_members cfg) i = None"
    using assms(1,2) by (simp add: validate_def Let_def firstError_None del: firstError.simps)
  then have "compareMembers (rc_members cfg) i j = None"
    using assms(3) by (simp add: validateMemberAt_def firstError_None split: option.splits)
  then show "mc_id (rc_members cfg ! i) \<noteq> mc_id (rc_members cfg ! j)"
    and "mc_host (rc_members cfg ! i) \<noteq> mc_host (rc_members cfg ! j)"
    using assms(4) by (auto simp: compareMembers_def split: if_splits)
qed

lemma validate_electable_voter:
  "validate c cfg = None \<Longrightarrow> m \<in> set (rc_members cfg) \<Longrightarrow> isElectable m \<Longrightarrow> isVoter m"
  using validate_members validateMember_electable by blast

lemma validate_electable_exists:
  assumes "validate c cfg = None"
  obtains m where "m \<in> set (rc_members cfg)" and "isElectable m"
proof -
  have "filter (\<lambda>m. \<not> isArbiter m \<and> doubleLess (Fin 0) (mc_priority m)) (rc_members cfg) \<noteq> []"
    using assms by (auto simp: validate_def Let_def firstError_None simp del: firstError.simps)
  then show ?thesis
    using that by (auto simp: filter_empty_conv isElectable_def)
qed

lemma length_filter_split:
  assumes "\<forall>x\<in>set xs. Q x \<longrightarrow> P x"
  shows "length (filter P xs) = length (filter Q xs) + length (filter (\<lambda>x. P x \<and> \<not> Q x) xs)"
  using assms by (induction xs) auto

lemma enoughDataBearing_iff:
  "enoughDataBearing ms k \<longleftrightarrow> filter (\<lambda>m. \<not> isArbiter m) ms \<noteq> [] \<and> k \<le> int (length (filter (\<lambda>m. \<not> isArbiter m) ms))"
proof (induction ms arbitrary: k)
  case (Cons m ms)
  show ?case
    using Cons.IH [of "k - 1"] Cons.IH [of k] by (cases "filter (\<lambda>m. \<not> isArbiter m) ms = []") auto
qed simp

text \<open>
  A configuration that validates has a write majority that some set of data-bearing voters can
  meet.  The majority of the votes is more than half of the voters and not more than all of them;
  the write majority is at least 1, is at most the majority of the votes, and is at most the number of voters that bear data, so
  a write concern of that many nodes is satisfiable.
\<close>

theorem validated_majorities:
  assumes "validate c cfg = None"
  shows "voters cfg < 2 * getMajorityVoteCount cfg \<and> getMajorityVoteCount cfg \<le> voters cfg \<and>
    1 \<le> getWriteMajority cfg \<and> getWriteMajority cfg \<le> int (getMajorityVoteCount cfg) \<and>
    getWriteMajority cfg \<le> int (length (filter (\<lambda>m. isVoter m \<and> \<not> isArbiter m) (rc_members cfg))) \<and>
    enoughDataBearing (rc_members cfg) (getWriteMajority cfg)"
proof -
  let ?d = "filter (\<lambda>m. isVoter m \<and> \<not> isArbiter m) (rc_members cfg)"
  have split: "voters cfg = arbiters cfg + length ?d"
    unfolding voters_def arbiters_def
    by (rule length_filter_split) (use validate_members [OF assms] validateMember_arbiter in blast)
  obtain m where m: "m \<in> set (rc_members cfg)" "isElectable m"
    using validate_electable_exists [OF assms] by blast
  then have "m \<in> set ?d"
    using validate_electable_voter [OF assms] by (auto simp: isElectable_def)
  then have d: "0 < length ?d"
    by (metis length_pos_if_in_set)
  have le: "length ?d \<le> length (filter (\<lambda>m. \<not> isArbiter m) (rc_members cfg))"
    using length_filter_split [of "rc_members cfg" "\<lambda>m. isVoter m \<and> \<not> isArbiter m" "\<lambda>m. \<not> isArbiter m"] by simp
  have w: "1 \<le> getWriteMajority cfg" "getWriteMajority cfg \<le> int (length ?d)"
    using split d by (auto simp: getWriteMajority_def getMajorityVoteCount_def Suc_le_eq)
  have "enoughDataBearing (rc_members cfg) (getWriteMajority cfg)"
    unfolding enoughDataBearing_iff using w le d by (auto simp: filter_empty_conv)
  moreover have "getMajorityVoteCount cfg \<le> voters cfg"
    using split d unfolding getMajorityVoteCount_def by linarith
  moreover have "voters cfg < 2 * getMajorityVoteCount cfg"
    by (simp add: getMajorityVoteCount_def)
  ultimately show ?thesis
    using w by (simp add: getWriteMajority_def)
qed

definition exampleMember :: "int \<Rightarrow> MemberConfig" where
  "exampleMember k = \<lparr>mc_id = k, mc_host = \<lparr>hp_host = ''db'', hp_port = 27017 + k\<rparr>, mc_priority = Fin 1, mc_votes = 1,
     mc_arbiterOnly = False, mc_slaveDelay = 0, mc_hidden = False, mc_buildIndexes = True, mc_tags = []\<rparr>"

definition exampleConfig :: "MemberConfig list \<Rightarrow> ReplicaSetConfig" where
  "exampleConfig ms = \<lparr>rc_version = 1, rc_replSetName = ''rs'', rc_heartbeatInterval = 2000, rc_members = ms,
     rc_defaultWMode = '''', rc_defaultWNumNodes = 1, rc_customWriteConcernModes = [], rc_protocolVersion = 1,
     rc_configServer = False, rc_writeConcernMajorityJournalDefault = True\<rparr>"

lemma exampleConfig_valid: "validate False (exampleConfig [exampleMember 0, exampleMember 1, exampleMember 2]) = None"
  by code_simp

theorem validated_majorities_witness:
  "getMajorityVoteCount (exampleConfig [exampleMember 0, exampleMember 1, (exampleMember 2)\<lparr>mc_arbiterOnly := True\<rparr>]) \<le> 3 \<and>
   1 \<le> getWriteMajority (exampleConfig [exampleMember 0, exampleMember 1, (exampleMember 2)\<lparr>mc_arbiterOnly := True\<rparr>])"
proof -
  have "validate False (exampleConfig [exampleMember 0, exampleMember 1, (exampleMember 2)\<lparr>mc_arbiterOnly := True\<rparr>]) = None"
    by code_simp
  from validated_majorities [OF this] show ?thesis
    by (simp add: voters_def exampleConfig_def exampleMember_def isVoter_def)
qed

end
