(* ===== verification/Elections.thy ===== *)
theory Elections
  imports Replica_Set_Config
begin

text \<open>
  Elections of a primary under protocol version 1 (\<^verbatim>\<open>db/repl\<close>): the topology coordinator's term and
  vote (\<^verbatim>\<open>topology_coordinator_impl.cpp\<close>), the durable vote (\<^verbatim>\<open>replication_coordinator_external_state_impl.cpp\<close>), the handler
  of a vote request and the steps of a candidate (\<^verbatim>\<open>replication_coordinator_impl.cpp\<close>, \<^verbatim>\<open>replication_coordinator_impl_elect_v1.cpp\<close>), and
  the collection of votes (\<^verbatim>\<open>vote_requester.cpp\<close>, \<^verbatim>\<open>scatter_gather_runner.cpp\<close>).

  A replica set is the list of its nodes and the messages sent so far; messages may be lost,
  delayed, reordered and delivered twice.  The steps of a node are the parts of its code under the topology mutex:
  the handler of a vote request updates the term, waits for a step down it has caused, votes, and
  stores the vote, and other steps may come in between.  A node may crash at any point and restarts from
  its durable vote.  The configuration does not change.
\<close>

section \<open>Configuration, votes and messages\<close>

record OpTime =
  ot_term :: int
  ot_timestamp :: nat

definition kUninitializedTerm :: int where
  "kUninitializedTerm = - 1"

definition kInitialTerm :: int where
  "kInitialTerm = 0"

definition OpTime_new :: OpTime where
  "OpTime_new = \<lparr>ot_term = kUninitializedTerm, ot_timestamp = 0\<rparr>"

definition opTimeLess :: "OpTime \<Rightarrow> OpTime \<Rightarrow> bool" where
  "opTimeLess a b =
     (if ot_term a = kUninitializedTerm \<or> ot_term b = kUninitializedTerm then ot_timestamp a < ot_timestamp b
      else ot_term a < ot_term b \<or> ot_term a = ot_term b \<and> ot_timestamp a < ot_timestamp b)"

record LastVote =
  lv_term :: int
  lv_candidateIndex :: int

record ReplSetRequestVotesArgs =
  va_setName :: string
  va_dryRun :: bool
  va_term :: int
  va_candidateIndex :: int
  va_configVersion :: int
  va_lastDurableOpTime :: OpTime

record ReplSetRequestVotesResponse =
  vr_term :: int
  vr_voteGranted :: bool

section \<open>Collecting votes\<close>

datatype VoteResult = kSuccessfullyElected | kStaleTerm | kInsufficientVotes

record VoteRequester =
  rq_term :: int
  rq_targets :: "nat list"
  rq_callbacks :: "nat list"
  rq_signaled :: bool
  rq_staleTerm :: bool
  rq_responsesProcessed :: nat
  rq_votes :: nat

definition VoteRequester_new :: "ReplicaSetConfig \<Rightarrow> nat \<Rightarrow> int \<Rightarrow> VoteRequester" where
  "VoteRequester_new cfg candidateIndex term =
     \<lparr>rq_term = term,
      rq_targets = filter (\<lambda>i. isVoter (rc_members cfg ! i) \<and> i \<noteq> candidateIndex) [0..<length (rc_members cfg)],
      rq_callbacks = [], rq_signaled = False, rq_staleTerm = False, rq_responsesProcessed = 0, rq_votes = 1\<rparr>"

definition getRequests ::
    "ReplicaSetConfig \<Rightarrow> nat \<Rightarrow> bool \<Rightarrow> OpTime \<Rightarrow> VoteRequester \<Rightarrow> (nat \<times> ReplSetRequestVotesArgs) list" where
  "getRequests cfg candidateIndex dryRun lastDurableOpTime rq =
     map (\<lambda>target. (target, \<lparr>va_setName = rc_replSetName cfg, va_dryRun = dryRun, va_term = rq_term rq,
        va_candidateIndex = int candidateIndex, va_configVersion = rc_version cfg,
        va_lastDurableOpTime = lastDurableOpTime\<rparr>)) (rq_targets rq)"

text \<open>A response is \<^const>\<open>None\<close> if the request failed.\<close>

definition processResponse :: "ReplSetRequestVotesResponse option \<Rightarrow> VoteRequester \<Rightarrow> VoteRequester" where
  "processResponse response rq =
     (let rq1 = rq\<lparr>rq_responsesProcessed := rq_responsesProcessed rq + 1\<rparr>
      in case response of
          None \<Rightarrow> rq1
        | Some r \<Rightarrow>
            let rq2 = (if vr_voteGranted r then rq1\<lparr>rq_votes := rq_votes rq1 + 1\<rparr> else rq1)
            in if vr_term r > rq_term rq2 then rq2\<lparr>rq_staleTerm := True\<rparr> else rq2)"

definition hasReceivedSufficientResponses :: "ReplicaSetConfig \<Rightarrow> VoteRequester \<Rightarrow> bool" where
  "hasReceivedSufficientResponses cfg rq \<longleftrightarrow>
     rq_staleTerm rq \<or> rq_votes rq = getMajorityVoteCount cfg \<or> rq_responsesProcessed rq = length (rq_targets rq)"

definition getResult :: "ReplicaSetConfig \<Rightarrow> VoteRequester \<Rightarrow> VoteResult" where
  "getResult cfg rq =
     (if rq_staleTerm rq then kStaleTerm
      else if rq_votes rq \<ge> getMajorityVoteCount cfg then kSuccessfullyElected
      else kInsufficientVotes)"

text \<open>
  The runner: the event it signals wakes the candidate when enough responses have come or the
  election is cancelled, and then the callbacks are dropped.  A target answers once.
\<close>

definition signalSufficientResponses :: "VoteRequester \<Rightarrow> VoteRequester" where
  "signalSufficientResponses rq = rq\<lparr>rq_callbacks := [], rq_signaled := True\<rparr>"

definition runnerStart :: "ReplicaSetConfig \<Rightarrow> VoteRequester \<Rightarrow> VoteRequester option" where
  "runnerStart cfg rq =
     (let rq1 = rq\<lparr>rq_callbacks := rq_targets rq\<rparr>
      in if rq_callbacks rq1 = [] \<or> hasReceivedSufficientResponses cfg rq1
         then do {
           invariant (hasReceivedSufficientResponses cfg rq1);
           Some (signalSufficientResponses rq1)
         }
         else Some rq1)"

definition runnerProcessResponse ::
    "ReplicaSetConfig \<Rightarrow> nat \<Rightarrow> ReplSetRequestVotesResponse option \<Rightarrow> VoteRequester \<Rightarrow> VoteRequester option" where
  "runnerProcessResponse cfg target response rq =
     (if rq_signaled rq then Some rq
      else do {
        invariant (target \<in> set (rq_callbacks rq));
        let rq1 = processResponse response (rq\<lparr>rq_callbacks := remove1 target (rq_callbacks rq)\<rparr>);
        if hasReceivedSufficientResponses cfg rq1 then Some (signalSufficientResponses rq1)
        else do {
          invariant (rq_callbacks rq1 \<noteq> []);
          Some rq1
        }
      })"

definition runnerCancel :: "VoteRequester \<Rightarrow> VoteRequester" where
  "runnerCancel rq = (if rq_signaled rq then rq else signalSufficientResponses rq)"

section \<open>Nodes\<close>

datatype Role = follower | candidate | leader

datatype Election = NoElection | DryRunning int VoteRequester | StoringVote int | VoteStored int
  | Requesting int VoteRequester

datatype Handler = HandleWait ReplSetRequestVotesArgs | HandleWoken ReplSetRequestVotesArgs
  | HandleVote ReplSetRequestVotesArgs | HandleStore ReplSetRequestVotesArgs ReplSetRequestVotesResponse

record Node =
  nd_term :: int
  nd_lastVote :: LastVote
  nd_durableVote :: "LastVote option"
  nd_role :: Role
  nd_stepDownPending :: bool
  nd_election :: Election
  nd_handlers :: "Handler list"
  nd_lastApplied :: OpTime
  nd_lastDurable :: OpTime

text \<open>
  A new node: the constructor's state, with the initial term that \<^verbatim>\<open>updateConfig\<close> sets when the first
  configuration is installed.
\<close>

definition Node_init :: Node where
  "Node_init = \<lparr>nd_term = kInitialTerm, nd_lastVote = \<lparr>lv_term = kInitialTerm, lv_candidateIndex = - 1\<rparr>,
     nd_durableVote = None, nd_role = follower, nd_stepDownPending = False, nd_election = NoElection,
     nd_handlers = [], nd_lastApplied = OpTime_new, nd_lastDurable = OpTime_new\<rparr>"

datatype UpdateTermResult = kAlreadyUpToDate | kTriggerStepDown | kUpdatedTerm

definition updateTerm :: "int \<Rightarrow> Node \<Rightarrow> UpdateTermResult \<times> Node" where
  "updateTerm term n =
     (if term \<le> nd_term n then (kAlreadyUpToDate, n)
      else if nd_role n = leader then (kTriggerStepDown, n)
      else (kUpdatedTerm, n\<lparr>nd_term := term\<rparr>))"

definition prepareForStepDown :: "Node \<Rightarrow> Node" where
  "prepareForStepDown n = n\<lparr>nd_stepDownPending := True\<rparr>"

definition updateTerm_incallback :: "int \<Rightarrow> Node \<Rightarrow> UpdateTermResult \<times> Node" where
  "updateTerm_incallback term n =
     (case updateTerm term n of
        (kTriggerStepDown, n1) \<Rightarrow> (kTriggerStepDown, prepareForStepDown n1)
      | r \<Rightarrow> r)"

definition stepDownSelf :: "Node \<Rightarrow> Node option" where
  "stepDownSelf n = do {
     invariant (nd_role n = leader);
     Some (n\<lparr>nd_role := follower, nd_stepDownPending := False\<rparr>)
   }"

definition stepDownIfPending :: "Node \<Rightarrow> Node option" where
  "stepDownIfPending n = (if \<not> nd_stepDownPending n then Some n else stepDownSelf n)"

text \<open>The decision about a vote; \<open>seesPrimary\<close> says that a healthy primary of equal or greater priority is visible.\<close>

definition processReplSetRequestVotes ::
    "ReplicaSetConfig \<Rightarrow> nat \<Rightarrow> bool \<Rightarrow> ReplSetRequestVotesArgs \<Rightarrow> Node \<Rightarrow> ReplSetRequestVotesResponse \<times> Node" where
  "processReplSetRequestVotes cfg self seesPrimary args n =
     (let no = \<lparr>vr_term = nd_term n, vr_voteGranted = False\<rparr>
      in if va_term args < nd_term n then (no, n)
         else if va_configVersion args \<noteq> rc_version cfg then (no, n)
         else if va_setName args \<noteq> rc_replSetName cfg then (no, n)
         else if opTimeLess (va_lastDurableOpTime args) (nd_lastApplied n) then (no, n)
         else if \<not> va_dryRun args \<and> lv_term (nd_lastVote n) = va_term args then (no, n)
         else if isArbiter (rc_members cfg ! self) \<and> seesPrimary then (no, n)
         else (no\<lparr>vr_voteGranted := True\<rparr>,
               if va_dryRun args then n
               else n\<lparr>nd_lastVote := \<lparr>lv_term = va_term args, lv_candidateIndex = va_candidateIndex args\<rparr>\<rparr>))"

definition voteForMyselfV1 :: "nat \<Rightarrow> Node \<Rightarrow> Node" where
  "voteForMyselfV1 self n = n\<lparr>nd_lastVote := \<lparr>lv_term = nd_term n, lv_candidateIndex = int self\<rparr>\<rparr>"

definition storeLocalLastVoteDocument :: "LastVote \<Rightarrow> Node \<Rightarrow> Node" where
  "storeLocalLastVoteDocument lastVote n =
     (case nd_durableVote n of
        None \<Rightarrow> n\<lparr>nd_durableVote := Some lastVote\<rparr>
      | Some old \<Rightarrow> if lv_term lastVote > lv_term old then n\<lparr>nd_durableVote := Some lastVote\<rparr> else n)"

definition processLoseElection :: "Node \<Rightarrow> Node option" where
  "processLoseElection n = do {
     invariant (nd_role n = candidate);
     Some (n\<lparr>nd_role := follower, nd_election := NoElection\<rparr>)
   }"

definition processWinElection :: "Node \<Rightarrow> Node option" where
  "processWinElection n = do {
     invariant (nd_role n = candidate);
     Some (n\<lparr>nd_role := leader, nd_election := NoElection\<rparr>)
   }"

section \<open>The steps of a candidate\<close>

text \<open>
  \<open>electableNow\<close> stands for the reasons not to be electable that are not part of the model: no majority seems to be up, a step down
  period, not a secondary.
\<close>

definition becomeCandidateIfElectable :: "ReplicaSetConfig \<Rightarrow> nat \<Rightarrow> bool \<Rightarrow> Node \<Rightarrow> Node option" where
  "becomeCandidateIfElectable cfg self electableNow n =
     (let m = rc_members cfg ! self
      in if nd_role n \<noteq> follower then None
         else if ot_timestamp (nd_lastApplied n) = 0 \<or> \<not> electableNow \<or> isArbiter m \<or>
           doubleLess (mc_priority m) (Fin 0) \<or> doubleEqual (mc_priority m) (Fin 0) then None
         else Some (n\<lparr>nd_role := candidate\<rparr>))"

definition startElectSelfV1 ::
    "ReplicaSetConfig \<Rightarrow> nat \<Rightarrow> Node \<Rightarrow> ((nat \<times> ReplSetRequestVotesArgs) list \<times> Node) option" where
  "startElectSelfV1 cfg self n = do {
     invariant (nd_election n = NoElection);
     invariant (isElectable (rc_members cfg ! self));
     if nd_lastDurable n = OpTime_new then do { n1 \<leftarrow> processLoseElection n; Some ([], n1) }
     else do {
       let rq = VoteRequester_new cfg self (nd_term n);
       rq1 \<leftarrow> runnerStart cfg rq;
       Some (getRequests cfg self True (nd_lastDurable n) rq, n\<lparr>nd_election := DryRunning (nd_term n) rq1\<rparr>)
     }
   }"

definition onDryRunComplete :: "ReplicaSetConfig \<Rightarrow> nat \<Rightarrow> int \<Rightarrow> VoteRequester \<Rightarrow> Node \<Rightarrow> Node option" where
  "onDryRunComplete cfg self originalTerm rq n =
     (if nd_term n \<noteq> originalTerm then processLoseElection n
      else if getResult cfg rq \<noteq> kSuccessfullyElected then processLoseElection n
      else (case updateTerm_incallback (originalTerm + 1) n of (result, n1) \<Rightarrow> do {
          invariant (result = kUpdatedTerm);
          Some ((voteForMyselfV1 self n1)\<lparr>nd_election := StoringVote (originalTerm + 1)\<rparr>)
        }))"

text \<open>\<open>ok\<close> says that the vote could be stored.\<close>

definition startVoteRequester ::
    "ReplicaSetConfig \<Rightarrow> nat \<Rightarrow> int \<Rightarrow> Node \<Rightarrow> ((nat \<times> ReplSetRequestVotesArgs) list \<times> Node) option" where
  "startVoteRequester cfg self newTerm n = do {
     let rq = VoteRequester_new cfg self (nd_term n);
     rq1 \<leftarrow> runnerStart cfg rq;
     Some (getRequests cfg self False (nd_lastDurable n) rq, n\<lparr>nd_election := Requesting newTerm rq1\<rparr>)
   }"

definition writeLastVoteForMyElection :: "nat \<Rightarrow> bool \<Rightarrow> int \<Rightarrow> Node \<Rightarrow> Node option" where
  "writeLastVoteForMyElection self ok newTerm n =
     (if \<not> ok then processLoseElection n
      else Some ((storeLocalLastVoteDocument \<lparr>lv_term = newTerm, lv_candidateIndex = int self\<rparr> n)
        \<lparr>nd_election := VoteStored newTerm\<rparr>))"

definition onVoteRequestComplete :: "ReplicaSetConfig \<Rightarrow> int \<Rightarrow> VoteRequester \<Rightarrow> Node \<Rightarrow> Node option" where
  "onVoteRequestComplete cfg originalTerm rq n =
     (if nd_term n \<noteq> originalTerm then processLoseElection n
      else if getResult cfg rq \<noteq> kSuccessfullyElected then processLoseElection n
      else processWinElection n)"

text \<open>
  Start after a crash: the configuration is installed, which sets the initial term, and then the term is
  raised to the greater one of the last oplog entry's and the durable vote's.
\<close>

definition restartNode :: "OpTime \<Rightarrow> Node \<Rightarrow> Node" where
  "restartNode lastOpTime n =
     (let n1 = (case nd_durableVote n of None \<Rightarrow> Node_init | Some v \<Rightarrow> Node_init\<lparr>nd_lastVote := v\<rparr>);
          term = (case nd_durableVote n of
              None \<Rightarrow> ot_term lastOpTime
            | Some v \<Rightarrow> if ot_term lastOpTime < lv_term v then lv_term v else ot_term lastOpTime)
      in snd (updateTerm_incallback term
           (n1\<lparr>nd_durableVote := nd_durableVote n, nd_lastApplied := lastOpTime, nd_lastDurable := lastOpTime\<rparr>)))"

section \<open>The replica set\<close>

record ReplSet =
  rs_nodes :: "Node list"
  rs_requests :: "(nat \<times> ReplSetRequestVotesArgs) list"
  rs_replies :: "(nat \<times> ReplSetRequestVotesArgs \<times> ReplSetRequestVotesResponse) list"
  rs_elected :: "(int \<times> nat) list"

text \<open>
  A reply is recorded with the node it comes from and the request it answers.  \<open>rs_elected\<close> records the terms and winners of the elections that were won, for the
  statements only.
\<close>

definition ReplSet_init :: "ReplicaSetConfig \<Rightarrow> ReplSet" where
  "ReplSet_init cfg = \<lparr>rs_nodes = replicate (length (rc_members cfg)) Node_init, rs_requests = [], rs_replies = [], rs_elected = []\<rparr>"

definition setNode :: "nat \<Rightarrow> Node \<Rightarrow> ReplSet \<Rightarrow> ReplSet" where
  "setNode i n rs = rs\<lparr>rs_nodes := (rs_nodes rs)[i := n]\<rparr>"

datatype ElectionEvent =
    LearnTerm nat int
  | StartStepDown nat
  | FinishStepDown nat "nat option"
  | StepDown nat
  | Apply nat OpTime OpTime
  | StartElection nat bool
  | Respond nat nat "ReplSetRequestVotesArgs \<times> ReplSetRequestVotesResponse"
  | RespondFailed nat nat
  | Cancel nat
  | Complete nat bool
  | Deliver nat ReplSetRequestVotesArgs
  | Handle nat nat bool
  | Restart nat OpTime

text \<open>The handler of a vote request: \<open>deliverRequest\<close> is the call of \<^verbatim>\<open>updateTerm\<close>.\<close>

definition deliverRequest :: "ReplSetRequestVotesArgs \<Rightarrow> Node \<Rightarrow> Node" where
  "deliverRequest args n =
     (case updateTerm_incallback (va_term args) n of
        (kTriggerStepDown, n1) \<Rightarrow> n1\<lparr>nd_handlers := nd_handlers n1 @ [HandleWait args]\<rparr>
      | (r, n1) \<Rightarrow> n1\<lparr>nd_handlers := nd_handlers n1 @ [HandleVote args]\<rparr>)"

definition dropHandler :: "nat \<Rightarrow> Node \<Rightarrow> Node" where
  "dropHandler k n = n\<lparr>nd_handlers := take k (nd_handlers n) @ drop (k + 1) (nd_handlers n)\<rparr>"

definition sendRequests :: "(nat \<times> ReplSetRequestVotesArgs) list \<Rightarrow> ReplSet \<Rightarrow> ReplSet" where
  "sendRequests ms rs = rs\<lparr>rs_requests := rs_requests rs @ ms\<rparr>"

definition sendReply ::
    "nat \<Rightarrow> ReplSetRequestVotesArgs \<Rightarrow> ReplSetRequestVotesResponse \<Rightarrow> ReplSet \<Rightarrow> ReplSet" where
  "sendReply self args response rs = rs\<lparr>rs_replies := rs_replies rs @ [(self, args, response)]\<rparr>"

text \<open>
  The work of \<open>_stepDownFinish\<close>; the handler \<open>k\<close> that has been waiting for it, if there is one, goes on.
\<close>

definition stepDownFinish :: "nat option \<Rightarrow> Node \<Rightarrow> Node option" where
  "stepDownFinish waiter n = do {
     n1 \<leftarrow> stepDownIfPending n;
     case waiter of
       None \<Rightarrow> Some n1
     | Some k \<Rightarrow>
         if k < length (nd_handlers n1) then
           (case nd_handlers n1 ! k of
              HandleWait args \<Rightarrow> Some (n1\<lparr>nd_handlers := (nd_handlers n1)[k := HandleWoken args]\<rparr>)
            | _ \<Rightarrow> None)
         else None
   }"

text \<open>The vote of handler \<open>k\<close> and what becomes of the handler.\<close>

definition voteStep ::
    "ReplicaSetConfig \<Rightarrow> nat \<Rightarrow> nat \<Rightarrow> bool \<Rightarrow> ReplSetRequestVotesArgs \<Rightarrow> ReplSet \<Rightarrow> ReplSet" where
  "voteStep cfg i k seesPrimary args rs =
     (case processReplSetRequestVotes cfg i seesPrimary args (rs_nodes rs ! i) of (response, n1) \<Rightarrow>
      if \<not> va_dryRun args \<and> vr_voteGranted response
      then setNode i (n1\<lparr>nd_handlers := (nd_handlers n1)[k := HandleStore args response]\<rparr>) rs
      else sendReply i args response (setNode i (dropHandler k n1) rs))"

definition storeStep ::
    "nat \<Rightarrow> nat \<Rightarrow> bool \<Rightarrow> ReplSetRequestVotesArgs \<Rightarrow> ReplSetRequestVotesResponse \<Rightarrow> ReplSet \<Rightarrow> ReplSet" where
  "storeStep i k ok args response rs =
     (let n = rs_nodes rs ! i
      in if \<not> ok then setNode i (dropHandler k n) rs
         else sendReply i args response (setNode i (dropHandler k
           (storeLocalLastVoteDocument \<lparr>lv_term = va_term args, lv_candidateIndex = va_candidateIndex args\<rparr> n)) rs))"

text \<open>
  One step; \<^const>\<open>None\<close> if the event is not possible in the state or if the process aborts.
\<close>

definition respondStep ::
    "ReplicaSetConfig \<Rightarrow> nat \<Rightarrow> nat \<Rightarrow> (ReplSetRequestVotesArgs \<times> ReplSetRequestVotesResponse) option \<Rightarrow> ReplSet \<Rightarrow> ReplSet option" where
  "respondStep cfg i target msg rs =
     (let n = rs_nodes rs ! i;
          answers = (\<lambda>dryRun rq. case msg of
              None \<Rightarrow> True
            | Some (args, response) \<Rightarrow> (target, args, response) \<in> set (rs_replies rs) \<and>
                va_dryRun args = dryRun \<and> va_candidateIndex args = int i \<and> va_term args = rq_term rq)
      in case nd_election n of
          DryRunning t rq \<Rightarrow> do {
            invariant (answers True rq);
            rq1 \<leftarrow> runnerProcessResponse cfg target (map_option snd msg) rq;
            Some (setNode i (n\<lparr>nd_election := DryRunning t rq1\<rparr>) rs)
          }
        | Requesting t rq \<Rightarrow> do {
            invariant (answers False rq);
            rq1 \<leftarrow> runnerProcessResponse cfg target (map_option snd msg) rq;
            Some (setNode i (n\<lparr>nd_election := Requesting t rq1\<rparr>) rs)
          }
        | _ \<Rightarrow> None)"

definition startElectionStep :: "ReplicaSetConfig \<Rightarrow> nat \<Rightarrow> bool \<Rightarrow> ReplSet \<Rightarrow> ReplSet option" where
  "startElectionStep cfg i electableNow rs = do {
     n1 \<leftarrow> becomeCandidateIfElectable cfg i electableNow (rs_nodes rs ! i);
     (ms, n2) \<leftarrow> startElectSelfV1 cfg i n1;
     Some (sendRequests ms (setNode i n2 rs))
   }"

definition cancelElection :: "Node \<Rightarrow> Node" where
  "cancelElection n =
     (case nd_election n of
        DryRunning t rq \<Rightarrow> n\<lparr>nd_election := DryRunning t (runnerCancel rq)\<rparr>
      | Requesting t rq \<Rightarrow> n\<lparr>nd_election := Requesting t (runnerCancel rq)\<rparr>
      | _ \<Rightarrow> n)"

definition completeStep :: "ReplicaSetConfig \<Rightarrow> nat \<Rightarrow> bool \<Rightarrow> ReplSet \<Rightarrow> ReplSet option" where
  "completeStep cfg i ok rs =
     (let n = rs_nodes rs ! i
      in case nd_election n of
          NoElection \<Rightarrow> None
        | DryRunning t rq \<Rightarrow> do {
            invariant (rq_signaled rq);
            n1 \<leftarrow> onDryRunComplete cfg i t rq n;
            Some (setNode i n1 rs)
          }
        | StoringVote t \<Rightarrow> do {
            n1 \<leftarrow> writeLastVoteForMyElection i ok t n;
            Some (setNode i n1 rs)
          }
        | VoteStored t \<Rightarrow> do {
            (ms, n1) \<leftarrow> startVoteRequester cfg i t n;
            Some (sendRequests ms (setNode i n1 rs))
          }
        | Requesting t rq \<Rightarrow> do {
            invariant (rq_signaled rq);
            n1 \<leftarrow> onVoteRequestComplete cfg t rq n;
            Some ((setNode i n1 rs)
              \<lparr>rs_elected := (if nd_role n1 = leader then [(nd_term n1, i)] else []) @ rs_elected rs\<rparr>)
          })"

text \<open>
  One step of node \<open>i\<close>; \<^const>\<open>None\<close> if the step is not possible in the state or if the process aborts.
\<close>

definition handlerStep :: "ReplicaSetConfig \<Rightarrow> nat \<Rightarrow> nat \<Rightarrow> bool \<Rightarrow> ReplSet \<Rightarrow> ReplSet option" where
  "handlerStep cfg i k b rs =
     (let n = rs_nodes rs ! i
      in if k < length (nd_handlers n) then
           (case nd_handlers n ! k of
              HandleWait args \<Rightarrow> None
            | HandleWoken args \<Rightarrow> Some (voteStep cfg i k b args rs)
            | HandleVote args \<Rightarrow> Some (voteStep cfg i k b args rs)
            | HandleStore args response \<Rightarrow> Some (storeStep i k b args response rs))
         else None)"

fun nodeStep :: "ReplicaSetConfig \<Rightarrow> ElectionEvent \<Rightarrow> ReplSet \<Rightarrow> ReplSet option" where
  "nodeStep cfg (LearnTerm i term) rs = Some (setNode i (snd (updateTerm_incallback term (rs_nodes rs ! i))) rs)"
| "nodeStep cfg (StartStepDown i) rs =
     (if nd_role (rs_nodes rs ! i) = leader then Some (setNode i (prepareForStepDown (rs_nodes rs ! i)) rs) else None)"
| "nodeStep cfg (FinishStepDown i waiter) rs = map_option (\<lambda>n. setNode i n rs) (stepDownFinish waiter (rs_nodes rs ! i))"
| "nodeStep cfg (StepDown i) rs = map_option (\<lambda>n. setNode i n rs) (stepDownSelf (rs_nodes rs ! i))"
| "nodeStep cfg (Apply i applied durable) rs =
     Some (setNode i ((rs_nodes rs ! i)\<lparr>nd_lastApplied := applied, nd_lastDurable := durable\<rparr>) rs)"
| "nodeStep cfg (StartElection i electableNow) rs = startElectionStep cfg i electableNow rs"
| "nodeStep cfg (Respond i target msg) rs = respondStep cfg i target (Some msg) rs"
| "nodeStep cfg (RespondFailed i target) rs = respondStep cfg i target None rs"
| "nodeStep cfg (Cancel i) rs = Some (setNode i (cancelElection (rs_nodes rs ! i)) rs)"
| "nodeStep cfg (Complete i ok) rs = completeStep cfg i ok rs"
| "nodeStep cfg (Deliver i args) rs =
     (if (i, args) \<in> set (rs_requests rs) then Some (setNode i (deliverRequest args (rs_nodes rs ! i)) rs) else None)"
| "nodeStep cfg (Handle i k b) rs = handlerStep cfg i k b rs"
| "nodeStep cfg (Restart i lastOpTime) rs = Some (setNode i (restartNode lastOpTime (rs_nodes rs ! i)) rs)"

fun eventNode :: "ElectionEvent \<Rightarrow> nat" where
  "eventNode (LearnTerm i _) = i"
| "eventNode (StartStepDown i) = i"
| "eventNode (FinishStepDown i _) = i"
| "eventNode (StepDown i) = i"
| "eventNode (Apply i _ _) = i"
| "eventNode (StartElection i _) = i"
| "eventNode (Respond i _ _) = i"
| "eventNode (RespondFailed i _) = i"
| "eventNode (Cancel i) = i"
| "eventNode (Complete i _) = i"
| "eventNode (Deliver i _) = i"
| "eventNode (Handle i _ _) = i"
| "eventNode (Restart i _) = i"

definition electionStep :: "ReplicaSetConfig \<Rightarrow> ElectionEvent \<Rightarrow> ReplSet \<Rightarrow> ReplSet option" where
  "electionStep cfg e rs = (if eventNode e < length (rs_nodes rs) then nodeStep cfg e rs else None)"

fun electionRun :: "ReplicaSetConfig \<Rightarrow> ElectionEvent list \<Rightarrow> ReplSet \<Rightarrow> ReplSet option" where
  "electionRun cfg [] rs = Some rs"
| "electionRun cfg (e # es) rs = electionStep cfg e rs \<bind> electionRun cfg es"

end
