(* ===== verification/Election_Votes.thy ===== *)
theory Election_Votes
  imports Elections
begin

text \<open>
  What a member remembers of its votes.  The votes of a member that others may know of are its granted replies
  and its own vote in the elections it has won.  All of them are covered by the durable vote, and all
  votes that are on their way to the disk or to a candidate are covered by the vote in
  memory, so that no crash and no interleaving of handlers makes a member vote twice in a term, as
  long as it votes in terms that it has reached.
\<close>

section \<open>Votes\<close>

definition ballot :: "int \<Rightarrow> int \<Rightarrow> LastVote" where
  "ballot term candidateIndex = \<lparr>lv_term = term, lv_candidateIndex = candidateIndex\<rparr>"

lemma ballot_simps [simp]:
  "lv_term (ballot t c) = t" "lv_candidateIndex (ballot t c) = c"
  "ballot t c = ballot t' c' \<longleftrightarrow> t = t' \<and> c = c'"
  "\<lparr>lv_term = t, lv_candidateIndex = c\<rparr> = ballot t c"
  by (auto simp: ballot_def)

definition older :: "LastVote \<Rightarrow> LastVote \<Rightarrow> bool" where
  "older v w \<longleftrightarrow> lv_term v < lv_term w \<or> v = w"

lemma older_refl [simp]: "older v v"
  by (simp add: older_def)

lemma older_trans: "older u v \<Longrightarrow> older v w \<Longrightarrow> older u w"
  by (auto simp: older_def)

lemma older_term: "older v w \<Longrightarrow> lv_term v \<le> lv_term w"
  by (auto simp: older_def)

definition argsVote :: "ReplSetRequestVotesArgs \<Rightarrow> LastVote" where
  "argsVote args = ballot (va_term args) (va_candidateIndex args)"

definition handlerVotes :: "Node \<Rightarrow> LastVote set" where
  "handlerVotes n = {argsVote args | args response. HandleStore args response \<in> set (nd_handlers n)}"

definition ownVotes :: "nat \<Rightarrow> Node \<Rightarrow> LastVote set" where
  "ownVotes i n = (case nd_election n of StoringVote t \<Rightarrow> {ballot t (int i)} | VoteStored t \<Rightarrow> {ballot t (int i)}
     | Requesting t rq \<Rightarrow> {ballot t (int i)} | _ \<Rightarrow> {})"

definition storedVotes :: "nat \<Rightarrow> Node \<Rightarrow> LastVote set" where
  "storedVotes i n = (case nd_election n of VoteStored t \<Rightarrow> {ballot t (int i)}
     | Requesting t rq \<Rightarrow> {ballot t (int i)} | _ \<Rightarrow> {})"

definition knownVotes :: "LastVote set \<Rightarrow> nat \<Rightarrow> Node \<Rightarrow> LastVote set" where
  "knownVotes V i n = V \<union> handlerVotes n \<union> ownVotes i n \<union> set_option (nd_durableVote n)"

lemma storedVotes_own: "storedVotes i n \<subseteq> ownVotes i n"
  by (auto simp: storedVotes_def ownVotes_def split: Election.splits)

section \<open>The invariant of a member\<close>

definition handlersOk :: "Node \<Rightarrow> bool" where
  "handlersOk n \<longleftrightarrow> (\<forall>args. HandleVote args \<in> set (nd_handlers n) \<longrightarrow> va_term args \<le> nd_term n)"

definition votesOk :: "LastVote set \<Rightarrow> nat \<Rightarrow> Node \<Rightarrow> bool" where
  "votesOk V i n \<longleftrightarrow> lv_term (nd_lastVote n) \<le> nd_term n \<and>
     (\<forall>v\<in>knownVotes V i n. older v (nd_lastVote n)) \<and>
     (\<forall>v\<in>knownVotes V i n. \<forall>w\<in>knownVotes V i n. lv_term v = lv_term w \<longrightarrow> v = w) \<and>
     (\<forall>v\<in>V \<union> storedVotes i n. \<exists>d. nd_durableVote n = Some d \<and> older v d)"

lemma votesOkD:
  assumes "votesOk V i n"
  shows "lv_term (nd_lastVote n) \<le> nd_term n"
    and "v \<in> knownVotes V i n \<Longrightarrow> older v (nd_lastVote n)"
    and "v \<in> knownVotes V i n \<Longrightarrow> w \<in> knownVotes V i n \<Longrightarrow> lv_term v = lv_term w \<Longrightarrow> v = w"
    and "v \<in> V \<union> storedVotes i n \<Longrightarrow> \<exists>d. nd_durableVote n = Some d \<and> older v d"
  using assms unfolding votesOk_def by blast+

text \<open>No new vote: votes may be dropped, and votes that are on the disk may become known.\<close>

lemma votesOk_weaken:
  assumes ok: "votesOk V i n"
    and same: "nd_lastVote n' = nd_lastVote n" "nd_durableVote n' = nd_durableVote n" "nd_term n \<le> nd_term n'"
    and fewer: "handlerVotes n' \<subseteq> handlerVotes n" "ownVotes i n' \<subseteq> ownVotes i n" "storedVotes i n' \<subseteq> storedVotes i n"
    and V': "V' \<subseteq> V \<union> storedVotes i n"
  shows "votesOk V' i n'"
proof -
  have known: "knownVotes V' i n' \<subseteq> knownVotes V i n"
    using same(2) fewer V' storedVotes_own [of i n] by (auto simp: knownVotes_def)
  have "lv_term (nd_lastVote n) \<le> nd_term n'"
    using votesOkD(1) [OF ok] same(3) by linarith
  then show ?thesis
    unfolding votesOk_def same(1,2)
    using votesOkD(2,3,4) [OF ok] known fewer(3) V' by blast
qed

text \<open>A new vote, in a term after the last one and not after the current one.\<close>

lemma votesOk_vote:
  assumes ok: "votesOk V i n"
    and new: "nd_lastVote n' = v" "lv_term (nd_lastVote n) < lv_term v" "lv_term v \<le> nd_term n'"
    and same: "nd_durableVote n' = nd_durableVote n" "storedVotes i n' \<subseteq> storedVotes i n"
    and votes: "handlerVotes n' \<union> ownVotes i n' \<subseteq> handlerVotes n \<union> ownVotes i n \<union> {v}"
  shows "votesOk V i n'"
proof -
  have known: "knownVotes V i n' \<subseteq> insert v (knownVotes V i n)"
    using same votes by (auto simp: knownVotes_def)
  have old: "lv_term w < lv_term v" if "w \<in> knownVotes V i n" for w
    using older_term [OF votesOkD(2) [OF ok that]] new(2) by linarith
  have 1: "\<forall>w\<in>knownVotes V i n'. older w v"
    using known old by (auto simp: older_def)
  have 2: "w = w'" if "w \<in> knownVotes V i n'" "w' \<in> knownVotes V i n'" "lv_term w = lv_term w'" for w w'
    using that known old votesOkD(3) [OF ok, of w w'] by (metis insertE order_less_irrefl subsetD)
  show ?thesis
    unfolding votesOk_def new(1) same(1)
    using 1 2 new(3) votesOkD(4) [OF ok] same(2) by blast
qed

text \<open>A known vote reaches the disk, and becomes known to others.\<close>

lemma storeLocalLastVoteDocument_fields [simp]:
  "nd_lastVote (storeLocalLastVoteDocument v n) = nd_lastVote n" "nd_term (storeLocalLastVoteDocument v n) = nd_term n"
  "nd_role (storeLocalLastVoteDocument v n) = nd_role n" "nd_election (storeLocalLastVoteDocument v n) = nd_election n"
  "nd_handlers (storeLocalLastVoteDocument v n) = nd_handlers n"
  by (simp_all add: storeLocalLastVoteDocument_def split: option.splits)

lemma storeLocalLastVoteDocument_durable:
  assumes "\<forall>d. nd_durableVote n = Some d \<longrightarrow> lv_term v = lv_term d \<longrightarrow> v = d"
  obtains d where "nd_durableVote (storeLocalLastVoteDocument v n) = Some d" "older v d"
    "\<forall>d'. nd_durableVote n = Some d' \<longrightarrow> older d' d" "d = v \<or> nd_durableVote n = Some d"
proof (cases "nd_durableVote n")
  case None
  then show ?thesis
    using that [of v] by (simp add: storeLocalLastVoteDocument_def)
next
  case (Some d')
  then show ?thesis
    using assms that [of "if lv_term v > lv_term d' then v else d'"]
    by (cases "lv_term v = lv_term d'") (auto simp: storeLocalLastVoteDocument_def older_def)
qed

lemma votesOk_store:
  assumes ok: "votesOk V i n" and v: "v \<in> knownVotes V i n"
    and same: "nd_lastVote n' = nd_lastVote n" "nd_durableVote n' = nd_durableVote (storeLocalLastVoteDocument v n)"
      "nd_term n \<le> nd_term n'"
    and votes: "handlerVotes n' \<subseteq> handlerVotes n" "ownVotes i n' \<subseteq> ownVotes i n" "storedVotes i n' \<subseteq> insert v (storedVotes i n)"
    and V': "V' \<subseteq> insert v V"
  shows "votesOk V' i n'"
proof -
  have "\<forall>d. nd_durableVote n = Some d \<longrightarrow> lv_term v = lv_term d \<longrightarrow> v = d"
    using votesOkD(3) [OF ok v] by (simp add: knownVotes_def)
  then obtain d where d: "nd_durableVote n' = Some d" "older v d" "\<forall>d'. nd_durableVote n = Some d' \<longrightarrow> older d' d"
    "d = v \<or> nd_durableVote n = Some d"
    unfolding same(2) by (rule storeLocalLastVoteDocument_durable)
  have known: "knownVotes V' i n' \<subseteq> knownVotes V i n"
    using d(1,4) votes V' v by (auto simp: knownVotes_def)
  have 1: "older w d" if "w \<in> V' \<union> storedVotes i n'" for w
    using that V' votes(3) votesOkD(4) [OF ok, of w] d(2,3) older_trans by blast
  have 2: "lv_term (nd_lastVote n) \<le> nd_term n'"
    using votesOkD(1) [OF ok] same(3) by linarith
  show ?thesis
    unfolding votesOk_def same(1) d(1)
    using 1 2 known votesOkD(2,3) [OF ok] by blast
qed

text \<open>A crash: what is left is the vote on the disk.\<close>

lemma votesOk_restart:
  assumes ok: "votesOk V i n"
  shows "votesOk V i (restartNode lastOpTime n)"
proof (cases "nd_durableVote n")
  case None
  then have "V = {}"
    using votesOkD(4) [OF ok] by fastforce
  then show ?thesis
    using None
    by (auto simp: votesOk_def knownVotes_def handlerVotes_def ownVotes_def storedVotes_def restartNode_def
      updateTerm_incallback_def updateTerm_def Node_init_def kInitialTerm_def Let_def)
next
  case (Some d)
  have V: "older v d" if "v \<in> V" for v
    using votesOkD(4) [OF ok, of v] that Some by auto
  have eq: "v = w" if "v \<in> insert d V" "w \<in> insert d V" "lv_term v = lv_term w" for v w
    using votesOkD(3) [OF ok, of v w] that Some by (auto simp: knownVotes_def)
  show ?thesis
    using Some V eq
    by (auto simp: votesOk_def knownVotes_def handlerVotes_def ownVotes_def storedVotes_def restartNode_def
      updateTerm_incallback_def updateTerm_def prepareForStepDown_def Node_init_def kInitialTerm_def Let_def)
qed

end
