(* ===== verification/Election_Safety.thy ===== *)
theory Election_Safety
  imports Election_Votes
begin

text \<open>
  The replica set as a whole: an invariant of all states that a run reaches, which gives that a
  term has at most one primary, and a run that shows what goes wrong when a member votes in a term that it has not reached.
\<close>

section \<open>The invariant\<close>

definition replyVotes :: "ReplSet \<Rightarrow> nat \<Rightarrow> LastVote set" where
  "replyVotes rs p = {argsVote args | args response.
     (p, args, response) \<in> set (rs_replies rs) \<and> \<not> va_dryRun args \<and> vr_voteGranted response}"

definition wonVotes :: "ReplSet \<Rightarrow> nat \<Rightarrow> LastVote set" where
  "wonVotes rs p = {ballot t (int p) | t. (t, p) \<in> set (rs_elected rs)}"

definition visibleVotes :: "ReplSet \<Rightarrow> nat \<Rightarrow> LastVote set" where
  "visibleVotes rs p = replyVotes rs p \<union> wonVotes rs p"

definition voterIndexes :: "ReplicaSetConfig \<Rightarrow> nat set" where
  "voterIndexes cfg = {p. p < length (rc_members cfg) \<and> isVoter (rc_members cfg ! p)}"

definition collected :: "ReplicaSetConfig \<Rightarrow> ReplSet \<Rightarrow> nat \<Rightarrow> VoteRequester \<Rightarrow> bool" where
  "collected cfg rs i rq \<longleftrightarrow> distinct (rq_callbacks rq) \<and> set (rq_callbacks rq) \<subseteq> set (rq_targets rq) \<and>
     set (rq_targets rq) \<subseteq> voterIndexes cfg - {i} \<and>
     (\<exists>S. S \<subseteq> set (rq_targets rq) - set (rq_callbacks rq) \<and> rq_votes rq = card S + 1 \<and>
       (\<forall>p\<in>S. ballot (rq_term rq) (int i) \<in> replyVotes rs p))"

definition candidateOk :: "ReplicaSetConfig \<Rightarrow> ReplSet \<Rightarrow> nat \<Rightarrow> Node \<Rightarrow> bool" where
  "candidateOk cfg rs i n \<longleftrightarrow> (nd_election n \<noteq> NoElection \<longrightarrow> isElectable (rc_members cfg ! i)) \<and>
     (\<forall>t rq. nd_election n = Requesting t rq \<longrightarrow> t \<le> rq_term rq \<and> rq_term rq \<le> nd_term n \<and> collected cfg rs i rq)"

definition memberOk :: "ReplicaSetConfig \<Rightarrow> ReplSet \<Rightarrow> nat \<Rightarrow> Node \<Rightarrow> bool" where
  "memberOk cfg rs i n \<longleftrightarrow> votesOk (visibleVotes rs i) i n \<and> handlersOk n \<and>
     (nd_role n = leader \<longrightarrow> (nd_term n, i) \<in> set (rs_elected rs)) \<and> candidateOk cfg rs i n"

definition won :: "ReplicaSetConfig \<Rightarrow> ReplSet \<Rightarrow> int \<Rightarrow> nat \<Rightarrow> bool" where
  "won cfg rs t c \<longleftrightarrow> (\<exists>Q. Q \<subseteq> voterIndexes cfg \<and> getMajorityVoteCount cfg \<le> card Q \<and>
     (\<forall>p\<in>Q. ballot t (int c) \<in> visibleVotes rs p))"

definition electionInv :: "ReplicaSetConfig \<Rightarrow> ReplSet \<Rightarrow> bool" where
  "electionInv cfg rs \<longleftrightarrow> length (rs_nodes rs) = length (rc_members cfg) \<and>
     (\<forall>i<length (rs_nodes rs). memberOk cfg rs i (rs_nodes rs ! i)) \<and>
     (\<forall>(t, c)\<in>set (rs_elected rs). won cfg rs t c)"

section \<open>Majorities\<close>

lemma card_voterIndexes: "card (voterIndexes cfg) = voters cfg"
  unfolding voterIndexes_def voters_def by (simp add: length_filter_conv_card)

lemma finite_voterIndexes [simp]: "finite (voterIndexes cfg)"
  by (simp add: voterIndexes_def)

lemma majorities_meet:
  assumes "A \<subseteq> voterIndexes cfg" "B \<subseteq> voterIndexes cfg"
    and "getMajorityVoteCount cfg \<le> card A" "getMajorityVoteCount cfg \<le> card B"
  obtains p where "p \<in> A" "p \<in> B"
proof -
  have fin: "finite A" "finite B"
    using assms(1,2) by (auto intro: finite_subset [OF _ finite_voterIndexes])
  have "card (A \<union> B) \<le> voters cfg"
    using assms(1,2) card_mono [of "voterIndexes cfg" "A \<union> B"] by (simp add: card_voterIndexes)
  moreover have "voters cfg < 2 * getMajorityVoteCount cfg"
    by (simp add: getMajorityVoteCount_def)
  ultimately have "card (A \<inter> B) \<noteq> 0"
    using card_Un_Int [OF fin] assms(3,4) by linarith
  then have "A \<inter> B \<noteq> {}"
    by auto
  then show ?thesis
    using that by blast
qed

lemma won_visible:
  assumes "won cfg rs t c" "won cfg rs t c'"
  obtains p where "p \<in> voterIndexes cfg" "ballot t (int c) \<in> visibleVotes rs p" "ballot t (int c') \<in> visibleVotes rs p"
proof -
  obtain A B where AB: "A \<subseteq> voterIndexes cfg" "B \<subseteq> voterIndexes cfg"
    "getMajorityVoteCount cfg \<le> card A" "getMajorityVoteCount cfg \<le> card B"
    "\<forall>p\<in>A. ballot t (int c) \<in> visibleVotes rs p" "\<forall>p\<in>B. ballot t (int c') \<in> visibleVotes rs p"
    using assms unfolding won_def by blast
  obtain p where "p \<in> A" "p \<in> B"
    using majorities_meet AB(1,2,3,4) by blast
  then show ?thesis
    using AB that by blast
qed

lemma electionInv_one_winner:
  assumes inv: "electionInv cfg rs" and "(t, c) \<in> set (rs_elected rs)" "(t, c') \<in> set (rs_elected rs)"
  shows "c = c'"
proof -
  have "won cfg rs t c" "won cfg rs t c'"
    using assms by (auto simp: electionInv_def)
  then obtain p where p: "p \<in> voterIndexes cfg" "ballot t (int c) \<in> visibleVotes rs p"
    "ballot t (int c') \<in> visibleVotes rs p"
    by (rule won_visible)
  then have "votesOk (visibleVotes rs p) p (rs_nodes rs ! p)"
    using inv by (simp add: electionInv_def memberOk_def voterIndexes_def)
  from votesOkD(3) [OF this, of "ballot t (int c)" "ballot t (int c')"] p(2,3) show ?thesis
    by (simp add: knownVotes_def)
qed

lemma electionInv_one_leader:
  assumes inv: "electionInv cfg rs" and "i < length (rs_nodes rs)" "j < length (rs_nodes rs)"
    and "nd_role (rs_nodes rs ! i) = leader" "nd_role (rs_nodes rs ! j) = leader"
    and "nd_term (rs_nodes rs ! i) = nd_term (rs_nodes rs ! j)"
  shows "i = j"
proof -
  have "(nd_term (rs_nodes rs ! i), i) \<in> set (rs_elected rs)" "(nd_term (rs_nodes rs ! i), j) \<in> set (rs_elected rs)"
    using assms by (auto simp: electionInv_def memberOk_def)
  then show ?thesis
    by (rule electionInv_one_winner [OF inv])
qed

section \<open>Steps that touch one member\<close>

lemma collected_mono:
  assumes "collected cfg rs i rq" and "\<forall>p. replyVotes rs p \<subseteq> replyVotes rs' p"
  shows "collected cfg rs' i rq"
  using assms unfolding collected_def by blast

lemma won_mono:
  "won cfg rs t c \<Longrightarrow> \<forall>p. visibleVotes rs p \<subseteq> visibleVotes rs' p \<Longrightarrow> won cfg rs' t c"
  unfolding won_def by blast

lemma electionInv_step:
  assumes inv: "electionInv cfg rs" and nodes: "rs_nodes rs' = (rs_nodes rs)[i := n']" and i: "i < length (rs_nodes rs)"
    and replies: "\<forall>p. replyVotes rs p \<subseteq> replyVotes rs' p"
    and others: "\<forall>p. p \<noteq> i \<longrightarrow> visibleVotes rs' p = visibleVotes rs p"
    and elected: "set (rs_elected rs) \<subseteq> set (rs_elected rs')"
    and member: "memberOk cfg rs' i n'"
    and new: "\<forall>(t, c)\<in>set (rs_elected rs') - set (rs_elected rs). won cfg rs' t c"
  shows "electionInv cfg rs'"
proof -
  have visible: "\<forall>p. visibleVotes rs p \<subseteq> visibleVotes rs' p"
    using replies elected by (auto simp: visibleVotes_def wonVotes_def)
  have "memberOk cfg rs' j (rs_nodes rs' ! j)" if "j < length (rs_nodes rs')" for j
  proof (cases "j = i")
    case False
    then have "memberOk cfg rs j (rs_nodes rs' ! j)"
      using inv that nodes by (simp add: electionInv_def)
    then show ?thesis
      using others False elected collected_mono [OF _ replies] by (auto simp: memberOk_def candidateOk_def)
  qed (use nodes i member in simp)
  moreover have "won cfg rs' t c" if "(t, c) \<in> set (rs_elected rs')" for t c
    using that new inv won_mono [OF _ visible] by (cases "(t, c) \<in> set (rs_elected rs)") (auto simp: electionInv_def)
  ultimately show ?thesis
    using inv nodes by (auto simp: electionInv_def)
qed

lemma votes_frame [simp]:
  "replyVotes (setNode i n rs) p = replyVotes rs p" "wonVotes (setNode i n rs) p = wonVotes rs p"
  "visibleVotes (setNode i n rs) p = visibleVotes rs p"
  "replyVotes (sendRequests ms rs) p = replyVotes rs p" "wonVotes (sendRequests ms rs) p = wonVotes rs p"
  "visibleVotes (sendRequests ms rs) p = visibleVotes rs p" "wonVotes (sendReply i args response rs) p = wonVotes rs p"
  "rs_elected (setNode i n rs) = rs_elected rs" "rs_elected (sendRequests ms rs) = rs_elected rs"
  "rs_elected (sendReply i args response rs) = rs_elected rs"
  "rs_nodes (setNode i n rs) = (rs_nodes rs)[i := n]" "rs_nodes (sendRequests ms rs) = rs_nodes rs"
  "rs_nodes (sendReply i args response rs) = rs_nodes rs"
  by (simp_all add: replyVotes_def wonVotes_def visibleVotes_def setNode_def sendRequests_def sendReply_def)

lemma memberOk_frame [simp]:
  "memberOk cfg (setNode i n rs) j m = memberOk cfg rs j m"
  "memberOk cfg (sendRequests ms rs) j m = memberOk cfg rs j m"
  by (simp_all add: memberOk_def candidateOk_def collected_def)

lemma replyVotes_sendReply:
  "replyVotes (sendReply i args response rs) p =
     replyVotes rs p \<union> (if p = i \<and> \<not> va_dryRun args \<and> vr_voteGranted response then {argsVote args} else {})"
  by (auto simp: replyVotes_def sendReply_def)

lemma visibleVotes_sendReply:
  "visibleVotes (sendReply i args response rs) p =
     visibleVotes rs p \<union> (if p = i \<and> \<not> va_dryRun args \<and> vr_voteGranted response then {argsVote args} else {})"
  by (auto simp: visibleVotes_def replyVotes_sendReply)

lemma electionInv_setNode:
  assumes "electionInv cfg rs" and "i < length (rs_nodes rs)" and "memberOk cfg rs i n'"
  shows "electionInv cfg (setNode i n' rs)"
  by (rule electionInv_step [OF assms(1) _ assms(2)]) (use assms(3) in simp_all)

lemma electionInv_sendRequests:
  "electionInv cfg rs \<Longrightarrow> electionInv cfg (sendRequests ms rs)"
  by (simp add: electionInv_def won_def)

lemma memberOk_reply:
  assumes "memberOk cfg rs i n" "votesOk (visibleVotes (sendReply j args response rs) i) i n"
  shows "memberOk cfg (sendReply j args response rs) i n"
proof -
  have "collected cfg (sendReply j args response rs) i rq" if "collected cfg rs i rq" for rq
    by (rule collected_mono [OF that]) (simp add: replyVotes_sendReply)
  then show ?thesis
    using assms by (simp add: memberOk_def candidateOk_def)
qed

lemma electionInv_reply:
  assumes "electionInv cfg rs" and "i < length (rs_nodes rs)" and "memberOk cfg (sendReply i args response rs) i n'"
  shows "electionInv cfg (sendReply i args response (setNode i n' rs))"
proof -
  have eq: "sendReply i args response (setNode i n' rs) = setNode i n' (sendReply i args response rs)"
    by (simp add: sendReply_def setNode_def)
  show ?thesis
    unfolding eq
    by (rule electionInv_step [OF assms(1) _ assms(2)])
      (use assms(3) in \<open>simp_all add: replyVotes_sendReply visibleVotes_sendReply\<close>)
qed

section \<open>The steps of a member\<close>

lemma memberOk_weaken:
  assumes ok: "memberOk cfg rs i n"
    and same: "nd_lastVote n' = nd_lastVote n" "nd_durableVote n' = nd_durableVote n" "nd_term n \<le> nd_term n'"
    and fewer: "handlerVotes n' \<subseteq> handlerVotes n" "ownVotes i n' \<subseteq> ownVotes i n" "storedVotes i n' \<subseteq> storedVotes i n"
    and rest: "handlersOk n'" "nd_role n' = leader \<longrightarrow> nd_role n = leader \<and> nd_term n' = nd_term n" "candidateOk cfg rs i n'"
  shows "memberOk cfg rs i n'"
proof -
  have "votesOk (visibleVotes rs i) i n'"
    using ok by (intro votesOk_weaken [OF _ same fewer]) (auto simp: memberOk_def)
  then show ?thesis
    using ok rest by (auto simp: memberOk_def)
qed

lemmas vote_defs = handlerVotes_def ownVotes_def storedVotes_def handlersOk_def

lemma memberOk_same_votes:
  assumes "memberOk cfg rs i n" "nd_lastVote n' = nd_lastVote n" "nd_durableVote n' = nd_durableVote n"
    "nd_term n' = nd_term n" "nd_election n' = nd_election n" "nd_handlers n' = nd_handlers n"
    "nd_role n' = leader \<longrightarrow> nd_role n = leader"
  shows "memberOk cfg rs i n'"
  by (rule memberOk_weaken [OF assms(1)])
    (use assms in \<open>auto simp: vote_defs memberOk_def candidateOk_def\<close>)

lemma memberOk_updateTerm:
  assumes "memberOk cfg rs i n"
  shows "memberOk cfg rs i (snd (updateTerm_incallback term n))"
proof -
  consider "term \<le> nd_term n" | "nd_term n < term" "nd_role n = leader" | "nd_term n < term" "nd_role n \<noteq> leader"
    by linarith
  then show ?thesis
  proof cases
    case 2
    then show ?thesis
      using memberOk_same_votes [OF assms, of "prepareForStepDown n"]
      by (simp add: updateTerm_incallback_def updateTerm_def prepareForStepDown_def)
  next
    case 3
    then have "snd (updateTerm_incallback term n) = n\<lparr>nd_term := term\<rparr>"
      by (simp add: updateTerm_incallback_def updateTerm_def)
    then show ?thesis
      using 3 assms
      by (intro memberOk_weaken [OF assms]) (auto simp: vote_defs memberOk_def candidateOk_def)
  qed (use assms in \<open>simp add: updateTerm_incallback_def updateTerm_def\<close>)
qed

lemma memberOk_handlers:
  assumes ok: "memberOk cfg rs i n"
    and hs: "\<And>h. h \<in> set hs \<Longrightarrow> h \<in> set (nd_handlers n) \<or>
      (\<forall>args response. h \<noteq> HandleStore args response) \<and> (\<forall>args. h = HandleVote args \<longrightarrow> va_term args \<le> nd_term n)"
  shows "memberOk cfg rs i (n\<lparr>nd_handlers := hs\<rparr>)"
proof (rule memberOk_weaken [OF ok])
  show "handlerVotes (n\<lparr>nd_handlers := hs\<rparr>) \<subseteq> handlerVotes n"
    using hs by (force simp: handlerVotes_def)
  show "handlersOk (n\<lparr>nd_handlers := hs\<rparr>)"
    using ok hs by (auto simp: handlersOk_def memberOk_def)
qed (use ok in \<open>auto simp: ownVotes_def storedVotes_def memberOk_def candidateOk_def\<close>)

lemma memberOk_dropHandler: "memberOk cfg rs i n \<Longrightarrow> memberOk cfg rs i (dropHandler k n)"
  unfolding dropHandler_def by (rule memberOk_handlers) (auto dest: in_set_takeD in_set_dropD)

lemma updateTerm_reaches:
  "fst (updateTerm_incallback term n) \<noteq> kTriggerStepDown \<Longrightarrow> term \<le> nd_term (snd (updateTerm_incallback term n))"
  by (auto simp: updateTerm_incallback_def updateTerm_def)

lemma memberOk_deliver:
  assumes "memberOk cfg rs i n"
  shows "memberOk cfg rs i (deliverRequest args n)"
proof -
  obtain r n1 where u: "updateTerm_incallback (va_term args) n = (r, n1)"
    by fastforce
  have ok: "memberOk cfg rs i n1"
    using memberOk_updateTerm [OF assms, of "va_term args"] u by simp
  have "r \<noteq> kTriggerStepDown \<Longrightarrow> va_term args \<le> nd_term n1"
    using updateTerm_reaches [of "va_term args" n] u by simp
  then show ?thesis
    unfolding deliverRequest_def u
    by (cases r) (auto intro!: memberOk_handlers [OF ok])
qed

lemma memberOk_stepDown:
  assumes "memberOk cfg rs i n"
  shows "stepDownSelf n = Some n' \<Longrightarrow> memberOk cfg rs i n'"
    and "stepDownIfPending n = Some n' \<Longrightarrow> memberOk cfg rs i n'"
  using memberOk_same_votes [OF assms, of "n\<lparr>nd_role := follower, nd_stepDownPending := False\<rparr>"] assms
  by (auto simp: stepDownSelf_def stepDownIfPending_def invariant_def split: if_splits)

lemma memberOk_stepDownFinish:
  assumes ok: "memberOk cfg rs i n" and "stepDownFinish waiter n = Some n'"
  shows "memberOk cfg rs i n'"
proof -
  obtain n1 where n1: "stepDownIfPending n = Some n1"
    using assms(2) by (auto simp: stepDownFinish_def split: bind_splits)
  have ok1: "memberOk cfg rs i n1"
    by (rule memberOk_stepDown(2) [OF ok n1])
  show ?thesis
  proof (cases waiter)
    case (Some k)
    then obtain args where "k < length (nd_handlers n1)" "nd_handlers n1 ! k = HandleWait args"
      "n' = n1\<lparr>nd_handlers := (nd_handlers n1)[k := HandleWoken args]\<rparr>"
      using assms(2) n1 by (auto simp: stepDownFinish_def split: if_splits Handler.splits)
    then show ?thesis
      by (auto intro!: memberOk_handlers [OF ok1] dest!: subsetD [OF set_update_subset_insert])
  qed (use assms(2) n1 ok1 in \<open>simp add: stepDownFinish_def\<close>)
qed

lemma memberOk_restart:
  assumes "memberOk cfg rs i n"
  shows "memberOk cfg rs i (restartNode lastOpTime n)"
proof -
  let ?n = "restartNode lastOpTime n"
  have "nd_handlers ?n = []" "nd_election ?n = NoElection" "nd_role ?n = follower"
    by (auto simp: restartNode_def Node_init_def updateTerm_incallback_def updateTerm_def Let_def split: option.splits)
  then show ?thesis
    using votesOk_restart [of "visibleVotes rs i" i n lastOpTime] assms
    by (simp add: memberOk_def handlersOk_def candidateOk_def)
qed

section \<open>The handler of a vote request\<close>

lemma processReplSetRequestVotes_cases:
  assumes "processReplSetRequestVotes cfg i seesPrimary args n = (response, n1)"
  shows "\<not> (\<not> va_dryRun args \<and> vr_voteGranted response) \<Longrightarrow> n1 = n"
    and "\<not> va_dryRun args \<Longrightarrow> vr_voteGranted response \<Longrightarrow>
      nd_term n \<le> va_term args \<and> lv_term (nd_lastVote n) \<noteq> va_term args \<and> n1 = n\<lparr>nd_lastVote := argsVote args\<rparr>"
  using assms by (auto simp: processReplSetRequestVotes_def Let_def argsVote_def split: if_splits)

lemma votesOk_sendReply_none:
  "\<not> (\<not> va_dryRun args \<and> vr_voteGranted response) \<Longrightarrow>
    visibleVotes (sendReply i args response rs) i = visibleVotes rs i"
  by (auto simp: visibleVotes_sendReply)

lemma voteStep_inv:
  assumes inv: "electionInv cfg rs" and i: "i < length (rs_nodes rs)" and k: "k < length (nd_handlers (rs_nodes rs ! i))"
    and reached: "va_dryRun args \<or> va_term args \<le> nd_term (rs_nodes rs ! i)"
  shows "electionInv cfg (voteStep cfg i k seesPrimary args rs)"
proof -
  define n where "n = rs_nodes rs ! i"
  obtain response n1 where p: "processReplSetRequestVotes cfg i seesPrimary args n = (response, n1)"
    by fastforce
  have ok: "memberOk cfg rs i n"
    using inv i by (simp add: electionInv_def n_def)
  show ?thesis
  proof (cases "\<not> va_dryRun args \<and> vr_voteGranted response")
    case False
    then have n1: "n1 = n"
      using processReplSetRequestVotes_cases(1) [OF p] by blast
    have d: "memberOk cfg rs i (dropHandler k n)"
      by (rule memberOk_dropHandler [OF ok])
    have "memberOk cfg (sendReply i args response rs) i (dropHandler k n)"
      by (rule memberOk_reply [OF d]) (use d False in \<open>simp add: votesOk_sendReply_none memberOk_def\<close>)
    from electionInv_reply [OF inv i this] show ?thesis
      using False p n1 unfolding voteStep_def n_def [symmetric] by auto
  next
    case True
    then have v: "nd_term n \<le> va_term args" "lv_term (nd_lastVote n) \<noteq> va_term args" "n1 = n\<lparr>nd_lastVote := argsVote args\<rparr>"
      using processReplSetRequestVotes_cases(2) [OF p] by auto
    let ?n = "n1\<lparr>nd_handlers := (nd_handlers n1)[k := HandleStore args response]\<rparr>"
    have V: "votesOk (visibleVotes rs i) i n"
      using ok by (simp add: memberOk_def)
    have hv: "handlerVotes ?n \<union> ownVotes i ?n \<subseteq> handlerVotes n \<union> ownVotes i n \<union> {argsVote args}"
      using v(3) by (auto simp: handlerVotes_def ownVotes_def dest!: subsetD [OF set_update_subset_insert] split: Election.splits)
    have "votesOk (visibleVotes rs i) i ?n"
    proof (rule votesOk_vote [OF V _ _ _ _ _ hv])
      show "lv_term (nd_lastVote n) < lv_term (argsVote args)"
        using v(1,2) votesOkD(1) [OF V] by (simp add: argsVote_def)
    qed (use True v reached in \<open>auto simp: argsVote_def storedVotes_def n_def\<close>)
    moreover have "handlersOk ?n"
      using ok v(3) by (auto simp: memberOk_def handlersOk_def dest!: subsetD [OF set_update_subset_insert])
    ultimately have "memberOk cfg rs i ?n"
      using ok v(3) by (simp add: memberOk_def candidateOk_def)
    from electionInv_setNode [OF inv i this] show ?thesis
      using True p unfolding voteStep_def n_def [symmetric] by simp
  qed
qed

lemma storeStep_inv:
  assumes inv: "electionInv cfg rs" and i: "i < length (rs_nodes rs)" and k: "k < length (nd_handlers (rs_nodes rs ! i))"
    and h: "nd_handlers (rs_nodes rs ! i) ! k = HandleStore args response"
  shows "electionInv cfg (storeStep i k ok args response rs)"
proof -
  define n where "n = rs_nodes rs ! i"
  have m: "memberOk cfg rs i n"
    using inv i by (simp add: electionInv_def n_def)
  have d: "memberOk cfg rs i (dropHandler k n)"
    by (rule memberOk_dropHandler [OF m])
  show ?thesis
  proof (cases ok)
    case False
    from electionInv_setNode [OF inv i d] False show ?thesis
      by (simp add: storeStep_def n_def Let_def)
  next
    case True
    let ?n = "dropHandler k (storeLocalLastVoteDocument (argsVote args) n)"
    have V: "votesOk (visibleVotes rs i) i n"
      using m by (simp add: memberOk_def)
    have "HandleStore args response \<in> set (nd_handlers n)"
      using k h by (metis n_def nth_mem)
    then have v: "argsVote args \<in> knownVotes (visibleVotes rs i) i n"
      by (auto simp: knownVotes_def handlerVotes_def)
    have "set (nd_handlers (dropHandler k n)) \<subseteq> set (nd_handlers n)"
      by (auto simp: dropHandler_def dest: in_set_takeD in_set_dropD)
    then have "votesOk (visibleVotes (sendReply i args response rs) i) i ?n"
      by (intro votesOk_store [OF V v]) (auto simp: dropHandler_def ownVotes_def storedVotes_def handlerVotes_def visibleVotes_sendReply)
    moreover have "votesOk (visibleVotes rs i) i ?n"
      by (rule votesOk_weaken [OF calculation]) (auto simp: visibleVotes_sendReply)
    ultimately have "memberOk cfg (sendReply i args response rs) i ?n"
      using d by (intro memberOk_reply) (simp_all add: memberOk_def candidateOk_def handlersOk_def dropHandler_def)
    from electionInv_reply [OF inv i this] True show ?thesis
      by (simp add: storeStep_def n_def Let_def argsVote_def)
  qed
qed

section \<open>The steps of a candidate\<close>

lemma collected_signal: "collected cfg rs i rq \<Longrightarrow> collected cfg rs i (signalSufficientResponses rq)"
  unfolding collected_def signalSufficientResponses_def by auto

lemma collected_cancel: "collected cfg rs i rq \<Longrightarrow> collected cfg rs i (runnerCancel rq)"
  by (simp add: runnerCancel_def collected_signal)

lemma runner_term [simp]:
  "rq_term (signalSufficientResponses rq) = rq_term rq" "rq_term (runnerCancel rq) = rq_term rq"
  "rq_term (processResponse response rq) = rq_term rq"
  by (simp_all add: signalSufficientResponses_def runnerCancel_def processResponse_def Let_def split: option.splits)

lemma collected_start:
  assumes "runnerStart cfg (VoteRequester_new cfg i t) = Some rq"
  shows "collected cfg rs i rq \<and> rq_term rq = t"
proof -
  let ?rq = "(VoteRequester_new cfg i t)\<lparr>rq_callbacks := rq_targets (VoteRequester_new cfg i t)\<rparr>"
  have "collected cfg rs i ?rq"
    by (auto simp: collected_def VoteRequester_new_def voterIndexes_def intro!: exI [of _ "{}"])
  moreover have "rq = ?rq \<or> rq = signalSufficientResponses ?rq"
    using assms by (auto simp: runnerStart_def Let_def invariant_def split: if_splits)
  ultimately show ?thesis
    by (auto simp: collected_signal VoteRequester_new_def)
qed

text \<open>A response adds at most the vote of its target, which has not been counted before.\<close>

lemma collected_processResponse:
  assumes c: "collected cfg rs i rq" and target: "target \<in> set (rq_callbacks rq)"
    and vote: "\<forall>r. response = Some r \<and> vr_voteGranted r \<longrightarrow> ballot (rq_term rq) (int i) \<in> replyVotes rs target"
  shows "collected cfg rs i (processResponse response (rq\<lparr>rq_callbacks := remove1 target (rq_callbacks rq)\<rparr>))"
proof -
  let ?rq = "processResponse response (rq\<lparr>rq_callbacks := remove1 target (rq_callbacks rq)\<rparr>)"
  define yes where "yes = (case response of Some r \<Rightarrow> vr_voteGranted r | None \<Rightarrow> False)"
  have fields: "rq_callbacks ?rq = remove1 target (rq_callbacks rq)" "rq_targets ?rq = rq_targets rq"
    "rq_votes ?rq = (if yes then rq_votes rq + 1 else rq_votes rq)"
    by (auto simp: processResponse_def yes_def Let_def split: option.splits)
  obtain S where S: "S \<subseteq> set (rq_targets rq) - set (rq_callbacks rq)" "rq_votes rq = card S + 1"
    "\<forall>p\<in>S. ballot (rq_term rq) (int i) \<in> replyVotes rs p"
    using c unfolding collected_def by blast
  have cb: "distinct (rq_callbacks rq)" "set (rq_callbacks rq) \<subseteq> set (rq_targets rq)"
    "set (rq_targets rq) \<subseteq> voterIndexes cfg - {i}"
    using c by (auto simp: collected_def)
  let ?S = "if yes then insert target S else S"
  have "finite S" "target \<notin> S"
    using S(1) target finite_subset by auto
  then have "rq_votes ?rq = card ?S + 1"
    using S(2) fields(3) by simp
  moreover have "?S \<subseteq> set (rq_targets rq) - set (remove1 target (rq_callbacks rq))"
    using S(1) cb(1,2) target by auto
  moreover have "\<forall>p\<in>?S. ballot (rq_term rq) (int i) \<in> replyVotes rs p"
    using S(3) vote by (auto simp: yes_def split: option.splits)
  moreover have "set (remove1 target (rq_callbacks rq)) \<subseteq> set (rq_targets rq)"
    using cb(2) set_remove1_subset by fast
  ultimately show ?thesis
    unfolding collected_def fields(1,2) using cb(1,3) by (auto intro!: exI [of _ ?S])
qed

lemma collected_runner:
  assumes "runnerProcessResponse cfg target response rq = Some rq1" and "collected cfg rs i rq"
    and "\<forall>r. response = Some r \<and> vr_voteGranted r \<longrightarrow> ballot (rq_term rq) (int i) \<in> replyVotes rs target"
  shows "collected cfg rs i rq1 \<and> rq_term rq1 = rq_term rq"
  using assms collected_processResponse [OF assms(2) _ assms(3)]
  by (auto simp: runnerProcessResponse_def Let_def invariant_def collected_signal split: if_splits)

lemma memberOk_election:
  assumes ok: "memberOk cfg rs i n" and new: "ownVotes i (n\<lparr>nd_election := e\<rparr>) \<subseteq> ownVotes i n"
    "storedVotes i (n\<lparr>nd_election := e\<rparr>) \<subseteq> storedVotes i n" "candidateOk cfg rs i (n\<lparr>nd_election := e\<rparr>)"
    and role: "r = leader \<longrightarrow> nd_role n = leader"
  shows "memberOk cfg rs i (n\<lparr>nd_role := r, nd_election := e\<rparr>)"
  by (rule memberOk_weaken [OF ok])
    (use ok new role in \<open>auto simp: handlerVotes_def handlersOk_def memberOk_def candidateOk_def ownVotes_def storedVotes_def\<close>)

lemma memberOk_lose:
  assumes "memberOk cfg rs i n" and "processLoseElection n = Some n'"
  shows "memberOk cfg rs i n'"
  using assms(2) memberOk_election [OF assms(1), of NoElection follower]
  by (auto simp: processLoseElection_def invariant_def ownVotes_def storedVotes_def candidateOk_def split: if_splits)

lemma memberOk_candidate:
  "memberOk cfg rs i n \<Longrightarrow> r \<noteq> leader \<Longrightarrow> memberOk cfg rs i (n\<lparr>nd_role := r\<rparr>)"
  by (rule memberOk_same_votes) auto

lemma startElectionStep_inv:
  assumes inv: "electionInv cfg rs" and i: "i < length (rs_nodes rs)" and step: "startElectionStep cfg i b rs = Some rs'"
  shows "electionInv cfg rs'"
proof -
  obtain n1 ms n2 where s: "becomeCandidateIfElectable cfg i b (rs_nodes rs ! i) = Some n1"
    "startElectSelfV1 cfg i n1 = Some (ms, n2)" "rs' = sendRequests ms (setNode i n2 rs)"
    using step by (auto simp: startElectionStep_def split: bind_splits)
  have "memberOk cfg rs i (rs_nodes rs ! i)"
    using inv i by (simp add: electionInv_def)
  then have n1: "memberOk cfg rs i n1" "nd_role n1 = candidate"
    using s(1) by (auto simp: becomeCandidateIfElectable_def Let_def memberOk_candidate split: if_splits)
  have "memberOk cfg rs i n2"
  proof (cases "nd_lastDurable n1 = OpTime_new")
    case True
    then show ?thesis
      using s(2) memberOk_lose [OF n1(1)]
      by (auto simp: startElectSelfV1_def invariant_def split: if_splits bind_splits)
  next
    case False
    then obtain rq where "n2 = n1\<lparr>nd_election := DryRunning (nd_term n1) rq\<rparr>" "isElectable (rc_members cfg ! i)"
      using s(2) by (auto simp: startElectSelfV1_def invariant_def Let_def split: if_splits bind_splits)
    then show ?thesis
      using memberOk_election [OF n1(1), of "DryRunning (nd_term n1) rq" "nd_role n1"]
      by (simp add: ownVotes_def storedVotes_def candidateOk_def)
  qed
  then show ?thesis
    unfolding s(3) by (intro electionInv_sendRequests electionInv_setNode [OF inv i])
qed

lemma cancelElection_memberOk:
  assumes "memberOk cfg rs i n"
  shows "memberOk cfg rs i (cancelElection n)"
  by (rule memberOk_weaken [OF assms])
    (use assms in \<open>auto simp: cancelElection_def vote_defs memberOk_def candidateOk_def collected_cancel split: Election.splits\<close>)

lemma respondStep_inv:
  assumes inv: "electionInv cfg rs" and i: "i < length (rs_nodes rs)" and step: "respondStep cfg i target msg rs = Some rs'"
  shows "electionInv cfg rs'"
proof -
  define n where "n = rs_nodes rs ! i"
  have ok: "memberOk cfg rs i n"
    using inv i by (simp add: electionInv_def n_def)
  consider t rq rq1 where "nd_election n = DryRunning t rq" "rs' = setNode i (n\<lparr>nd_election := DryRunning t rq1\<rparr>) rs"
    | t rq rq1 where "nd_election n = Requesting t rq" "rs' = setNode i (n\<lparr>nd_election := Requesting t rq1\<rparr>) rs"
      "runnerProcessResponse cfg target (map_option snd msg) rq = Some rq1"
      "\<forall>args r. msg = Some (args, r) \<longrightarrow> (target, args, r) \<in> set (rs_replies rs) \<and> \<not> va_dryRun args \<and>
        va_candidateIndex args = int i \<and> va_term args = rq_term rq"
    using step unfolding respondStep_def n_def [symmetric] Let_def
    by (auto simp: invariant_def split: Election.splits bind_splits option.splits if_splits)
  then show ?thesis
  proof cases
    case 1
    then have "memberOk cfg rs i (n\<lparr>nd_election := DryRunning t rq1\<rparr>)"
      using memberOk_election [OF ok, of "DryRunning t rq1" "nd_role n"] ok
      by (simp add: ownVotes_def storedVotes_def candidateOk_def memberOk_def)
    then show ?thesis
      unfolding 1(2) by (rule electionInv_setNode [OF inv i])
  next
    case 2
    have "ballot (rq_term rq) (int i) \<in> replyVotes rs target" if r: "map_option snd msg = Some r" "vr_voteGranted r" for r
    proof -
      obtain args where "msg = Some (args, r)"
        using r(1) by auto
      then have "(target, args, r) \<in> set (rs_replies rs) \<and> \<not> va_dryRun args" "ballot (rq_term rq) (int i) = argsVote args"
        using 2(4) by (auto simp: argsVote_def)
      then show ?thesis
        unfolding replyVotes_def using r(2) by blast
    qed
    moreover have "collected cfg rs i rq"
      using ok 2(1) by (simp add: memberOk_def candidateOk_def)
    ultimately have "collected cfg rs i rq1 \<and> rq_term rq1 = rq_term rq"
      using collected_runner [OF 2(3)] by blast
    then have "memberOk cfg rs i (n\<lparr>nd_election := Requesting t rq1\<rparr>)"
      using memberOk_election [OF ok, of "Requesting t rq1" "nd_role n"] ok 2(1)
      by (simp add: ownVotes_def storedVotes_def candidateOk_def memberOk_def)
    then show ?thesis
      unfolding 2(2) by (rule electionInv_setNode [OF inv i])
  qed
qed

lemma memberOk_selfVote:
  assumes ok: "memberOk cfg rs i n" and elect: "isElectable (rc_members cfg ! i)"
    and u: "updateTerm_incallback (nd_term n + 1) n = (kUpdatedTerm, n1)"
  shows "memberOk cfg rs i ((voteForMyselfV1 i n1)\<lparr>nd_election := StoringVote (nd_term n + 1)\<rparr>)"
    (is "memberOk cfg rs i ?n")
proof -
  have n1: "n1 = n\<lparr>nd_term := nd_term n + 1\<rparr>" "nd_role n \<noteq> leader"
    using u by (auto simp: updateTerm_incallback_def updateTerm_def split: if_splits)
  have V: "votesOk (visibleVotes rs i) i n"
    using ok by (simp add: memberOk_def)
  have "votesOk (visibleVotes rs i) i ?n"
    by (rule votesOk_vote [OF V, where v = "ballot (nd_term n + 1) (int i)"])
      (use votesOkD(1) [OF V] n1 in \<open>auto simp: voteForMyselfV1_def ownVotes_def storedVotes_def handlerVotes_def\<close>)
  then show ?thesis
    using ok elect n1 by (force simp: memberOk_def handlersOk_def candidateOk_def voteForMyselfV1_def)
qed

lemma memberOk_onDryRunComplete:
  assumes ok: "memberOk cfg rs i n" and "nd_election n = DryRunning t rq" and c: "onDryRunComplete cfg i t rq n = Some n'"
  shows "memberOk cfg rs i n'"
proof (cases "nd_term n \<noteq> t \<or> getResult cfg rq \<noteq> kSuccessfullyElected")
  case True
  then show ?thesis
    using c memberOk_lose [OF ok] by (auto simp: onDryRunComplete_def split: if_splits)
next
  case False
  have "isElectable (rc_members cfg ! i)"
    using ok assms(2) by (simp add: memberOk_def candidateOk_def)
  then show ?thesis
    using c False memberOk_selfVote [OF ok]
    by (auto simp: onDryRunComplete_def invariant_def split: if_splits prod.splits)
qed

lemma memberOk_writeLastVote:
  assumes ok: "memberOk cfg rs i n" and e: "nd_election n = StoringVote t" and w: "writeLastVoteForMyElection i b t n = Some n'"
  shows "memberOk cfg rs i n'"
proof (cases b)
  case False
  then show ?thesis
    using w memberOk_lose [OF ok] by (simp add: writeLastVoteForMyElection_def)
next
  case True
  then have n': "n' = (storeLocalLastVoteDocument (ballot t (int i)) n)\<lparr>nd_election := VoteStored t\<rparr>"
    using w by (simp add: writeLastVoteForMyElection_def)
  have "votesOk (visibleVotes rs i) i n'"
    by (rule votesOk_store [of "visibleVotes rs i" i n "ballot t (int i)"])
      (use ok e n' in \<open>auto simp: memberOk_def knownVotes_def ownVotes_def storedVotes_def handlerVotes_def\<close>)
  then show ?thesis
    using ok e n' by (simp add: memberOk_def handlersOk_def candidateOk_def)
qed

lemma memberOk_startVoteRequester:
  assumes ok: "memberOk cfg rs i n" and e: "nd_election n = VoteStored t" and s: "startVoteRequester cfg i t n = Some (ms, n')"
  shows "memberOk cfg rs i n'"
proof -
  obtain rq where rq: "runnerStart cfg (VoteRequester_new cfg i (nd_term n)) = Some rq"
    "n' = n\<lparr>nd_election := Requesting t rq\<rparr>"
    using s by (auto simp: startVoteRequester_def Let_def split: bind_splits)
  have V: "votesOk (visibleVotes rs i) i n"
    using ok by (simp add: memberOk_def)
  have "older (ballot t (int i)) (nd_lastVote n)"
    by (rule votesOkD(2) [OF V]) (simp add: knownVotes_def ownVotes_def e)
  then have "t \<le> nd_term n"
    using older_term votesOkD(1) [OF V] by force
  then have "candidateOk cfg rs i (n\<lparr>nd_election := Requesting t rq\<rparr>)"
    using collected_start [OF rq(1), of rs] ok e by (simp add: candidateOk_def memberOk_def)
  then show ?thesis
    using memberOk_election [OF ok, of "Requesting t rq" "nd_role n"] e rq(2) by (simp add: ownVotes_def storedVotes_def)
qed

text \<open>A candidate that wins has the votes of a majority: its own and the replies it has counted.\<close>

lemma won_collected:
  assumes "collected cfg rs i rq" and "getResult cfg rq = kSuccessfullyElected" and "rq_term rq = t"
    and self: "i \<in> voterIndexes cfg" "ballot t (int i) \<in> visibleVotes rs i"
  shows "won cfg rs t i"
proof -
  obtain S where S0: "S \<subseteq> set (rq_targets rq)" "rq_votes rq = card S + 1"
    "\<forall>p\<in>S. ballot t (int i) \<in> replyVotes rs p"
    using assms(1) unfolding collected_def assms(3) by blast
  then have S: "S \<subseteq> voterIndexes cfg - {i}" "rq_votes rq = card S + 1"
    "\<forall>p\<in>S. ballot t (int i) \<in> replyVotes rs p"
    using assms(1) by (auto simp: collected_def)
  have "finite S" "i \<notin> S"
    using S(1) by (auto intro: finite_subset [OF _ finite_voterIndexes])
  then have "card (insert i S) = rq_votes rq"
    using S(2) by simp
  then have "getMajorityVoteCount cfg \<le> card (insert i S)"
    using assms(2) by (simp add: getResult_def split: if_splits)
  moreover have "\<forall>p\<in>insert i S. ballot t (int i) \<in> visibleVotes rs p"
    using S(3) self(2) by (simp add: visibleVotes_def)
  moreover have "insert i S \<subseteq> voterIndexes cfg"
    using S(1) self(1) by blast
  ultimately show ?thesis
    unfolding won_def by blast
qed

lemma win_inv:
  assumes inv: "electionInv cfg rs" and i: "i < length (rs_nodes rs)" and n: "n = rs_nodes rs ! i"
    and e: "nd_election n = Requesting t rq" and t: "nd_term n = t" and res: "getResult cfg rq = kSuccessfullyElected"
    and valid: "validate b cfg = None" and win: "processWinElection n = Some n'"
  shows "electionInv cfg ((setNode i n' rs)\<lparr>rs_elected := (t, i) # rs_elected rs\<rparr>)" (is "electionInv cfg ?rs")
proof -
  have ok: "memberOk cfg rs i n"
    using inv i n by (simp add: electionInv_def)
  have n': "n' = n\<lparr>nd_role := leader, nd_election := NoElection\<rparr>"
    using win by (auto simp: processWinElection_def invariant_def split: if_splits)
  have rep: "replyVotes ?rs p = replyVotes rs p" for p
    by (simp add: replyVotes_def setNode_def)
  have vis: "visibleVotes ?rs p = visibleVotes rs p \<union> (if p = i then {ballot t (int i)} else {})" for p
    by (auto simp: visibleVotes_def rep wonVotes_def)
  have c: "rq_term rq = t" "collected cfg rs i rq" "isElectable (rc_members cfg ! i)"
    using ok e t by (auto simp: memberOk_def candidateOk_def)
  have len: "i < length (rc_members cfg)"
    using inv i by (simp add: electionInv_def)
  then have "i \<in> voterIndexes cfg"
    using validate_electable_voter [OF valid _ c(3)] by (simp add: voterIndexes_def)
  then have "won cfg ?rs t i"
    using won_collected [OF collected_mono [OF c(2)] res c(1)] by (simp add: rep vis)
  moreover have "memberOk cfg ?rs i n'"
  proof -
    have "visibleVotes ?rs i \<subseteq> visibleVotes rs i \<union> storedVotes i n"
      unfolding vis by (simp add: storedVotes_def e)
    then have "votesOk (visibleVotes ?rs i) i n'"
      by (rule votesOk_weaken [rotated -1])
        (use ok n' in \<open>auto simp: memberOk_def handlerVotes_def ownVotes_def storedVotes_def\<close>)
    then show ?thesis
      using ok n' t by (simp add: memberOk_def handlersOk_def candidateOk_def)
  qed
  ultimately show ?thesis
    by (intro electionInv_step [OF inv _ i]) (auto simp: rep vis)
qed

lemma completeStep_inv:
  assumes inv: "electionInv cfg rs" and i: "i < length (rs_nodes rs)" and valid: "validate c cfg = None"
    and step: "completeStep cfg i b rs = Some rs'"
  shows "electionInv cfg rs'"
proof -
  define n where "n = rs_nodes rs ! i"
  have ok: "memberOk cfg rs i n"
    using inv i by (simp add: electionInv_def n_def)
  have local: "electionInv cfg (setNode i n' rs)" if "memberOk cfg rs i n'" for n'
    by (rule electionInv_setNode [OF inv i that])
  show ?thesis
  proof (cases "nd_election n")
    case (DryRunning t rq)
    then show ?thesis
      using step memberOk_onDryRunComplete [OF ok DryRunning] local
      by (auto simp: completeStep_def n_def [symmetric] Let_def split: bind_splits)
  next
    case (StoringVote t)
    then show ?thesis
      using step memberOk_writeLastVote [OF ok StoringVote] local
      by (auto simp: completeStep_def n_def [symmetric] Let_def split: bind_splits)
  next
    case (VoteStored t)
    then show ?thesis
      using step memberOk_startVoteRequester [OF ok VoteStored] local electionInv_sendRequests
      by (auto simp: completeStep_def n_def [symmetric] Let_def split: bind_splits)
  next
    case (Requesting t rq)
    then obtain n1 where n1: "onVoteRequestComplete cfg t rq n = Some n1"
      "rs' = (setNode i n1 rs)\<lparr>rs_elected := (if nd_role n1 = leader then [(nd_term n1, i)] else []) @ rs_elected rs\<rparr>"
      using step by (auto simp: completeStep_def n_def [symmetric] Let_def split: bind_splits)
    consider (lose) "processLoseElection n = Some n1"
      | (win) "nd_term n = t" "getResult cfg rq = kSuccessfullyElected" "processWinElection n = Some n1"
      using n1(1) by (auto simp: onVoteRequestComplete_def split: if_splits)
    then show ?thesis
    proof cases
      case lose
      then have "nd_role n1 = follower"
        by (auto simp: processLoseElection_def invariant_def split: if_splits)
      then have "rs' = setNode i n1 rs"
        using n1(2) by (simp add: setNode_def)
      then show ?thesis
        using local memberOk_lose [OF ok lose] by simp
    next
      case win
      then have "nd_role n1 = leader" "nd_term n1 = t"
        by (auto simp: processWinElection_def invariant_def split: if_splits)
      then show ?thesis
        using win_inv [OF inv i n_def Requesting win(1,2) valid win(3)] n1(2) by simp
    qed
  qed (use step in \<open>simp add: completeStep_def n_def\<close>)
qed

section \<open>Runs\<close>

text \<open>
  A handler that has caused a step down votes when the step down is over.  \<open>votesInReachedTerm\<close> says of a step
  that if it is the real vote of such a handler, then the member has meanwhile reached the term of the request.
  The other handlers need no such condition.
\<close>

fun votesInReachedTerm :: "ElectionEvent \<Rightarrow> ReplSet \<Rightarrow> bool" where
  "votesInReachedTerm (Handle i k b) rs =
     (let n = rs_nodes rs ! i
      in if k < length (nd_handlers n) then
           (case nd_handlers n ! k of
              HandleWoken args \<Rightarrow> va_dryRun args \<or> va_term args \<le> nd_term n
            | _ \<Rightarrow> True)
         else True)"
| "votesInReachedTerm e rs = True"

fun reachedTermRun :: "ReplicaSetConfig \<Rightarrow> ElectionEvent list \<Rightarrow> ReplSet \<Rightarrow> bool" where
  "reachedTermRun cfg [] rs = True"
| "reachedTermRun cfg (e # es) rs =
     (votesInReachedTerm e rs \<and> (case electionStep cfg e rs of None \<Rightarrow> True | Some rs1 \<Rightarrow> reachedTermRun cfg es rs1))"

lemma handlerStep_inv:
  assumes inv: "electionInv cfg rs" and i: "i < length (rs_nodes rs)" and reached: "votesInReachedTerm (Handle i k b) rs"
    and step: "handlerStep cfg i k b rs = Some rs'"
  shows "electionInv cfg rs'"
proof -
  define n where "n = rs_nodes rs ! i"
  have k: "k < length (nd_handlers n)"
    using step by (simp add: handlerStep_def n_def Let_def split: if_splits)
  show ?thesis
  proof (cases "nd_handlers n ! k")
    case (HandleVote args)
    have "HandleVote args \<in> set (nd_handlers n)"
      using k HandleVote by (metis nth_mem)
    then have "va_term args \<le> nd_term n"
      using inv i by (auto simp: electionInv_def memberOk_def handlersOk_def n_def)
    then show ?thesis
      using voteStep_inv [OF inv i] step k HandleVote by (auto simp: handlerStep_def n_def)
  qed (use step k reached voteStep_inv [OF inv i] storeStep_inv [OF inv i] in \<open>auto simp: handlerStep_def n_def Let_def\<close>)
qed

lemma electionStep_inv:
  assumes inv: "electionInv cfg rs" and valid: "validate c cfg = None" and reached: "votesInReachedTerm e rs"
    and step: "electionStep cfg e rs = Some rs'"
  shows "electionInv cfg rs'"
proof -
  have i: "eventNode e < length (rs_nodes rs)" and s: "nodeStep cfg e rs = Some rs'"
    using step by (auto simp: electionStep_def split: if_splits)
  have ok: "memberOk cfg rs (eventNode e) (rs_nodes rs ! eventNode e)"
    using inv i by (simp add: electionInv_def)
  note local = electionInv_setNode [OF inv i]
  have same: "memberOk cfg rs (eventNode e) (prepareForStepDown (rs_nodes rs ! eventNode e))"
    "memberOk cfg rs (eventNode e) ((rs_nodes rs ! eventNode e)\<lparr>nd_lastApplied := a, nd_lastDurable := d\<rparr>)" for a d
    by (rule memberOk_same_votes [OF ok]; simp add: prepareForStepDown_def)+
  show ?thesis
    using s i local same memberOk_updateTerm [OF ok] memberOk_stepDown(1) [OF ok] memberOk_stepDownFinish [OF ok]
      memberOk_deliver [OF ok] memberOk_restart [OF ok] cancelElection_memberOk [OF ok]
      startElectionStep_inv [OF inv i] respondStep_inv [OF inv i] completeStep_inv [OF inv i valid]
      handlerStep_inv [OF inv] reached
    by (cases e) (auto split: if_splits)
qed

lemma electionInv_init: "electionInv cfg (ReplSet_init cfg)"
  by (simp add: electionInv_def ReplSet_init_def memberOk_def votesOk_def knownVotes_def visibleVotes_def replyVotes_def
    wonVotes_def handlerVotes_def ownVotes_def storedVotes_def handlersOk_def candidateOk_def Node_init_def)

lemma electionRun_inv:
  assumes "validate c cfg = None"
  shows "electionInv cfg rs \<Longrightarrow> reachedTermRun cfg es rs \<Longrightarrow> electionRun cfg es rs = Some rs' \<Longrightarrow> electionInv cfg rs'"
proof (induction es arbitrary: rs)
  case (Cons e es)
  then obtain rs1 where "electionStep cfg e rs = Some rs1" "electionRun cfg es rs1 = Some rs'"
    by (auto split: bind_splits)
  then show ?case
    using Cons electionStep_inv [OF _ assms] by auto
qed simp

text \<open>
  C11: in a replica set with a valid configuration, a term has at most one primary, whatever messages are lost, delayed or
  delivered twice and whichever members crash, as long as every member that grants a real vote after a
  step down has reached the term of the request.  No two elections of a term were won by
  different members, and two members that are primaries at the same time are primaries of different terms.
\<close>

theorem one_primary_per_term:
  assumes "validate b cfg = None" and "electionRun cfg es (ReplSet_init cfg) = Some rs"
    and "reachedTermRun cfg es (ReplSet_init cfg)"
  shows "(\<forall>t i j. (t, i) \<in> set (rs_elected rs) \<and> (t, j) \<in> set (rs_elected rs) \<longrightarrow> i = j) \<and>
    (\<forall>i j. i < length (rs_nodes rs) \<and> j < length (rs_nodes rs) \<and>
      nd_role (rs_nodes rs ! i) = leader \<and> nd_role (rs_nodes rs ! j) = leader \<and>
      nd_term (rs_nodes rs ! i) = nd_term (rs_nodes rs ! j) \<longrightarrow> i = j)"
proof -
  have "electionInv cfg rs"
    by (rule electionRun_inv [OF assms(1) electionInv_init assms(3,2)])
  then show ?thesis
    using electionInv_one_winner electionInv_one_leader by blast
qed

section \<open>Example runs\<close>

definition threeMembers :: ReplicaSetConfig where
  "threeMembers = exampleConfig [exampleMember 0, exampleMember 1, exampleMember 2]"

definition exampleOpTime :: OpTime where
  "exampleOpTime = \<lparr>ot_term = 0, ot_timestamp = 1\<rparr>"

definition exampleArgs :: "bool \<Rightarrow> int \<Rightarrow> nat \<Rightarrow> ReplSetRequestVotesArgs" where
  "exampleArgs dryRun term cand = \<lparr>va_setName = ''rs'', va_dryRun = dryRun, va_term = term, va_candidateIndex = int cand,
     va_configVersion = 1, va_lastDurableOpTime = exampleOpTime\<rparr>"

definition grantedVote :: "int \<Rightarrow> ReplSetRequestVotesResponse" where
  "grantedVote term = \<lparr>vr_term = term, vr_voteGranted = True\<rparr>"

definition applyAll :: "ElectionEvent list" where
  "applyAll = map (\<lambda>i. Apply i exampleOpTime exampleOpTime) [0, 1, 2]"

text \<open>A dry run of \<open>c\<close> in term \<open>t\<close> with the help of \<open>v\<close>, and its vote for itself in the next term.\<close>

definition dryRunSteps :: "nat \<Rightarrow> nat \<Rightarrow> int \<Rightarrow> ElectionEvent list" where
  "dryRunSteps c v t = [StartElection c True, Deliver v (exampleArgs True t c), Handle v 0 False,
     Respond c v (exampleArgs True t c, grantedVote t), Complete c True, Complete c True, Complete c True]"

text \<open>The vote of \<open>v\<close> for \<open>c\<close> in term \<open>t\<close>, after a step down if there is one; \<open>vt\<close> is the term of the reply.\<close>

definition voteSteps :: "nat \<Rightarrow> nat \<Rightarrow> int \<Rightarrow> bool \<Rightarrow> int \<Rightarrow> ElectionEvent list" where
  "voteSteps c v t stepDown vt = Deliver v (exampleArgs False t c) #
     (if stepDown then [FinishStepDown v (Some 0)] else []) @ [Handle v 0 False, Handle v 0 True,
     Respond c v (exampleArgs False t c, grantedVote vt), Complete c True]"

definition twoTerms :: "ElectionEvent list" where
  "twoTerms = applyAll @ dryRunSteps 1 0 0 @ voteSteps 1 0 1 False 1 @
     [Restart 0 exampleOpTime, LearnTerm 2 1] @ dryRunSteps 2 0 1 @ voteSteps 2 0 2 False 2"

definition twoTermsSet :: ReplSet where
  "twoTermsSet = the (electionRun threeMembers twoTerms (ReplSet_init threeMembers))"

theorem one_primary_per_term_witness:
  "nd_role (rs_nodes twoTermsSet ! 1) = leader \<and> nd_role (rs_nodes twoTermsSet ! 2) = leader \<and>
   nd_term (rs_nodes twoTermsSet ! 1) \<noteq> nd_term (rs_nodes twoTermsSet ! 2)"
proof -
  have valid: "validate False threeMembers = None"
    by code_simp
  have run: "electionRun threeMembers twoTerms (ReplSet_init threeMembers) \<noteq> None"
    by code_simp
  have reached: "reachedTermRun threeMembers twoTerms (ReplSet_init threeMembers)"
    by code_simp
  have leaders: "nd_role (rs_nodes twoTermsSet ! 1) = leader" "nd_role (rs_nodes twoTermsSet ! 2) = leader"
    "length (rs_nodes twoTermsSet) = 3"
    by code_simp+
  have "electionRun threeMembers twoTerms (ReplSet_init threeMembers) = Some twoTermsSet"
    using run by (simp add: twoTermsSet_def)
  from one_primary_per_term [OF valid this reached, THEN conjunct2, rule_format, of 1 2] show ?thesis
    using leaders by auto
qed

text \<open>
  Members 0, 1 and 2.  Member 1 is the primary of term 1.  Member 2 runs in term 2; its request to member 1 is delayed and its
  election fails.  Member 0 runs in term 3: member 1 steps down, keeps term 1, and votes
  for member 0 in term 3, which makes 0 the primary of term 3.  Then the delayed request for term 2 reaches member 1, which
  grants it and forgets its vote of term 3.  Member 2 runs again, in term 3, and member 1 votes a second time in that term.
\<close>

definition twoPrimaries :: "ElectionEvent list" where
  "twoPrimaries = applyAll @
     dryRunSteps 1 0 0 @ voteSteps 1 0 1 False 1 @
     LearnTerm 2 1 # dryRunSteps 2 0 1 @ [RespondFailed 2 0, RespondFailed 2 1, Complete 2 True, LearnTerm 0 2] @
     dryRunSteps 0 2 2 @ voteSteps 0 1 3 True 1 @
     [Deliver 1 (exampleArgs False 2 2), Handle 1 0 False, Handle 1 0 True] @
     dryRunSteps 2 1 2 @ voteSteps 2 1 3 False 3"

text \<open>
  C12: without that condition a valid configuration of three members has a run, with one delayed request and no
  crash, that ends with two primaries of the same term.
\<close>

theorem two_primaries_in_one_term:
  "validate False threeMembers = None \<and>
   (\<exists>rs. electionRun threeMembers twoPrimaries (ReplSet_init threeMembers) = Some rs \<and>
     nd_role (rs_nodes rs ! 0) = leader \<and> nd_role (rs_nodes rs ! 2) = leader \<and>
     nd_term (rs_nodes rs ! 0) = 3 \<and> nd_term (rs_nodes rs ! 2) = 3)"
proof -
  have "validate False threeMembers = None"
    by code_simp
  moreover have "map_option (\<lambda>rs. map (\<lambda>n. (nd_term n, nd_role n)) (rs_nodes rs))
      (electionRun threeMembers twoPrimaries (ReplSet_init threeMembers)) = Some [(3, leader), (3, follower), (3, leader)]"
    by code_simp
  ultimately show ?thesis
    by (auto simp: map_eq_Cons_conv)
qed

text \<open>
  Validation treats a priority that is not a number like the priority 1, and a member with such a priority passes the checks for
  becoming a candidate, but then it aborts: the assertion that it is electable is false.
\<close>

theorem nan_priority_aborts:
  assumes "mc_priority (rc_members cfg ! i) = NaN" and "\<not> isArbiter (rc_members cfg ! i)"
    and "nd_role n = follower" and "ot_timestamp (nd_lastApplied n) \<noteq> 0"
  shows "validateMember (rc_members cfg ! i) = validateMember ((rc_members cfg ! i)\<lparr>mc_priority := Fin 1\<rparr>) \<and>
    becomeCandidateIfElectable cfg i True n = Some (n\<lparr>nd_role := candidate\<rparr>) \<and>
    startElectSelfV1 cfg i (n\<lparr>nd_role := candidate\<rparr>) = None"
  using assms
  by (simp add: becomeCandidateIfElectable_def startElectSelfV1_def isElectable_def validateMember_def isVoter_def
    Let_def invariant_def)

theorem nan_priority_aborts_witness:
  "validate False (exampleConfig [exampleMember 0, (exampleMember 1)\<lparr>mc_priority := NaN\<rparr>]) = None \<and>
   startElectSelfV1 (exampleConfig [exampleMember 0, (exampleMember 1)\<lparr>mc_priority := NaN\<rparr>]) 1
     (Node_init\<lparr>nd_lastApplied := exampleOpTime, nd_role := candidate\<rparr>) = None"
proof -
  let ?cfg = "exampleConfig [exampleMember 0, (exampleMember 1)\<lparr>mc_priority := NaN\<rparr>]"
  have "validate False ?cfg = None"
    by code_simp
  moreover have "startElectSelfV1 ?cfg 1 (Node_init\<lparr>nd_lastApplied := exampleOpTime, nd_role := candidate\<rparr>) = None"
    using nan_priority_aborts [of ?cfg 1 "Node_init\<lparr>nd_lastApplied := exampleOpTime\<rparr>"]
    by (simp add: exampleConfig_def exampleMember_def Node_init_def exampleOpTime_def)
  ultimately show ?thesis
    by blast
qed

end
