(* ===== verification/Spec2Isabelle.thy ===== *)
theory Spec2Isabelle
  imports Deadlock_Detector Query_Coalescer Coalescer_Parameters User_Documents Bson_Builder Bson_Validate_Exact XXHash64_Stream Write_Ops
    Global_Timestamp Election_Safety
begin

text \<open>
  A verification development for the MongoDB server of this repository (a fork of version 3.4 with
  a config query coalescer and a document integrity check).  Paths below are relative to
  \<^verbatim>\<open>src/src/mongo\<close>.

  \<^bold>\<open>The program and its parts.\<close>  A server process receives requests as BSON byte strings.  Before
  anything reads them they are validated (\<^verbatim>\<open>bson/bson_validate.cpp\<close>); afterwards the program walks over them
  with iterators and element accessors (\<^verbatim>\<open>bson/bsonobj.h\<close>, \<^verbatim>\<open>bson/bsonelement.cpp\<close>) and writes new ones with
  builders over a growing buffer (\<^verbatim>\<open>bson/bsonobjbuilder.h\<close>, \<^verbatim>\<open>bson/util/builder.h\<close>).  A session is checked for the
  privileges a command needs (\<^verbatim>\<open>db/auth\<close>); they come from the user's document and from the role graph, which is
  loaded from stored role documents and follows the oplog.  Operations then lock databases and
  collections through the lock manager (\<^verbatim>\<open>db/concurrency\<close>).  On a config server, equal queries for
  routing information are executed once for many callers (\<^verbatim>\<open>db/s/config\<close>).  Documents to insert are checked against a
  hash they may carry (\<^verbatim>\<open>db/catalog/document_integrity.cpp\<close>), are given an id and timestamps (\<^verbatim>\<open>db/ops/insert.cpp\<close>,
  \<^verbatim>\<open>db/global_timestamp.cpp\<close>), and are inserted in batches (\<^verbatim>\<open>db/ops/write_ops_exec.cpp\<close>).  The
  members of a replica set elect the primary that may do so (\<^verbatim>\<open>db/repl\<close>).

  \<^bold>\<open>Conventions.\<close>  An \<^verbatim>\<open>invariant(...)\<close>, \<^verbatim>\<open>fassert\<close>, thrown exception or read outside of a
  buffer is the value \<^const>\<open>None\<close> of an option (\<open>Prelude\<close>), a returned \<^verbatim>\<open>Status\<close> is a value of a datatype or of a sum.
  Objects that the code updates in place are records passed along.  Where several threads run
  interleaved, the steps of the model are the critical sections under one mutex of the source, and the theorems
  are about every finite sequence of steps from the initial state.  Machine integers are words where
  their width matters.  Theorems that an operation returns are stated as such (\<open>\<exists>r. f x = Some r\<close>).

  \<^bold>\<open>Lock manager\<close> (\<^verbatim>\<open>db/concurrency/lock_manager.cpp\<close>, \<^verbatim>\<open>lock_manager_defs.h\<close>, \<^verbatim>\<open>lock_request_list.h\<close>).
  \<^item> \<open>Lock_Modes\<close>: modes, the conflict table as 32 bit masks, resource ids as 64 bit words.
  \<^item> \<open>Lock_Request_List\<close>: the intrusive doubly linked list over a store of link fields.  The locale
    \<open>request_queue\<close> is the contract of a queue; the linked list is its interpretation, so the other theories
    may use lists of requests.
  \<^item> \<open>Lock_Head\<close>: \<^verbatim>\<open>LockHead\<close> with its counters, masks and both lists; \<open>newRequest\<close>, \<open>onLockModeChanged\<close>.
  \<^item> \<open>Lock_Manager\<close>: buckets, partitions and their migration, \<open>lock\<close> (two critical sections), \<open>convert\<close>,
    \<open>unlock\<close>, \<open>downgrade\<close>, \<open>cleanupUnusedLocks\<close>.
  \<^item> \<open>Lock_Invariant\<close>, \<open>Lock_Placement\<close>, \<open>Lock_Release\<close>, \<open>Lock_Conversion\<close>: the invariant of the manager and that every
    operation keeps it, together with its effect.
  \<^item> \<open>Lock_System\<close>: the step relation and \<open>reachable\<close>; mutual exclusion, absence of aborts, the exact effect of every operation,
    and that a queue never waits for nobody.
  \<^item> \<open>Deadlock_Detector\<close>: the search, which ends on every reachable state and finds exactly the cycles of the
    wait-for relation through the initial locker.

  \<^bold>\<open>Config query coalescer\<close> (\<^verbatim>\<open>db/s/config/config_query_coalescer.cpp\<close>).
  \<^item> \<open>Query_Coalescer\<close>: groups, waiters, generations and statistics; the critical sections of
    \<^verbatim>\<open>tryCoalesce\<close> as steps of any number of threads.  Followers get the result of the one leader of their
    generation; what happens when the leader's query throws; bounds of groups and statistics.
  \<^item> \<open>Coalescer_Parameters\<close>: the server parameters and their ranges.

  \<^bold>\<open>Authorization\<close> (\<^verbatim>\<open>db/auth\<close>).
  \<^item> \<open>Privileges\<close>, \<open>Builtin_Roles\<close>: action sets, privilege vectors and a user's privilege map (both
    interpretations of the locale \<open>privilege_store\<close>), and every table of built-in roles.
  \<^item> \<open>Authorization\<close>: the decision of a session with its search list, and the checks of the commands.
  \<^item> \<open>Role_Graph\<close>, \<open>Role_Recompute\<close>, \<open>Role_Order\<close>: the graph, its refinement of an abstract graph, the iterative
    depth first search that recomputes inherited privileges, and the ordered listing of a database's roles.
  \<^item> \<open>Privilege_Parser\<close>, \<open>Role_Documents\<close>, \<open>User_Documents\<close>: parsing and printing of the stored documents, and oplog entries.
  \<^item> \<open>Authz_State\<close>: the role graph of the server after any history of documents and oplog entries.

  \<^bold>\<open>BSON\<close> (\<^verbatim>\<open>bson\<close>).
  \<^item> \<open>Bson_Format\<close>: documents as a datatype and the bytes they are stored as; this is the abstract
    specification of the next three.
  \<^item> \<open>Bson_Element\<close>: sizes, iterator and accessors; reading back what was encoded.
  \<^item> \<open>Bson_Builder\<close>: the growing buffer and the appends, which write exactly the encoding.
  \<^item> \<open>Bson_Validate\<close>, \<open>Bson_Validate_Exact\<close>: the validator, which accepts exactly the encodings, so that
    reading a validated buffer never leaves it.

  \<^bold>\<open>Inserts\<close> (\<^verbatim>\<open>db/ops\<close>, \<^verbatim>\<open>db/catalog/document_integrity.cpp\<close>, \<^verbatim>\<open>db/global_timestamp.cpp\<close>, \<^verbatim>\<open>third_party/xxhash\<close>).
  \<^item> \<open>XXHash64\<close>, \<open>XXHash64_Stream\<close>: the hash on 64 bit words, and its streaming variant with the same result.
  \<^item> \<open>Document_Integrity\<close>: the hash field of a document; which documents pass, and which corruptions are always found.
  \<^item> \<open>Namespace_Names\<close>, \<open>Insert_Document\<close>: valid names, writable namespaces and the document that is stored.
  \<^item> \<open>Write_Ops\<close>: batches, retries after write conflicts and the fallback to single documents, over an arbitrary storage that
    commits, rolls back and gives up conflicting writes after some time; batches make no difference to the outcome.
  \<^item> \<open>Global_Timestamp\<close>: the counter and the atomic steps of interleaved calls, which get disjoint and ordered ranges.

  \<^bold>\<open>Replica sets\<close> (\<^verbatim>\<open>db/repl\<close>).
  \<^item> \<open>Replica_Set_Config\<close>: validation of a configuration and what it guarantees about majorities.
  \<^item> \<open>Elections\<close>: terms, votes and their storage (\<^verbatim>\<open>topology_coordinator_impl.cpp\<close>, \<^verbatim>\<open>replication_coordinator_impl.cpp\<close>), the steps
    of a candidate (\<^verbatim>\<open>replication_coordinator_impl_elect_v1.cpp\<close>) and the counting of votes (\<^verbatim>\<open>vote_requester.cpp\<close>,
    \<^verbatim>\<open>scatter_gather_runner.cpp\<close>), with a network that may do anything but invent messages.
  \<^item> \<open>Election_Votes\<close>, \<open>Election_Safety\<close>: a term has at most one primary if members vote only in terms they have reached.  The code
    does not ensure that condition after a step down, and a run shows two primaries of one term.

  \<^bold>\<open>Bounds, loops and fuel.\<close>  No model uses fuel.  Loops are structural recursions, or functions with a measure, or, for
  the deadlock search, the recomputation of the role graph, the reading of a document and the retry of a write conflict,
  \<open>partial_function (option)\<close> with a theorem that the result is \<^const>\<open>Some\<close>.  Counters of the lock manager, of the
  statistics and lengths of containers are natural numbers; buffer sizes, document sizes, versions, masks and hashes keep their width.

  \<^bold>\<open>Not modelled.\<close>  The storage engines, query planning and execution, aggregation, indexes, full-text
  and geo search, replication apart from elections, sharding apart from the coalescer, networking, commands apart from their
  authorization, JavaScript, the shell, the tools and the third-party libraries: they are large subsystems of their
  own, or input and output.  Of the modelled components, conversions to text, logging and statistics output are left out; so are
  logging users in, the version 1 format of user documents, credentials, comparison of BSON elements, updates and deletes,
  reconfiguration of a replica set, and the elections of protocol version 0.
  Code that the models call without being part of them (the update driver of the oplog handlers, the waiting resource of a
  locker, the callback of a coalesced query, the storage behind inserts, new object ids, the clock) is an argument.
\<close>

end
